(* ===== verification/Rad_Prelude.thy ===== *)
theory Rad_Prelude
  imports Complex_Main "HOL-Library.Word"
begin

unbundle bit_operations_syntax

text \<open>
  Shared vocabulary of the development: the C types of the RADclock sources, the
  macros every component uses, the named collections of rewrite rules, and generic
  facts on machine words and lists.

  \<^item> Unsigned C integers are words of their width. The sources are read for an LP64
    target, so \<^verbatim>\<open>unsigned long\<close> (\<^verbatim>\<open>index_t\<close>) and \<^verbatim>\<open>uint64_t\<close> (\<^verbatim>\<open>vcounter_t\<close>) have 64 bits.
    Arithmetic on them wraps, as it does in C.
  \<^item> Signed C integers that are only counted up or compared are \<open>int\<close>.
  \<^item> \<^verbatim>\<open>float\<close>, \<^verbatim>\<open>double\<close> and \<^verbatim>\<open>long double\<close> are real numbers. Where a property depends on it,
    the rounding of each operation is written out with the functions of \<open>C_Float\<close>; elsewhere
    arithmetic is exact. Infinities and NaN exist where the sources can read them (the
    configuration file). Casts from floating point to integers are written out.
\<close>

named_theorems rad_wf \<open>well-formedness predicates of the components\<close>
named_theorems rad_word \<open>reading word arithmetic as arithmetic on naturals\<close>

type_synonym uint8 = "8 word"
type_synonym uint16 = "16 word"
type_synonym uint32 = "32 word"
type_synonym uint64 = "64 word"
type_synonym vcounter_t = "64 word"
type_synonym index_t = "64 word"

section \<open>Macros of misc.h\<close>

text \<open>\<^verbatim>\<open>MIN(a,b)\<close> and \<^verbatim>\<open>MAX(a,b)\<close> as the macros expand: the second argument wins a tie.\<close>

definition c_MIN :: "'a::linorder \<Rightarrow> 'a \<Rightarrow> 'a" where
  "c_MIN a b = (if a < b then a else b)"

definition c_MAX :: "'a::linorder \<Rightarrow> 'a \<Rightarrow> 'a" where
  "c_MAX a b = (if a > b then a else b)"

lemma c_MIN_min [simp]: "c_MIN a b = min a b"
  by (auto simp: c_MIN_def min_def)

lemma c_MAX_max [simp]: "c_MAX a b = max a b"
  by (auto simp: c_MAX_def max_def)

text \<open>
  The value of a counter or index as a floating point number, and the conversion of a
  non-negative floating point number to a 64 bit unsigned integer (truncation). Out of
  range the C conversion is undefined; the callers in the model only use it in range or
  say what they assume.
\<close>

abbreviation vc_real :: "'a::len word \<Rightarrow> real" where
  "vc_real w \<equiv> real (unat w)"

text \<open>Keep \<open>vc_real\<close> as it is, instead of as a cast into the reals.\<close>

declare of_nat_unat [simp del]

definition real_to_u64 :: "real \<Rightarrow> uint64" where
  "real_to_u64 x = word_of_int \<lfloor>x\<rfloor>"

section \<open>Words\<close>

lemma unat_plus_one_less [rad_word]:
  fixes i j :: "'a::len word"
  assumes "j < i"
  shows "unat (j + 1) = Suc (unat j)"
proof -
  have "unat j < unat i" using assms by (simp add: word_less_nat_alt)
  then have "unat j + 1 < 2 ^ LENGTH('a)"
    using unsigned_less [of i] by (metis Suc_eq_plus1 Suc_leI le_less_trans)
  then show ?thesis by (simp add: unat_word_ariths)
qed

lemma word_plus_one_le:
  fixes i j :: "'a::len word"
  shows "j < i \<Longrightarrow> j + 1 \<le> i"
  by (simp add: word_le_nat_alt word_less_nat_alt unat_plus_one_less)

lemma unat_sub_le [rad_word]:
  fixes a b :: "'a::len word"
  shows "b \<le> a \<Longrightarrow> unat (a - b) = unat a - unat b"
  by (rule unat_sub)

lemma word_minus_one_less [rad_word]:
  fixes j :: "'a::len word"
  assumes "j \<noteq> 0"
  shows "j - 1 < j"
  using measure_unat [OF assms] by (simp add: word_less_nat_alt)

lemma word_less_plus_one [rad_word]:
  fixes j :: "'a::len word"
  assumes "j + 1 \<noteq> 0"
  shows "j < j + 1"
  using unatSuc [of j] assms by (simp add: word_less_nat_alt add.commute)

lemma unat_ucast_32_64 [simp]: "unat (ucast (w :: 32 word) :: 64 word) = unat w"
proof -
  have "uint (ucast w :: 64 word) = uint w" by (rule uint_up_ucast) (simp add: is_up)
  then show ?thesis by (simp flip: nat_uint_eq)
qed

lemma unat_less_64: "unat (w :: 64 word) < 2 ^ 64"
  by (rule order_less_le_trans [OF unsigned_less]) simp

lemma unat_add_of_nat [rad_word]:
  fixes a :: "'a::len word"
  assumes "unat a + k < 2 ^ LENGTH('a)"
  shows "unat (a + of_nat k) = unat a + k"
  using assms by (simp add: unat_word_ariths unat_of_nat)

text \<open>
  Reducing a wrapped sum modulo a divisor of the word size is the same as reducing the
  mathematical sum: this is what makes ring buffers whose capacity is a power of two
  immune to the wrap-around of their counters.
\<close>

lemma unat_add_of_nat_mod_dvd:
  fixes a :: "'a::len word"
  assumes "c dvd 2 ^ LENGTH('a)"
  shows "unat (a + of_nat k) mod c = (unat a + k) mod c"
proof -
  have "unat (a + of_nat k) = (unat a + k) mod 2 ^ LENGTH('a)"
    by (simp add: unat_word_ariths unat_of_nat mod_simps)
  then show ?thesis using assms by (simp add: mod_mod_cancel)
qed

lemma real_to_u64_of_nat [simp]: "real_to_u64 (real n) = of_nat n"
  by (simp add: real_to_u64_def)

section \<open>Residues of consecutive indices\<close>

text \<open>Two indices less than \<open>c\<close> apart share a slot of a ring of size \<open>c\<close> only if equal.\<close>

lemma mod_eq_close:
  fixes a b c :: nat
  assumes "a mod c = b mod c" "a \<le> b" "b < a + c"
  shows "a = b"
proof -
  have "(b - a) mod c = 0" using assms(1,2) by (metis mod_eq_dvd_iff_nat dvd_imp_mod_0)
  moreover have "b - a < c" using assms(2,3) by linarith
  ultimately show ?thesis using assms(2) by simp
qed

lemma mod_eq_window:
  fixes a b c lo :: nat
  assumes "a mod c = b mod c" "lo \<le> a" "lo \<le> b" "a < lo + c" "b < lo + c"
  shows "a = b"
  using assms mod_eq_close [of a c b] mod_eq_close [of b c a] by (cases "a \<le> b") auto

section \<open>Lists\<close>

lemma drop_snoc_full:
  assumes "length xs \<ge> n" "0 < n"
  shows "drop (length (xs @ [x]) - n) (xs @ [x]) = tl (drop (length xs - n) xs) @ [x]"
  using assms by (simp add: Suc_diff_le drop_Suc tl_drop)

end
