(* ===== verification/Alarm_FIFO.thy ===== *)
theory Alarm_FIFO
  imports Rad_Prelude "HOL-Library.Sublist"
begin

text \<open>
  The alarm buffer of \<^verbatim>\<open>radclock/FIFO.c\<close>: a ring of server identifiers filled by the
  SIGALRM handler and emptied by the trigger thread. The two position counters are
  64 bit words that are never reduced; only their residues modulo the capacity address
  the ring. The interface \<open>drophead_queue\<close> states the contract the alarm handling relies
  on, the interpretation discharges it for the C code, counter wrap-around included.
\<close>

section \<open>The interface: a bounded queue that drops its oldest element\<close>

locale drophead_queue =
  fixes put :: "'q \<Rightarrow> 'a \<Rightarrow> int \<times> 'q"
    and get :: "'q \<Rightarrow> int \<times> 'a option \<times> 'q"
    and contents :: "'q \<Rightarrow> 'a list"
    and cap :: "'q \<Rightarrow> nat"
    and invar :: "'q \<Rightarrow> bool"
  assumes cap_pos: "invar q \<Longrightarrow> 0 < cap q"
    and bounded: "invar q \<Longrightarrow> length (contents q) \<le> cap q"
    and put_invar: "invar q \<Longrightarrow> invar (snd (put q x))"
    and put_cap: "invar q \<Longrightarrow> cap (snd (put q x)) = cap q"
    and put_contents: "invar q \<Longrightarrow> contents (snd (put q x)) =
      (if length (contents q) < cap q then contents q else tl (contents q)) @ [x]"
    and put_ret: "invar q \<Longrightarrow> fst (put q x) = (if length (contents q) < cap q then 0 else -1)"
    and get_invar: "invar q \<Longrightarrow> invar (snd (snd (get q)))"
    and get_cap: "invar q \<Longrightarrow> cap (snd (snd (get q))) = cap q"
    and get_empty: "invar q \<Longrightarrow> contents q = [] \<Longrightarrow> get q = (-1, None, q)"
    and get_cons: "invar q \<Longrightarrow> contents q = x # xs \<Longrightarrow>
      fst (get q) = 0 \<and> fst (snd (get q)) = Some x \<and> contents (snd (snd (get q))) = xs"
begin

text \<open>A burst of insertions, as the signal handler makes while the trigger thread is busy.\<close>

definition puts :: "'a list \<Rightarrow> 'q \<Rightarrow> 'q" where
  "puts xs q = fold (\<lambda>x q. snd (put q x)) xs q"

lemma puts_simps [simp]: "puts [] q = q" "puts (x # xs) q = puts xs (snd (put q x))"
  by (simp_all add: puts_def)

lemma puts_invar: "invar q \<Longrightarrow> invar (puts xs q) \<and> cap (puts xs q) = cap q"
  by (induction xs arbitrary: q) (auto simp: put_invar put_cap)

text \<open>One insertion keeps the newest \<open>cap q\<close> of the elements seen.\<close>

lemma put_newest:
  assumes "invar q"
  shows "contents (snd (put q x)) =
    drop (length (contents q @ [x]) - cap q) (contents q @ [x])"
proof (cases "length (contents q) < cap q")
  case True
  then show ?thesis using assms by (simp add: put_contents)
next
  case False
  with bounded [OF assms] have "length (contents q) = cap q" by simp
  moreover have "contents q \<noteq> []" using False cap_pos [OF assms] by auto
  ultimately show ?thesis
    using assms False by (cases "contents q") (auto simp: put_contents)
qed

lemma drop_drop_append:
  "drop (length (drop (length us - n) us @ vs) - n) (drop (length us - n) us @ vs)
    = drop (length (us @ vs) - n) (us @ vs)"
proof (cases "n \<le> length us")
  case True
  then have "drop (length us - n) us @ vs = drop (length us - n) (us @ vs)" by simp
  then show ?thesis using True by (simp add: add.commute)
next
  case False
  then show ?thesis by simp
qed

lemma puts_newest:
  assumes "invar q"
  shows "contents (puts xs q) = drop (length (contents q @ xs) - cap q) (contents q @ xs)"
  using assms
proof (induction xs arbitrary: q)
  case Nil
  then show ?case using bounded by simp
next
  case (Cons x xs)
  let ?q = "snd (put q x)"
  have "contents (puts (x # xs) q) = drop (length (contents ?q @ xs) - cap q) (contents ?q @ xs)"
    using Cons by (simp add: put_invar put_cap)
  then show ?case
    using put_newest [OF Cons.prems, of x] drop_drop_append [of "contents q @ [x]" "cap q" xs]
    by simp
qed

text \<open>Draining the queue, as the trigger thread does, returns the elements in order.\<close>

fun drain :: "nat \<Rightarrow> 'q \<Rightarrow> 'a list" where
  "drain 0 q = []"
| "drain (Suc n) q = (case fst (snd (get q)) of
     None \<Rightarrow> [] | Some x \<Rightarrow> x # drain n (snd (snd (get q))))"

lemma drain_contents:
  "invar q \<Longrightarrow> length (contents q) \<le> n \<Longrightarrow> drain n q = contents q"
proof (induction n arbitrary: q)
  case 0
  then show ?case by simp
next
  case (Suc n)
  show ?case
  proof (cases "contents q")
    case Nil
    then show ?thesis using get_empty [OF Suc.prems(1)] by simp
  next
    case (Cons x xs)
    let ?q = "snd (snd (get q))"
    have "fst (snd (get q)) = Some x" "contents ?q = xs"
      using get_cons [OF Suc.prems(1) Cons] by auto
    moreover have "drain n ?q = contents ?q"
      using Suc Cons calculation(2) by (intro Suc.IH) (auto simp: get_invar)
    ultimately show ?thesis using Cons by simp
  qed
qed

lemma burst_delivery:
  assumes "invar q" "contents q = []"
  shows "drain (cap q) (puts xs q) = drop (length xs - cap q) xs"
proof -
  have "invar (puts xs q)" "cap (puts xs q) = cap q" using puts_invar [OF assms(1)] by auto
  then have "drain (cap q) (puts xs q) = contents (puts xs q)"
    by (intro drain_contents) (use bounded [of "puts xs q"] in auto)
  then show ?thesis using puts_newest [OF assms(1), of xs] assms(2) by simp
qed

end

section \<open>The code of FIFO.c\<close>

record FIFO =
  getID :: uint64
  putID :: uint64
  fbuffer :: "int list"
  capacity :: int

text \<open>
  \<open>FIFO_init\<close> receives the outcome of its two allocations: whether \<^verbatim>\<open>malloc\<close> returned a
  structure, and the (uninitialised) memory of the element buffer, if any. \<open>None\<close> is the
  return value -1.
\<close>

definition FIFO_init :: "bool \<Rightarrow> int list option \<Rightarrow> int \<Rightarrow> FIFO option" where
  "FIFO_init got_fifo mem buff_size =
     (if \<not> got_fifo then None
      else case mem of
        None \<Rightarrow> None
      | Some buf \<Rightarrow> Some \<lparr>getID = 0, putID = 0, fbuffer = buf, capacity = buff_size\<rparr>)"

definition fifo_slot :: "FIFO \<Rightarrow> uint64 \<Rightarrow> nat" where
  "fifo_slot f pos = unat (pos mod word_of_int (capacity f))"

definition FIFO_get :: "FIFO \<Rightarrow> int \<times> int option \<times> FIFO" where
  "FIFO_get f =
     (if putID f = getID f then (-1, None, f)
      else (0, Some (fbuffer f ! fifo_slot f (getID f)), f\<lparr>getID := getID f + 1\<rparr>))"

definition FIFO_put :: "FIFO \<Rightarrow> int \<Rightarrow> int \<times> FIFO" where
  "FIFO_put f data =
     (let full = putID f - getID f \<ge> word_of_int (capacity f);
          f1 = (if full then f\<lparr>getID := getID f + 1\<rparr> else f);
          ret = (if full then -1 else 0);
          f2 = f1\<lparr>fbuffer := (fbuffer f1)[fifo_slot f1 (putID f1) := data]\<rparr>
      in (ret, f2\<lparr>putID := putID f2 + 1\<rparr>))"

section \<open>Invariant and abstraction\<close>

text \<open>
  The capacity divides \<open>2 ^ 64\<close>, as the daemon's 64 does: otherwise the residues of the
  position counters would jump when they wrap.
\<close>

definition fifo_cap :: "FIFO \<Rightarrow> nat" where
  "fifo_cap f = nat (capacity f)"

definition fifo_len :: "FIFO \<Rightarrow> nat" where
  "fifo_len f = unat (putID f - getID f)"

definition fifo_ok :: "FIFO \<Rightarrow> bool" where
  "fifo_ok f \<longleftrightarrow> 0 < capacity f \<and> capacity f < 2 ^ 31 \<and> fifo_cap f dvd 2 ^ 64
     \<and> length (fbuffer f) = fifo_cap f \<and> fifo_len f \<le> fifo_cap f"

definition fifo_contents :: "FIFO \<Rightarrow> int list" where
  "fifo_contents f =
     map (\<lambda>k. fbuffer f ! ((unat (getID f) + k) mod fifo_cap f)) [0..<fifo_len f]"

lemma length_fifo_contents [simp]: "length (fifo_contents f) = fifo_len f"
  by (simp add: fifo_contents_def)

lemma fifo_len_0 [simp]: "fifo_len f = 0 \<longleftrightarrow> putID f = getID f"
  by (metis fifo_len_def right_minus_eq unat_eq_zero)

lemma fifo_contents_Nil: "fifo_contents f = [] \<longleftrightarrow> putID f = getID f"
  by (metis fifo_len_0 length_0_conv length_fifo_contents)

lemma unat_capacity: "fifo_ok f \<Longrightarrow> unat (word_of_int (capacity f) :: uint64) = fifo_cap f"
  by (simp add: fifo_ok_def fifo_cap_def unsigned_of_int take_bit_int_eq_self)

lemma fifo_slot_mod: "fifo_ok f \<Longrightarrow> fifo_slot f p = unat p mod fifo_cap f"
  by (simp add: fifo_slot_def unat_mod unat_capacity)

lemma putID_eq: "putID f = getID f + of_nat (fifo_len f)"
  by (simp add: fifo_len_def of_nat_unat)

lemma fifo_slot_putID:
  "fifo_ok f \<Longrightarrow> fifo_slot f (putID f) = (unat (getID f) + fifo_len f) mod fifo_cap f"
  using unat_add_of_nat_mod_dvd [of "fifo_cap f" "getID f" "fifo_len f"] putID_eq [of f]
  by (simp add: fifo_slot_mod fifo_ok_def)

lemma fifo_full_iff:
  assumes "fifo_ok f"
  shows "putID f - getID f \<ge> word_of_int (capacity f) \<longleftrightarrow> fifo_len f = fifo_cap f"
  using assms unat_capacity [OF assms]
  by (auto simp: word_le_nat_alt fifo_len_def fifo_ok_def)

lemma slot_inj:
  assumes "j < k" "k < c"
  shows "(a + j) mod c \<noteq> (a + k) mod (c::nat)"
  using mod_eq_close [of "a + j" c "a + k"] assms by auto

lemma fifo_len_step:
  assumes "fifo_ok f" "putID f \<noteq> getID f"
  shows "fifo_len (f\<lparr>getID := getID f + 1\<rparr>) = fifo_len f - 1" "0 < fifo_len f"
proof -
  have ne: "putID f - getID f \<noteq> 0" using assms(2) by simp
  then show "0 < fifo_len f" by (simp add: fifo_len_def unat_gt_0)
  show "fifo_len (f\<lparr>getID := getID f + 1\<rparr>) = fifo_len f - 1"
    using unat_minus_one [OF ne] by (simp add: fifo_len_def diff_diff_eq)
qed

section \<open>The operations refine the interface\<close>

lemma FIFO_get_step:
  assumes "fifo_ok f" "putID f \<noteq> getID f"
  defines "f' \<equiv> f\<lparr>getID := getID f + 1\<rparr>"
  shows "fifo_ok f'" "fifo_contents f = fbuffer f ! fifo_slot f (getID f) # fifo_contents f'"
proof -
  have len: "fifo_len f' = fifo_len f - 1" "0 < fifo_len f"
    using fifo_len_step [OF assms(1,2)] by (simp_all add: f'_def)
  show "fifo_ok f'"
    using assms(1) len by (auto simp: fifo_ok_def f'_def fifo_cap_def)
  obtain n where n: "fifo_len f = Suc n" using len(2) by (cases "fifo_len f") auto
  have shift: "(unat (getID f + 1) + k) mod fifo_cap f = (unat (getID f) + Suc k) mod fifo_cap f" for k
    using unat_add_of_nat_mod_dvd [of "fifo_cap f" "getID f" 1] assms(1)
    by (simp add: fifo_ok_def mod_simps) (metis (no_types, lifting) add_Suc mod_add_left_eq)
  have "fifo_contents f' = map (\<lambda>k. fbuffer f ! ((unat (getID f) + Suc k) mod fifo_cap f)) [0..<n]"
    using len n by (simp add: fifo_contents_def f'_def fifo_cap_def shift [unfolded fifo_cap_def])
  moreover have "fifo_contents f = fbuffer f ! (unat (getID f) mod fifo_cap f)
      # map (\<lambda>k. fbuffer f ! ((unat (getID f) + Suc k) mod fifo_cap f)) [0..<n]"
    unfolding fifo_contents_def n upt_conv_Cons [OF zero_less_Suc] map_Suc_upt [symmetric]
    by (simp add: o_def)
  ultimately show "fifo_contents f = fbuffer f ! fifo_slot f (getID f) # fifo_contents f'"
    using fifo_slot_mod [OF assms(1)] by simp
qed

text \<open>Writing at the put position of a ring that is not full appends.\<close>

lemma FIFO_write_step:
  fixes x :: int
  assumes "fifo_ok f" "fifo_len f < fifo_cap f"
  defines "f' \<equiv> f\<lparr>fbuffer := (fbuffer f)[fifo_slot f (putID f) := x], putID := putID f + 1\<rparr>"
  shows "fifo_ok f'" "fifo_contents f' = fifo_contents f @ [x]"
proof -
  have cap: "fifo_cap f' = fifo_cap f" and get: "getID f' = getID f" by (simp_all add: f'_def fifo_cap_def)
  have "unat (putID f - getID f) < unat (word_of_int (capacity f) :: uint64)"
    using assms(2) unat_capacity [OF assms(1)] by (simp add: fifo_len_def)
  then have lt: "putID f - getID f < word_of_int (capacity f)" by (simp add: word_less_nat_alt)
  have len: "fifo_len f' = Suc (fifo_len f)"
    using unat_plus_one_less [OF lt] by (simp add: fifo_len_def f'_def diff_add_eq)
  show "fifo_ok f'"
    using assms(1,2) len cap by (simp add: fifo_ok_def f'_def)
  let ?s = "(unat (getID f) + fifo_len f) mod fifo_cap f"
  have s: "fifo_slot f (putID f) = ?s" "?s < length (fbuffer f)"
    using fifo_slot_putID [OF assms(1)] assms(1) by (auto simp: fifo_ok_def fifo_cap_def)
  have "(fbuffer f)[?s := x] ! ((unat (getID f) + k) mod fifo_cap f)
      = fbuffer f ! ((unat (getID f) + k) mod fifo_cap f)" if "k < fifo_len f" for k
    using slot_inj [OF that assms(2), of "unat (getID f)"] by simp
  then show "fifo_contents f' = fifo_contents f @ [x]"
    using s by (simp add: fifo_contents_def len cap get) (simp add: f'_def)
qed

lemma FIFO_put_cases:
  assumes "fifo_ok f"
  shows "fifo_ok (snd (FIFO_put f x))"
    and "fifo_contents (snd (FIFO_put f x)) =
      (if fifo_len f < fifo_cap f then fifo_contents f else tl (fifo_contents f)) @ [x]"
    and "fst (FIFO_put f x) = (if fifo_len f < fifo_cap f then 0 else -1)"
    and "fifo_cap (snd (FIFO_put f x)) = fifo_cap f"
proof -
  let ?g = "if fifo_len f < fifo_cap f then f else f\<lparr>getID := getID f + 1\<rparr>"
  have le: "fifo_len f \<le> fifo_cap f" "0 < fifo_cap f" using assms by (auto simp: fifo_ok_def fifo_cap_def)
  have put: "snd (FIFO_put f x) =
      ?g\<lparr>fbuffer := (fbuffer ?g)[fifo_slot ?g (putID ?g) := x], putID := putID ?g + 1\<rparr>"
    using fifo_full_iff [OF assms] le by (auto simp: FIFO_put_def Let_def)
  have ok: "fifo_ok ?g" "fifo_len ?g < fifo_cap ?g"
    and con: "fifo_contents ?g = (if fifo_len f < fifo_cap f then fifo_contents f else tl (fifo_contents f))"
  proof -
    have ne: "putID f \<noteq> getID f" if "\<not> fifo_len f < fifo_cap f"
      using that le by (auto simp: fifo_len_def)
    show "fifo_ok ?g" using assms FIFO_get_step(1) [OF assms] ne by simp
    show "fifo_len ?g < fifo_cap ?g"
      using fifo_len_step [OF assms] ne le by (auto simp: fifo_cap_def)
    show "fifo_contents ?g = (if fifo_len f < fifo_cap f then fifo_contents f else tl (fifo_contents f))"
      using FIFO_get_step(2) [OF assms] ne by simp
  qed
  show "fifo_ok (snd (FIFO_put f x))" unfolding put by (rule FIFO_write_step(1) [OF ok])
  show "fifo_contents (snd (FIFO_put f x)) =
      (if fifo_len f < fifo_cap f then fifo_contents f else tl (fifo_contents f)) @ [x]"
    unfolding put FIFO_write_step(2) [OF ok] con by (rule refl)
  show "fst (FIFO_put f x) = (if fifo_len f < fifo_cap f then 0 else -1)"
    using fifo_full_iff [OF assms] le by (simp add: FIFO_put_def Let_def)
  show "fifo_cap (snd (FIFO_put f x)) = fifo_cap f"
    unfolding put by (simp add: fifo_cap_def)
qed

lemma FIFO_get_empty: "fifo_contents f = [] \<Longrightarrow> FIFO_get f = (-1, None, f)"
  by (simp add: FIFO_get_def fifo_contents_Nil)

lemma FIFO_get_Cons:
  assumes "fifo_ok f" "fifo_contents f = x # xs"
  shows "FIFO_get f = (0, Some x, f\<lparr>getID := getID f + 1\<rparr>)"
    and "fifo_contents (f\<lparr>getID := getID f + 1\<rparr>) = xs"
proof -
  have ne: "putID f \<noteq> getID f" using assms(2) fifo_contents_Nil [of f] by simp
  show "fifo_contents (f\<lparr>getID := getID f + 1\<rparr>) = xs"
    using FIFO_get_step(2) [OF assms(1) ne] assms(2) by simp
  show "FIFO_get f = (0, Some x, f\<lparr>getID := getID f + 1\<rparr>)"
    using FIFO_get_step(2) [OF assms(1) ne] assms(2) ne by (simp add: FIFO_get_def)
qed

interpretation alarms: drophead_queue FIFO_put FIFO_get fifo_contents fifo_cap fifo_ok
proof
  fix q x xs assume "fifo_ok q" "fifo_contents q = x # xs"
  then show "fst (FIFO_get q) = 0 \<and> fst (snd (FIFO_get q)) = Some x \<and>
      fifo_contents (snd (snd (FIFO_get q))) = xs"
    using FIFO_get_Cons by simp
next
  fix q assume "fifo_ok q"
  then show "fifo_ok (snd (snd (FIFO_get q)))"
    using FIFO_get_step(1) by (simp add: FIFO_get_def)
next
  fix q assume "fifo_ok q"
  then show "0 < fifo_cap q" "length (fifo_contents q) \<le> fifo_cap q"
    by (simp_all add: fifo_ok_def fifo_cap_def)
qed (simp_all add: FIFO_put_cases FIFO_get_empty, simp add: FIFO_get_def fifo_cap_def)

section \<open>The alarm handler and the trigger thread\<close>

text \<open>
  \<^verbatim>\<open>catch_alarm\<close> runs on SIGALRM with the server identifier stored in the timer; the buffer
  pointer is null once the trigger thread has gone. The trigger thread takes one
  identifier per grid point in \<^verbatim>\<open>ntp_client\<close>: it waits on the condition variable as long
  as \<^verbatim>\<open>FIFO_get\<close> fails. Both sides hold \<^verbatim>\<open>alarm_mutex\<close>, so an execution is a sequence of
  whole operations in some order: \<open>alarm_run f rs ss g\<close> says that from buffer \<open>f\<close> the
  alarms \<open>rs\<close> were raised, the identifiers \<open>ss\<close> were served, and \<open>g\<close> is the buffer now.
\<close>

definition catch_alarm :: "FIFO option \<Rightarrow> int \<Rightarrow> FIFO option" where
  "catch_alarm alarm_buffer sival = map_option (\<lambda>f. snd (FIFO_put f sival)) alarm_buffer"

definition fetch_alarm :: "FIFO \<Rightarrow> (int \<times> FIFO) option" where
  "fetch_alarm f = (case FIFO_get f of (ret, d, f') \<Rightarrow>
     if ret \<noteq> 0 then None else map_option (\<lambda>sID. (sID, f')) d)"

inductive alarm_run :: "FIFO \<Rightarrow> int list \<Rightarrow> int list \<Rightarrow> FIFO \<Rightarrow> bool" for f where
  idle: "alarm_run f [] [] f"
| alarm: "alarm_run f rs ss g \<Longrightarrow> catch_alarm (Some g) s = Some g' \<Longrightarrow> alarm_run f (rs @ [s]) ss g'"
| serve: "alarm_run f rs ss g \<Longrightarrow> fetch_alarm g = Some (s, g') \<Longrightarrow> alarm_run f rs (ss @ [s]) g'"

lemma catch_alarm_put: "catch_alarm (Some g) s = Some g' \<longleftrightarrow> g' = snd (FIFO_put g s)"
  by (auto simp: catch_alarm_def)

lemma fetch_alarm_iff:
  assumes "fifo_ok g"
  shows "fetch_alarm g = Some (s, g') \<longleftrightarrow>
    fifo_contents g = s # tl (fifo_contents g) \<and> g' = g\<lparr>getID := getID g + 1\<rparr>"
proof (cases "fifo_contents g")
  case Nil
  then have "FIFO_get g = (-1, None, g)" by (rule FIFO_get_empty)
  then show ?thesis using Nil by (simp add: fetch_alarm_def)
next
  case (Cons x xs)
  then show ?thesis using FIFO_get_Cons(1) [OF assms Cons] by (auto simp: fetch_alarm_def)
qed

lemma alarm_run_ok:
  "alarm_run f rs ss g \<Longrightarrow> fifo_ok f \<Longrightarrow> fifo_ok g \<and> fifo_cap g = fifo_cap f"
proof (induction rule: alarm_run.induct)
  case (serve rs ss g s g')
  then have "fifo_contents g = s # tl (fifo_contents g)" "g' = g\<lparr>getID := getID g + 1\<rparr>"
    using fetch_alarm_iff by blast+
  then show ?case
    using serve alarms.get_invar [of g] alarms.get_cap [of g] FIFO_get_Cons(1) [of g s] by simp
qed (auto simp: catch_alarm_put FIFO_put_cases)

text \<open>
  C24: From an empty, well-formed alarm buffer, in every interleaving of SIGALRM handlers
  and trigger-thread fetches, the server identifiers served so far followed by those
  still buffered are a subsequence of the alarms raised (none is invented, duplicated or
  reordered), the buffered ones are the most recent alarms, at most the capacity of
  them, and the ring stays well-formed: this includes the wrap-around of its 64 bit
  position counters.
\<close>

theorem alarm_run_in_order:
  assumes "alarm_run f rs ss g" "fifo_ok f" "fifo_contents f = []"
  shows "subseq (ss @ fifo_contents g) rs \<and> suffix (fifo_contents g) rs
    \<and> length (fifo_contents g) \<le> fifo_cap f \<and> fifo_ok g"
  using assms
proof (induction rule: alarm_run.induct)
  case idle
  then show ?case by (simp add: fifo_ok_def)
next
  case (alarm rs ss g s g')
  let ?kept = "if fifo_len g < fifo_cap g then fifo_contents g else tl (fifo_contents g)"
  have g: "fifo_ok g" "fifo_cap g = fifo_cap f" using alarm_run_ok alarm by blast+
  have g': "g' = snd (FIFO_put g s)" using alarm.hyps(2) by (simp add: catch_alarm_put)
  have con: "fifo_contents g' = ?kept @ [s]" using FIFO_put_cases(2) [OF g(1)] g' by simp
  have IH: "subseq (ss @ fifo_contents g) rs" "suffix (fifo_contents g) rs"
    using alarm.IH alarm.prems by auto
  have kept: "suffix ?kept (fifo_contents g)" by (auto intro: suffix_tl)
  then have "subseq (ss @ ?kept) (ss @ fifo_contents g)"
    by (intro list_emb_append_mono suffix_imp_subseq) auto
  then have "suffix ?kept rs" "subseq (ss @ ?kept) rs"
    using IH kept suffix_order.trans subseq_order.trans by blast+
  then have "suffix (?kept @ [s]) (rs @ [s])" "subseq (ss @ ?kept @ [s]) (rs @ [s])"
    using list_emb_append_mono [of "(=)" "ss @ ?kept" rs "[s]" "[s]"] by auto
  moreover have "fifo_ok g'" "length (fifo_contents g') \<le> fifo_cap f"
    using FIFO_put_cases(1,4) [OF g(1), of s] g' g(2) alarms.bounded [of g'] by auto
  ultimately show ?case using con by simp
next
  case (serve rs ss g s g')
  have g: "fifo_ok g" using alarm_run_ok serve by blast
  have "fifo_contents g = s # tl (fifo_contents g)" "g' = g\<lparr>getID := getID g + 1\<rparr>"
    using serve.hyps(2) fetch_alarm_iff [OF g] by blast+
  then have con: "fifo_contents g = s # fifo_contents g'" using FIFO_get_Cons(2) [OF g] by metis
  have "fifo_ok g'" using alarm_run_ok alarm_run.serve [OF serve.hyps] serve.prems(1) by blast
  moreover have "suffix (fifo_contents g') rs"
    using serve.IH serve.prems con by (metis suffix_ConsD)
  ultimately show ?case using serve.IH serve.prems con by simp
qed

theorem alarm_run_in_order_witness:
  "\<exists>f g. FIFO_init True (Some [0, 0]) 2 = Some f \<and> alarm_run f [4, 5, 6] [5] g
    \<and> subseq ([5] @ fifo_contents g) [4, 5, 6]"
proof -
  define f where "f = the (FIFO_init True (Some [0, 0]) 2)"
  define f1 where "f1 = snd (FIFO_put f 4)"
  define f2 where "f2 = snd (FIFO_put f1 5)"
  define f3 where "f3 = snd (FIFO_put f2 6)"
  define g where "g = snd (snd (FIFO_get f3))"
  note defs = f_def f1_def f2_def f3_def g_def FIFO_init_def FIFO_put_def FIFO_get_def
    fifo_slot_def Let_def
  have "alarm_run f ([] @ [4]) [] f1"
    by (rule alarm_run.alarm [OF alarm_run.idle]) (simp add: catch_alarm_put f1_def)
  then have "alarm_run f (([] @ [4]) @ [5]) [] f2"
    by (rule alarm_run.alarm) (simp add: catch_alarm_put f2_def)
  then have "alarm_run f ((([] @ [4]) @ [5]) @ [6]) [] f3"
    by (rule alarm_run.alarm) (simp add: catch_alarm_put f3_def)
  then have "alarm_run f ((([] @ [4]) @ [5]) @ [6]) ([] @ [5]) g"
    by (rule alarm_run.serve) (simp add: fetch_alarm_def defs word_le_nat_alt)
  then have run: "alarm_run f [4, 5, 6] [5] g" by simp
  have "fifo_ok f" "fifo_contents f = []"
    by (simp_all add: defs fifo_ok_def fifo_cap_def fifo_len_def fifo_contents_Nil)
  then have "subseq ([5] @ fifo_contents g) [4, 5, 6]"
    using alarm_run_in_order [OF run] by blast
  moreover have "FIFO_init True (Some [0, 0]) 2 = Some f" by (simp add: defs)
  ultimately show ?thesis using run by blast
qed

end
