(* ===== verification/Rad_Data.thy ===== *)
theory Rad_Data
  imports Rad_Prelude
begin

text \<open>
  The published clock parameters (\<^verbatim>\<open>struct radclock_data\<close> and \<^verbatim>\<open>struct radclock_error\<close> of
  \<^verbatim>\<open>libradclock/radclock-private.h\<close>) and the status word with its access macros
  (\<^verbatim>\<open>radclock.h\<close>, \<^verbatim>\<open>radclock_daemon.h\<close>).
\<close>

record radclock_data =
  rd_phat :: real
  rd_phat_err :: real
  rd_phat_local :: real
  rd_phat_local_err :: real
  rd_ca :: real
  rd_ca_err :: real
  rd_status :: uint32
  rd_last_changed :: vcounter_t
  rd_next_expected :: vcounter_t
  rd_leapsec_expected :: vcounter_t
  rd_leapsec_total :: int
  rd_leapsec_next :: int

record radclock_error =
  re_error_bound :: real
  re_error_bound_avg :: real
  re_error_bound_std :: real
  re_min_RTT :: real

text \<open>Zeroed parameters, as allocated before any member is set.\<close>

definition null_data :: radclock_data where
  "null_data = \<lparr>rd_phat = 0, rd_phat_err = 0, rd_phat_local = 0, rd_phat_local_err = 0, rd_ca = 0,
     rd_ca_err = 0, rd_status = 0, rd_last_changed = 0, rd_next_expected = 0, rd_leapsec_expected = 0,
     rd_leapsec_total = 0, rd_leapsec_next = 0\<rparr>"

section \<open>Status bits\<close>

abbreviation STARAD_UNSYNC :: uint32 where "STARAD_UNSYNC \<equiv> 0x0001"
abbreviation STARAD_WARMUP :: uint32 where "STARAD_WARMUP \<equiv> 0x0002"
abbreviation STARAD_KCLOCK :: uint32 where "STARAD_KCLOCK \<equiv> 0x0004"
abbreviation STARAD_SYSCLOCK :: uint32 where "STARAD_SYSCLOCK \<equiv> 0x0008"
abbreviation STARAD_STARVING :: uint32 where "STARAD_STARVING \<equiv> 0x0010"
abbreviation STARAD_RTT_UPSHIFT :: uint32 where "STARAD_RTT_UPSHIFT \<equiv> 0x0020"
abbreviation STARAD_PHAT_UPDATED :: uint32 where "STARAD_PHAT_UPDATED \<equiv> 0x0040"
abbreviation STARAD_PHAT_SANITY :: uint32 where "STARAD_PHAT_SANITY \<equiv> 0x0080"
abbreviation STARAD_PLOCAL_QUALITY :: uint32 where "STARAD_PLOCAL_QUALITY \<equiv> 0x0100"
abbreviation STARAD_PLOCAL_SANITY :: uint32 where "STARAD_PLOCAL_SANITY \<equiv> 0x0200"
abbreviation STARAD_OFFSET_QUALITY :: uint32 where "STARAD_OFFSET_QUALITY \<equiv> 0x0400"
abbreviation STARAD_OFFSET_SANITY :: uint32 where "STARAD_OFFSET_SANITY \<equiv> 0x0800"

definition ADD_STATUS :: "radclock_data \<Rightarrow> uint32 \<Rightarrow> radclock_data" where
  "ADD_STATUS r y = r\<lparr>rd_status := rd_status r OR y\<rparr>"

definition DEL_STATUS :: "radclock_data \<Rightarrow> uint32 \<Rightarrow> radclock_data" where
  "DEL_STATUS r y = r\<lparr>rd_status := rd_status r AND NOT y\<rparr>"

definition HAS_STATUS :: "radclock_data \<Rightarrow> uint32 \<Rightarrow> bool" where
  "HAS_STATUS r y \<longleftrightarrow> rd_status r AND y = y"

lemma HAS_ADD_STATUS [simp]: "HAS_STATUS (ADD_STATUS r y) y"
proof -
  have "(rd_status r OR y) AND y = y" by (rule bit_word_eqI) (auto simp: bit_simps)
  then show ?thesis by (simp add: HAS_STATUS_def ADD_STATUS_def)
qed

lemma HAS_DEL_STATUS [simp]: "HAS_STATUS (DEL_STATUS r y) y \<longleftrightarrow> y = 0"
proof -
  have "(rd_status r AND NOT y) AND y = 0" by (rule bit_word_eqI) (auto simp: bit_simps)
  then show ?thesis by (auto simp: HAS_STATUS_def DEL_STATUS_def)
qed

text \<open>Setting or clearing one flag leaves every flag with other bits alone.\<close>

lemma HAS_ADD_STATUS_other:
  assumes "x AND y = 0"
  shows "HAS_STATUS (ADD_STATUS r y) x = HAS_STATUS r x"
proof -
  have "(rd_status r OR y) AND x = rd_status r AND x"
  proof (rule bit_word_eqI)
    fix n
    have "bit (x AND y) n = False" using assms by simp
    then show "bit ((rd_status r OR y) AND x) n = bit (rd_status r AND x) n"
      by (auto simp: bit_simps)
  qed
  then show ?thesis by (simp add: HAS_STATUS_def ADD_STATUS_def)
qed

lemma HAS_DEL_STATUS_other:
  assumes "x AND y = 0"
  shows "HAS_STATUS (DEL_STATUS r y) x = HAS_STATUS r x"
proof -
  have "(rd_status r AND NOT y) AND x = rd_status r AND x"
  proof (rule bit_word_eqI)
    fix n
    assume "n < LENGTH(32)"
    moreover have "bit (x AND y) n = False" using assms by simp
    ultimately show "bit ((rd_status r AND NOT y) AND x) n = bit (rd_status r AND x) n"
      by (auto simp: bit_simps)
  qed
  then show ?thesis by (simp add: HAS_STATUS_def DEL_STATUS_def)
qed

lemma status_fields [simp]:
  "rd_phat (ADD_STATUS r y) = rd_phat r" "rd_phat (DEL_STATUS r y) = rd_phat r"
  "rd_ca (ADD_STATUS r y) = rd_ca r" "rd_ca (DEL_STATUS r y) = rd_ca r"
  by (simp_all add: ADD_STATUS_def DEL_STATUS_def)

end
