(* ===== verification/C_Float.thy ===== *)
theory C_Float
  imports Rad_Prelude
begin

text \<open>
  Floating point arithmetic where its rounding matters: the result of a C operation on
  \<^verbatim>\<open>double\<close> or \<^verbatim>\<open>long double\<close> operands is the exact result rounded to the nearest number with a
  significand of 53 or 64 bits (the formats of x86), ties to even. Exponents are not bounded,
  so that there is neither overflow nor underflow.

  The lemmas give the relative error of one rounding, and that a number that fits the format is
  left alone.
\<close>

section \<open>Rounding\<close>

definition round_even :: "real \<Rightarrow> int" where
  "round_even x =
     (let f = \<lfloor>x\<rfloor>
      in if x - of_int f < 1 / 2 then f else if 1 / 2 < x - of_int f then f + 1
         else if even f then f else f + 1)"

lemma round_even_close: "\<bar>of_int (round_even x) - x\<bar> \<le> 1 / 2"
  unfolding round_even_def Let_def
  using floor_correct [of x] by (auto simp: abs_le_iff)

lemma round_even_sign: "0 \<le> x \<Longrightarrow> 0 \<le> round_even x" "x < 0 \<Longrightarrow> round_even x \<le> 0"
  unfolding round_even_def Let_def by (auto simp: le_floor_iff floor_le_iff floor_less_iff)

lemma round_even_of_int [simp]: "round_even (of_int n) = n"
  by (simp add: round_even_def)

lemma round_even_bound: "\<bar>x\<bar> < of_int n \<Longrightarrow> \<bar>round_even x\<bar> \<le> n"
  using round_even_close [of x] by linarith

text \<open>The distance of neighbouring numbers with \<open>p\<close> significant bits around \<open>x\<close>, and the nearest of them.\<close>

definition ulp :: "nat \<Rightarrow> real \<Rightarrow> real" where
  "ulp p x = 2 powi (\<lfloor>log 2 \<bar>x\<bar>\<rfloor> + 1 - int p)"

definition fl :: "nat \<Rightarrow> real \<Rightarrow> real" where
  "fl p x = (if x = 0 then 0 else of_int (round_even (x / ulp p x)) * ulp p x)"

abbreviation dbl :: "real \<Rightarrow> real" where "dbl \<equiv> fl 53"
abbreviation ldbl :: "real \<Rightarrow> real" where "ldbl \<equiv> fl 64"

definition is_float :: "nat \<Rightarrow> real \<Rightarrow> bool" where
  "is_float p x \<longleftrightarrow> (\<exists>m k. x = of_int m * 2 powi k \<and> \<bar>m\<bar> \<le> 2 ^ p)"

lemma is_floatI: "\<bar>m\<bar> \<le> 2 ^ p \<Longrightarrow> is_float p (of_int m * 2 powi k)"
  unfolding is_float_def by blast

section \<open>The error of a rounding\<close>

lemma ulp_pos [simp]: "0 < ulp p x" "\<bar>ulp p x\<bar> = ulp p x" "ulp p x \<noteq> 0"
  by (simp_all add: ulp_def)

lemma ulp_bounds:
  assumes "x \<noteq> 0"
  shows "ulp p x * 2 ^ p \<le> 2 * \<bar>x\<bar>" "\<bar>x\<bar> < ulp p x * 2 ^ p"
proof -
  let ?e = "\<lfloor>log 2 \<bar>x\<bar>\<rfloor>"
  have "ulp p x * 2 ^ p = 2 powi (?e + 1 - int p) * 2 powi int p" by (simp add: ulp_def)
  also have "\<dots> = 2 powi (?e + 1)" by (subst power_int_add [symmetric]) simp_all
  finally have u: "ulp p x * 2 ^ p = 2 powi (?e + 1)" .
  have l: "of_int ?e \<le> log 2 \<bar>x\<bar>" "log 2 \<bar>x\<bar> < of_int (?e + 1)" using floor_correct [of "log 2 \<bar>x\<bar>"] by simp_all
  have "2 powi ?e \<le> \<bar>x\<bar>"
    using l(1) assms le_log_iff [of 2 "\<bar>x\<bar>" "of_int ?e"] powr_real_of_int' [of 2 ?e] by (simp del: of_int_floor_le)
  then show "ulp p x * 2 ^ p \<le> 2 * \<bar>x\<bar>" unfolding u by (simp add: power_int_add)
  show "\<bar>x\<bar> < ulp p x * 2 ^ p" unfolding u 
    using l(2) assms log_less_iff [of 2 "\<bar>x\<bar>" "of_int (?e + 1)"] powr_real_of_int' [of 2 "?e + 1"] by simp
qed

lemma fl_half_ulp:
  assumes "x \<noteq> 0"
  shows "\<bar>fl p x - x\<bar> \<le> 1 / 2 * ulp p x"
proof -
  let ?u = "ulp p x"
  have "fl p x - x = (of_int (round_even (x / ?u)) - x / ?u) * ?u"
    using assms by (simp add: fl_def left_diff_distrib)
  then have "\<bar>fl p x - x\<bar> = \<bar>of_int (round_even (x / ?u)) - x / ?u\<bar> * ?u" by (simp add: abs_mult)
  also have "\<dots> \<le> 1 / 2 * ?u" using round_even_close by (rule mult_right_mono) (simp add: less_imp_le)
  finally show ?thesis .
qed

lemma fl_error: "\<bar>fl p x - x\<bar> \<le> \<bar>x\<bar> / 2 ^ p"
proof (cases "x = 0")
  case False
  have "\<bar>fl p x - x\<bar> \<le> 1 / 2 * ulp p x" by (rule fl_half_ulp [OF False])
  also have "\<dots> \<le> \<bar>x\<bar> / 2 ^ p" using ulp_bounds(1) [OF False, of p] by (simp add: field_simps)
  finally show ?thesis .
qed (simp add: fl_def)

lemma fl_error_le: "\<bar>x\<bar> \<le> B \<Longrightarrow> \<bar>fl p x - x\<bar> \<le> B / 2 ^ p"
  by (rule order_trans [OF fl_error]) (simp add: divide_right_mono)

lemma fl_0 [simp]: "fl p 0 = 0"
  by (simp add: fl_def)

lemma fl_pos:
  assumes "0 < x" "0 < p"
  shows "0 < fl p x"
proof -
  have "(2 :: real) ^ 1 \<le> 2 ^ p" using assms(2) by (intro power_increasing) simp_all
  then have "\<bar>x\<bar> / 2 ^ p \<le> \<bar>x\<bar> / 2" by (intro divide_left_mono) simp_all
  then show ?thesis using fl_error [of p x] assms(1) by linarith
qed

text \<open>Below a power of two the error is at most half the distance of the numbers just below it.\<close>

lemma ulp_below:
  assumes "x \<noteq> 0" "\<bar>x\<bar> < 2 ^ k"
  shows "ulp p x * 2 ^ p \<le> 2 ^ k"
proof -
  let ?e = "\<lfloor>log 2 \<bar>x\<bar>\<rfloor>"
  have "log 2 \<bar>x\<bar> < of_int (int k)" using assms by (simp add: log_less_iff powr_realpow)
  then have "?e + 1 \<le> int k" by linarith
  then have "2 powi (?e + 1) \<le> (2 :: real) powi int k" by (intro power_int_increasing) simp_all
  moreover have "ulp p x * 2 ^ p = 2 powi (?e + 1 - int p) * 2 powi int p" by (simp add: ulp_def)
  moreover have "\<dots> = 2 powi (?e + 1)" by (subst power_int_add [symmetric]) simp_all
  ultimately show ?thesis by simp
qed

lemma fl_error_below:
  assumes "\<bar>x\<bar> < 2 ^ k"
  shows "\<bar>fl p x - x\<bar> \<le> 2 ^ k / 2 ^ Suc p"
proof (cases "x = 0")
  case False
  have "\<bar>fl p x - x\<bar> \<le> 1 / 2 * ulp p x" by (rule fl_half_ulp [OF False])
  also have "\<dots> \<le> 2 ^ k / 2 ^ Suc p" using ulp_below [OF False assms, of p] by (simp add: field_simps)
  finally show ?thesis .
qed (simp add: fl_def)

section \<open>Numbers of the format\<close>

lemma power_int_integral: "0 \<le> k \<Longrightarrow> of_int m * 2 powi k = real_of_int (m * 2 ^ nat k)"
  by (simp add: power_int_def)

lemma fl_exact:
  assumes "is_float p x" "0 < p"
  shows "fl p x = x"
proof (cases "x = 0")
  case False
  obtain m k where m: "x = of_int m * 2 powi k" "\<bar>m\<bar> \<le> 2 ^ p" using assms(1) by (auto simp: is_float_def)
  let ?u = "\<lfloor>log 2 \<bar>x\<bar>\<rfloor> + 1 - int p"
  have "\<exists>n. x / ulp p x = of_int n"
  proof (cases "?u \<le> k")
    case True
    have "x / ulp p x = of_int m * 2 powi (k - ?u)" by (simp add: m(1) ulp_def power_int_diff)
    also have "\<dots> = real_of_int (m * 2 ^ nat (k - ?u))" using True by (intro power_int_integral) simp
    finally show ?thesis by blast
  next
    case False
    have "\<bar>real_of_int m\<bar> \<le> 2 ^ p" using m(2) by (metis of_int_abs of_int_le_iff of_int_numeral of_int_power)
    then have le: "\<bar>x\<bar> \<le> 2 ^ p * 2 powi k" unfolding m(1) abs_mult by (simp add: mult_right_mono)
    have "2 * (2 ^ p * 2 powi k :: real) = 2 ^ p * 2 powi (k + 1)" by (simp add: power_int_add)
    also have "\<dots> \<le> 2 ^ p * ulp p x" unfolding ulp_def using False by (intro mult_left_mono power_int_increasing) simp_all
    also have "\<dots> \<le> 2 * \<bar>x\<bar>" using ulp_bounds(1) [OF \<open>x \<noteq> 0\<close>, of p] by (simp add: mult.commute)
    finally have "\<bar>x\<bar> = 2 ^ p * 2 powi k" "2 ^ p * ulp p x = 2 * \<bar>x\<bar>"
      using le ulp_bounds(1) [OF \<open>x \<noteq> 0\<close>, of p] \<open>2 ^ p * ulp p x \<le> 2 * \<bar>x\<bar>\<close> \<open>2 ^ p * 2 powi (k + 1) \<le> 2 ^ p * ulp p x\<close>
      by (simp_all add: power_int_add mult.commute)
    then have "\<bar>x\<bar> / ulp p x = 2 ^ p / 2" using ulp_pos(1) [of p x] by (simp add: field_simps)
    also have "\<dots> = of_int (2 ^ (p - 1))" using assms(2) by (cases p) simp_all
    finally have "\<bar>x\<bar> / ulp p x = of_int (2 ^ (p - 1))" .
    then have "x / ulp p x = of_int (if x < 0 then - (2 ^ (p - 1)) else 2 ^ (p - 1))" by (auto simp: minus_equation_iff)
    then show ?thesis by blast
  qed
  then obtain n where n: "x / ulp p x = of_int n" by blast
  have "fl p x = x / ulp p x * ulp p x" using False by (simp only: fl_def n round_even_of_int if_False)
  then show ?thesis by simp
qed (simp add: fl_def)

lemma is_float_fl [simp]: "is_float p (fl p x)"
proof (cases "x = 0")
  case True
  then show ?thesis using is_floatI [of 0 p 0] by (simp add: fl_def)
next
  case False
  have "\<bar>x / ulp p x\<bar> < of_int (2 ^ p)"
    using ulp_bounds(2) [OF False, of p] ulp_pos(1) [of p x] by (simp add: abs_divide pos_divide_less_eq mult.commute)
  then have "\<bar>round_even (x / ulp p x)\<bar> \<le> 2 ^ p" by (rule round_even_bound)
  then show ?thesis using False is_floatI by (simp add: fl_def ulp_def)
qed

lemma is_float_shift: "is_float p x \<Longrightarrow> is_float p (x * 2 powi j)"
proof -
  assume "is_float p x"
  then obtain m k where "x = of_int m * 2 powi k" "\<bar>m\<bar> \<le> 2 ^ p" by (auto simp: is_float_def)
  then show ?thesis using is_floatI [of m p "k + j"] by (simp add: power_int_add mult.assoc)
qed

lemma is_float_scale:
  assumes "is_float p x"
  shows "is_float p (x * 2 ^ n)" "is_float p (x / 2 ^ n)"
proof -
  have "2 powi (- int n) = 1 / (2 ^ n :: real)" by (simp add: power_int_minus divide_inverse)
  then show "is_float p (x * 2 ^ n)" "is_float p (x / 2 ^ n)"
    using is_float_shift [OF assms, of "int n"] is_float_shift [OF assms, of "- int n"] by simp_all
qed

lemma is_float_mono:
  assumes "is_float p x" "p \<le> q"
  shows "is_float q x"
proof -
  have "(2 :: int) ^ p \<le> 2 ^ q" using assms(2) by (simp add: power_increasing)
  moreover obtain m k where "x = of_int m * 2 powi k" "\<bar>m\<bar> \<le> 2 ^ p" using assms(1) by (auto simp: is_float_def)
  ultimately show ?thesis using is_floatI [of m q k] order_trans by blast
qed

lemma is_float_of_int: "\<bar>m\<bar> \<le> 2 ^ p \<Longrightarrow> is_float p (of_int m)"
  using is_floatI [of m p 0] by simp

lemma is_float_word: "is_float 64 (vc_real (w :: uint64))"
  using is_float_of_int [of "int (unat w)" 64] unat_less_64 [of w] by (simp add: of_nat_le_iff flip: of_nat_power)

text \<open>The integral and the fractional part of a number of the format are numbers of the format.\<close>

lemma is_float_parts:
  assumes "is_float p x" "0 \<le> x"
  shows "is_float p (of_int \<lfloor>x\<rfloor>)" "is_float p (x - of_int \<lfloor>x\<rfloor>)"
proof -
  obtain m k where m: "x = of_int m * 2 powi k" "\<bar>m\<bar> \<le> 2 ^ p" using assms(1) by (auto simp: is_float_def)
  have "(0 :: real) < 2 powi k" by simp
  then have "0 \<le> m" using assms(2) m(1) by (metis less_le_not_le mult_less_0_iff not_le of_int_less_0_iff)
  have "is_float p (of_int \<lfloor>x\<rfloor>) \<and> is_float p (x - of_int \<lfloor>x\<rfloor>)"
  proof (cases "0 \<le> k")
    case True
    then have "x = of_int (m * 2 ^ nat k)" unfolding m(1) by (rule power_int_integral)
    then have "x = of_int \<lfloor>x\<rfloor>" by (metis floor_of_int)
    then show ?thesis using assms(1) is_float_of_int [of 0 p] by simp
  next
    case False
    define c :: int where "c = 2 ^ nat (- k)"
    have c: "0 < c" "x = of_int m / of_int c" using False by (simp_all add: c_def m(1) power_int_def field_simps)
    have f: "\<lfloor>x\<rfloor> = m div c" unfolding c(2) by (rule floor_divide_of_int_eq)
    have "\<bar>m div c\<bar> \<le> 2 ^ p" "\<bar>m mod c\<bar> \<le> 2 ^ p"
      using m(2) \<open>0 \<le> m\<close> c(1) zdiv_mono2 [of m 1 c] zmod_le_nonneg_dividend [of m c]
      by (simp_all add: pos_imp_zdiv_nonneg_iff)
    moreover have "x - of_int \<lfloor>x\<rfloor> = of_int (m mod c) * 2 powi k"
      using c False unfolding f by (simp add: minus_mult_div_eq_mod [symmetric] c_def m(1) power_int_def field_simps)
    ultimately show ?thesis using is_float_of_int is_floatI f by metis
  qed
  then show "is_float p (of_int \<lfloor>x\<rfloor>)" "is_float p (x - of_int \<lfloor>x\<rfloor>)" by simp_all
qed

section \<open>The whole type\<close>

text \<open>
  Values of type \<^verbatim>\<open>double\<close> with infinities and NaNs, each with its sign, for input that can produce
  them; and the conversion of a number to the type, with overflow to an infinity and the fixed
  spacing of the numbers near zero. Every comparison with a NaN is false.
\<close>

datatype c_double = Num real | Inf bool | Nan bool

fun cd_less :: "c_double \<Rightarrow> c_double \<Rightarrow> bool" where
  "cd_less (Num x) (Num y) = (x < y)"
| "cd_less (Num x) (Inf neg) = (\<not> neg)"
| "cd_less (Inf neg) (Num y) = neg"
| "cd_less (Inf a) (Inf b) = (a \<and> \<not> b)"
| "cd_less _ _ = False"

fun cd_eq :: "c_double \<Rightarrow> c_double \<Rightarrow> bool" where
  "cd_eq (Num x) (Num y) = (x = y)"
| "cd_eq (Inf a) (Inf b) = (a = b)"
| "cd_eq _ _ = False"

definition to_double :: "real \<Rightarrow> c_double" where
  "to_double x =
     (if \<bar>x\<bar> < 1 / 2 ^ 1022 then Num (of_int (round_even (x * 2 ^ 1074)) / 2 ^ 1074)
      else if 2 ^ 1024 \<le> \<bar>dbl x\<bar> then Inf (x < 0)
      else Num (dbl x))"

text \<open>A floating point literal of ordinary size.\<close>

abbreviation lit :: "real \<Rightarrow> c_double" where "lit x \<equiv> Num (dbl x)"

lemma dbl_le_one:
  assumes "0 < x" and "x \<le> 1 / 2"
  shows "dbl x \<le> 1"
proof -
  have "\<bar>dbl x - x\<bar> \<le> (1 / 2) / 2 ^ 53"
    using assms by (intro fl_error_le) auto
  moreover have "(1 / 2) / 2 ^ 53 \<le> (1 / 2 :: real)"
    by simp
  ultimately show ?thesis
    using assms by linarith
qed

end
