(* ===== verification/Rad_Clock.thy ===== *)
theory Rad_Clock
  imports Rad_Data C_Float
begin

text \<open>
  Reading a clock from its parameters, and the exchange of the parameters with the kernel.

  \<^item> \<open>read_RADabs_native\<close>, \<open>read_RADabs_UTC\<close>: the absolute clocks of
    \<^verbatim>\<open>libradclock/radclock-private.h\<close> on parameters that do not change during the call, so
    that the retry loop on \<^verbatim>\<open>last_changed\<close> runs once (the concurrent reader is in
    \<open>Sms_Sharing\<close>).
  \<^item> \<open>raddata_quality\<close>: the verdict of \<^verbatim>\<open>radapi-time.c\<close> on how much a reading is worth.
  \<^item> \<open>bintime_to_ld\<close>, \<open>ld_to_bintime\<close> (\<^verbatim>\<open>kclock.h\<close>) and \<open>fill_ffclock_data\<close>,
    \<open>fill_radclock_data\<close> (\<^verbatim>\<open>radapi-base.c\<close>): the mapping between the daemon's parameters and
    the fixed point ones of the kernel's feed-forward clock. The versions with the suffix
    \<open>_fp\<close> round after every operation as the code does; the others are the same computations
    without rounding, which the other theories build on.

  The lemmas give the rate of the clocks, their behaviour across a leap second, and the
  error a trip through the kernel's representation adds.
\<close>

section \<open>The absolute clocks\<close>

definition read_RADabs_native :: "radclock_data \<Rightarrow> vcounter_t \<Rightarrow> bool \<Rightarrow> real" where
  "read_RADabs_native d vcount useplocal =
     (let time = vc_real vcount * rd_phat d + rd_ca d
      in if useplocal \<and> rd_phat d \<noteq> rd_phat_local d
         then time + (vc_real vcount - vc_real (rd_last_changed d)) * (rd_phat_local d - rd_phat d)
         else time)"

definition leap_correction :: "radclock_data \<Rightarrow> vcounter_t \<Rightarrow> int" where
  "leap_correction d vcount =
     rd_leapsec_total d +
     (if rd_leapsec_expected d \<noteq> 0 \<and> vcount > rd_leapsec_expected d then rd_leapsec_next d else 0)"

definition read_RADabs_UTC :: "radclock_data \<Rightarrow> vcounter_t \<Rightarrow> bool \<Rightarrow> real" where
  "read_RADabs_UTC d vcount useplocal =
     read_RADabs_native d vcount useplocal - of_int (leap_correction d vcount)"

text \<open>The rate at which a clock advances per count.\<close>

definition clock_rate :: "radclock_data \<Rightarrow> bool \<Rightarrow> real" where
  "clock_rate d useplocal = (if useplocal then rd_phat_local d else rd_phat d)"

lemma read_native_alt:
  "read_RADabs_native d v u =
     rd_phat d * vc_real (rd_last_changed d) + rd_ca d
       + clock_rate d u * (vc_real v - vc_real (rd_last_changed d))"
  by (cases u) (simp_all add: read_RADabs_native_def clock_rate_def Let_def algebra_simps)

lemma read_native_diff:
  "read_RADabs_native d v2 u - read_RADabs_native d v1 u =
     clock_rate d u * (vc_real v2 - vc_real v1)"
  by (simp add: read_native_alt algebra_simps)

lemma read_native_same_at_update:
  "read_RADabs_native d (rd_last_changed d) u = rd_phat d * vc_real (rd_last_changed d) + rd_ca d"
  by (simp add: read_native_alt)

definition crosses_leap :: "radclock_data \<Rightarrow> vcounter_t \<Rightarrow> vcounter_t \<Rightarrow> bool" where
  "crosses_leap d v1 v2 \<longleftrightarrow>
     rd_leapsec_expected d \<noteq> 0 \<and> v1 \<le> rd_leapsec_expected d \<and> rd_leapsec_expected d < v2"

lemma leap_correction_diff:
  "v1 \<le> v2 \<Longrightarrow>
   leap_correction d v2 - leap_correction d v1 = (if crosses_leap d v1 v2 then rd_leapsec_next d else 0)"
  by (auto simp: leap_correction_def crosses_leap_def)

text \<open>
  Between two counter values the UTC clock advances by the elapsed counts times the
  period in use (the local one if it is selected), less the announced leap second if and
  only if the announced counter value lies between them. In particular with a positive
  period and no leap second in between the clock never goes backwards.
\<close>

lemma read_UTC_advance:
  assumes "v1 \<le> v2"
  shows "read_RADabs_UTC d v2 u - read_RADabs_UTC d v1 u =
           clock_rate d u * vc_real (v2 - v1)
             - (if crosses_leap d v1 v2 then of_int (rd_leapsec_next d) else 0)
       \<and> (0 < clock_rate d u \<and> \<not> crosses_leap d v1 v2 \<longrightarrow>
            read_RADabs_UTC d v1 u \<le> read_RADabs_UTC d v2 u)"
proof -
  have n: "vc_real v2 - vc_real v1 = vc_real (v2 - v1)"
    using assms by (simp add: unat_sub_le of_nat_diff word_le_nat_alt)
  have l: "of_int (leap_correction d v2) - of_int (leap_correction d v1) =
      (if crosses_leap d v1 v2 then of_int (rd_leapsec_next d) else (0 :: real))"
    using leap_correction_diff [OF assms, of d]
    by (metis of_int_0 of_int_diff)
  have "read_RADabs_UTC d v2 u - read_RADabs_UTC d v1 u =
      (read_RADabs_native d v2 u - read_RADabs_native d v1 u)
        - (of_int (leap_correction d v2) - of_int (leap_correction d v1))"
    by (simp add: read_RADabs_UTC_def)
  then have eq: "read_RADabs_UTC d v2 u - read_RADabs_UTC d v1 u =
      clock_rate d u * vc_real (v2 - v1)
        - (if crosses_leap d v1 v2 then of_int (rd_leapsec_next d) else 0)"
    by (simp only: l n read_native_diff)
  moreover have "0 \<le> clock_rate d u * vc_real (v2 - v1)" if "0 < clock_rate d u"
    using that by simp
  ultimately show ?thesis by (auto simp: diff_eq_eq)
qed

section \<open>The quality of a reading\<close>

abbreviation OUT_SKM :: real where "OUT_SKM \<equiv> 1024"

definition raddata_quality :: "vcounter_t \<Rightarrow> vcounter_t \<Rightarrow> vcounter_t \<Rightarrow> real \<Rightarrow> int" where
  "raddata_quality now last_changed valid phat =
     (if now < last_changed then 3
      else if now > valid
           then if phat * vc_real (now - valid) > OUT_SKM then 3 else 2
           else 0)"

section \<open>The kernel's representation\<close>

record bintime =
  bt_sec :: int
  bt_frac :: uint64

record ffclock_data =
  ff_update_time :: bintime
  ff_update_ffcount :: vcounter_t
  ff_leapsec_expected :: vcounter_t
  ff_period :: uint64
  ff_errb_abs :: uint32
  ff_errb_rate :: uint32
  ff_status :: uint32
  ff_secs_to_nextupdate :: uint16
  ff_leapsec_total :: "8 word"
  ff_leapsec_next :: "8 word"

abbreviation TWO32 :: real where "TWO32 \<equiv> 4294967296"

text \<open>Conversion of a floating point number to a signed integer: truncation toward zero.\<close>

definition c_trunc :: "real \<Rightarrow> int" where
  "c_trunc x = (if x < 0 then \<lceil>x\<rceil> else \<lfloor>x\<rfloor>)"

text \<open>Conversion of a floating point number to an unsigned integer (undefined in C out of range).\<close>

definition real_to_word :: "real \<Rightarrow> 'a::len word" where
  "real_to_word x = word_of_int \<lfloor>x\<rfloor>"

definition bintime_to_ld :: "bintime \<Rightarrow> real" where
  "bintime_to_ld bt = of_int (bt_sec bt) + vc_real (bt_frac bt) / TWO32 / TWO32"

definition ld_to_bintime :: "real \<Rightarrow> bintime" where
  "ld_to_bintime time =
     \<lparr>bt_sec = c_trunc time, bt_frac = real_to_u64 ((time - of_int (c_trunc time)) * TWO32 * TWO32)\<rparr>"

text \<open>
  \<open>PLOCAL_ACTIVE\<close> is the compile time switch of \<^verbatim>\<open>radclock-private.h\<close>, set to 0. The error
  metrics passed to \<open>fill_ffclock_data\<close> are not used by its body.
\<close>

definition PLOCAL_ACTIVE :: bool where "PLOCAL_ACTIVE = False"

definition fill_ffclock_data :: "radclock_data \<Rightarrow> ffclock_data" where
  "fill_ffclock_data d =
     (let Tlast = rd_last_changed d;
          time = vc_real Tlast * rd_phat d + rd_ca d
      in \<lparr>ff_update_time = ld_to_bintime time,
          ff_update_ffcount = Tlast,
          ff_leapsec_expected = rd_leapsec_expected d,
          ff_period = (if PLOCAL_ACTIVE then real_to_u64 (rd_phat_local d * TWO32 * TWO32)
                       else real_to_u64 (rd_phat d * TWO32 * TWO32)),
          ff_errb_abs = real_to_word (rd_ca_err d * 10 ^ 9),
          ff_errb_rate = real_to_word (rd_phat_local_err d * 10 ^ 12),
          ff_status = rd_status d,
          ff_secs_to_nextupdate =
            real_to_word (vc_real (rd_next_expected d - rd_last_changed d) * rd_phat d + 1/2),
          ff_leapsec_total = word_of_int (rd_leapsec_total d),
          ff_leapsec_next = word_of_int (rd_leapsec_next d)\<rparr>)"

definition fill_radclock_data :: "ffclock_data \<Rightarrow> radclock_data" where
  "fill_radclock_data c =
     (let tmp = vc_real (ff_period c) / 2 ^ 32;
          phat_local = tmp / 2 ^ 32;
          phat_local_err = vc_real (ff_errb_rate c) / 10 ^ 12;
          ca = bintime_to_ld (ff_update_time c);
          tmp = tmp / 2 ^ 32
      in \<lparr>rd_phat = phat_local, rd_phat_err = phat_local_err, rd_phat_local = phat_local,
          rd_phat_local_err = phat_local_err,
          rd_ca = ca - tmp * vc_real (ff_update_ffcount c),
          rd_ca_err = vc_real (ff_errb_abs c) / 10 ^ 9,
          rd_status = ff_status c,
          rd_last_changed = ff_update_ffcount c, rd_next_expected = 0,
          rd_leapsec_expected = ff_leapsec_expected c,
          rd_leapsec_total = sint (ff_leapsec_total c),
          rd_leapsec_next = sint (ff_leapsec_next c)\<rparr>)"

text \<open>
  The same functions with the rounding of every operation written out, for the precision they
  really have: a product, sum, difference or quotient of \<^verbatim>\<open>long double\<close> operands is rounded to 64
  bits, one of \<^verbatim>\<open>double\<close> operands to 53. A 64 bit integer is a \<^verbatim>\<open>long double\<close>.
\<close>

definition read_RADabs_UTC_fp :: "radclock_data \<Rightarrow> vcounter_t \<Rightarrow> bool \<Rightarrow> real" where
  "read_RADabs_UTC_fp d vcount useplocal =
     (let time = ldbl (ldbl (vc_real vcount * rd_phat d) + rd_ca d);
          time = (if useplocal \<and> rd_phat d \<noteq> rd_phat_local d
                  then ldbl (time + ldbl (ldbl (vc_real vcount - vc_real (rd_last_changed d)) * dbl (rd_phat_local d - rd_phat d)))
                  else time);
          time = ldbl (time - of_int (rd_leapsec_total d))
      in if rd_leapsec_expected d \<noteq> 0 \<and> vcount > rd_leapsec_expected d
         then ldbl (time - of_int (rd_leapsec_next d)) else time)"

definition bintime_to_ld_fp :: "bintime \<Rightarrow> real" where
  "bintime_to_ld_fp bt = ldbl (of_int (bt_sec bt) + ldbl (ldbl (vc_real (bt_frac bt) / TWO32) / TWO32))"

definition ld_to_bintime_fp :: "real \<Rightarrow> bintime" where
  "ld_to_bintime_fp time =
     \<lparr>bt_sec = c_trunc time, bt_frac = real_to_u64 (ldbl (ldbl (ldbl (time - of_int (c_trunc time)) * TWO32) * TWO32))\<rparr>"

definition fill_ffclock_data_fp :: "radclock_data \<Rightarrow> ffclock_data" where
  "fill_ffclock_data_fp d =
     (let Tlast = rd_last_changed d;
          time = ldbl (ldbl (vc_real Tlast * rd_phat d) + rd_ca d)
      in \<lparr>ff_update_time = ld_to_bintime_fp time,
          ff_update_ffcount = Tlast,
          ff_leapsec_expected = rd_leapsec_expected d,
          ff_period = (if PLOCAL_ACTIVE then real_to_u64 (ldbl (ldbl (rd_phat_local d * TWO32) * TWO32))
                       else real_to_u64 (ldbl (ldbl (rd_phat d * TWO32) * TWO32))),
          ff_errb_abs = real_to_word (dbl (rd_ca_err d * 10 ^ 9)),
          ff_errb_rate = real_to_word (dbl (rd_phat_local_err d * 10 ^ 12)),
          ff_status = rd_status d,
          ff_secs_to_nextupdate =
            real_to_word (dbl (dbl (dbl (vc_real (rd_next_expected d - rd_last_changed d)) * rd_phat d) + 1/2)),
          ff_leapsec_total = word_of_int (rd_leapsec_total d),
          ff_leapsec_next = word_of_int (rd_leapsec_next d)\<rparr>)"

definition fill_radclock_data_fp :: "ffclock_data \<Rightarrow> radclock_data" where
  "fill_radclock_data_fp c =
     (let tmp = ldbl (vc_real (ff_period c) / 2 ^ 32);
          phat_local = dbl (ldbl (tmp / 2 ^ 32));
          phat_local_err = dbl (vc_real (ff_errb_rate c) / 10 ^ 12);
          ca = bintime_to_ld_fp (ff_update_time c);
          tmp = ldbl (tmp / 2 ^ 32)
      in \<lparr>rd_phat = phat_local, rd_phat_err = phat_local_err, rd_phat_local = phat_local,
          rd_phat_local_err = phat_local_err,
          rd_ca = ldbl (ca - ldbl (tmp * vc_real (ff_update_ffcount c))),
          rd_ca_err = dbl (vc_real (ff_errb_abs c) / 10 ^ 9),
          rd_status = ff_status c,
          rd_last_changed = ff_update_ffcount c, rd_next_expected = 0,
          rd_leapsec_expected = ff_leapsec_expected c,
          rd_leapsec_total = sint (ff_leapsec_total c),
          rd_leapsec_next = sint (ff_leapsec_next c)\<rparr>)"

text \<open>Scaling to 64 fractional bits and back loses less than one unit.\<close>

lemma vc_real_to_u64:
  assumes "0 \<le> x" "x < 1"
  shows "vc_real (real_to_u64 (x * 2 ^ 64)) = of_int \<lfloor>x * 2 ^ 64\<rfloor>"
proof -
  let ?y = "x * 2 ^ 64"
  have b: "0 \<le> \<lfloor>?y\<rfloor>" "\<lfloor>?y\<rfloor> < 2 ^ 64" using assms by (auto simp: floor_less_iff)
  then have "uint (real_to_u64 ?y) = \<lfloor>?y\<rfloor>"
    by (simp add: real_to_u64_def uint_word_of_int)
  then show ?thesis by (metis of_int_of_nat_eq uint_nat)
qed

lemma real_to_u64_scaled:
  assumes "0 \<le> x" "x < 1"
  shows "vc_real (real_to_u64 (x * 2 ^ 64)) / 2 ^ 64 \<le> x"
    and "x < vc_real (real_to_u64 (x * 2 ^ 64)) / 2 ^ 64 + 1 / 2 ^ 64"
proof -
  let ?y = "x * 2 ^ 64"
  have "vc_real (real_to_u64 ?y) = of_int \<lfloor>?y\<rfloor>" by (rule vc_real_to_u64 [OF assms])
  moreover have "of_int \<lfloor>?y\<rfloor> \<le> ?y" "?y < of_int \<lfloor>?y\<rfloor> + 1" by linarith+
  ultimately show "vc_real (real_to_u64 ?y) / 2 ^ 64 \<le> x"
    "x < vc_real (real_to_u64 ?y) / 2 ^ 64 + 1 / 2 ^ 64"
    by (simp_all add: field_simps)
qed

lemma two32_two32: "x * TWO32 * TWO32 = x * 2 ^ 64" "x / TWO32 / TWO32 = x / 2 ^ 64"
  "x / 2 ^ 32 / 2 ^ 32 = x / (2 ^ 64 :: real)"
  by simp_all

lemma bintime_roundtrip:
  assumes "0 \<le> t"
  shows "bintime_to_ld (ld_to_bintime t) \<le> t" "t < bintime_to_ld (ld_to_bintime t) + 1 / 2 ^ 64"
proof -
  have s: "c_trunc t = \<lfloor>t\<rfloor>" using assms by (simp add: c_trunc_def)
  have f: "0 \<le> t - of_int \<lfloor>t\<rfloor>" "t - of_int \<lfloor>t\<rfloor> < 1" by linarith+
  have e: "bintime_to_ld (ld_to_bintime t) =
      of_int \<lfloor>t\<rfloor> + vc_real (real_to_u64 ((t - of_int \<lfloor>t\<rfloor>) * 2 ^ 64)) / 2 ^ 64"
    by (simp only: bintime_to_ld_def ld_to_bintime_def s bintime.simps two32_two32)
  show "bintime_to_ld (ld_to_bintime t) \<le> t" "t < bintime_to_ld (ld_to_bintime t) + 1 / 2 ^ 64"
    using real_to_u64_scaled [OF f] unfolding e by linarith+
qed

lemma sint_int8:
  assumes "-128 \<le> i" "i < 128"
  shows "sint (word_of_int i :: 8 word) = i"
proof -
  have "sint (word_of_int i :: 8 word) = (i + 128) mod 256 - 128"
    by (simp add: sint_sbintrunc' signed_take_bit_eq_take_bit_shift take_bit_eq_mod)
  then show ?thesis using assms by simp
qed

text \<open>Exact operations: scaling by powers of two, and the period of a clock.\<close>

lemma ldbl_scale:
  assumes "is_float 64 x"
  shows "ldbl (ldbl (x * TWO32) * TWO32) = x * 2 ^ 64" "ldbl (ldbl (x / TWO32) / TWO32) = x / 2 ^ 64"
    "ldbl (ldbl (x / 2 ^ 32) / 2 ^ 32) = x / 2 ^ 64"
proof -
  have "ldbl (x * 2 ^ 32) = x * 2 ^ 32" "ldbl (x * 2 ^ 64) = x * 2 ^ 64" "ldbl (x / 2 ^ 32) = x / 2 ^ 32"
    "ldbl (x / 2 ^ 64) = x / 2 ^ 64"
    using assms by (intro fl_exact is_float_scale; simp)+
  moreover have t: "TWO32 = 2 ^ 32" "x * 2 ^ 32 * 2 ^ 32 = x * 2 ^ 64" "x / 2 ^ 32 / 2 ^ 32 = x / 2 ^ 64" by simp_all
  ultimately show "ldbl (ldbl (x * TWO32) * TWO32) = x * 2 ^ 64" "ldbl (ldbl (x / TWO32) / TWO32) = x / 2 ^ 64"
    "ldbl (ldbl (x / 2 ^ 32) / 2 ^ 32) = x / 2 ^ 64"
    unfolding t by (simp_all only: t)
qed

lemma period_exact:
  assumes "is_float 53 p" "0 \<le> p" "p < 1" "q = vc_real (real_to_u64 (p * 2 ^ 64)) / 2 ^ 64"
  shows "real_to_u64 (ldbl (ldbl (p * TWO32) * TWO32)) = real_to_u64 (p * 2 ^ 64)"
    "ldbl (ldbl (vc_real (real_to_u64 (p * 2 ^ 64)) / 2 ^ 32) / 2 ^ 32) = q" "dbl q = q"
    "0 \<le> q" "q \<le> p" "p < q + 1 / 2 ^ 64"
proof -
  show "real_to_u64 (ldbl (ldbl (p * TWO32) * TWO32)) = real_to_u64 (p * 2 ^ 64)"
    using ldbl_scale(1) is_float_mono [OF assms(1), of 64] by simp
  show "ldbl (ldbl (vc_real (real_to_u64 (p * 2 ^ 64)) / 2 ^ 32) / 2 ^ 32) = q"
    unfolding assms(4) by (rule ldbl_scale(3) [OF is_float_word])
  have "is_float 53 (of_int \<lfloor>p * 2 ^ 64\<rfloor>)"
    by (rule is_float_parts(1) [OF is_float_scale(1) [OF assms(1)]]) (use assms(2) in simp)
  then have "is_float 53 q" unfolding assms(4) vc_real_to_u64 [OF assms(2,3)] by (rule is_float_scale(2))
  then show "dbl q = q" by (rule fl_exact) simp
  show "0 \<le> q" "q \<le> p" "p < q + 1 / 2 ^ 64" unfolding assms(4) using real_to_u64_scaled [OF assms(2,3)] by simp_all
qed

text \<open>Up to 2^31 s a rounding is off by at most 2^-34 s.\<close>

lemma ldbl_31: "\<bar>x\<bar> < 2 ^ 31 \<Longrightarrow> \<bar>ldbl x - x\<bar> \<le> 1 / 2 ^ 34"
  using fl_error_below [of x 31 64] by simp

lemma ldbl_31_of:
  assumes "\<bar>x\<bar> \<le> b" "b < 2 ^ 31"
  shows "\<bar>ldbl x - x\<bar> \<le> 1 / 2 ^ 34" "\<bar>ldbl x\<bar> \<le> b + 1"
proof -
  show 1: "\<bar>ldbl x - x\<bar> \<le> 1 / 2 ^ 34" using assms by (intro ldbl_31) simp
  have "1 / 2 ^ 34 \<le> (1 :: real)" by simp
  then show "\<bar>ldbl x\<bar> \<le> b + 1" using 1 assms(1) by linarith
qed

lemma bintime_fp_roundtrip:
  assumes "is_float 64 t" "0 \<le> t" "t < 2 ^ 31"
  shows "\<bar>bintime_to_ld_fp (ld_to_bintime_fp t) - t\<bar> \<le> 1 / 2 ^ 34 + 1 / 2 ^ 64"
proof -
  let ?f = "t - of_int \<lfloor>t\<rfloor>"
  have s: "c_trunc t = \<lfloor>t\<rfloor>" using assms(2) by (simp add: c_trunc_def)
  have f: "0 \<le> ?f" "?f < 1" by linarith+
  have "is_float 64 ?f" by (rule is_float_parts(2) [OF assms(1,2)])
  then have "ldbl ?f = ?f" "ldbl (ldbl (?f * TWO32) * TWO32) = ?f * 2 ^ 64" by (simp_all only: fl_exact ldbl_scale(1))
  then have "ldbl (ldbl (ldbl ?f * TWO32) * TWO32) = ?f * 2 ^ 64" by (simp only:)
  then have "bintime_to_ld_fp (ld_to_bintime_fp t)
      = ldbl (of_int \<lfloor>t\<rfloor> + ldbl (ldbl (vc_real (real_to_u64 (?f * 2 ^ 64)) / TWO32) / TWO32))"
    by (simp only: bintime_to_ld_fp_def ld_to_bintime_fp_def s bintime.simps)
  also have "\<dots> = ldbl (of_int \<lfloor>t\<rfloor> + vc_real (real_to_u64 (?f * 2 ^ 64)) / 2 ^ 64)"
    by (simp only: ldbl_scale(2) [OF is_float_word])
  finally have e: "bintime_to_ld_fp (ld_to_bintime_fp t) = ldbl (of_int \<lfloor>t\<rfloor> + vc_real (real_to_u64 (?f * 2 ^ 64)) / 2 ^ 64)"
    (is "_ = ldbl ?y") .
  have y: "?y \<le> t" "t < ?y + 1 / 2 ^ 64" using real_to_u64_scaled [OF f] by linarith+
  then have "\<bar>ldbl ?y - ?y\<bar> \<le> 1 / 2 ^ 34" using assms(2,3) by (intro ldbl_31) simp
  then show ?thesis unfolding e using y by linarith
qed

text \<open>A reading with rounding is within four roundings of the exact one.\<close>

lemma read_UTC_fp_error:
  assumes "0 \<le> rd_phat d" "vc_real v * rd_phat d + \<bar>rd_ca d\<bar> \<le> 2 ^ 31 - 400"
    and "rd_leapsec_total d \<in> {-128..<128}" "rd_leapsec_next d \<in> {-128..<128}"
  shows "\<bar>read_RADabs_UTC_fp d v False - read_RADabs_UTC d v False\<bar> \<le> 4 / 2 ^ 34"
proof -
  let ?x = "vc_real v * rd_phat d" and ?m = "rd_leapsec_expected d \<noteq> 0 \<and> v > rd_leapsec_expected d"
  have x: "0 \<le> ?x" using assms(1) by simp
  define a b c where "a = ldbl ?x" and "b = ldbl (a + rd_ca d)" and "c = ldbl (b - of_int (rd_leapsec_total d))"
  define e where "e = ldbl (c - of_int (rd_leapsec_next d))"
  have l: "\<bar>real_of_int (rd_leapsec_total d)\<bar> \<le> 128" "\<bar>real_of_int (rd_leapsec_next d)\<bar> \<le> 128" using assms(3,4) by auto
  have B: "\<bar>?x\<bar> \<le> ?x" "?x < 2 ^ 31" "?x + \<bar>rd_ca d\<bar> + 1 < 2 ^ 31" "?x + \<bar>rd_ca d\<bar> + 130 < 2 ^ 31" "?x + \<bar>rd_ca d\<bar> + 259 < 2 ^ 31"
    using x assms(2) by simp_all
  note 1 = ldbl_31_of [OF B(1,2), folded a_def]
  have "\<bar>a + rd_ca d\<bar> \<le> ?x + \<bar>rd_ca d\<bar> + 1" using 1(2) by linarith
  note 2 = ldbl_31_of [OF this B(3), folded b_def]
  have "\<bar>b - of_int (rd_leapsec_total d)\<bar> \<le> ?x + \<bar>rd_ca d\<bar> + 130" using 2(2) l(1) by linarith
  note 3 = ldbl_31_of [OF this B(4), folded c_def]
  have "\<bar>c - of_int (rd_leapsec_next d)\<bar> \<le> ?x + \<bar>rd_ca d\<bar> + 259" using 3(2) l(2) by linarith
  note 4 = ldbl_31_of [OF this B(5), folded e_def]
  have R: "read_RADabs_UTC_fp d v False = (if ?m then e else c)"
    by (simp add: read_RADabs_UTC_fp_def Let_def a_def b_def c_def e_def)
  have R': "read_RADabs_UTC d v False = ?x + rd_ca d - of_int (rd_leapsec_total d)
      - (if ?m then of_int (rd_leapsec_next d) else 0)"
    by (simp add: read_RADabs_UTC_def read_RADabs_native_def leap_correction_def)
  show ?thesis
  proof (cases ?m)
    case True
    show ?thesis unfolding R R' if_P [OF True] using 1(1) 2(1) 3(1) 4(1) by linarith
  next
    case False
    have "0 \<le> 1 / (2 ^ 34 :: real)" by simp
    then show ?thesis unfolding R R' if_not_P [OF False] using 1(1) 2(1) 3(1) by linarith
  qed
qed

text \<open>What comes back from the kernel's representation.\<close>

lemma fp_parameters:
  assumes p: "is_float 53 (rd_phat d)" "0 \<le> rd_phat d" "rd_phat d < 1"
    and t: "1 \<le> vc_real (rd_last_changed d) * rd_phat d + rd_ca d"
      "vc_real (rd_last_changed d) * rd_phat d + \<bar>rd_ca d\<bar> \<le> 2 ^ 31 - 512"
    and q: "q = vc_real (real_to_u64 (rd_phat d * 2 ^ 64)) / 2 ^ 64"
  shows "rd_phat (fill_radclock_data_fp (fill_ffclock_data_fp d)) = q"
    "\<bar>rd_ca (fill_radclock_data_fp (fill_ffclock_data_fp d)) - (rd_ca d + (rd_phat d - q) * vc_real (rd_last_changed d))\<bar>
       \<le> 5 / 2 ^ 34 + 1 / 2 ^ 64"
proof -
  define T where "T = vc_real (rd_last_changed d)"
  define a where "a = ldbl (T * rd_phat d)"
  define time where "time = ldbl (a + rd_ca d)"
  define b where "b = bintime_to_ld_fp (ld_to_bintime_fp time)"
  define r where "r = ldbl (q * T)"
  note per = period_exact [OF p q]
  have T: "0 \<le> T" by (simp add: T_def)
  have f: "ff_period (fill_ffclock_data_fp d) = real_to_u64 (rd_phat d * 2 ^ 64)"
    "ff_update_time (fill_ffclock_data_fp d) = ld_to_bintime_fp time" "ff_update_ffcount (fill_ffclock_data_fp d) = rd_last_changed d"
    by (simp_all only: fill_ffclock_data_fp_def Let_def PLOCAL_ACTIVE_def if_False per(1) ffclock_data.simps time_def a_def T_def)
  show "rd_phat (fill_radclock_data_fp (fill_ffclock_data_fp d)) = q"
    by (simp only: fill_radclock_data_fp_def Let_def f radclock_data.simps per(2,3))
  have ca: "rd_ca (fill_radclock_data_fp (fill_ffclock_data_fp d)) = ldbl (b - r)"
    by (simp only: fill_radclock_data_fp_def Let_def f radclock_data.simps per(2,3) b_def r_def T_def)
  have x: "0 \<le> T * rd_phat d" "0 \<le> q * T" "q * T \<le> T * rd_phat d"
    using T p(2) per(4,5) by (simp_all add: mult.commute mult_left_mono)
  note t' = t [folded T_def]
  have B: "\<bar>T * rd_phat d\<bar> \<le> T * rd_phat d" "T * rd_phat d < 2 ^ 31" "T * rd_phat d + \<bar>rd_ca d\<bar> + 1 < 2 ^ 31"
    "2 ^ 31 - 5 < (2 ^ 31 :: real)"
    using x t' by simp_all
  note 1 = ldbl_31_of [OF B(1,2), folded a_def]
  have "\<bar>a + rd_ca d\<bar> \<le> T * rd_phat d + \<bar>rd_ca d\<bar> + 1" using 1(2) by linarith
  note 2 = ldbl_31_of [OF this B(3), folded time_def]
  have "1 / 2 ^ 34 \<le> 1 / (4 :: real)" "1 / 2 ^ 64 \<le> 1 / (4 :: real)" by simp_all
  then have time: "0 \<le> time" "time < 2 ^ 31" using 1(1) 2 t' by linarith+
  have 3: "\<bar>b - time\<bar> \<le> 1 / 2 ^ 34 + 1 / 2 ^ 64"
    unfolding b_def by (rule bintime_fp_roundtrip [OF _ time]) (simp add: time_def)
  have 4: "\<bar>r - q * T\<bar> \<le> 1 / 2 ^ 34" unfolding r_def by (rule ldbl_31) (use x B(2) in simp)
  have "\<bar>b - r\<bar> \<le> 2 ^ 31 - 5" using 1(1) 2(1) 3 4 x t' \<open>1 / 2 ^ 34 \<le> 1 / 4\<close> \<open>1 / 2 ^ 64 \<le> 1 / 4\<close> by linarith
  note 5 = ldbl_31_of(1) [OF this B(4)]
  have "rd_ca d + (rd_phat d - q) * T = T * rd_phat d + rd_ca d - q * T" by (simp add: algebra_simps)
  then show "\<bar>rd_ca (fill_radclock_data_fp (fill_ffclock_data_fp d)) - (rd_ca d + (rd_phat d - q) * vc_real (rd_last_changed d))\<bar>
       \<le> 5 / 2 ^ 34 + 1 / 2 ^ 64"
    unfolding ca T_def [symmetric] using 1(1) 2(1) 3 4 5 by linarith
qed

text \<open>
  C26: Publishing parameters to the kernel and reading them back preserves the clock, with the
  rounding of the floating point operations on both ways and in both readings: for a period
  below one second, times between 1 s and 2^31 - 512 s after 1970 and leap second counts that
  fit the kernel's signed bytes, the recovered clock differs from the original one by at most
  13 * 2^-34 s (0.76 ns, thirteen roundings of a \<^verbatim>\<open>long double\<close> below 2^31), plus 2^-64 s and a
  further 2^-64 s per count away from the last update, at every counter value; the status, the
  leap second data and the update counter survive unchanged.
\<close>

theorem kernel_roundtrip:
  assumes p: "is_float 53 (rd_phat d)" "0 \<le> rd_phat d" "rd_phat d < 1"
    and t: "1 \<le> vc_real (rd_last_changed d) * rd_phat d + rd_ca d"
      "vc_real (rd_last_changed d) * rd_phat d + \<bar>rd_ca d\<bar> \<le> 2 ^ 31 - 512"
      "vc_real v * rd_phat d + \<bar>rd_ca d\<bar> \<le> 2 ^ 31 - 512"
    and leap: "rd_leapsec_total d \<in> {-128..<128}" "rd_leapsec_next d \<in> {-128..<128}"
  shows "\<bar>read_RADabs_UTC_fp (fill_radclock_data_fp (fill_ffclock_data_fp d)) v False - read_RADabs_UTC_fp d v False\<bar>
           \<le> 13 / 2 ^ 34 + (1 + \<bar>vc_real v - vc_real (rd_last_changed d)\<bar>) / 2 ^ 64
       \<and> rd_status (fill_radclock_data_fp (fill_ffclock_data_fp d)) = rd_status d
       \<and> rd_last_changed (fill_radclock_data_fp (fill_ffclock_data_fp d)) = rd_last_changed d
       \<and> leap_correction (fill_radclock_data_fp (fill_ffclock_data_fp d)) v = leap_correction d v"
proof -
  let ?d = "fill_radclock_data_fp (fill_ffclock_data_fp d)"
  define T q where "T = vc_real (rd_last_changed d)" and "q = vc_real (real_to_u64 (rd_phat d * 2 ^ 64)) / 2 ^ 64"
  have f: "rd_status ?d = rd_status d" "rd_last_changed ?d = rd_last_changed d"
    "rd_leapsec_total ?d = rd_leapsec_total d" "rd_leapsec_next ?d = rd_leapsec_next d"
    "rd_leapsec_expected ?d = rd_leapsec_expected d"
    using leap by (simp_all add: fill_radclock_data_fp_def fill_ffclock_data_fp_def Let_def sint_int8)
  have l: "leap_correction ?d v = leap_correction d v" by (simp add: leap_correction_def f)
  note q = period_exact(4-6) [OF p q_def] and par = fp_parameters [OF p t(1,2) q_def, folded T_def]
  have T: "0 \<le> T" "T \<le> 2 ^ 64" using unat_less_64 [of "rd_last_changed d"] by (simp_all add: T_def less_imp_le flip: of_nat_power)
  have "(rd_phat d - q) * T \<le> 1 / 2 ^ 64 * 2 ^ 64" using q T by (intro mult_mono) simp_all
  then have small: "0 \<le> (rd_phat d - q) * T" "(rd_phat d - q) * T \<le> 1" using q T by simp_all
  have "vc_real v * q \<le> vc_real v * rd_phat d" using q by (simp add: mult_left_mono)
  moreover have "5 / 2 ^ 34 \<le> 1 / (4 :: real)" "1 / 2 ^ 64 \<le> 1 / (4 :: real)" by simp_all
  then have "\<bar>rd_ca ?d\<bar> \<le> \<bar>rd_ca d\<bar> + 2" using par(2) small by linarith
  ultimately have "vc_real v * rd_phat ?d + \<bar>rd_ca ?d\<bar> \<le> 2 ^ 31 - 400" unfolding par(1) using t(3) by linarith
  moreover have "0 \<le> rd_phat ?d" using q by (simp add: par(1))
  ultimately have "\<bar>read_RADabs_UTC_fp ?d v False - read_RADabs_UTC ?d v False\<bar> \<le> 4 / 2 ^ 34"
    using leap f by (intro read_UTC_fp_error) simp_all
  moreover have "\<bar>read_RADabs_UTC_fp d v False - read_RADabs_UTC d v False\<bar> \<le> 4 / 2 ^ 34"
    by (rule read_UTC_fp_error) (use p t(3) leap in simp_all)
  moreover have "read_RADabs_UTC ?d v False - read_RADabs_UTC d v False =
      (rd_ca ?d - (rd_ca d + (rd_phat d - q) * T)) + (q - rd_phat d) * (vc_real v - T)"
    by (simp add: read_RADabs_UTC_def l read_RADabs_native_def par(1) algebra_simps)
  moreover have "\<bar>(q - rd_phat d) * (vc_real v - T)\<bar> \<le> 1 / 2 ^ 64 * \<bar>vc_real v - T\<bar>"
    unfolding abs_mult by (rule mult_right_mono) (use q in simp_all)
  moreover have "13 / 2 ^ 34 + (1 + \<bar>vc_real v - T\<bar>) / 2 ^ 64
      = 4 / 2 ^ 34 + 4 / 2 ^ 34 + (5 / 2 ^ 34 + 1 / 2 ^ 64) + 1 / 2 ^ 64 * \<bar>vc_real v - T\<bar>"
    by (simp add: add_divide_distrib)
  ultimately have "\<bar>read_RADabs_UTC_fp ?d v False - read_RADabs_UTC_fp d v False\<bar>
      \<le> 13 / 2 ^ 34 + (1 + \<bar>vc_real v - T\<bar>) / 2 ^ 64"
    using par(2) by linarith
  then show ?thesis using f l by (simp add: T_def)
qed

theorem kernel_roundtrip_witness:
  "\<bar>read_RADabs_UTC_fp (fill_radclock_data_fp (fill_ffclock_data_fp
        (null_data\<lparr>rd_phat := 3/1024, rd_ca := 1700000000, rd_last_changed := 100, rd_leapsec_total := 27\<rparr>))) 103 False
     - read_RADabs_UTC_fp (null_data\<lparr>rd_phat := 3/1024, rd_ca := 1700000000, rd_last_changed := 100, rd_leapsec_total := 27\<rparr>) 103 False\<bar>
   \<le> 13 / 2 ^ 34 + 4 / 2 ^ 64"
proof -
  have "is_float 53 (3/1024)" using is_float_scale(2) [OF is_float_of_int [of 3 53], of 10] by simp
  then show ?thesis
    using kernel_roundtrip
      [of "null_data\<lparr>rd_phat := 3/1024, rd_ca := 1700000000, rd_last_changed := 100, rd_leapsec_total := 27\<rparr>" 103]
    by (simp add: null_data_def)
qed

text \<open>
  A reading taken through the kernel never gets the good verdict. The kernel does not
  keep the expected time of the next update, so \<open>fill_radclock_data\<close> puts 0 there, and the
  quality test takes 0 for the counter value up to which the parameters are valid: every
  reading after the update is judged at best as stale, and as unusable as soon as the
  counter itself, not the age of the data, exceeds 1024 s.
\<close>

lemma kernel_quality_never_good:
  assumes "0 < vcount" "ff_update_ffcount c \<le> vcount"
  shows "raddata_quality vcount (rd_last_changed (fill_radclock_data c))
           (rd_next_expected (fill_radclock_data c)) (rd_phat (fill_radclock_data c)) =
         (if rd_phat (fill_radclock_data c) * vc_real vcount > 1024 then 3 else 2)"
proof -
  have "rd_last_changed (fill_radclock_data c) = ff_update_ffcount c"
    "rd_next_expected (fill_radclock_data c) = 0"
    by (simp_all add: fill_radclock_data_def Let_def)
  then show ?thesis using assms by (simp add: raddata_quality_def not_less [symmetric])
qed

end
