(* ===== verification/Sms_Sharing.thy ===== *)
theory Sms_Sharing
  imports Rad_Clock
begin

text \<open>
  The shared memory segment through which the daemon publishes its clock parameters
  (\<^verbatim>\<open>struct radclock_sms\<close>), its only writer (\<^verbatim>\<open>update_ipc_shared_memory\<close> of
  \<^verbatim>\<open>radclock/pthread_dataproc.c\<close>) and the readers of the library (\<^verbatim>\<open>radapi-time.c\<close>,
  \<^verbatim>\<open>radapi-getset.c\<close>).

  \<^item> The byte offsets \<^verbatim>\<open>data_off\<close>, \<^verbatim>\<open>error_off\<close> and their \<^verbatim>\<open>_old\<close> twins are represented by the
    index of the buffer they point to.
  \<^item> The writer is a step relation \<open>writer_step\<close>, one step per access to the segment. The
    two calls of \<^verbatim>\<open>memcpy\<close> may leave any contents behind while they run. A ghost list holds
    the parameters published so far.
  \<^item> A reader is a function of the list of memory states its successive loads see, so that an
    interleaving of a reader with the writer is a list of states each reachable from the
    one before. Memory is sequentially consistent.

  A locale \<open>sms_reader\<close> states what a reader has to do between its two looks at the
  generation, and proves once that what it returns belongs to one published set of
  parameters; each reader of the library is an instance.
\<close>

section \<open>The segment and its writer\<close>

record radclock_sms =
  sms_version :: int
  sms_status :: int
  sms_clockid :: int
  sms_gen :: uint32
  sms_data_off :: nat
  sms_data_off_old :: nat
  sms_error_off :: nat
  sms_error_off_old :: nat
  sms_bufdata :: "radclock_data list"
  sms_buferr :: "radclock_error list"

abbreviation no_error :: radclock_error where
  "no_error \<equiv> \<lparr>re_error_bound = 0, re_error_bound_avg = 0, re_error_bound_std = 0, re_min_RTT = 0\<rparr>"

text \<open>
  The part of \<^verbatim>\<open>sms_init_writer\<close> that touches the segment: a new segment is zeroed and its
  offsets and generation are set, one found in place is kept.
\<close>

definition sms_init_writer :: "radclock_sms option \<Rightarrow> radclock_sms" where
  "sms_init_writer found =
     (case found of
        None \<Rightarrow> \<lparr>sms_version = 1, sms_status = 0, sms_clockid = 0, sms_gen = 1,
          sms_data_off = 0, sms_data_off_old = 1, sms_error_off = 0, sms_error_off_old = 1,
          sms_bufdata = [null_data, null_data], sms_buferr = [no_error, no_error]\<rparr>
      | Some sms \<Rightarrow> sms\<lparr>sms_version := 1\<rparr>)"

definition SMS_DATA :: "radclock_sms \<Rightarrow> radclock_data" where
  "SMS_DATA sms = sms_bufdata sms ! sms_data_off sms"

definition SMS_ERROR :: "radclock_sms \<Rightarrow> radclock_error" where
  "SMS_ERROR sms = sms_buferr sms ! sms_error_off sms"

definition update_ipc_shared_memory ::
    "radclock_data \<Rightarrow> radclock_error \<Rightarrow> radclock_sms \<Rightarrow> radclock_sms" where
  "update_ipc_shared_memory d e sms =
     (let sms = sms\<lparr>sms_bufdata := (sms_bufdata sms)[sms_data_off_old sms := d]\<rparr>;
          sms = sms\<lparr>sms_buferr := (sms_buferr sms)[sms_error_off_old sms := e]\<rparr>;
          generation = sms_gen sms;
          sms = sms\<lparr>sms_gen := 0\<rparr>;
          offset_tmp = sms_data_off sms;
          sms = sms\<lparr>sms_data_off := sms_data_off_old sms\<rparr>;
          sms = sms\<lparr>sms_data_off_old := offset_tmp\<rparr>;
          offset_tmp = sms_error_off sms;
          sms = sms\<lparr>sms_error_off := sms_error_off_old sms\<rparr>;
          sms = sms\<lparr>sms_error_off_old := offset_tmp\<rparr>;
          generation = (if generation = 0 then 1 else generation + 1)
      in sms\<lparr>sms_gen := generation\<rparr>)"

text \<open>
  Where the writer stands between two accesses, with the values it holds in registers: the
  parameters being published, the saved generation, the saved offset.
\<close>

datatype writer_pc =
    W_idle
  | W_copy_data radclock_data radclock_error
  | W_copy_error radclock_data radclock_error
  | W_load_gen radclock_data radclock_error
  | W_zero_gen uint32 radclock_data radclock_error
  | W_swap_data uint32 radclock_data radclock_error
  | W_swap_data_old uint32 nat radclock_data radclock_error
  | W_swap_error uint32 radclock_data radclock_error
  | W_swap_error_old uint32 nat radclock_data radclock_error
  | W_store_gen uint32 radclock_data radclock_error

record sms_world =
  w_sms :: radclock_sms
  w_pc :: writer_pc
  w_pub :: "(radclock_data \<times> radclock_error) list"

inductive writer_step :: "sms_world \<Rightarrow> sms_world \<Rightarrow> bool" where
  start: "writer_step \<lparr>w_sms = s, w_pc = W_idle, w_pub = ps\<rparr>
            \<lparr>w_sms = s, w_pc = W_copy_data d e, w_pub = ps\<rparr>"
| tear_data: "writer_step \<lparr>w_sms = s, w_pc = W_copy_data d e, w_pub = ps\<rparr>
            \<lparr>w_sms = s\<lparr>sms_bufdata := (sms_bufdata s)[sms_data_off_old s := d']\<rparr>,
             w_pc = W_copy_data d e, w_pub = ps\<rparr>"
| copy_data: "writer_step \<lparr>w_sms = s, w_pc = W_copy_data d e, w_pub = ps\<rparr>
            \<lparr>w_sms = s\<lparr>sms_bufdata := (sms_bufdata s)[sms_data_off_old s := d]\<rparr>,
             w_pc = W_copy_error d e, w_pub = ps\<rparr>"
| tear_error: "writer_step \<lparr>w_sms = s, w_pc = W_copy_error d e, w_pub = ps\<rparr>
            \<lparr>w_sms = s\<lparr>sms_buferr := (sms_buferr s)[sms_error_off_old s := e']\<rparr>,
             w_pc = W_copy_error d e, w_pub = ps\<rparr>"
| copy_error: "writer_step \<lparr>w_sms = s, w_pc = W_copy_error d e, w_pub = ps\<rparr>
            \<lparr>w_sms = s\<lparr>sms_buferr := (sms_buferr s)[sms_error_off_old s := e]\<rparr>,
             w_pc = W_load_gen d e, w_pub = ps\<rparr>"
| load_gen: "writer_step \<lparr>w_sms = s, w_pc = W_load_gen d e, w_pub = ps\<rparr>
            \<lparr>w_sms = s, w_pc = W_zero_gen (sms_gen s) d e, w_pub = ps\<rparr>"
| zero_gen: "writer_step \<lparr>w_sms = s, w_pc = W_zero_gen g d e, w_pub = ps\<rparr>
            \<lparr>w_sms = s\<lparr>sms_gen := 0\<rparr>, w_pc = W_swap_data g d e, w_pub = ps\<rparr>"
| swap_data: "writer_step \<lparr>w_sms = s, w_pc = W_swap_data g d e, w_pub = ps\<rparr>
            \<lparr>w_sms = s\<lparr>sms_data_off := sms_data_off_old s\<rparr>,
             w_pc = W_swap_data_old g (sms_data_off s) d e, w_pub = ps\<rparr>"
| swap_data_old: "writer_step \<lparr>w_sms = s, w_pc = W_swap_data_old g tmp d e, w_pub = ps\<rparr>
            \<lparr>w_sms = s\<lparr>sms_data_off_old := tmp\<rparr>, w_pc = W_swap_error g d e, w_pub = ps\<rparr>"
| swap_error: "writer_step \<lparr>w_sms = s, w_pc = W_swap_error g d e, w_pub = ps\<rparr>
            \<lparr>w_sms = s\<lparr>sms_error_off := sms_error_off_old s\<rparr>,
             w_pc = W_swap_error_old g (sms_error_off s) d e, w_pub = ps\<rparr>"
| swap_error_old: "writer_step \<lparr>w_sms = s, w_pc = W_swap_error_old g tmp d e, w_pub = ps\<rparr>
            \<lparr>w_sms = s\<lparr>sms_error_off_old := tmp\<rparr>, w_pc = W_store_gen g d e, w_pub = ps\<rparr>"
| store_gen: "writer_step \<lparr>w_sms = s, w_pc = W_store_gen g d e, w_pub = ps\<rparr>
            \<lparr>w_sms = s\<lparr>sms_gen := (if g = 0 then 1 else g + 1)\<rparr>,
             w_pc = W_idle, w_pub = ps @ [(d, e)]\<rparr>"

abbreviation writer_steps :: "sms_world \<Rightarrow> sms_world \<Rightarrow> bool" where
  "writer_steps \<equiv> writer_step\<^sup>*\<^sup>*"

definition sms_start :: sms_world where
  "sms_start = \<lparr>w_sms = sms_init_writer None, w_pc = W_idle, w_pub = [(null_data, no_error)]\<rparr>"

section \<open>Invariant of the segment\<close>

text \<open>
  While the writer is outside its critical section the generation counts the publications
  (modulo its width) and the current buffers hold the last one; inside it the generation is
  0. The counters \<open>stage\<close> order the points of an update.
\<close>

fun in_swap :: "writer_pc \<Rightarrow> bool" where
  "in_swap (W_swap_data _ _ _) = True"
| "in_swap (W_swap_data_old _ _ _ _) = True"
| "in_swap (W_swap_error _ _ _) = True"
| "in_swap (W_swap_error_old _ _ _ _) = True"
| "in_swap (W_store_gen _ _ _) = True"
| "in_swap _ = False"

definition offsets_ok :: "radclock_sms \<Rightarrow> bool" where
  "offsets_ok s \<longleftrightarrow> length (sms_bufdata s) = 2 \<and> length (sms_buferr s) = 2
     \<and> sms_data_off s < 2 \<and> sms_error_off s < 2"

fun pc_ok :: "writer_pc \<Rightarrow> radclock_sms \<Rightarrow> nat \<Rightarrow> bool" where
  "pc_ok W_idle s n \<longleftrightarrow>
     sms_data_off_old s = 1 - sms_data_off s \<and> sms_error_off_old s = 1 - sms_error_off s"
| "pc_ok (W_copy_data d e) s n \<longleftrightarrow>
     sms_data_off_old s = 1 - sms_data_off s \<and> sms_error_off_old s = 1 - sms_error_off s"
| "pc_ok (W_copy_error d e) s n \<longleftrightarrow>
     sms_data_off_old s = 1 - sms_data_off s \<and> sms_error_off_old s = 1 - sms_error_off s
     \<and> sms_bufdata s ! sms_data_off_old s = d"
| "pc_ok (W_load_gen d e) s n \<longleftrightarrow>
     sms_data_off_old s = 1 - sms_data_off s \<and> sms_error_off_old s = 1 - sms_error_off s
     \<and> sms_bufdata s ! sms_data_off_old s = d \<and> sms_buferr s ! sms_error_off_old s = e"
| "pc_ok (W_zero_gen g d e) s n \<longleftrightarrow> g = of_nat n \<and>
     sms_data_off_old s = 1 - sms_data_off s \<and> sms_error_off_old s = 1 - sms_error_off s
     \<and> sms_bufdata s ! sms_data_off_old s = d \<and> sms_buferr s ! sms_error_off_old s = e"
| "pc_ok (W_swap_data g d e) s n \<longleftrightarrow> g = of_nat n \<and>
     sms_data_off_old s = 1 - sms_data_off s \<and> sms_error_off_old s = 1 - sms_error_off s
     \<and> sms_bufdata s ! sms_data_off_old s = d \<and> sms_buferr s ! sms_error_off_old s = e"
| "pc_ok (W_swap_data_old g tmp d e) s n \<longleftrightarrow> g = of_nat n \<and>
     tmp = 1 - sms_data_off s \<and> sms_error_off_old s = 1 - sms_error_off s
     \<and> sms_bufdata s ! sms_data_off s = d \<and> sms_buferr s ! sms_error_off_old s = e"
| "pc_ok (W_swap_error g d e) s n \<longleftrightarrow> g = of_nat n \<and>
     sms_data_off_old s = 1 - sms_data_off s \<and> sms_error_off_old s = 1 - sms_error_off s
     \<and> sms_bufdata s ! sms_data_off s = d \<and> sms_buferr s ! sms_error_off_old s = e"
| "pc_ok (W_swap_error_old g tmp d e) s n \<longleftrightarrow> g = of_nat n \<and>
     sms_data_off_old s = 1 - sms_data_off s \<and> tmp = 1 - sms_error_off s
     \<and> sms_bufdata s ! sms_data_off s = d \<and> sms_buferr s ! sms_error_off s = e"
| "pc_ok (W_store_gen g d e) s n \<longleftrightarrow> g = of_nat n \<and>
     sms_data_off_old s = 1 - sms_data_off s \<and> sms_error_off_old s = 1 - sms_error_off s
     \<and> sms_bufdata s ! sms_data_off s = d \<and> sms_buferr s ! sms_error_off s = e"

definition sms_inv :: "sms_world \<Rightarrow> bool" where
  "sms_inv w \<longleftrightarrow> offsets_ok (w_sms w) \<and> w_pub w \<noteq> []
     \<and> pc_ok (w_pc w) (w_sms w) (length (w_pub w))
     \<and> (if in_swap (w_pc w) then sms_gen (w_sms w) = 0
        else sms_gen (w_sms w) = of_nat (length (w_pub w))
             \<and> (SMS_DATA (w_sms w), SMS_ERROR (w_sms w)) = last (w_pub w))"

lemma sms_inv_start: "sms_inv sms_start"
  by (simp add: sms_inv_def sms_start_def sms_init_writer_def offsets_ok_def SMS_DATA_def
      SMS_ERROR_def)

lemma one_minus_neq: "(a :: nat) < 2 \<Longrightarrow> 1 - a \<noteq> a" "(a :: nat) < 2 \<Longrightarrow> 1 - a < 2"
  "(a :: nat) < 2 \<Longrightarrow> 1 - (1 - a) = a"
  by arith+

lemma sms_inv_step: "writer_step w w' \<Longrightarrow> sms_inv w \<Longrightarrow> sms_inv w'"
proof (induction rule: writer_step.induct)
qed (auto simp: sms_inv_def offsets_ok_def SMS_DATA_def SMS_ERROR_def one_minus_neq add.commute
       simp del: One_nat_def)

lemma sms_inv_steps: "writer_steps w w' \<Longrightarrow> sms_inv w \<Longrightarrow> sms_inv w'"
  by (induction rule: rtranclp_induct) (auto intro: sms_inv_step)

lemma writer_chain: "writer_step a b \<Longrightarrow> writer_steps b z \<Longrightarrow> writer_steps a z"
  by (rule converse_rtranclp_into_rtranclp)

lemma steps_to_zero:
  "writer_steps \<lparr>w_sms = s, w_pc = W_idle, w_pub = ps\<rparr>
     \<lparr>w_sms = s\<lparr>sms_bufdata := (sms_bufdata s)[sms_data_off_old s := d],
        sms_buferr := (sms_buferr s)[sms_error_off_old s := e], sms_gen := 0\<rparr>,
      w_pc = W_swap_data (sms_gen s) d e, w_pub = ps\<rparr>"
  by (rule writer_chain [OF start [where d = d and e = e]], rule writer_chain [OF copy_data],
      rule writer_chain [OF copy_error], rule writer_chain [OF load_gen],
      rule writer_chain [OF zero_gen]) simp

lemma steps_from_swap:
  "writer_steps \<lparr>w_sms = s, w_pc = W_swap_data_old g tmp d e, w_pub = ps\<rparr>
     \<lparr>w_sms = s\<lparr>sms_data_off_old := tmp, sms_error_off := sms_error_off_old s,
        sms_error_off_old := sms_error_off s, sms_gen := (if g = 0 then 1 else g + 1)\<rparr>,
      w_pc = W_idle, w_pub = ps @ [(d, e)]\<rparr>"
  by (rule writer_chain [OF swap_data_old], rule writer_chain [OF swap_error],
      rule writer_chain [OF swap_error_old], rule writer_chain [OF store_gen]) simp

text \<open>The steps of one update, run without a torn copy, are \<open>update_ipc_shared_memory\<close>.\<close>

lemma update_ipc_steps:
  "writer_steps \<lparr>w_sms = s, w_pc = W_idle, w_pub = ps\<rparr>
     \<lparr>w_sms = update_ipc_shared_memory d e s, w_pc = W_idle, w_pub = ps @ [(d, e)]\<rparr>"
proof -
  let ?t = "s\<lparr>sms_bufdata := (sms_bufdata s)[sms_data_off_old s := d],
     sms_buferr := (sms_buferr s)[sms_error_off_old s := e], sms_gen := 0\<rparr>"
  have "writer_steps \<lparr>w_sms = ?t, w_pc = W_swap_data (sms_gen s) d e, w_pub = ps\<rparr>
      \<lparr>w_sms = update_ipc_shared_memory d e s, w_pc = W_idle, w_pub = ps @ [(d, e)]\<rparr>"
    using writer_chain [OF swap_data steps_from_swap, of ?t "sms_gen s" d e ps]
    by (cases s) (simp add: update_ipc_shared_memory_def Let_def cong: if_cong split del: if_split)
  with steps_to_zero show ?thesis by (rule rtranclp_trans)
qed

section \<open>Nothing moves while the generation stands\<close>

text \<open>Position of the writer: an even number outside the critical section, an odd one inside.\<close>

definition w_rank :: "sms_world \<Rightarrow> nat" where
  "w_rank w = 2 * length (w_pub w) + (if in_swap (w_pc w) then 1 else 0)"

lemma w_rank_step: "writer_step w w' \<Longrightarrow> w_rank w \<le> w_rank w'"
  by (induction rule: writer_step.induct) (simp_all add: w_rank_def)

lemma w_rank_steps: "writer_steps w w' \<Longrightarrow> w_rank w \<le> w_rank w'"
  by (induction rule: rtranclp_induct) (auto dest: w_rank_step)

definition sms_view :: "radclock_sms \<Rightarrow> nat \<times> nat \<times> radclock_data \<times> radclock_error" where
  "sms_view s = (sms_data_off s, sms_error_off s, SMS_DATA s, SMS_ERROR s)"

lemma view_step:
  "writer_step w w' \<Longrightarrow> sms_inv w \<Longrightarrow> \<not> in_swap (w_pc w) \<Longrightarrow> w_rank w' = w_rank w \<Longrightarrow>
   sms_view (w_sms w') = sms_view (w_sms w) \<and> \<not> in_swap (w_pc w')"
  by (induction rule: writer_step.induct)
     (auto simp: w_rank_def sms_inv_def offsets_ok_def sms_view_def SMS_DATA_def SMS_ERROR_def
       one_minus_neq simp del: One_nat_def)

lemma view_steps:
  assumes "writer_steps w w'" "sms_inv w" "\<not> in_swap (w_pc w)" "w_rank w' = w_rank w"
  shows "sms_view (w_sms w') = sms_view (w_sms w)"
proof -
  have "w_rank w' = w_rank w \<longrightarrow>
      sms_view (w_sms w') = sms_view (w_sms w) \<and> \<not> in_swap (w_pc w')"
    using assms(1)
  proof (induction rule: rtranclp_induct)
    case base
    then show ?case using assms(3) by simp
  next
    case (step y z)
    have "w_rank w \<le> w_rank y" "w_rank y \<le> w_rank z"
      using step.hyps by (auto intro: w_rank_steps w_rank_step)
    moreover have "sms_inv y" using step.hyps(1) assms(2) by (rule sms_inv_steps)
    ultimately show ?case using step view_step [OF step.hyps(2)] by auto
  qed
  then show ?thesis using assms(4) by simp
qed

lemma of_nat_word_eq_close:
  assumes "(of_nat n :: 'a::len word) = of_nat m" "n \<le> m" "m < n + 2 ^ LENGTH('a)"
  shows "n = m"
  using assms by (metis mod_eq_close unat_of_nat)

lemma gen_rank:
  assumes inv: "sms_inv w" "sms_inv w'" and le: "w_rank w \<le> w_rank w'"
    and gen: "sms_gen (w_sms w) = sms_gen (w_sms w')" "sms_gen (w_sms w) \<noteq> 0"
    and bound: "length (w_pub w') < length (w_pub w) + 2 ^ 32"
  shows "w_rank w = w_rank w'" "\<not> in_swap (w_pc w)"
proof -
  have n: "\<not> in_swap (w_pc w)" "\<not> in_swap (w_pc w')"
    using inv gen by (auto simp: sms_inv_def split: if_splits)
  moreover have "length (w_pub w) \<le> length (w_pub w')" using le n by (simp add: w_rank_def)
  then have "length (w_pub w) = length (w_pub w')"
    using inv gen(1) n bound
    by (intro of_nat_word_eq_close [where 'a = 32]) (auto simp: sms_inv_def)
  ultimately show "w_rank w = w_rank w'" "\<not> in_swap (w_pc w)" by (simp_all add: w_rank_def)
qed

lemma view_between:
  assumes "sms_inv w" "writer_steps w u" "writer_steps u w'"
    and "sms_gen (w_sms w) = sms_gen (w_sms w')" "sms_gen (w_sms w) \<noteq> 0"
    and "length (w_pub w') < length (w_pub w) + 2 ^ 32"
  shows "sms_view (w_sms u) = sms_view (w_sms w)"
proof -
  have "w_rank w \<le> w_rank u" "w_rank u \<le> w_rank w'" using assms by (auto intro: w_rank_steps)
  moreover have "sms_inv w'" using assms by (meson sms_inv_steps)
  moreover note gen_rank [of w w']
  ultimately show ?thesis using assms by (intro view_steps) auto
qed

section \<open>Readers as sequences of loads\<close>

text \<open>
  A reader consumes one memory state per load. \<open>ld f k\<close> loads a value and continues with \<open>k\<close>;
  running out of states is \<open>None\<close>.
\<close>

type_synonym 'a reader = "radclock_sms list \<Rightarrow> ('a \<times> radclock_sms list) option"

definition ld :: "(radclock_sms \<Rightarrow> 'a) \<Rightarrow> ('a \<Rightarrow> 'b reader) \<Rightarrow> 'b reader" where
  "ld f k ss = (case ss of [] \<Rightarrow> None | s # r \<Rightarrow> k (f s) r)"

definition ret :: "'a \<Rightarrow> 'a reader" where
  "ret x ss = Some (x, ss)"

definition rd_bind :: "'a reader \<Rightarrow> ('a \<Rightarrow> 'b reader) \<Rightarrow> 'b reader" where
  "rd_bind m k ss = (case m ss of None \<Rightarrow> None | Some (x, r) \<Rightarrow> k x r)"

text \<open>\<^verbatim>\<open>SMS_DATA(sms)->field\<close> and \<^verbatim>\<open>SMS_ERROR(sms)->field\<close>: load the offset, then the field.\<close>

definition ld_data :: "(radclock_data \<Rightarrow> 'a) \<Rightarrow> ('a \<Rightarrow> 'b reader) \<Rightarrow> 'b reader" where
  "ld_data fld k = ld sms_data_off (\<lambda>p. ld (\<lambda>s. fld (sms_bufdata s ! p)) k)"

definition ld_error :: "(radclock_error \<Rightarrow> 'a) \<Rightarrow> ('a \<Rightarrow> 'b reader) \<Rightarrow> 'b reader" where
  "ld_error fld k = ld sms_error_off (\<lambda>p. ld (\<lambda>s. fld (sms_buferr s ! p)) k)"

text \<open>
  The loop \<^verbatim>\<open>do ... while (generation != sms->gen || !sms->gen)\<close> around a body of loads. The
  condition loads the generation once or twice. The result carries the generation the last
  pass started from.
\<close>

partial_function (option) sms_retry ::
    "(radclock_sms list \<Rightarrow> ('a \<times> radclock_sms list) option) \<Rightarrow> radclock_sms list
      \<Rightarrow> ((uint32 \<times> 'a) \<times> radclock_sms list) option" where
  "sms_retry body ss =
     Option.bind (ld sms_gen ret ss) (\<lambda>(generation, r).
     Option.bind (body r) (\<lambda>(x, r).
     Option.bind (ld sms_gen ret r) (\<lambda>(gen_again, r).
       if generation \<noteq> gen_again then sms_retry body r
       else Option.bind (ld sms_gen ret r) (\<lambda>(gen_zero, r).
         if gen_zero = 0 then sms_retry body r
         else Some ((generation, x), r)))))"

text \<open>
  One pass of the loop of \<^verbatim>\<open>read_RADabs_UTC\<close> through the pointer \<open>p\<close>: the time and whether
  \<^verbatim>\<open>last_changed\<close> moved, then the loop, then the leap second correction.
\<close>

definition RADabs_pass :: "nat \<Rightarrow> vcounter_t \<Rightarrow> bool \<Rightarrow> (real \<times> bool) reader" where
  "RADabs_pass p vcount useplocal =
     ld (\<lambda>s. rd_last_changed (sms_bufdata s ! p)) (\<lambda>lst.
     ld (\<lambda>s. rd_phat (sms_bufdata s ! p)) (\<lambda>phat.
     ld (\<lambda>s. rd_ca (sms_bufdata s ! p)) (\<lambda>ca.
     rd_bind
       (if useplocal then
          ld (\<lambda>s. rd_phat (sms_bufdata s ! p)) (\<lambda>ph.
          ld (\<lambda>s. rd_phat_local (sms_bufdata s ! p)) (\<lambda>pl.
            if ph \<noteq> pl then
              ld (\<lambda>s. rd_phat_local (sms_bufdata s ! p)) (\<lambda>pl.
              ld (\<lambda>s. rd_phat (sms_bufdata s ! p)) (\<lambda>ph.
                ret (vc_real vcount * phat + ca + (vc_real vcount - vc_real lst) * (pl - ph))))
            else ret (vc_real vcount * phat + ca)))
        else ret (vc_real vcount * phat + ca))
       (\<lambda>time. ld (\<lambda>s. rd_last_changed (sms_bufdata s ! p)) (\<lambda>lst'. ret (time, lst \<noteq> lst'))))))"

partial_function (option) RADabs_loop ::
    "nat \<Rightarrow> vcounter_t \<Rightarrow> bool \<Rightarrow> radclock_sms list \<Rightarrow> (real \<times> radclock_sms list) option" where
  "RADabs_loop p vcount useplocal ss =
     Option.bind (RADabs_pass p vcount useplocal ss) (\<lambda>((time, moved), r).
       if moved then RADabs_loop p vcount useplocal r else Some (time, r))"

definition read_RADabs_UTC_sms :: "nat \<Rightarrow> vcounter_t \<Rightarrow> bool \<Rightarrow> real reader" where
  "read_RADabs_UTC_sms p vcount useplocal =
     rd_bind (RADabs_loop p vcount useplocal) (\<lambda>time.
     ld (\<lambda>s. rd_leapsec_total (sms_bufdata s ! p)) (\<lambda>total.
     ld (\<lambda>s. rd_leapsec_expected (sms_bufdata s ! p)) (\<lambda>expected.
       if expected \<noteq> 0 then
         ld (\<lambda>s. rd_leapsec_expected (sms_bufdata s ! p)) (\<lambda>expected.
           if vcount > expected then
             ld (\<lambda>s. rd_leapsec_next (sms_bufdata s ! p)) (\<lambda>nxt.
               ret (time - of_int total - of_int nxt))
           else ret (time - of_int total))
       else ret (time - of_int total))))"

section \<open>The readers of the library\<close>

text \<open>\<open>mode_on\<close> is \<^verbatim>\<open>clock->local_period_mode == RADCLOCK_LOCAL_PERIOD_ON\<close>.\<close>

definition abstime_body ::
    "bool \<Rightarrow> vcounter_t \<Rightarrow> (vcounter_t \<times> vcounter_t \<times> real \<times> real) reader" where
  "abstime_body mode_on vcount =
     ld_data rd_next_expected (\<lambda>valid.
     ld_data rd_last_changed (\<lambda>lst.
     ld_data rd_phat (\<lambda>phat.
     ld sms_data_off (\<lambda>p.
     rd_bind (read_RADabs_UTC_sms p vcount mode_on) (\<lambda>time. ret (valid, lst, phat, time))))))"

definition ffcounter_to_abstime_sms :: "bool \<Rightarrow> vcounter_t \<Rightarrow> (real \<times> int) reader" where
  "ffcounter_to_abstime_sms mode_on vcount =
     rd_bind (sms_retry (abstime_body mode_on vcount)) (\<lambda>(generation, valid, lst, phat, time).
       ret (time, raddata_quality vcount lst valid phat))"

definition difftime_body ::
    "bool \<Rightarrow> vcounter_t \<Rightarrow> vcounter_t \<Rightarrow> (vcounter_t \<times> vcounter_t \<times> real \<times> real) reader" where
  "difftime_body mode_on from_vcount till_vcount =
     ld_data rd_next_expected (\<lambda>valid.
     ld_data rd_last_changed (\<lambda>lst.
     ld_data rd_phat (\<lambda>phat.
     ld_data (if mode_on then rd_phat_local else rd_phat) (\<lambda>period.
       ret (valid, lst, phat, vc_real (till_vcount - from_vcount) * period)))))"

text \<open>
  \<open>now\<close> is what the call of \<^verbatim>\<open>radclock_get_vcounter\<close> in the body returns and stores: the code
  and the counter. On a failed read no time is stored.
\<close>

definition ffcounter_to_difftime_sms ::
    "bool \<Rightarrow> int \<times> vcounter_t \<Rightarrow> vcounter_t \<Rightarrow> vcounter_t \<Rightarrow> (real option \<times> int) reader" where
  "ffcounter_to_difftime_sms mode_on now from_vcount till_vcount =
     (if fst now \<noteq> 0 then ret (None, 1)
      else rd_bind (sms_retry (difftime_body mode_on from_vcount till_vcount))
        (\<lambda>(generation, valid, lst, phat, time).
          ret (Some time, raddata_quality (snd now) lst valid phat)))"

definition in_SKMwin :: "vcounter_t \<Rightarrow> vcounter_t \<Rightarrow> bool reader" where
  "in_SKMwin past_count now =
     ld_data rd_phat (\<lambda>phat. ret (vc_real (now - past_count) * phat < 1024))"

text \<open>The kernel fall-backs. \<open>cdat\<close> is what \<^verbatim>\<open>get_kernel_ffclock\<close> gives, \<open>None\<close> on failure.\<close>

definition ffcounter_to_abstime_kernel ::
    "ffclock_data option \<Rightarrow> vcounter_t \<Rightarrow> real option \<times> int" where
  "ffcounter_to_abstime_kernel cdat vcount =
     (case cdat of
        None \<Rightarrow> (None, 1)
      | Some c \<Rightarrow>
          (let rad_data = fill_radclock_data c
           in (Some (read_RADabs_UTC rad_data vcount False),
               raddata_quality vcount (rd_last_changed rad_data) (rd_next_expected rad_data)
                 (rd_phat rad_data))))"

definition ffcounter_to_difftime_kernel ::
    "ffclock_data option \<Rightarrow> int \<times> vcounter_t \<Rightarrow> vcounter_t \<Rightarrow> vcounter_t \<Rightarrow> real option \<times> int" where
  "ffcounter_to_difftime_kernel cdat now from_vcount till_vcount =
     (if fst now \<noteq> 0 then (None, 1)
      else case cdat of
        None \<Rightarrow> (None, 1)
      | Some c \<Rightarrow>
          (let rad_data = fill_radclock_data c
           in (Some ((vc_real till_vcount - vc_real from_vcount) * rd_phat_local rad_data),
               raddata_quality (snd now) (rd_last_changed rad_data) (rd_next_expected rad_data)
                 (rd_phat rad_data))))"

text \<open>
  The handle of a library user: whether the segment is attached and the period mode.
  Pointers that may be NULL are options. A result is what is stored through the output
  pointer, if anything, and the return code.
\<close>

record radclock =
  rc_ipc_sms :: bool
  rc_local_period_on :: bool

datatype radclock_local_period_t = RADCLOCK_LOCAL_PERIOD_ON | RADCLOCK_LOCAL_PERIOD_OFF

text \<open>
  A fresh handle, and the setting of the period mode: \<open>None\<close> for a NULL pointer, \<open>Some None\<close> for
  a value outside the enumeration.
\<close>

definition radclock_create :: radclock where
  "radclock_create = \<lparr>rc_ipc_sms = False, rc_local_period_on = True\<rparr>"

definition radclock_set_local_period_mode ::
    "radclock option \<Rightarrow> radclock_local_period_t option option \<Rightarrow> radclock option \<times> int" where
  "radclock_set_local_period_mode clock mode =
     (case (clock, mode) of
        (Some c, Some (Some m)) \<Rightarrow>
          (Some (c\<lparr>rc_local_period_on := (m = RADCLOCK_LOCAL_PERIOD_ON)\<rparr>), 0)
      | _ \<Rightarrow> (clock, 1))"

definition radclock_get_local_period_mode ::
    "radclock option \<Rightarrow> bool \<Rightarrow> radclock_local_period_t option \<times> int" where
  "radclock_get_local_period_mode clock dest =
     (case clock of
        None \<Rightarrow> (None, 1)
      | Some c \<Rightarrow>
          if dest
          then (Some (if rc_local_period_on c then RADCLOCK_LOCAL_PERIOD_ON else RADCLOCK_LOCAL_PERIOD_OFF), 0)
          else (None, 1))"

definition radclock_gettime ::
    "radclock option \<Rightarrow> bool \<Rightarrow> int \<times> vcounter_t \<Rightarrow> ffclock_data option \<Rightarrow> (real option \<times> int) reader" where
  "radclock_gettime clock abstime counter cdat =
     (case clock of
        None \<Rightarrow> ret (None, 1)
      | Some c \<Rightarrow>
          if \<not> abstime then ret (None, 1)
          else if fst counter < 0 then ret (None, 1)
          else if rc_ipc_sms c then
            rd_bind (ffcounter_to_abstime_sms (rc_local_period_on c) (snd counter))
              (\<lambda>(time, quality). ret (Some time, quality))
          else ret (ffcounter_to_abstime_kernel cdat (snd counter)))"

definition radclock_vcount_to_abstime ::
    "radclock option \<Rightarrow> vcounter_t option \<Rightarrow> bool \<Rightarrow> ffclock_data option \<Rightarrow> (real option \<times> int) reader" where
  "radclock_vcount_to_abstime clock vcount abstime cdat =
     (case (clock, vcount) of
        (Some c, Some v) \<Rightarrow>
          if \<not> abstime then ret (None, 1)
          else if rc_ipc_sms c then
            rd_bind (ffcounter_to_abstime_sms (rc_local_period_on c) v)
              (\<lambda>(time, quality). ret (Some time, quality))
          else ret (ffcounter_to_abstime_kernel cdat v)
      | _ \<Rightarrow> ret (None, 1))"

text \<open>
  \<open>counter\<close> is the reading of the function itself, \<open>now\<close> the one of the difference clock. The
  stored duration stands even when the window test makes the function return 1.
\<close>

definition radclock_duration ::
    "radclock option \<Rightarrow> vcounter_t option \<Rightarrow> vcounter_t option \<Rightarrow> bool
      \<Rightarrow> int \<times> vcounter_t \<Rightarrow> int \<times> vcounter_t \<Rightarrow> ffclock_data option \<Rightarrow> (real option \<times> int) reader" where
  "radclock_duration clock from_vcount till_vcount duration counter now cdat =
     (case (clock, from_vcount, till_vcount) of
        (Some c, Some from, Some till) \<Rightarrow>
          if \<not> duration then ret (None, 1)
          else if fst counter < 0 then ret (None, 1)
          else if rc_ipc_sms c then
            rd_bind (ffcounter_to_difftime_sms (rc_local_period_on c) now from till)
              (\<lambda>(time, quality). rd_bind (in_SKMwin from (snd counter))
                (\<lambda>inside. ret (time, if inside then quality else 1)))
          else ret (ffcounter_to_difftime_kernel cdat now from till)
      | _ \<Rightarrow> ret (None, 1))"

definition radclock_elapsed ::
    "radclock option \<Rightarrow> vcounter_t option \<Rightarrow> bool
      \<Rightarrow> int \<times> vcounter_t \<Rightarrow> int \<times> vcounter_t \<Rightarrow> ffclock_data option \<Rightarrow> (real option \<times> int) reader" where
  "radclock_elapsed clock from_vcount duration counter now cdat =
     (case (clock, from_vcount) of
        (Some c, Some from) \<Rightarrow>
          if \<not> duration then ret (None, 1)
          else if fst counter < 0 then ret (None, 1)
          else if rc_ipc_sms c then
            rd_bind (ffcounter_to_difftime_sms (rc_local_period_on c) now from (snd counter))
              (\<lambda>(time, quality). rd_bind (in_SKMwin from (snd counter))
                (\<lambda>inside. ret (time, if inside then quality else 1)))
          else ret (ffcounter_to_difftime_kernel cdat now from (snd counter))
      | _ \<Rightarrow> ret (None, 1))"

text \<open>The getters of \<^verbatim>\<open>radapi-getset.c\<close>: a field of the parameters, or of the error metrics.\<close>

definition get_data_field ::
    "(radclock_data \<Rightarrow> 'a) \<Rightarrow> radclock option \<Rightarrow> bool \<Rightarrow> ffclock_data option \<Rightarrow> ('a option \<times> int) reader" where
  "get_data_field fld clock dest cdat =
     (case clock of
        None \<Rightarrow> ret (None, 1)
      | Some c \<Rightarrow>
          if \<not> dest then ret (None, 1)
          else if rc_ipc_sms c then
            rd_bind (sms_retry (ld_data fld ret)) (\<lambda>(generation, x). ret (Some x, 0))
          else (case cdat of
              None \<Rightarrow> ret (None, 1)
            | Some k \<Rightarrow> ret (Some (fld (fill_radclock_data k)), 0)))"

definition get_error_field ::
    "(radclock_error \<Rightarrow> 'a) \<Rightarrow> radclock option \<Rightarrow> bool \<Rightarrow> ('a option \<times> int) reader" where
  "get_error_field fld clock dest =
     (case clock of
        None \<Rightarrow> ret (None, 1)
      | Some c \<Rightarrow>
          if \<not> dest then ret (None, 1)
          else if \<not> rc_ipc_sms c then ret (None, 1)
          else rd_bind (sms_retry (ld_error fld ret)) (\<lambda>(generation, x). ret (Some x, 0)))"

definition radclock_get_last_changed where "radclock_get_last_changed = get_data_field rd_last_changed"
definition radclock_get_next_expected where "radclock_get_next_expected = get_data_field rd_next_expected"
definition radclock_get_period where "radclock_get_period = get_data_field rd_phat"
definition radclock_get_bootoffset where "radclock_get_bootoffset = get_data_field rd_ca"
definition radclock_get_period_error where "radclock_get_period_error = get_data_field rd_phat_err"
definition radclock_get_bootoffset_error where "radclock_get_bootoffset_error = get_data_field rd_ca_err"
definition radclock_get_status where "radclock_get_status = get_data_field rd_status"
definition radclock_get_clockerror_bound where
  "radclock_get_clockerror_bound = get_error_field re_error_bound"
definition radclock_get_clockerror_bound_avg where
  "radclock_get_clockerror_bound_avg = get_error_field re_error_bound_avg"
definition radclock_get_clockerror_bound_std where
  "radclock_get_clockerror_bound_std = get_error_field re_error_bound_std"
definition radclock_get_min_RTT where "radclock_get_min_RTT = get_error_field re_min_RTT"

section \<open>What a body of loads returns\<close>

definition holds_view :: "nat \<Rightarrow> nat \<Rightarrow> radclock_data \<Rightarrow> radclock_error \<Rightarrow> radclock_sms \<Rightarrow> bool" where
  "holds_view p q d e s \<longleftrightarrow> sms_view s = (p, q, d, e)"

lemma holds_viewD [dest]:
  assumes "holds_view p q d e s"
  shows "sms_data_off s = p" "sms_error_off s = q" "sms_bufdata s ! p = d" "sms_buferr s ! q = e"
  using assms by (auto simp: holds_view_def sms_view_def SMS_DATA_def SMS_ERROR_def)

text \<open>
  \<open>reads m P v\<close>: the states a run of \<open>m\<close> consumes are a prefix of its input, and if \<open>P\<close> holds in
  all of them the result is \<open>v\<close>. \<open>prompt m P v n\<close>: on states that all satisfy \<open>P\<close> the reader
  returns \<open>v\<close> after at most \<open>n\<close> loads.
\<close>

definition reads :: "'a reader \<Rightarrow> (radclock_sms \<Rightarrow> bool) \<Rightarrow> 'a \<Rightarrow> bool" where
  "reads m P v \<longleftrightarrow> (\<forall>ss x r. m ss = Some (x, r) \<longrightarrow>
     (\<exists>used. ss = used @ r \<and> ((\<forall>s\<in>set used. P s) \<longrightarrow> x = v)))"

definition prompt :: "'a reader \<Rightarrow> (radclock_sms \<Rightarrow> bool) \<Rightarrow> 'a \<Rightarrow> nat \<Rightarrow> bool" where
  "prompt m P v n \<longleftrightarrow> (\<forall>ss. n \<le> length ss \<longrightarrow> (\<forall>s\<in>set ss. P s) \<longrightarrow>
     (\<exists>k\<le>n. m ss = Some (v, drop k ss)))"

lemma readsI:
  "(\<And>ss x r. m ss = Some (x, r) \<Longrightarrow> \<exists>used. ss = used @ r \<and> ((\<forall>s\<in>set used. P s) \<longrightarrow> x = v))
   \<Longrightarrow> reads m P v"
  by (simp add: reads_def)

lemma readsE:
  assumes "reads m P v" "m ss = Some (x, r)"
  obtains used where "ss = used @ r" "(\<forall>s\<in>set used. P s) \<longrightarrow> x = v"
  using assms unfolding reads_def by blast

lemma reads_ret: "x = v \<Longrightarrow> reads (ret x) P v"
  by (rule readsI) (auto simp: ret_def)

text \<open>Whatever it returns, a body consumes a prefix of the states.\<close>

definition consumes_prefix :: "'a reader \<Rightarrow> bool" where
  "consumes_prefix m \<longleftrightarrow> (\<forall>ss x r. m ss = Some (x, r) \<longrightarrow> (\<exists>used. ss = used @ r))"

named_theorems prefix_intro \<open>readers that consume a prefix\<close>

lemma prefix_ret [prefix_intro]: "consumes_prefix (ret x)"
  by (simp add: consumes_prefix_def ret_def)

lemma prefix_ld [prefix_intro]: "(\<And>x. consumes_prefix (k x)) \<Longrightarrow> consumes_prefix (ld f k)"
  by (fastforce simp: consumes_prefix_def ld_def Cons_eq_append_conv split: list.splits)

lemma prefix_bind [prefix_intro]:
  "consumes_prefix m \<Longrightarrow> (\<And>x. consumes_prefix (k x)) \<Longrightarrow> consumes_prefix (rd_bind m k)"
  by (fastforce simp: consumes_prefix_def rd_bind_def split: option.splits)

lemma prefix_if [prefix_intro]:
  "consumes_prefix m \<Longrightarrow> consumes_prefix m' \<Longrightarrow> consumes_prefix (if b then m else m')"
  by simp

lemma prefix_data [prefix_intro]: "(\<And>x. consumes_prefix (k x)) \<Longrightarrow> consumes_prefix (ld_data fld k)"
  unfolding ld_data_def by (intro prefix_intro)

lemma reads_ld:
  assumes k: "reads (k v) P w" and f: "\<And>s. P s \<Longrightarrow> f s = v" and pre: "\<And>x. consumes_prefix (k x)"
  shows "reads (ld f k) P w"
proof (rule readsI)
  fix ss x r
  assume "ld f k ss = Some (x, r)"
  then obtain s ss' where ss: "ss = s # ss'" and kx: "k (f s) ss' = Some (x, r)"
    by (auto simp: ld_def split: list.splits)
  show "\<exists>used. ss = used @ r \<and> ((\<forall>s\<in>set used. P s) \<longrightarrow> x = w)"
  proof (cases "P s")
    case True
    then have kv: "k v ss' = Some (x, r)" using kx f by simp
    obtain used where "ss' = used @ r" "(\<forall>s\<in>set used. P s) \<longrightarrow> x = w" using readsE [OF k kv] .
    then show ?thesis using ss by (intro exI [of _ "s # used"]) auto
  next
    case False
    obtain used where "ss' = used @ r" using pre kx unfolding consumes_prefix_def by blast
    then show ?thesis using ss False by (intro exI [of _ "s # used"]) auto
  qed
qed

lemma reads_bind:
  assumes m: "reads m P v" and k: "reads (k v) P w" and pre: "\<And>x. consumes_prefix (k x)"
  shows "reads (rd_bind m k) P w"
proof (rule readsI)
  fix ss x r
  assume "rd_bind m k ss = Some (x, r)"
  then obtain y r' where my: "m ss = Some (y, r')" and ky: "k y r' = Some (x, r)"
    by (auto simp: rd_bind_def split: option.splits)
  obtain us where us: "ss = us @ r'" "(\<forall>s\<in>set us. P s) \<longrightarrow> y = v" using readsE [OF m my] .
  obtain vs where vs: "r' = vs @ r" using pre ky unfolding consumes_prefix_def by blast
  have "(\<forall>s\<in>set vs. P s) \<longrightarrow> x = w" if "y = v"
    using readsE [OF k] ky that vs by (metis append_same_eq)
  then show "\<exists>used. ss = used @ r \<and> ((\<forall>s\<in>set used. P s) \<longrightarrow> x = w)"
    using us vs by (intro exI [of _ "us @ vs"]) auto
qed

lemma reads_data:
  assumes "reads (k (fld d)) (holds_view p q d e) w" "\<And>x. consumes_prefix (k x)"
  shows "reads (ld_data fld k) (holds_view p q d e) w"
  unfolding ld_data_def
  by (rule reads_ld [where v = p], rule reads_ld [where v = "fld d"])
     (use assms in \<open>auto intro!: prefix_intro dest: holds_viewD\<close>)

lemma prompt_ret: "x = v \<Longrightarrow> prompt (ret x) P v n"
  by (auto simp: prompt_def ret_def intro: exI [of _ 0])

lemma prompt_ld:
  assumes k: "prompt (k v) P w n" and f: "\<And>s. P s \<Longrightarrow> f s = v"
  shows "prompt (ld f k) P w (Suc n)"
  unfolding prompt_def
proof (intro allI impI)
  fix ss
  assume "Suc n \<le> length ss" "\<forall>s\<in>set ss. P s"
  then obtain s r where "ss = s # r" "n \<le> length r" "P s" "\<forall>s\<in>set r. P s" by (cases ss) auto
  moreover obtain j where "j \<le> n" "k v r = Some (w, drop j r)"
    using k calculation unfolding prompt_def by blast
  ultimately show "\<exists>j\<le>Suc n. ld f k ss = Some (w, drop j ss)"
    using f by (intro exI [of _ "Suc j"]) (simp add: ld_def)
qed

lemma prompt_bind:
  assumes m: "prompt m P v i" and k: "prompt (k v) P w j"
  shows "prompt (rd_bind m k) P w (i + j)"
  unfolding prompt_def
proof (intro allI impI)
  fix ss
  assume len: "i + j \<le> length ss" and P: "\<forall>s\<in>set ss. P s"
  then obtain a where a: "a \<le> i" "m ss = Some (v, drop a ss)"
    using m unfolding prompt_def by (meson add_leE)
  have "j \<le> length (drop a ss)" "\<forall>s\<in>set (drop a ss). P s"
    using len a(1) P by (auto dest: in_set_dropD)
  then obtain b where "b \<le> j" "k v (drop a ss) = Some (w, drop b (drop a ss))"
    using k unfolding prompt_def by blast
  then show "\<exists>c\<le>i + j. rd_bind m k ss = Some (w, drop c ss)"
    using a by (intro exI [of _ "b + a"]) (simp add: rd_bind_def)
qed

lemma prompt_mono: "prompt m P v i \<Longrightarrow> i \<le> j \<Longrightarrow> prompt m P v j"
  unfolding prompt_def by (meson le_trans)

section \<open>The contract of a reader\<close>

text \<open>\<open>retried\<close> cuts the last pass of the retry loop out of the loads that were made.\<close>

definition retried :: "'a reader \<Rightarrow> uint32 \<Rightarrow> 'a \<Rightarrow> radclock_sms list \<Rightarrow> radclock_sms list \<Rightarrow> bool" where
  "retried body g x ss r \<longleftrightarrow> (\<exists>pre s0 used s1 s2. ss = pre @ s0 # used @ s1 # s2 # r
     \<and> body (used @ s1 # s2 # r) = Some (x, s1 # s2 # r)
     \<and> sms_gen s0 = g \<and> sms_gen s1 = g \<and> sms_gen s2 \<noteq> 0)"

lemma retried_more: "retried body g x ss r \<Longrightarrow> retried body g x (pre @ ss) r"
  unfolding retried_def by (metis append.assoc)

lemma retry_cases [consumes 1, case_names differs zero leave]:
  assumes "sms_retry body ss = Some ((g, x), r)"
  obtains s0 r0 y s1 r1 where "ss = s0 # r0" "body r0 = Some (y, s1 # r1)"
      "sms_retry body r1 = Some ((g, x), r)"
  | s0 r0 y s1 s2 r2 where "ss = s0 # r0" "body r0 = Some (y, s1 # s2 # r2)"
      "sms_retry body r2 = Some ((g, x), r)"
  | s0 r0 s1 s2 where "ss = s0 # r0" "body r0 = Some (x, s1 # s2 # r)"
      "sms_gen s0 = g" "sms_gen s1 = g" "sms_gen s2 \<noteq> 0"
proof -
  have ldr: "ld f ret t = Some (v, t') \<longleftrightarrow> (\<exists>a. t = a # t' \<and> v = f a)" for f :: "radclock_sms \<Rightarrow> uint32" and t t' v
    by (auto simp: ld_def ret_def split: list.splits)
  obtain s0 r0 y s1 r1 where ss: "ss = s0 # r0" "body r0 = Some (y, s1 # r1)"
    and rest: "(if sms_gen s0 \<noteq> sms_gen s1 then sms_retry body r1
      else Option.bind (ld sms_gen ret r1) (\<lambda>(z, r'). if z = 0 then sms_retry body r'
        else Some ((sms_gen s0, y), r'))) = Some ((g, x), r)"
    using assms by (subst (asm) sms_retry.simps) (auto simp only: bind_eq_Some_conv ldr prod.case)
  show ?thesis
  proof (cases "sms_gen s0 = sms_gen s1")
    case True
    then obtain s2 r2 where "r1 = s2 # r2"
      "(if sms_gen s2 = 0 then sms_retry body r2 else Some ((sms_gen s0, y), r2)) = Some ((g, x), r)"
      using rest by (auto simp: bind_eq_Some_conv ldr)
    then show ?thesis using that(2,3) ss True by (cases "sms_gen s2 = 0") auto
  next
    case False
    then show ?thesis using that(1) ss rest by simp
  qed
qed

fun sms_trace :: "sms_world \<Rightarrow> sms_world list \<Rightarrow> bool" where
  "sms_trace w [] \<longleftrightarrow> True"
| "sms_trace w (u # us) \<longleftrightarrow> writer_steps w u \<and> sms_trace u us"

lemma sms_trace_append:
  "sms_trace w (us @ v # vs) \<longleftrightarrow> sms_trace w us \<and> writer_steps (last (w # us)) v \<and> sms_trace v vs"
  by (induction us arbitrary: w) auto

lemma sms_trace_last: "sms_trace w us \<Longrightarrow> writer_steps w (last (w # us))"
  by (induction us arbitrary: w) (auto intro: rtranclp_trans)

lemma sms_trace_reach: "sms_trace w us \<Longrightarrow> u \<in> set us \<Longrightarrow> writer_steps w u \<and> writer_steps u (last us)"
proof (induction us arbitrary: w)
  case (Cons a us)
  from Cons.prems consider "u = a" | "u \<in> set us" by auto
  then show ?case
  proof cases
    case 1
    then show ?thesis using Cons.prems sms_trace_last [of a us] by simp
  next
    case 2
    then show ?thesis using Cons by (auto intro: rtranclp_trans)
  qed
qed simp

locale sms_reader =
  fixes body :: "'a reader" and val :: "radclock_data \<Rightarrow> radclock_error \<Rightarrow> 'a" and cost :: nat
  assumes body_reads: "reads body (holds_view p q d e) (val d e)"
    and body_prompt: "prompt body (holds_view p q d e) (val d e) cost"
begin

lemma retry_pass: "sms_retry body ss = Some ((g, x), r) \<Longrightarrow> retried body g x ss r"
proof (induction "length ss" arbitrary: ss rule: less_induct)
  case less
  have suffix: "\<exists>used. t = used @ t'" if "body t = Some (y, t')" for t t' y
    using readsE [OF body_reads that] by metis
  from less.prems show ?case
  proof (cases rule: retry_cases)
    case (differs s0 r0 y s1 r1)
    obtain used where "r0 = used @ s1 # r1" using suffix [OF differs(2)] ..
    then show ?thesis
      using less.hyps [OF _ differs(3)] retried_more [of body g x r1 r "s0 # used @ [s1]"] differs(1)
      by simp
  next
    case (zero s0 r0 y s1 s2 r2)
    obtain used where "r0 = used @ s1 # s2 # r2" using suffix [OF zero(2)] ..
    then show ?thesis
      using less.hyps [OF _ zero(3)] retried_more [of body g x r2 r "s0 # used @ [s1, s2]"] zero(1)
      by simp
  next
    case (leave s0 r0 s1 s2)
    moreover obtain used where "r0 = used @ s1 # s2 # r" using suffix [OF leave(2)] ..
    ultimately show ?thesis unfolding retried_def
      by (intro exI [of _ "[]"] exI [of _ s0] exI [of _ used] exI [of _ s1] exI [of _ s2]) simp
  qed
qed

text \<open>
  A reader that leaves its loop with a generation other than 0 returns a value of one
  published set of parameters, provided the generation did not come round during the read.
\<close>

lemma retry_consistent:
  assumes start: "writer_steps sms_start w" and tr: "sms_trace w us"
    and run: "sms_retry body (map w_sms us) = Some ((g, x), r)" and g: "g \<noteq> 0"
    and bound: "length (w_pub (last us)) < length (w_pub w) + 2 ^ 32"
  shows "\<exists>u\<in>set us. \<exists>d e. last (w_pub u) = (d, e) \<and> sms_gen (w_sms u) = g \<and> x = val d e"
proof -
  obtain pre s0 used s1 s2 where ss: "map w_sms us = pre @ s0 # used @ s1 # s2 # r"
    and b: "body (used @ s1 # s2 # r) = Some (x, s1 # s2 # r)"
    and gs: "sms_gen s0 = g" "sms_gen s1 = g"
    using retry_pass [OF run] unfolding retried_def by blast
  obtain upre u0 uused u1 urest where us: "us = upre @ u0 # uused @ u1 # urest"
    and m: "w_sms u0 = s0" "map w_sms uused = used" "w_sms u1 = s1"
    using ss by (auto simp: map_eq_append_conv map_eq_Cons_conv append_eq_map_conv Cons_eq_map_conv)
  have t: "writer_steps w u0" "sms_trace u0 (uused @ u1 # urest)"
    using tr us sms_trace_reach [OF tr, of u0] by (simp_all add: sms_trace_append)
  have w_inv: "sms_inv w" using start sms_inv_start by (rule sms_inv_steps)
  then have inv: "sms_inv u0" using t(1) by (metis sms_inv_steps)
  have t1: "sms_trace u0 (uused @ [u1])" "sms_trace u1 urest"
    using t(2) by (simp_all add: sms_trace_append)
  have le: "length (w_pub a) \<le> length (w_pub b)" if "writer_steps a b" for a b
    using w_rank_steps [OF that] by (auto simp: w_rank_def split: if_splits)
  have "writer_steps u1 (last us)"
    using sms_trace_last [OF t1(2)] us by simp
  then have bnd: "length (w_pub u1) < length (w_pub u0) + 2 ^ 32"
    using le [OF t(1)] le bound by (meson add_le_mono1 le_less_trans less_le_trans)
  have view: "sms_view (w_sms u) = sms_view s0" if "u \<in> set (uused @ [u1])" for u
    using sms_trace_reach [OF t1(1) that] inv gs m g bnd view_between [of u0 u u1] by simp
  obtain p q d e where v: "sms_view s0 = (p, q, d, e)" by (metis prod_cases4)
  have "\<forall>s\<in>set used. holds_view p q d e s" using view v m by (auto simp: holds_view_def)
  then have "x = val d e" using readsE [OF body_reads b] by (metis append_same_eq)
  moreover have "last (w_pub u0) = (d, e)"
    using inv gs m g v by (auto simp: sms_inv_def sms_view_def split: if_splits)
  ultimately show ?thesis using us gs m by (intro bexI [of _ u0]) auto
qed

text \<open>A reader that only ever sees generation 0 does not return.\<close>

lemma retry_zero_gen:
  assumes "\<forall>s\<in>set ss. sms_gen s = 0"
  shows "sms_retry body ss = None"
proof (rule ccontr)
  assume "sms_retry body ss \<noteq> None"
  then obtain g x r where "retried body g x ss r" using retry_pass by fastforce
  then show False using assms by (auto simp: retried_def)
qed

text \<open>
  A reader gets its value within one pass while the writer rests: on memory states that all
  show the same buffers and one generation other than 0.
\<close>

lemma retry_prompt:
  assumes "cost + 3 \<le> length ss" and "\<forall>s\<in>set ss. holds_view p q d e s \<and> sms_gen s = g" and "g \<noteq> 0"
  shows "\<exists>k\<le>cost + 3. sms_retry body ss = Some ((g, val d e), drop k ss)"
proof -
  obtain s0 r0 where ss: "ss = s0 # r0" using assms(1) by (cases ss) auto
  then have "cost \<le> length r0" "\<forall>s\<in>set r0. holds_view p q d e s" using assms by auto
  then obtain k where k: "k \<le> cost" "body r0 = Some (val d e, drop k r0)"
    using body_prompt [of p q d e] unfolding prompt_def by blast
  have "2 \<le> length (drop k r0)" using assms(1) k(1) ss by simp
  then obtain s1 s2 r where d: "drop k r0 = s1 # s2 # r"
    by (cases "drop k r0"; cases "tl (drop k r0)") auto
  then have "s1 \<in> set r0" "s2 \<in> set r0"
    by (metis in_set_dropD list.set_intros)+
  then have "sms_retry body ss = Some ((g, val d e), r)"
    using assms(2,3) ss d k(2) by (subst sms_retry.simps) (simp add: ld_def ret_def)
  moreover have "r = drop (k + 3) ss"
  proof -
    have "drop 2 (drop k r0) = r" using d by simp
    then show ?thesis using ss by (simp add: numeral_3_eq_3)
  qed
  ultimately show ?thesis using k(1) by (intro exI [of _ "k + 3"]) simp
qed

end

section \<open>The library's readers meet the contract\<close>

lemma prefix_pass [prefix_intro]: "consumes_prefix (RADabs_pass p vcount u)"
  unfolding RADabs_pass_def by (intro prefix_intro)

lemma loop_used:
  "RADabs_loop p vcount u ss = Some tr \<Longrightarrow> reads (RADabs_pass p vcount u) P (t, False) \<longrightarrow>
   (\<exists>used. ss = used @ snd tr \<and> ((\<forall>s\<in>set used. P s) \<longrightarrow> fst tr = t))"
proof (induction p vcount u ss tr rule: RADabs_loop.raw_induct [rotated, consumes 1, case_names pass])
  case (pass loop p vcount u ss tr)
  show ?case
  proof
    assume rd: "reads (RADabs_pass p vcount u) P (t, False)"
    from pass(2) obtain t' moved r where run: "RADabs_pass p vcount u ss = Some ((t', moved), r)"
      and rest: "(if moved then loop p vcount u r else Some (t', r)) = Some tr"
      by (auto simp: bind_eq_Some_conv)
    obtain us where us: "ss = us @ r" "(\<forall>s\<in>set us. P s) \<longrightarrow> (t', moved) = (t, False)"
      using readsE [OF rd run] .
    show "\<exists>used. ss = used @ snd tr \<and> ((\<forall>s\<in>set used. P s) \<longrightarrow> fst tr = t)"
    proof (cases moved)
      case True
      then have "loop p vcount u r = Some tr" using rest by simp
      then obtain vs where "r = vs @ snd tr" "(\<forall>s\<in>set vs. P s) \<longrightarrow> fst tr = t"
        using pass(1) rd by blast
      then show ?thesis using us by (intro exI [of _ "us @ vs"]) auto
    next
      case False
      then show ?thesis using us rest by (intro exI [of _ us]) auto
    qed
  qed
qed

lemma reads_loop: "reads (RADabs_pass p vcount u) P (t, False) \<Longrightarrow> reads (RADabs_loop p vcount u) P t"
  by (rule readsI) (use loop_used in fastforce)

lemma loop_prefix:
  "RADabs_loop p vcount u ss = Some tr \<Longrightarrow> \<exists>used. ss = used @ snd tr"
proof (induction p vcount u ss tr rule: RADabs_loop.raw_induct [rotated, consumes 1, case_names pass])
  case (pass loop p vcount u ss tr)
  from pass(2) obtain t moved r where run: "RADabs_pass p vcount u ss = Some ((t, moved), r)"
    and rest: "(if moved then loop p vcount u r else Some (t, r)) = Some tr"
    by (auto simp: bind_eq_Some_conv)
  obtain us where us: "ss = us @ r"
    using prefix_pass run unfolding consumes_prefix_def by blast
  show ?case
  proof (cases moved)
    case True
    then have "loop p vcount u r = Some tr" using rest by simp
    then obtain vs where "r = vs @ snd tr" using pass(1) by blast
    then show ?thesis using us by simp
  next
    case False
    then show ?thesis using us rest by auto
  qed
qed

lemma prefix_loop [prefix_intro]: "consumes_prefix (RADabs_loop p vcount u)"
  unfolding consumes_prefix_def using loop_prefix by fastforce

lemma prompt_loop:
  assumes "prompt (RADabs_pass p vcount u) P (t, False) n"
  shows "prompt (RADabs_loop p vcount u) P t n"
  using assms unfolding prompt_def by (subst RADabs_loop.simps) force

text \<open>Loads of one field of one buffer.\<close>

lemma reads_field:
  assumes "reads (k (fld d)) (holds_view p q d e) w" "\<And>x. consumes_prefix (k x)"
  shows "reads (ld (\<lambda>s. fld (sms_bufdata s ! p)) k) (holds_view p q d e) w"
  by (rule reads_ld [where v = "fld d"]) (use assms in \<open>auto dest: holds_viewD\<close>)

lemma prompt_field:
  assumes "prompt (k (fld d)) (holds_view p q d e) w n"
  shows "prompt (ld (\<lambda>s. fld (sms_bufdata s ! p)) k) (holds_view p q d e) w (Suc n)"
  by (rule prompt_ld [where v = "fld d"]) (use assms in \<open>auto dest: holds_viewD\<close>)

lemma prompt_data:
  assumes "prompt (k (fld d)) (holds_view p q d e) w n"
  shows "prompt (ld_data fld k) (holds_view p q d e) w (Suc (Suc n))"
  unfolding ld_data_def
  by (rule prompt_ld [where v = p], rule prompt_field) (use assms in \<open>auto dest: holds_viewD\<close>)

lemmas reads_rules = reads_field reads_data reads_bind reads_ret prefix_intro

lemma reads_pass:
  "reads (RADabs_pass p vcount u) (holds_view p q d e) (read_RADabs_native d vcount u, False)"
  unfolding RADabs_pass_def
  by (intro reads_field prefix_intro, rule reads_bind [where v = "read_RADabs_native d vcount u"])
     (auto intro!: reads_rules simp: read_RADabs_native_def)

lemma prompt_pass:
  "prompt (RADabs_pass p vcount u) (holds_view p q d e) (read_RADabs_native d vcount u, False) 8"
proof -
  have "prompt (RADabs_pass p vcount u) (holds_view p q d e) (read_RADabs_native d vcount u, False)
      (Suc (Suc (Suc (Suc (Suc (Suc (Suc 0))) + Suc 0))))"
    unfolding RADabs_pass_def
    by (intro prompt_field, rule prompt_bind [where v = "read_RADabs_native d vcount u"])
       (auto intro!: prompt_field prompt_ret simp: read_RADabs_native_def)
  then show ?thesis by (simp add: eval_nat_numeral)
qed

lemma reads_UTC:
  "reads (read_RADabs_UTC_sms p vcount u) (holds_view p q d e) (read_RADabs_UTC d vcount u)"
  unfolding read_RADabs_UTC_sms_def
  by (rule reads_bind [OF reads_loop [OF reads_pass]], intro reads_field)
     (auto intro!: reads_rules simp: read_RADabs_UTC_def leap_correction_def)

lemma prefix_UTC [prefix_intro]: "consumes_prefix (read_RADabs_UTC_sms p vcount u)"
  unfolding read_RADabs_UTC_sms_def by (intro prefix_intro)

lemma prompt_UTC:
  "prompt (read_RADabs_UTC_sms p vcount u) (holds_view p q d e) (read_RADabs_UTC d vcount u) 12"
proof -
  have "prompt (read_RADabs_UTC_sms p vcount u) (holds_view p q d e) (read_RADabs_UTC d vcount u)
      (8 + Suc (Suc (Suc (Suc 0))))"
    unfolding read_RADabs_UTC_sms_def
    by (rule prompt_bind [OF prompt_loop [OF prompt_pass]], intro prompt_field)
       (auto intro!: prompt_field prompt_ret simp: read_RADabs_UTC_def leap_correction_def)
  then show ?thesis by (simp add: eval_nat_numeral)
qed

definition abstime_val :: "bool \<Rightarrow> vcounter_t \<Rightarrow> radclock_data \<Rightarrow> vcounter_t \<times> vcounter_t \<times> real \<times> real" where
  "abstime_val mode_on vcount d =
     (rd_next_expected d, rd_last_changed d, rd_phat d, read_RADabs_UTC d vcount mode_on)"

definition difftime_val ::
    "bool \<Rightarrow> vcounter_t \<Rightarrow> vcounter_t \<Rightarrow> radclock_data \<Rightarrow> vcounter_t \<times> vcounter_t \<times> real \<times> real" where
  "difftime_val mode_on from_vcount till_vcount d =
     (rd_next_expected d, rd_last_changed d, rd_phat d,
      vc_real (till_vcount - from_vcount) * clock_rate d mode_on)"

interpretation abstime: sms_reader "abstime_body mode_on vcount" "\<lambda>d e. abstime_val mode_on vcount d" 19
proof unfold_locales
  fix p q d e
  show "reads (abstime_body mode_on vcount) (holds_view p q d e) (abstime_val mode_on vcount d)"
    unfolding abstime_body_def abstime_val_def
    by (intro reads_data prefix_intro, rule reads_ld [where v = p])
       (auto intro!: reads_bind [OF reads_UTC] reads_ret prefix_intro)
  have "prompt (abstime_body mode_on vcount) (holds_view p q d e) (abstime_val mode_on vcount d)
      (Suc (Suc (Suc (Suc (Suc (Suc (Suc (12 + 0))))))))"
    unfolding abstime_body_def abstime_val_def
    by (intro prompt_data, rule prompt_ld [where v = p], rule prompt_bind [OF prompt_UTC],
        rule prompt_ret) auto
  then show "prompt (abstime_body mode_on vcount) (holds_view p q d e) (abstime_val mode_on vcount d) 19"
    by (simp add: eval_nat_numeral)
qed

interpretation difftime: sms_reader "difftime_body mode_on from till" "\<lambda>d e. difftime_val mode_on from till d" 8
proof unfold_locales
  fix p q d e
  show "reads (difftime_body mode_on from till) (holds_view p q d e) (difftime_val mode_on from till d)"
    unfolding difftime_body_def difftime_val_def clock_rate_def
    by (intro reads_data reads_ret prefix_intro) simp
  have "prompt (difftime_body mode_on from till) (holds_view p q d e) (difftime_val mode_on from till d)
      (Suc (Suc (Suc (Suc (Suc (Suc (Suc (Suc 0))))))))"
    unfolding difftime_body_def difftime_val_def clock_rate_def
    by (intro prompt_data prompt_ret) simp
  then show "prompt (difftime_body mode_on from till) (holds_view p q d e) (difftime_val mode_on from till d) 8"
    by (simp add: eval_nat_numeral)
qed

interpretation data_getter: sms_reader "ld_data fld ret" "\<lambda>d e. fld d" 2
proof unfold_locales
  fix p q d e
  show "reads (ld_data fld ret) (holds_view p q d e) (fld d)"
    by (intro reads_data reads_ret prefix_intro) simp
  have "prompt (ld_data fld ret) (holds_view p q d e) (fld d) (Suc (Suc 0))"
    by (intro prompt_data prompt_ret) simp
  then show "prompt (ld_data fld ret) (holds_view p q d e) (fld d) 2" by (simp add: eval_nat_numeral)
qed

interpretation error_getter: sms_reader "ld_error fld ret" "\<lambda>d e. fld e" 2
proof unfold_locales
  fix p q d e
  show "reads (ld_error fld ret) (holds_view p q d e) (fld e)"
    unfolding ld_error_def
    by (rule reads_ld [where v = q], rule reads_ld [where v = "fld e"])
       (auto intro!: reads_ret prefix_intro dest: holds_viewD)
  have "prompt (ld_error fld ret) (holds_view p q d e) (fld e) (Suc (Suc 0))"
    unfolding ld_error_def
    by (rule prompt_ld [where v = q], rule prompt_ld [where v = "fld e"])
       (auto intro!: prompt_ret dest: holds_viewD)
  then show "prompt (ld_error fld ret) (holds_view p q d e) (fld e) 2" by (simp add: eval_nat_numeral)
qed

section \<open>Readers against the writer\<close>

definition abs_reading :: "bool \<Rightarrow> vcounter_t \<Rightarrow> radclock_data \<Rightarrow> real \<times> int" where
  "abs_reading mode_on vcount d =
     (read_RADabs_UTC d vcount mode_on,
      raddata_quality vcount (rd_last_changed d) (rd_next_expected d) (rd_phat d))"

lemma abstime_of_retry:
  assumes "sms_retry (abstime_body mode_on vcount) ss = Some ((g, abstime_val mode_on vcount d), r)"
  shows "ffcounter_to_abstime_sms mode_on vcount ss = Some (abs_reading mode_on vcount d, r)"
  using assms
  by (simp add: ffcounter_to_abstime_sms_def rd_bind_def ret_def abstime_val_def abs_reading_def)

text \<open>
  C3: Whatever the interleaving of a reader of the absolute clock with the daemon's writer,
  torn copies included, a reader that leaves its retry loop holding a generation other than
  0 returns the time and the quality of one set of parameters that was published and was
  the current one during the read, never a mixture, as long as the daemon makes fewer than
  2^32 updates meanwhile.
\<close>

theorem abstime_sms_consistent:
  assumes "writer_steps sms_start w" "sms_trace w us"
    and run: "sms_retry (abstime_body mode_on vcount) (map w_sms us) = Some ((g, x), r)"
    and "g \<noteq> 0"
    and "length (w_pub (last us)) < length (w_pub w) + 2 ^ 32"
  shows "\<exists>u\<in>set us. \<exists>d e. last (w_pub u) = (d, e) \<and> sms_gen (w_sms u) = g \<and>
           ffcounter_to_abstime_sms mode_on vcount (map w_sms us) = Some (abs_reading mode_on vcount d, r)"
proof -
  obtain u d e where "u \<in> set us" "last (w_pub u) = (d, e)" "sms_gen (w_sms u) = g"
    "x = abstime_val mode_on vcount d"
    using abstime.retry_consistent [OF assms] by blast
  then show ?thesis using run abstime_of_retry [of mode_on vcount "map w_sms us" g d r] by blast
qed

definition demo_data :: radclock_data where
  "demo_data = null_data\<lparr>rd_phat := 1, rd_last_changed := 10, rd_next_expected := 20\<rparr>"

definition demo_world :: sms_world where
  "demo_world = \<lparr>w_sms = update_ipc_shared_memory demo_data no_error (sms_init_writer None),
     w_pc = W_idle, w_pub = [(null_data, no_error), (demo_data, no_error)]\<rparr>"

lemma demo_world_reachable: "writer_steps sms_start demo_world"
  using update_ipc_steps [of "sms_init_writer None" "[(null_data, no_error)]" demo_data no_error]
  by (simp add: sms_start_def demo_world_def)

lemma demo_world_view:
  "holds_view 1 1 demo_data no_error (w_sms demo_world)" "sms_gen (w_sms demo_world) = 2"
  by (simp_all add: demo_world_def holds_view_def sms_view_def SMS_DATA_def SMS_ERROR_def
      update_ipc_shared_memory_def sms_init_writer_def Let_def)

lemma sms_trace_replicate: "writer_steps w u \<Longrightarrow> sms_trace w (replicate n u)"
  by (induction n arbitrary: w) auto

theorem abstime_sms_consistent_witness:
  "\<exists>r. ffcounter_to_abstime_sms False 15 (map w_sms (replicate 22 demo_world)) = Some ((15, 0), r)"
proof -
  obtain k where k: "sms_retry (abstime_body False 15) (map w_sms (replicate 22 demo_world)) =
      Some ((2, abstime_val False 15 demo_data), drop k (map w_sms (replicate 22 demo_world)))"
    using abstime.retry_prompt [of "map w_sms (replicate 22 demo_world)" 1 1 demo_data no_error 2 False 15]
      demo_world_view by auto
  have "last (replicate 22 demo_world) = demo_world" by simp
  then obtain d e where "last (w_pub demo_world) = (d, e)"
    "ffcounter_to_abstime_sms False 15 (map w_sms (replicate 22 demo_world)) =
       Some (abs_reading False 15 d, drop k (map w_sms (replicate 22 demo_world)))"
    using abstime_sms_consistent [OF demo_world_reachable sms_trace_replicate k] by auto
  moreover have "abs_reading False 15 demo_data = (15, 0)"
    by (simp add: abs_reading_def demo_data_def null_data_def read_RADabs_UTC_def
        read_RADabs_native_def leap_correction_def raddata_quality_def)
  ultimately show ?thesis by (auto simp: demo_world_def)
qed

text \<open>
  C33: A reader does not wait when the writer rests: in every reachable state in which the
  writer is idle with a generation other than 0, \<open>radclock_gettime\<close> returns within 22 loads,
  with the time and quality of the parameters published last.
\<close>

theorem gettime_prompt:
  assumes "writer_steps sms_start w" "w_pc w = W_idle" "sms_gen (w_sms w) \<noteq> 0"
    and "rc_ipc_sms c" "0 \<le> fst counter" "22 \<le> n"
  shows "\<exists>k\<le>22. radclock_gettime (Some c) True counter cdat (replicate n (w_sms w)) =
           Some ((Some (fst (abs_reading (rc_local_period_on c) (snd counter) (fst (last (w_pub w))))),
                  snd (abs_reading (rc_local_period_on c) (snd counter) (fst (last (w_pub w))))),
                 replicate (n - k) (w_sms w))"
proof -
  let ?d = "fst (last (w_pub w))" and ?ss = "replicate n (w_sms w)"
  have inv: "sms_inv w" using assms(1) sms_inv_start by (rule sms_inv_steps)
  then have "(SMS_DATA (w_sms w), SMS_ERROR (w_sms w)) = last (w_pub w)"
    using assms(2) by (simp add: sms_inv_def)
  then have "holds_view (sms_data_off (w_sms w)) (sms_error_off (w_sms w)) ?d (snd (last (w_pub w))) (w_sms w)"
    by (metis fst_conv holds_view_def snd_conv sms_view_def)
  then have "\<forall>s\<in>set ?ss. holds_view (sms_data_off (w_sms w)) (sms_error_off (w_sms w)) ?d
      (snd (last (w_pub w))) s \<and> sms_gen s = sms_gen (w_sms w)" by simp
  from abstime.retry_prompt [OF _ this assms(3), of "rc_local_period_on c" "snd counter"] assms(6)
  obtain k where "k \<le> 22" "sms_retry (abstime_body (rc_local_period_on c) (snd counter)) ?ss =
      Some ((sms_gen (w_sms w), abstime_val (rc_local_period_on c) (snd counter) ?d), drop k ?ss)"
    by auto
  then show ?thesis using assms(4,5) abstime_of_retry
    by (intro exI [of _ k]) (simp add: radclock_gettime_def rd_bind_def ret_def abs_reading_def)
qed

theorem gettime_prompt_witness:
  "\<exists>k\<le>22. radclock_gettime (Some \<lparr>rc_ipc_sms = True, rc_local_period_on = False\<rparr>) True (0, 15) None
     (replicate 30 (w_sms demo_world)) = Some ((Some 15, 0), replicate (30 - k) (w_sms demo_world))"
proof -
  have "abs_reading False 15 (fst (last (w_pub demo_world))) = (15, 0)"
    by (simp add: demo_world_def abs_reading_def demo_data_def null_data_def read_RADabs_UTC_def
        read_RADabs_native_def leap_correction_def raddata_quality_def)
  then show ?thesis
    using gettime_prompt [OF demo_world_reachable, of "\<lparr>rc_ipc_sms = True, rc_local_period_on = False\<rparr>"
        "(0, 15)" 30 None] demo_world_view(2) by (simp add: demo_world_def)
qed

section \<open>Where the protocol falls short\<close>

text \<open>
  Four moments of one update of a fresh segment by \<open>demo_data\<close>: inside the critical section
  before and after the offsets are swapped, and after it.
\<close>

definition demo_copied :: radclock_sms where
  "demo_copied = (sms_init_writer None)
     \<lparr>sms_bufdata := [null_data, demo_data], sms_buferr := [no_error, no_error], sms_gen := 0\<rparr>"

definition demo_before :: sms_world where
  "demo_before = \<lparr>w_sms = demo_copied, w_pc = W_swap_data 1 demo_data no_error,
     w_pub = [(null_data, no_error)]\<rparr>"

definition demo_swapped :: sms_world where
  "demo_swapped = \<lparr>w_sms = demo_copied\<lparr>sms_data_off := 1\<rparr>,
     w_pc = W_swap_data_old 1 0 demo_data no_error, w_pub = [(null_data, no_error)]\<rparr>"

lemma demo_before_reachable: "writer_steps sms_start demo_before"
  using steps_to_zero [where s = "sms_init_writer None" and ps = "[(null_data, no_error)]"
      and d = demo_data and e = no_error]
  by (simp add: sms_start_def demo_before_def demo_copied_def sms_init_writer_def)

lemma demo_swapped_steps: "writer_steps demo_before demo_swapped"
proof -
  have "sms_data_off demo_copied = 0" "sms_data_off_old demo_copied = 1"
    by (simp_all add: demo_copied_def sms_init_writer_def)
  then have "writer_step demo_before demo_swapped"
    using swap_data [of demo_copied 1 demo_data no_error "[(null_data, no_error)]"]
    by (simp add: demo_before_def demo_swapped_def)
  then show ?thesis ..
qed

lemma demo_done_steps: "writer_steps demo_swapped demo_world"
  using steps_from_swap [where s = "demo_copied\<lparr>sms_data_off := 1\<rparr>" and g = 1 and tmp = 0
      and d = demo_data and e = no_error and ps = "[(null_data, no_error)]"]
  by (simp add: demo_swapped_def demo_world_def demo_copied_def update_ipc_shared_memory_def
      sms_init_writer_def Let_def)

text \<open>The loads of a reader that meets the update: 7 before the swap, 8 after, the last one at the end.\<close>

definition torn_trace :: "sms_world list" where
  "torn_trace = replicate 7 demo_before @ replicate 8 demo_swapped @ [demo_world]"

lemma torn_trace_ok: "sms_trace sms_start torn_trace"
proof -
  have "sms_trace demo_before (replicate n demo_before)" "sms_trace demo_swapped (replicate n demo_swapped)"
    for n by (simp_all add: sms_trace_replicate)
  then show ?thesis
    using demo_before_reachable demo_swapped_steps demo_done_steps
    by (simp add: torn_trace_def numeral_eq_Suc)
qed

text \<open>
  The guarantee does not extend to a reader that enters while the generation is 0. The
  condition \<open>generation != sms->gen || !sms->gen\<close> loads the generation twice, so a reader
  that started inside the writer's critical section and sees 0 at the first load and the
  new generation at the second one leaves the loop. Here such a reader gets the time of the
  new parameters together with the quality of the old ones, a pair that belongs to no
  published set of parameters.
\<close>

lemma abstime_sms_mixture:
  "sms_trace sms_start torn_trace
   \<and> ffcounter_to_abstime_sms False 15 (map w_sms torn_trace) = Some ((15, 2), [])
   \<and> (15, 2) \<notin> (\<lambda>p. abs_reading False 15 (fst p)) ` set (concat (map w_pub torn_trace))"
proof -
  have st: "w_sms demo_before = demo_copied" "w_sms demo_swapped = demo_copied\<lparr>sms_data_off := 1\<rparr>"
    "sms_bufdata demo_copied = [null_data, demo_data]" "sms_gen demo_copied = 0"
    "sms_data_off demo_copied = 0"
    by (simp_all add: demo_before_def demo_swapped_def demo_copied_def sms_init_writer_def)
  have fields: "rd_phat null_data = 0" "rd_next_expected null_data = 0" "rd_last_changed null_data = 0"
    "rd_phat demo_data = 1" "rd_last_changed demo_data = 10" "rd_ca demo_data = 0"
    "rd_leapsec_total demo_data = 0" "rd_leapsec_expected demo_data = 0" "rd_next_expected demo_data = 20"
    by (simp_all add: demo_data_def null_data_def)
  let ?o = demo_copied and ?n = "demo_copied\<lparr>sms_data_off := 1\<rparr>"
  have pass: "RADabs_pass 1 15 False (?n # ?n # ?n # ?n # r) = Some ((15, False), r)" for r
    by (simp add: RADabs_pass_def ld_def ret_def rd_bind_def st fields)
  have UTC: "read_RADabs_UTC_sms 1 15 False (?n # ?n # ?n # ?n # ?n # ?n # r) = Some (15, r)" for r
    unfolding read_RADabs_UTC_sms_def rd_bind_def
    by (subst RADabs_loop.simps, subst pass) (simp add: ld_def ret_def st fields)
  have body: "abstime_body False 15 (?o # ?o # ?o # ?o # ?o # ?o # ?n # ?n # ?n # ?n # ?n # ?n # ?n # r)
      = Some ((0, 0, 0, 15), r)" for r
    unfolding abstime_body_def ld_data_def ld_def rd_bind_def
    using UTC [of r] by (simp add: st fields ret_def)
  have list: "map w_sms torn_trace = ?o # ?o # ?o # ?o # ?o # ?o # ?o # ?n # ?n # ?n # ?n # ?n # ?n # ?n #
      ?n # [w_sms demo_world]"
    by (simp add: torn_trace_def st numeral_eq_Suc)
  have "sms_retry (abstime_body False 15) (map w_sms torn_trace) = Some ((0, 0, 0, 0, 15), [])"
    unfolding list using body demo_world_view(2)
    by (subst sms_retry.simps) (simp add: ld_def ret_def st)
  then have run: "ffcounter_to_abstime_sms False 15 (map w_sms torn_trace) = Some ((15, 2), [])"
    by (simp add: ffcounter_to_abstime_sms_def rd_bind_def ret_def raddata_quality_def)
  have "set (concat (map w_pub torn_trace)) \<subseteq> {(null_data, no_error), (demo_data, no_error)}"
    by (auto simp: torn_trace_def demo_before_def demo_swapped_def demo_world_def)
  moreover have "abs_reading False 15 null_data \<noteq> (15, 2)" "abs_reading False 15 demo_data \<noteq> (15, 2)"
    by (simp_all add: abs_reading_def raddata_quality_def read_RADabs_UTC_def read_RADabs_native_def
        leap_correction_def null_data_def demo_data_def)
  ultimately show ?thesis using run torn_trace_ok by fastforce
qed

text \<open>
  The generation reaches 0 in normal operation. \<^verbatim>\<open>if (generation++ == 0) generation = 1\<close>
  tests the value before the increment, so the update that follows generation 2^32 - 1
  publishes generation 0, and until the next update every reader of the absolute clock
  spins: no number of loads lets \<open>radclock_gettime\<close> return.
\<close>

lemma generation_zero_blocks_readers:
  "\<exists>w. writer_steps sms_start w \<and> w_pc w = W_idle \<and> length (w_pub w) = 2 ^ 32
     \<and> sms_gen (w_sms w) = 0
     \<and> (\<forall>n mode_on vcount cdat. radclock_gettime (Some \<lparr>rc_ipc_sms = True, rc_local_period_on = mode_on\<rparr>)
          True (0, vcount) cdat (replicate n (w_sms w)) = None)"
proof -
  have reach: "\<exists>w. writer_steps sms_start w \<and> w_pc w = W_idle \<and> length (w_pub w) = Suc n" for n
  proof (induction n)
    case 0
    then show ?case by (intro exI [of _ sms_start]) (simp add: sms_start_def)
  next
    case (Suc n)
    then obtain s ps where "writer_steps sms_start \<lparr>w_sms = s, w_pc = W_idle, w_pub = ps\<rparr>" "length ps = Suc n"
      by (metis sms_world.surjective sms_world.select_convs(2,3) unit.exhaust)
    then show ?case using rtranclp_trans [OF _ update_ipc_steps]
      by (metis length_append_singleton sms_world.select_convs(2,3))
  qed
  have "Suc (2 ^ 32 - 1) = 2 ^ 32" by simp
  with reach [of "2 ^ 32 - 1"]
  obtain w where w: "writer_steps sms_start w" "w_pc w = W_idle" "length (w_pub w) = 2 ^ 32"
    by metis
  have "sms_inv w" using w(1) sms_inv_start by (rule sms_inv_steps)
  then have "sms_gen (w_sms w) = of_nat (2 ^ 32)" using w(2) by (simp add: sms_inv_def w(3))
  also have "of_nat (2 ^ 32) = (0 :: 32 word)" by (simp add: of_nat_power)
  finally have zero: "sms_gen (w_sms w) = 0" .
  have "radclock_gettime (Some \<lparr>rc_ipc_sms = True, rc_local_period_on = m\<rparr>) True (0, v) c
      (replicate n (w_sms w)) = None" for n m v c
  proof -
    have "sms_retry (abstime_body m v) (replicate n (w_sms w)) = None"
      using zero by (intro abstime.retry_zero_gen) simp
    then show ?thesis by (simp add: radclock_gettime_def ffcounter_to_abstime_sms_def rd_bind_def)
  qed
  then show ?thesis using w zero by blast
qed

end
