(* ===== verification/Ntp_Proto.thy ===== *)
theory Ntp_Proto
  imports Rad_Clock
begin

text \<open>
  The NTP packet and the conversions around it: byte order (\<^verbatim>\<open>ntohl\<close>, and \<^verbatim>\<open>ntohll\<close> of
  \<^verbatim>\<open>radclock/ntohll.h\<close>, on a little endian host), the packet structure and the
  \<^verbatim>\<open>li_vn_mode\<close> macros of \<^verbatim>\<open>proto_ntp.h\<close>, and the time conversions of \<^verbatim>\<open>misc.h\<close>.

  The lemmas show that the byte order functions are involutions, that the header macros
  are inverse to each other, how far a time survives the NTP format, and that \<open>subtract_tv\<close> is
  exact.
\<close>

section \<open>Byte order\<close>

text \<open>The bytes of a 32 bit integer, least significant first, and the integer of four bytes.\<close>

definition byte_of :: "nat \<Rightarrow> nat \<Rightarrow> nat" where
  "byte_of k n = n div 256 ^ k mod 256"

definition of_bytes :: "nat \<Rightarrow> nat \<Rightarrow> nat \<Rightarrow> nat \<Rightarrow> uint32" where
  "of_bytes b0 b1 b2 b3 = of_nat (b0 + 256 * b1 + 65536 * b2 + 16777216 * b3)"

definition ntohl :: "uint32 \<Rightarrow> uint32" where
  "ntohl w = of_bytes (byte_of 3 (unat w)) (byte_of 2 (unat w)) (byte_of 1 (unat w)) (byte_of 0 (unat w))"

abbreviation htonl :: "uint32 \<Rightarrow> uint32" where "htonl \<equiv> ntohl"

definition ntohll :: "uint64 \<Rightarrow> uint64" where
  "ntohll x = push_bit 32 (ucast (ntohl (ucast (drop_bit 32 (push_bit 32 x)))))
     OR ucast (ntohl (ucast (drop_bit 32 x)))"

lemma byte_of_less: "byte_of k n < 256"
  by (simp add: byte_of_def)

lemma byte_of_0: "byte_of 0 n = n mod 256"
  by (simp add: byte_of_def)

lemma byte_of_Suc: "byte_of (Suc k) n = byte_of k (n div 256)"
  by (simp add: byte_of_def div_mult2_eq)

lemma byte_of_Cons:
  assumes "b < 256"
  shows "byte_of 0 (b + 256 * r) = b" "byte_of (Suc k) (b + 256 * r) = byte_of k r"
  using assms by (simp_all add: byte_of_0 byte_of_Suc)

lemma bytes_nested:
  "b0 + 256 * b1 + 65536 * b2 + 16777216 * b3 = b0 + 256 * (b1 + 256 * (b2 + 256 * (b3 :: nat)))"
  by simp

lemma unat_of_bytes:
  assumes "b0 < 256" "b1 < 256" "b2 < 256" "b3 < 256"
  shows "unat (of_bytes b0 b1 b2 b3) = b0 + 256 * (b1 + 256 * (b2 + 256 * b3))"
proof -
  have "b0 + 256 * (b1 + 256 * (b2 + 256 * b3)) < 2 ^ LENGTH(32)" using assms by simp
  then show ?thesis unfolding of_bytes_def bytes_nested unat_of_nat by (rule mod_less)
qed

lemma byte_of_bytes:
  assumes "b0 < 256" "b1 < 256" "b2 < 256" "b3 < 256"
  shows "byte_of 0 (unat (of_bytes b0 b1 b2 b3)) = b0" "byte_of 1 (unat (of_bytes b0 b1 b2 b3)) = b1"
    "byte_of 2 (unat (of_bytes b0 b1 b2 b3)) = b2" "byte_of 3 (unat (of_bytes b0 b1 b2 b3)) = b3"
proof -
  have "byte_of 0 b3 = b3" using assms by (simp add: byte_of_0)
  then show "byte_of 0 (unat (of_bytes b0 b1 b2 b3)) = b0" "byte_of 1 (unat (of_bytes b0 b1 b2 b3)) = b1"
    "byte_of 2 (unat (of_bytes b0 b1 b2 b3)) = b2" "byte_of 3 (unat (of_bytes b0 b1 b2 b3)) = b3"
    unfolding unat_of_bytes [OF assms] One_nat_def numeral_2_eq_2 numeral_3_eq_3
    by (simp_all only: byte_of_Cons assms)
qed

lemma of_bytes_of:
  "of_bytes (byte_of 0 (unat w)) (byte_of 1 (unat w)) (byte_of 2 (unat w)) (byte_of 3 (unat w)) = w"
proof -
  have "unat w div 256 div 256 div 256 < 256"
    using unsigned_less [of w, where 'a = nat]
    by (simp add: div_mult2_eq [symmetric] less_mult_imp_div_less)
  then have "byte_of 0 (unat w) + 256 * (byte_of 1 (unat w) + 256 * (byte_of 2 (unat w)
      + 256 * byte_of 3 (unat w))) = unat w"
    unfolding One_nat_def numeral_2_eq_2 numeral_3_eq_3 byte_of_Suc byte_of_0 by simp
  then show ?thesis unfolding of_bytes_def bytes_nested by (simp add: of_nat_unat)
qed

lemma ntohl_ntohl [simp]: "ntohl (ntohl w) = w"
  by (simp only: ntohl_def byte_of_bytes byte_of_less of_bytes_of)

lemma ntohl_inj [simp]: "ntohl a = ntohl b \<longleftrightarrow> a = b"
  by (metis ntohl_ntohl)

lemma ntohll_halves:
  "ucast (ntohll x) = ntohl (ucast (drop_bit 32 x))"
  "ucast (drop_bit 32 (ntohll x)) = ntohl (ucast x)"
proof -
  have lo: "ucast (drop_bit 32 (push_bit 32 x)) = (ucast x :: 32 word)"
    by (rule bit_word_eqI) (auto simp: bit_simps)
  show "ucast (ntohll x) = ntohl (ucast (drop_bit 32 x))"
    unfolding ntohll_def by (rule bit_word_eqI) (auto simp: bit_simps)
  show "ucast (drop_bit 32 (ntohll x)) = ntohl (ucast x)"
    unfolding ntohll_def lo by (rule bit_word_eqI) (auto simp: bit_simps dest: bit_imp_le_length)
qed

lemma word64_of_halves:
  "push_bit 32 (ucast (ucast (drop_bit 32 x) :: 32 word)) OR ucast (ucast x :: 32 word) = (x :: 64 word)"
  by (rule bit_word_eqI) (auto simp: bit_simps)

lemma ntohll_ntohll [simp]: "ntohll (ntohll x) = x"
proof -
  have lo: "ucast (drop_bit 32 (push_bit 32 y)) = (ucast y :: 32 word)" for y :: uint64
    by (rule bit_word_eqI) (auto simp: bit_simps)
  have "ntohll (ntohll x) = push_bit 32 (ucast (ntohl (ucast (ntohll x))))
      OR ucast (ntohl (ucast (drop_bit 32 (ntohll x))))"
    by (subst ntohll_def) (simp only: lo)
  then show ?thesis by (simp only: ntohll_halves ntohl_ntohl word64_of_halves)
qed

section \<open>The packet\<close>

record l_fp =
  l_int :: uint32
  l_fra :: uint32

record ntp_pkt =
  np_li_vn_mode :: uint8
  np_stratum :: uint8
  np_ppoll :: uint8
  np_precision :: int
  np_rootdelay :: uint32
  np_rootdispersion :: uint32
  np_refid :: uint32
  np_reftime :: l_fp
  np_org :: l_fp
  np_rec :: l_fp
  np_xmt :: l_fp

abbreviation JAN_1970 :: uint32 where "JAN_1970 \<equiv> 2208988800"
abbreviation FP_SECOND :: uint32 where "FP_SECOND \<equiv> 0x10000"
abbreviation NTP_VERSION :: uint8 where "NTP_VERSION \<equiv> 4"
abbreviation NTP_MINPOLL :: uint8 where "NTP_MINPOLL \<equiv> 4"
abbreviation NTP_BURST :: int where "NTP_BURST \<equiv> 8"
abbreviation BURST_DELAY :: real where "BURST_DELAY \<equiv> 2"
abbreviation LEAP_NOWARNING :: uint8 where "LEAP_NOWARNING \<equiv> 0"
abbreviation LEAP_NOTINSYNC :: uint8 where "LEAP_NOTINSYNC \<equiv> 3"
abbreviation MODE_CLIENT :: uint8 where "MODE_CLIENT \<equiv> 3"
abbreviation MODE_SERVER :: uint8 where "MODE_SERVER \<equiv> 4"
abbreviation MODE_BROADCAST :: uint8 where "MODE_BROADCAST \<equiv> 5"
abbreviation STRATUM_REFPRIM :: uint8 where "STRATUM_REFPRIM \<equiv> 1"
abbreviation STRATUM_UNSPEC :: uint8 where "STRATUM_UNSPEC \<equiv> 16"

definition PKT_MODE :: "uint8 \<Rightarrow> uint8" where "PKT_MODE b = b AND 7"
definition PKT_VERSION :: "uint8 \<Rightarrow> uint8" where "PKT_VERSION b = drop_bit 3 b AND 7"
definition PKT_LEAP :: "uint8 \<Rightarrow> uint8" where "PKT_LEAP b = drop_bit 6 b AND 3"

definition PKT_LI_VN_MODE :: "uint8 \<Rightarrow> uint8 \<Rightarrow> uint8 \<Rightarrow> uint8" where
  "PKT_LI_VN_MODE li vn md = (push_bit 6 li AND 0xc0) OR (push_bit 3 vn AND 0x38) OR (md AND 7)"

text \<open>Bits of the small masks.\<close>

lemma mask_bits:
  "bit (7 :: uint8) n \<longleftrightarrow> n < 3" "bit (3 :: uint8) n \<longleftrightarrow> n < 2"
  "bit (0xc0 :: uint8) n \<longleftrightarrow> n = 6 \<or> n = 7" "bit (0x38 :: uint8) n \<longleftrightarrow> n = 3 \<or> n = 4 \<or> n = 5"
proof -
  have m: "(7 :: uint8) = mask 3" "(3 :: uint8) = mask 2" "(0xc0 :: uint8) = push_bit 6 (mask 2)"
    "(0x38 :: uint8) = push_bit 3 (mask 3)"
    by (simp_all add: mask_eq_exp_minus_1 push_bit_eq_mult)
  show "bit (7 :: uint8) n \<longleftrightarrow> n < 3" "bit (3 :: uint8) n \<longleftrightarrow> n < 2"
    unfolding m(1,2) by (simp_all add: bit_mask_iff) arith+
  show "bit (0xc0 :: uint8) n \<longleftrightarrow> n = 6 \<or> n = 7" "bit (0x38 :: uint8) n \<longleftrightarrow> n = 3 \<or> n = 4 \<or> n = 5"
    unfolding m(3,4) by (simp_all only: bit_push_bit_iff bit_mask_iff len_of_numeral_defs possible_bit_word) arith+
qed

text \<open>The three fields of the first byte of a packet come back as they were put in.\<close>

lemma PKT_fields:
  "PKT_LEAP (PKT_LI_VN_MODE li vn md) = li AND 3"
  "PKT_VERSION (PKT_LI_VN_MODE li vn md) = vn AND 7"
  "PKT_MODE (PKT_LI_VN_MODE li vn md) = md AND 7"
proof -
  note bits = bit_and_iff bit_or_iff bit_drop_bit_eq bit_push_bit_iff mask_bits o_apply
    len_of_numeral_defs
  show "PKT_LEAP (PKT_LI_VN_MODE li vn md) = li AND 3"
    unfolding PKT_LEAP_def PKT_LI_VN_MODE_def
    by (rule bit_word_eqI) (simp only: bits; auto)
  show "PKT_VERSION (PKT_LI_VN_MODE li vn md) = vn AND 7"
    unfolding PKT_VERSION_def PKT_LI_VN_MODE_def
    by (rule bit_word_eqI) (simp only: bits; auto)
  show "PKT_MODE (PKT_LI_VN_MODE li vn md) = md AND 7"
    unfolding PKT_MODE_def PKT_LI_VN_MODE_def
    by (rule bit_word_eqI) (simp only: bits; auto)
qed

section \<open>Time formats\<close>

definition UTCld_to_NTPtime :: "real \<Rightarrow> l_fp" where
  "UTCld_to_NTPtime time =
     (let i = real_to_word time :: uint32;
          f = real_to_word (4294967296 * (time - vc_real i) + 1/2)
      in \<lparr>l_int = i + JAN_1970, l_fra = f\<rparr>)"

definition NTPtime_to_UTCld :: "l_fp \<Rightarrow> real" where
  "NTPtime_to_UTCld ts =
     vc_real (ntohl (l_int ts) - JAN_1970) + vc_real (ntohl (l_fra ts)) / 4294967296"

text \<open>A timestamp as it is put into a packet.\<close>

definition htonl_fp :: "l_fp \<Rightarrow> l_fp" where
  "htonl_fp ts = \<lparr>l_int = htonl (l_int ts), l_fra = htonl (l_fra ts)\<rparr>"

text \<open>A timestamp read as the unique identifier of an exchange.\<close>

definition fp_id :: "l_fp \<Rightarrow> uint64" where
  "fp_id ts = push_bit 32 (ucast (ntohl (l_int ts))) OR ucast (ntohl (l_fra ts))"

record timeval =
  tv_sec :: int
  tv_usec :: int

definition UTCld_to_timeval :: "real \<Rightarrow> timeval" where
  "UTCld_to_timeval time =
     (let s = uint (real_to_word time :: uint32)
      in \<lparr>tv_sec = s, tv_usec = uint (real_to_word (1000000 * (time - of_int s) + 1/2) :: uint32)\<rparr>)"

definition subtract_tv :: "timeval \<Rightarrow> timeval \<Rightarrow> timeval" where
  "subtract_tv tv1 tv2 =
     (let tv2 = (if tv_usec tv1 < tv_usec tv2 then
            let nsec = (tv_usec tv2 - tv_usec tv1) div 1000000 + 1
            in \<lparr>tv_sec = tv_sec tv2 + nsec, tv_usec = tv_usec tv2 - 1000000 * nsec\<rparr>
          else tv2);
          tv2 = (if tv_usec tv1 - tv_usec tv2 > 1000000 then
            let nsec = (tv_usec tv1 - tv_usec tv2) div 1000000
            in \<lparr>tv_sec = tv_sec tv2 - nsec, tv_usec = tv_usec tv2 + 1000000 * nsec\<rparr>
          else tv2)
      in \<lparr>tv_sec = tv_sec tv1 - tv_sec tv2, tv_usec = tv_usec tv1 - tv_usec tv2\<rparr>)"

lemma uint_real_to_word:
  assumes "0 \<le> x" "x < 2 ^ LENGTH('a)"
  shows "uint (real_to_word x :: 'a::len word) = \<lfloor>x\<rfloor>"
proof -
  have "0 \<le> \<lfloor>x\<rfloor>" "\<lfloor>x\<rfloor> < 2 ^ LENGTH('a)" using assms by (auto simp: floor_less_iff)
  then show ?thesis by (simp add: real_to_word_def uint_word_of_int)
qed

lemma vc_real_real_to_word:
  assumes "0 \<le> x" "x < 2 ^ LENGTH('a)"
  shows "vc_real (real_to_word x :: 'a::len word) = of_int \<lfloor>x\<rfloor>"
  using uint_real_to_word [OF assms] by (metis of_int_of_nat_eq uint_nat)

lemma fp_id_htonl: "fp_id (htonl_fp ts) = push_bit 32 (ucast (l_int ts)) OR ucast (l_fra ts)"
  by (simp add: fp_id_def htonl_fp_def)

lemma fp_id_inj: "fp_id a = fp_id b \<longleftrightarrow> a = (b :: l_fp)"
proof
  have hi: "ucast (drop_bit 32 (fp_id t)) = ntohl (l_int t)" for t :: l_fp
    unfolding fp_id_def by (rule bit_word_eqI) (auto simp: bit_simps dest: bit_imp_le_length)
  have lo: "ucast (fp_id t) = ntohl (l_fra t)" for t :: l_fp
    unfolding fp_id_def by (rule bit_word_eqI) (auto simp: bit_simps)
  assume "fp_id a = fp_id b"
  then have "ntohl (l_int a) = ntohl (l_int b)" "ntohl (l_fra a) = ntohl (l_fra b)"
    using hi lo by metis+
  then show "a = b" by (simp add: l_fp.equality)
qed simp

text \<open>Decoding an encoded time: the seconds, and the rounded fraction modulo its width.\<close>

lemma ntp_decode:
  assumes "0 \<le> t" "t < 2 ^ 32"
  shows "NTPtime_to_UTCld (htonl_fp (UTCld_to_NTPtime t)) =
    of_int \<lfloor>t\<rfloor> + vc_real (real_to_word (4294967296 * (t - of_int \<lfloor>t\<rfloor>) + 1/2) :: uint32) / 4294967296"
proof -
  define i where "i = (real_to_word t :: uint32)"
  have i: "vc_real i = of_int \<lfloor>t\<rfloor>" using assms unfolding i_def by (intro vc_real_real_to_word) simp_all
  then show ?thesis by (simp add: NTPtime_to_UTCld_def htonl_fp_def UTCld_to_NTPtime_def Let_def i_def)
qed

lemma ntp_decode_close:
  assumes "0 \<le> t" "t < 2 ^ 32" "t - of_int \<lfloor>t\<rfloor> < 1 - 1 / 2 ^ 33"
  shows "\<bar>NTPtime_to_UTCld (htonl_fp (UTCld_to_NTPtime t)) - t\<bar> \<le> 1 / 2 ^ 33"
proof -
  define g where "g = 4294967296 * (t - of_int \<lfloor>t\<rfloor>) + 1/2"
  have "g < 2 ^ 32" using assms(3) unfolding g_def by (simp add: field_simps)
  moreover have "0 \<le> t - of_int \<lfloor>t\<rfloor>" by linarith
  then have "0 \<le> g" unfolding g_def by simp
  ultimately have "vc_real (real_to_word g :: uint32) = of_int \<lfloor>g\<rfloor>"
    by (intro vc_real_real_to_word) simp_all
  then have "NTPtime_to_UTCld (htonl_fp (UTCld_to_NTPtime t)) - t =
      of_int \<lfloor>t\<rfloor> + of_int \<lfloor>g\<rfloor> / 4294967296 - t"
    using ntp_decode [OF assms(1,2)] by (simp add: g_def)
  also have "\<dots> = (of_int \<lfloor>g\<rfloor> - (g - 1/2)) / 4294967296" unfolding g_def by (simp add: field_simps)
  finally have e: "NTPtime_to_UTCld (htonl_fp (UTCld_to_NTPtime t)) - t =
      (of_int \<lfloor>g\<rfloor> - (g - 1/2)) / 4294967296" .
  have "\<bar>of_int \<lfloor>g\<rfloor> - (g - 1/2)\<bar> \<le> 1/2" by linarith
  then show ?thesis unfolding e by simp
qed

text \<open>
  C27: The time a host writes into an NTP packet and the time the receiver reads from it
  agree to 2^-33 s for every time of the 32 bit era, except when the fraction of the second
  is within 2^-33 of the next one: there the rounded fraction does not fit its 32 bits, the
  carry into the seconds is lost and the receiver reads the beginning of the second
  instead, almost a second early.
\<close>

theorem ntp_time_roundtrip:
  assumes "0 \<le> t" "t < 2 ^ 32"
  shows "if t - of_int \<lfloor>t\<rfloor> < 1 - 1 / 2 ^ 33
         then \<bar>NTPtime_to_UTCld (htonl_fp (UTCld_to_NTPtime t)) - t\<bar> \<le> 1 / 2 ^ 33
         else NTPtime_to_UTCld (htonl_fp (UTCld_to_NTPtime t)) = of_int \<lfloor>t\<rfloor>"
proof (cases "t - of_int \<lfloor>t\<rfloor> < 1 - 1 / 2 ^ 33")
  case True
  then show ?thesis using ntp_decode_close [OF assms True] by simp
next
  case False
  let ?g = "4294967296 * (t - of_int \<lfloor>t\<rfloor>) + 1/2"
  have "t - of_int \<lfloor>t\<rfloor> < 1" by linarith
  then have "\<lfloor>?g\<rfloor> = 2 ^ 32" using False unfolding floor_eq_iff by (simp add: field_simps)
  then have "(real_to_word ?g :: uint32) = 0" by (simp add: real_to_word_def)
  then show ?thesis using False ntp_decode [OF assms] by simp
qed

theorem ntp_time_roundtrip_witness:
  "\<bar>NTPtime_to_UTCld (htonl_fp (UTCld_to_NTPtime (1700000000 + 1/3))) - (1700000000 + 1/3)\<bar> \<le> 1 / 2 ^ 33"
proof -
  have "\<lfloor>1700000000 + 1/3 :: real\<rfloor> = 1700000000" by (simp add: floor_eq_iff)
  then show ?thesis using ntp_time_roundtrip [of "1700000000 + 1/3"] by simp
qed

definition tv_mus :: "timeval \<Rightarrow> int" where
  "tv_mus tv = 1000000 * tv_sec tv + tv_usec tv"

text \<open>The difference is exact to the microsecond, and its microseconds lie in 0 to 1000000.\<close>

lemma subtract_tv_exact:
  "tv_mus (subtract_tv a b) = tv_mus a - tv_mus b"
  "0 \<le> tv_usec (subtract_tv a b)" "tv_usec (subtract_tv a b) \<le> 1000000"
  by (auto simp: subtract_tv_def tv_mus_def Let_def algebra_simps)

end
