(* ===== verification/Sync_History.thy ===== *)
theory Sync_History
  imports Rad_Prelude
begin

text \<open>
  The time series histories of \<^verbatim>\<open>radclock/sync_history.c\<close>: circular buffers addressed by
  the global stamp index, the searches for the minimum of a window of indices, and the
  incremental updates of that minimum when the window slides by one.

  A C history stores items of any type behind a \<^verbatim>\<open>void *\<close>; the model is polymorphic in the
  item. A pointer returned by \<open>history_find\<close> is an option: \<open>None\<close> is the null pointer, and
  an operation that would dereference it has the result \<open>None\<close>. The interface
  \<open>series_store\<close> states what the estimation algorithms rely on: a history represents the
  recent end of an ever growing series of values.
\<close>

section \<open>The code of sync_history.c\<close>

record 'a history =
  h_buffer :: "'a list"
  h_buffer_sz :: uint32
  h_item_count :: uint32
  h_oldest_i :: index_t
  h_newest_i :: index_t

text \<open>\<open>ok\<close> says whether \<^verbatim>\<open>malloc\<close> succeeded, \<open>z\<close> is the item all of whose bytes are zero;
  \<open>None\<close> is the return value 1.\<close>

definition history_init :: "bool \<Rightarrow> 'a \<Rightarrow> uint32 \<Rightarrow> 'a history option" where
  "history_init ok z buffer_sz =
     (if ok then Some \<lparr>h_buffer = replicate (unat buffer_sz) z, h_buffer_sz = buffer_sz,
        h_item_count = 0, h_oldest_i = 0, h_newest_i = -1\<rparr>
      else None)"

definition history_free :: "'a history \<Rightarrow> 'a history" where
  "history_free h = h\<lparr>h_buffer := [], h_buffer_sz := 0, h_item_count := 0\<rparr>"

definition history_slot :: "uint32 \<Rightarrow> index_t \<Rightarrow> nat" where
  "history_slot sz i = unat (i mod ucast sz)"

definition history_add :: "'a history \<Rightarrow> index_t \<Rightarrow> 'a \<Rightarrow> 'a history" where
  "history_add h i item =
     (if i = h_newest_i h then h
      else let h1 = h\<lparr>h_buffer := (h_buffer h)[history_slot (h_buffer_sz h) i := item],
                      h_newest_i := h_newest_i h + 1\<rparr>
           in if h_item_count h1 < h_buffer_sz h1
              then h1\<lparr>h_item_count := h_item_count h1 + 1\<rparr>
              else h1\<lparr>h_oldest_i := h_oldest_i h1 + 1\<rparr>)"

definition history_old :: "'a history \<Rightarrow> index_t" where
  "history_old h = (if h_item_count h = 0 then -1 else h_oldest_i h)"

definition history_curr :: "'a history \<Rightarrow> index_t" where
  "history_curr h = h_newest_i h"

definition history_find :: "'a history \<Rightarrow> index_t \<Rightarrow> 'a option" where
  "history_find h i =
     (if i < h_oldest_i h then None
      else Some (h_buffer h ! history_slot (h_buffer_sz h) i))"

text \<open>A store through the pointer \<open>history_find\<close> returned.\<close>

definition history_store :: "'a history \<Rightarrow> index_t \<Rightarrow> 'a \<Rightarrow> 'a history option" where
  "history_store h i item =
     (if i < h_oldest_i h then None
      else Some (h\<lparr>h_buffer := (h_buffer h)[history_slot (h_buffer_sz h) i := item]\<rparr>))"

text \<open>
  The copying loop of \<open>history_resize\<close> runs over the indices \<open>oldest_i, \<dots>, newest_i\<close> (it would not end
  if \<open>newest_i\<close> were the largest index; the invariant excludes that).
\<close>

definition history_copy :: "'a history \<Rightarrow> uint32 \<Rightarrow> 'a list \<Rightarrow> 'a list" where
  "history_copy h new_size new_buffer =
     fold (\<lambda>k buf. buf[history_slot new_size (of_nat k) :=
             h_buffer h ! history_slot (h_buffer_sz h) (of_nat k)])
       [unat (h_oldest_i h) ..< Suc (unat (h_newest_i h))] new_buffer"

definition history_resize :: "bool \<Rightarrow> 'a \<Rightarrow> 'a history \<Rightarrow> uint32 \<Rightarrow> int \<times> 'a history" where
  "history_resize ok z h new_size =
     (if new_size = h_buffer_sz h then (0, h)
      else if \<not> ok then (1, h)
      else let new_buffer = replicate (unat new_size) z;
               h1 = (if h_item_count h > 0 \<and> h_item_count h > new_size
                     then h\<lparr>h_item_count := new_size,
                            h_oldest_i := h_newest_i h - ucast new_size + 1\<rparr>
                     else h);
               buf = (if h_item_count h > 0 then history_copy h1 new_size new_buffer
                      else new_buffer)
           in (0, h1\<lparr>h_buffer_sz := new_size, h_buffer := buf\<rparr>))"

subsection \<open>Minimum of a window\<close>

text \<open>
  The loop shared by \<^verbatim>\<open>history_min\<close> and \<^verbatim>\<open>history_min_dbl\<close>: \<open>f\<close> is the lookup, \<open>min_curr\<close> the
  pointer to the current minimum, \<open>ind_curr\<close> its index. Both pointers are dereferenced by
  the comparison.
\<close>

function argmin_loop :: "(index_t \<Rightarrow> 'a::linorder option) \<Rightarrow> index_t \<Rightarrow> index_t \<Rightarrow>
    'a option \<Rightarrow> index_t \<Rightarrow> index_t option" where
  "argmin_loop f j i min_curr ind_curr =
     (if j < i then
        (case (f (j + 1), min_curr) of
           (Some tmp, Some m) \<Rightarrow>
             if tmp < m then argmin_loop f (j + 1) i (Some tmp) (j + 1)
             else argmin_loop f (j + 1) i min_curr ind_curr
         | _ \<Rightarrow> None)
      else Some ind_curr)"
  by pat_completeness auto
termination
  by (relation "measure (\<lambda>(f, j, i, m, k). unat i - unat j)")
    (auto simp: unat_plus_one_less word_less_nat_alt)

declare argmin_loop.simps [simp del]

definition hist_argmin :: "('a::linorder) history \<Rightarrow> index_t \<Rightarrow> index_t \<Rightarrow> index_t option" where
  "hist_argmin h j i = argmin_loop (history_find h) j i (history_find h j) j"

definition history_min :: "vcounter_t history \<Rightarrow> index_t \<Rightarrow> index_t \<Rightarrow> index_t option" where
  "history_min h j i = hist_argmin h j i"

definition history_min_dbl :: "real history \<Rightarrow> index_t \<Rightarrow> index_t \<Rightarrow> index_t option" where
  "history_min_dbl h j i = hist_argmin h j i"

subsection \<open>Sliding windows\<close>

text \<open>
  \<^verbatim>\<open>history_min_slide\<close> and its double version differ in the search they fall back to, an
  argument here: the double version calls the \<^verbatim>\<open>vcounter_t\<close> search on a buffer of
  doubles, that is, it compares their bit patterns as unsigned integers.
\<close>

definition min_slide :: "(index_t \<Rightarrow> index_t \<Rightarrow> index_t option) \<Rightarrow> ('a::linorder) history \<Rightarrow>
    index_t \<Rightarrow> index_t \<Rightarrow> index_t \<Rightarrow> index_t option" where
  "min_slide search h index_curr j i =
     (if i < j then Some (i + 1)
      else if i = j then Some (i + 1)
      else case (history_find h (i + 1), history_find h index_curr) of
             (Some new, Some tmp_curr) \<Rightarrow>
               if new < tmp_curr then Some (i + 1)
               else if j = index_curr then search (j + 1) (i + 1)
               else Some index_curr
           | _ \<Rightarrow> None)"

definition history_min_slide ::
    "vcounter_t history \<Rightarrow> index_t \<Rightarrow> index_t \<Rightarrow> index_t \<Rightarrow> index_t option" where
  "history_min_slide h = min_slide (history_min h) h"

definition history_bits :: "(real \<Rightarrow> uint64) \<Rightarrow> real history \<Rightarrow> vcounter_t history" where
  "history_bits bits h = \<lparr>h_buffer = map bits (h_buffer h), h_buffer_sz = h_buffer_sz h,
     h_item_count = h_item_count h, h_oldest_i = h_oldest_i h, h_newest_i = h_newest_i h\<rparr>"

definition history_min_slide_dbl :: "(real \<Rightarrow> uint64) \<Rightarrow>
    real history \<Rightarrow> index_t \<Rightarrow> index_t \<Rightarrow> index_t \<Rightarrow> index_t option" where
  "history_min_slide_dbl bits h = min_slide (history_min (history_bits bits h)) h"

definition min_slide_value :: "(index_t \<Rightarrow> index_t \<Rightarrow> index_t option) \<Rightarrow> ('a::linorder) history \<Rightarrow>
    'a \<Rightarrow> index_t \<Rightarrow> index_t \<Rightarrow> 'a option" where
  "min_slide_value search h min_curr j i =
     (if i < j then history_find h (i + 1)
      else if i = j then history_find h (i + 1)
      else case history_find h (i + 1) of
             None \<Rightarrow> None
           | Some new \<Rightarrow>
               if new < min_curr then Some new
               else case history_find h j of
                      None \<Rightarrow> None
                    | Some exiting \<Rightarrow>
                        if exiting = min_curr
                        then Option.bind (search (j + 1) (i + 1)) (history_find h)
                        else Some min_curr)"

definition history_min_slide_value ::
    "vcounter_t history \<Rightarrow> vcounter_t \<Rightarrow> index_t \<Rightarrow> index_t \<Rightarrow> vcounter_t option" where
  "history_min_slide_value h = min_slide_value (history_min h) h"

definition history_min_slide_value_dbl ::
    "real history \<Rightarrow> real \<Rightarrow> index_t \<Rightarrow> index_t \<Rightarrow> real option" where
  "history_min_slide_value_dbl h = min_slide_value (history_min_dbl h) h"

section \<open>The interface: a store of the recent end of a series\<close>

text \<open>\<open>first_min v j i k\<close>: \<open>k\<close> is the first index in \<open>j..i\<close> at which \<open>v\<close> is minimal.\<close>

definition first_min :: "(nat \<Rightarrow> 'a::linorder) \<Rightarrow> nat \<Rightarrow> nat \<Rightarrow> nat \<Rightarrow> bool" where
  "first_min v j i k \<longleftrightarrow> j \<le> k \<and> k \<le> i \<and> (\<forall>l. j \<le> l \<and> l \<le> i \<longrightarrow> v k \<le> v l)
     \<and> (\<forall>l. j \<le> l \<and> l < k \<longrightarrow> v k < v l)"

lemma first_min_unique: "first_min v j i k \<Longrightarrow> first_min v j i k' \<Longrightarrow> k = k'"
  unfolding first_min_def by (metis leD linorder_neqE_nat)

lemma first_min_single: "first_min v j j j"
  by (auto simp: first_min_def)

lemma first_min_extend:
  assumes "first_min v j i k"
  shows "first_min v j (Suc i) (if v (Suc i) < v k then Suc i else k)"
  using assms unfolding first_min_def by (auto simp: le_Suc_eq)

lemma first_min_drop: "first_min v j i k \<Longrightarrow> j < k \<Longrightarrow> first_min v (Suc j) i k"
  by (auto simp: first_min_def)

lemma first_min_new:
  assumes "first_min v j i k" "v (Suc i) < v k"
  shows "first_min v (Suc j) (Suc i) (Suc i)"
proof -
  have "v (Suc i) < v l" if "j \<le> l" "l \<le> i" for l
    using assms that by (auto simp: first_min_def intro: less_le_trans)
  moreover have "j \<le> i" using assms(1) by (auto simp: first_min_def)
  ultimately show ?thesis by (auto simp: first_min_def le_Suc_eq less_imp_le)
qed

lemma first_min_Min: "first_min v j i k \<Longrightarrow> v k = Min (v ` {j..i})"
  unfolding first_min_def by (intro Min_eqI [symmetric]) auto

lemma unat_of_nat64: "k < 2 ^ 64 \<Longrightarrow> unat (of_nat k :: uint64) = k"
  by (simp add: unat_of_nat)

lemma of_nat_Suc_index: "(of_nat k :: index_t) + 1 = of_nat (Suc k)"
  by simp

locale series_store =
  fixes repr :: "'h \<Rightarrow> 'a list \<Rightarrow> bool"
    and low :: "'h \<Rightarrow> nat"
    and add :: "'h \<Rightarrow> index_t \<Rightarrow> 'a \<Rightarrow> 'h"
    and find :: "'h \<Rightarrow> index_t \<Rightarrow> 'a option"
    and size_of :: "'h \<Rightarrow> nat"
  assumes repr_length: "repr h xs \<Longrightarrow> length xs < 2 ^ 64 - 1"
    and low_le: "repr h xs \<Longrightarrow> low h \<le> length xs"
    and find_present: "repr h xs \<Longrightarrow> low h \<le> k \<Longrightarrow> k < length xs \<Longrightarrow> find h (of_nat k) = Some (xs ! k)"
    and find_absent: "repr h xs \<Longrightarrow> k < low h \<Longrightarrow> find h (of_nat k) = None"
    and add_repr: "repr h xs \<Longrightarrow> length xs < 2 ^ 64 - 2 \<Longrightarrow> repr (add h (of_nat (length xs)) x) (xs @ [x])"
    and add_size: "repr h xs \<Longrightarrow> size_of (add h i x) = size_of h"
    and add_low: "repr h xs \<Longrightarrow> low (add h (of_nat (length xs)) x) =
       (if length xs - low h < size_of h then low h else Suc (low h))"
begin

lemma find_suc:
  assumes "repr h xs" "low h \<le> k" "Suc k < length xs"
  shows "find h (of_nat k + 1) = Some (xs ! Suc k)"
  using find_present [OF assms(1), of "Suc k"] assms(2,3) by (simp add: add.commute)

lemma index_less:
  assumes "repr h xs" "i < length xs" "j < length xs"
  shows "(of_nat j :: index_t) < of_nat i \<longleftrightarrow> j < i"
  using assms repr_length [OF assms(1)] by (simp add: word_less_nat_alt unat_of_nat)

text \<open>Filling an empty store with a constant series, as at the end of the warmup.\<close>

lemma add_series:
  assumes "repr h xs" "length xs + length ys < 2 ^ 64 - 1"
  shows "repr (fold (\<lambda>(k, y) h. add h (of_nat k) y) (enumerate (length xs) ys) h) (xs @ ys)"
  using assms
proof (induction ys arbitrary: h xs)
  case Nil
  then show ?case by simp
next
  case (Cons y ys)
  have "repr (add h (of_nat (length xs)) y) (xs @ [y])" using Cons.prems by (intro add_repr) auto
  then show ?case using Cons.IH [of _ "xs @ [y]"] Cons.prems(2) by simp
qed

end

text \<open>With an order on the values, the minimum searches of the code are correct.\<close>

locale ordered_series_store = series_store repr low add find size_of
  for repr :: "'h \<Rightarrow> 'a::linorder list \<Rightarrow> bool" and low add find size_of
begin

lemma argmin_loop_correct:
  assumes "repr h xs" "low h \<le> lo" "lo \<le> j" "j \<le> i" "i < length xs" "first_min ((!) xs) lo j k"
  shows "\<exists>k'. argmin_loop (find h) (of_nat j) (of_nat i) (Some (xs ! k)) (of_nat k) = Some (of_nat k')
    \<and> first_min ((!) xs) lo i k'"
  using assms
proof (induction "i - j" arbitrary: j k)
  case 0
  then show ?case by (subst argmin_loop.simps) auto
next
  case (Suc d)
  then have ji: "j < i" "(of_nat j :: index_t) < of_nat i"
    using index_less [OF Suc.prems(1), of i j] by auto
  have step: "find h (of_nat j + 1) = Some (xs ! Suc j)"
    using find_suc [OF Suc.prems(1)] Suc.prems(2-5) ji by simp
  let ?k = "if xs ! Suc j < xs ! k then Suc j else k"
  have "\<exists>k'. argmin_loop (find h) (of_nat (Suc j)) (of_nat i) (Some (xs ! ?k)) (of_nat ?k) = Some (of_nat k')
    \<and> first_min ((!) xs) lo i k'"
    using Suc.prems ji Suc.hyps(2) first_min_extend [OF Suc.prems(6)] by (intro Suc.hyps(1)) auto
  then show ?case
    using ji step by (subst argmin_loop.simps) (auto simp: add.commute split: if_splits)
qed

lemma window_argmin:
  assumes "repr h xs" "low h \<le> j" "j \<le> i" "i < length xs"
  shows "\<exists>k. argmin_loop (find h) (of_nat j) (of_nat i) (find h (of_nat j)) (of_nat j) = Some (of_nat k)
    \<and> first_min ((!) xs) j i k"
  using argmin_loop_correct [OF assms(1,2) le_refl assms(3,4) first_min_single]
    find_present [OF assms(1,2)] assms(3,4) by simp

end

section \<open>Histories represent series\<close>

definition hist_low :: "'a history \<Rightarrow> nat" where
  "hist_low h = unat (h_oldest_i h)"

definition hist_size :: "'a history \<Rightarrow> nat" where
  "hist_size h = unat (h_buffer_sz h)"

text \<open>
  \<open>hist_repr h xs\<close>: the values inserted so far, from index 0 on, are \<open>xs\<close>, and the
  history holds the last \<open>item_count\<close> of them at their slots.
\<close>

definition hist_repr :: "'a history \<Rightarrow> 'a list \<Rightarrow> bool" where
  "hist_repr h xs \<longleftrightarrow> 0 < hist_size h \<and> length (h_buffer h) = hist_size h
     \<and> unat (h_item_count h) \<le> hist_size h \<and> unat (h_item_count h) \<le> length xs
     \<and> (h_item_count h = 0 \<longrightarrow> xs = []) \<and> length xs < 2 ^ 64 - 1
     \<and> h_newest_i h = of_nat (length xs) - 1
     \<and> unat (h_oldest_i h) = length xs - unat (h_item_count h)
     \<and> (\<forall>k. length xs - unat (h_item_count h) \<le> k \<and> k < length xs \<longrightarrow>
           h_buffer h ! (k mod hist_size h) = xs ! k)"

lemma hist_low_eq: "hist_repr h xs \<Longrightarrow> hist_low h = length xs - unat (h_item_count h)"
  by (simp add: hist_repr_def hist_low_def)

lemma hist_slot: "k < 2 ^ 64 \<Longrightarrow> history_slot (h_buffer_sz h) (of_nat k) = k mod hist_size h"
  by (simp add: history_slot_def hist_size_def unat_mod unat_of_nat64)

lemma hist_slot_sz: "k < 2 ^ 64 \<Longrightarrow> history_slot sz (of_nat k) = k mod unat sz"
  by (simp add: history_slot_def unat_mod unat_of_nat64)

lemma hist_find_present:
  assumes "hist_repr h xs" "hist_low h \<le> k" "k < length xs"
  shows "history_find h (of_nat k) = Some (xs ! k)"
proof -
  have k: "k < 2 ^ 64" using assms by (auto simp: hist_repr_def)
  have "\<not> (of_nat k :: index_t) < h_oldest_i h"
    unfolding word_less_nat_alt unat_of_nat64 [OF k] using assms(2) by (simp add: hist_low_def)
  moreover have "h_buffer h ! (k mod hist_size h) = xs ! k"
    using assms hist_low_eq [OF assms(1)] by (simp add: hist_repr_def)
  ultimately show ?thesis using hist_slot [OF k, of h] by (simp add: history_find_def)
qed

lemma hist_find_absent:
  assumes "hist_repr h xs" "k < hist_low h"
  shows "history_find h (of_nat k) = None"
proof -
  have "k < 2 ^ 64" using assms unat_less_64 [of "h_oldest_i h"] by (simp add: hist_low_def)
  then have "(of_nat k :: index_t) < h_oldest_i h"
    using assms(2) by (simp add: word_less_nat_alt unat_of_nat64 hist_low_def)
  then show ?thesis by (simp add: history_find_def)
qed

lemma hist_init_repr:
  "history_init True z sz = Some h \<Longrightarrow> 0 < sz \<Longrightarrow> hist_repr h [] \<and> hist_size h = unat sz"
  by (auto simp: history_init_def hist_repr_def hist_size_def word_less_nat_alt)

lemma history_add_fields:
  assumes "hist_repr h xs"
  shows "history_add h (of_nat (length xs)) x =
    h\<lparr>h_buffer := (h_buffer h)[length xs mod hist_size h := x], h_newest_i := of_nat (length xs),
      h_item_count := (if unat (h_item_count h) < hist_size h then h_item_count h + 1 else h_item_count h),
      h_oldest_i := (if unat (h_item_count h) < hist_size h then h_oldest_i h else h_oldest_i h + 1)\<rparr>"
proof -
  have "length xs < 2 ^ 64" and new: "h_newest_i h = of_nat (length xs) - 1"
    using assms by (auto simp: hist_repr_def)
  moreover have "of_nat (length xs) \<noteq> (of_nat (length xs) - 1 :: index_t)" by simp
  ultimately show ?thesis
    by (simp add: history_add_def Let_def hist_slot word_less_nat_alt hist_size_def)
qed

lemma hist_count_next:
  assumes "unat (h_item_count h) < hist_size h"
  shows "unat (h_item_count h + 1) = Suc (unat (h_item_count h))"
  using assms unat_plus_one_less [of "h_item_count h" "h_buffer_sz h"]
  by (simp add: word_less_nat_alt hist_size_def)

lemma hist_add_repr:
  assumes r: "hist_repr h xs" and len: "length xs < 2 ^ 64 - 2"
  shows "hist_repr (history_add h (of_nat (length xs)) x) (xs @ [x])" (is "hist_repr ?h _")
proof -
  let ?c = "unat (h_item_count h)" and ?n = "length xs" and ?sz = "hist_size h"
  let ?c' = "if ?c < ?sz then Suc ?c else ?c"
  note f = history_add_fields [OF r, of x]
  have c: "?c \<le> ?sz" "?c \<le> ?n" "0 < ?sz" and buf: "length (h_buffer h) = ?sz"
    using r by (auto simp: hist_repr_def)
  have cnt: "unat (h_item_count ?h) = ?c'" using f hist_count_next [of h] by simp
  have cells: "h_buffer ?h ! (k mod ?sz) = (xs @ [x]) ! k" if k: "Suc ?n - ?c' \<le> k" "k < Suc ?n" for k
  proof (cases "k = ?n")
    case True
    then show ?thesis using f c buf by simp
  next
    case False
    then have "k < ?n" "?n - ?c \<le> k" "?n < k + ?sz" using k c by (auto split: if_splits)
    then have "k mod ?sz \<noteq> ?n mod ?sz" using mod_eq_close [of k ?sz ?n] by auto
    then show ?thesis
      using r f \<open>k < ?n\<close> \<open>?n - ?c \<le> k\<close> by (simp add: hist_repr_def nth_append)
  qed
  have "hist_low h < 2 ^ 64 - 1" using hist_low_eq [OF r] r by (auto simp: hist_repr_def)
  then have "unat (h_oldest_i h + 1) = Suc (hist_low h)"
    using unat_add_of_nat [of "h_oldest_i h" 1] by (simp add: hist_low_def)
  then have old: "unat (h_oldest_i ?h) = Suc ?n - ?c'"
    using f c hist_low_eq [OF r] by (auto simp: hist_low_def Suc_diff_le)
  have "h_item_count ?h \<noteq> 0" using cnt c by (auto simp: unat_eq_zero split: if_splits)
  moreover have "hist_size ?h = ?sz" "h_newest_i ?h = of_nat (length (xs @ [x])) - 1"
      "length (h_buffer ?h) = ?sz"
    using f buf by (simp_all add: hist_size_def)
  ultimately show ?thesis
    unfolding hist_repr_def cnt using len c cells old by (auto split: if_splits)
qed

lemma hist_size_add: "hist_size (history_add h i x) = hist_size h"
  by (simp add: history_add_def hist_size_def Let_def)

lemma hist_add_low:
  assumes "hist_repr h xs"
  shows "hist_low (history_add h (of_nat (length xs)) x) =
    (if length xs - hist_low h < hist_size h then hist_low h else Suc (hist_low h))"
proof -
  let ?c = "unat (h_item_count h)"
  have "length xs - hist_low h = ?c" "hist_low h < 2 ^ 64 - 1"
    using hist_low_eq [OF assms] assms by (auto simp: hist_repr_def)
  moreover from this(2) have "unat (h_oldest_i h + 1) = Suc (hist_low h)"
    unfolding hist_low_def using unat_add_of_nat [of "h_oldest_i h" 1] by simp
  ultimately show ?thesis
    using history_add_fields [OF assms, of x] by (simp add: hist_low_def)
qed

interpretation hist: series_store hist_repr hist_low history_add history_find hist_size
  by unfold_locales
    (auto simp: hist_find_present hist_find_absent hist_add_repr hist_add_low hist_size_add hist_low_eq,
      auto simp: hist_repr_def)

interpretation ohist: ordered_series_store hist_repr hist_low history_add history_find hist_size
  by unfold_locales


text \<open>At least the last \<open>w\<close> values of the series are still held.\<close>

definition hist_covers :: "'a history \<Rightarrow> 'a list \<Rightarrow> nat \<Rightarrow> bool" where
  "hist_covers h xs w \<longleftrightarrow> hist_low h \<le> length xs - w"

lemma hist_covers_add:
  assumes "hist_repr h xs" "hist_covers h xs w" "w \<le> hist_size h"
  shows "hist_covers (history_add h (of_nat (length xs)) x) (xs @ [x]) w"
  using assms hist_add_low [OF assms(1), of x] by (auto simp: hist_covers_def)

lemma history_store_repr:
  assumes r: "hist_repr h xs" and k: "hist_low h \<le> k" "k < length xs"
  shows "\<exists>h'. history_store h (of_nat k) v = Some h' \<and> hist_repr h' (xs[k := v])
    \<and> hist_low h' = hist_low h \<and> hist_size h' = hist_size h"
proof -
  let ?h = "h\<lparr>h_buffer := (h_buffer h)[k mod hist_size h := v]\<rparr>"
  let ?c = "unat (h_item_count h)"
  have k64: "k < 2 ^ 64" using r k by (auto simp: hist_repr_def)
  have "\<not> (of_nat k :: index_t) < h_oldest_i h"
    unfolding word_less_nat_alt unat_of_nat64 [OF k64] using k(1) by (simp add: hist_low_def)
  then have st: "history_store h (of_nat k) v = Some ?h"
    using hist_slot [OF k64, of h] by (simp add: history_store_def)
  have c: "?c \<le> hist_size h" "length (h_buffer h) = hist_size h" "0 < hist_size h"
    using r by (auto simp: hist_repr_def)
  have cells: "(h_buffer h)[k mod hist_size h := v] ! (l mod hist_size h) = xs[k := v] ! l"
    if l: "length xs - ?c \<le> l" "l < length xs" for l
  proof (cases "l = k")
    case True
    then show ?thesis using c k by simp
  next
    case False
    have "length xs - ?c \<le> k" "length xs \<le> length xs - ?c + hist_size h"
      using k(1) c hist_low_eq [OF r] by auto
    then have "l mod hist_size h \<noteq> k mod hist_size h"
      using mod_eq_window [of l "hist_size h" k "length xs - ?c"] l k(2) False by linarith
    then show ?thesis using False l r by (simp add: hist_repr_def)
  qed
  have "hist_repr ?h (xs[k := v])"
    using r cells k(2) by (auto simp: hist_repr_def hist_size_def)
  then show ?thesis using st by (simp add: hist_low_def hist_size_def)
qed

section \<open>Correctness of the searches and of the sliding updates\<close>

lemma hist_argmin_correct:
  assumes "hist_repr h xs" "hist_low h \<le> j" "j \<le> i" "i < length xs"
  obtains k where "hist_argmin h (of_nat j) (of_nat i) = Some (of_nat k)" "first_min ((!) xs) j i k"
  using ohist.window_argmin [OF assms] unfolding hist_argmin_def by blast

lemma min_slide_correct:
  assumes r: "hist_repr h xs" and low: "hist_low h \<le> j" "j \<le> i" "Suc i < length xs"
    and cur: "first_min ((!) xs) j i c"
    and search: "search (of_nat (Suc j)) (of_nat (Suc i)) = hist_argmin h (of_nat (Suc j)) (of_nat (Suc i))"
  shows "\<exists>k. min_slide search h (of_nat c) (of_nat j) (of_nat i) = Some (of_nat k)
    \<and> first_min ((!) xs) (Suc j) (Suc i) k"
proof (cases "i = j")
  case True
  then have "min_slide search h (of_nat c) (of_nat j) (of_nat i) = Some (of_nat (Suc i))"
    by (simp add: min_slide_def add.commute)
  then show ?thesis using True first_min_single [of "(!) xs" "Suc i"] by blast
next
  case False
  then have ji: "j < i" using low(2) by simp
  have c: "j \<le> c" "c \<le> i" using cur by (auto simp: first_min_def)
  have w: "\<not> (of_nat i :: index_t) < of_nat j" "(of_nat i :: index_t) \<noteq> of_nat j"
      "(of_nat j :: index_t) = of_nat c \<longleftrightarrow> j = c"
    using hist.index_less [OF r, of i j] hist.index_less [OF r, of j i]
      hist.index_less [OF r, of c j] ji low(3) c by auto
  have new: "history_find h (of_nat i + 1) = Some (xs ! Suc i)"
    using hist.find_suc [OF r, of i] low by simp
  have curr: "history_find h (of_nat c) = Some (xs ! c)"
    using hist_find_present [OF r, of c] low c by simp
  show ?thesis
  proof (cases "xs ! Suc i < xs ! c")
    case True
    then have "min_slide search h (of_nat c) (of_nat j) (of_nat i) = Some (of_nat (Suc i))"
      using w new curr by (simp add: min_slide_def add.commute)
    then show ?thesis using first_min_new [OF cur True] by blast
  next
    case False
    show ?thesis
    proof (cases "j = c")
      case True
      obtain k where "hist_argmin h (of_nat (Suc j)) (of_nat (Suc i)) = Some (of_nat k)"
          "first_min ((!) xs) (Suc j) (Suc i) k"
        using hist_argmin_correct [OF r, of "Suc j" "Suc i"] low by auto
      then show ?thesis
        using w new curr False True search by (auto simp: min_slide_def add.commute)
    next
      case ne: False
      then have "first_min ((!) xs) (Suc j) (Suc i) c"
        using first_min_extend [OF first_min_drop [OF cur]] c False by auto
      then show ?thesis using w new curr False ne by (auto simp: min_slide_def)
    qed
  qed
qed

text \<open>The value form needs the current minimum to be that of the window; it may occur again.\<close>

lemma Min_image_Suc:
  fixes v :: "nat \<Rightarrow> 'a::linorder"
  assumes "j \<le> i"
  shows "Min (v ` {j..Suc i}) = min (v (Suc i)) (Min (v ` {j..i}))"
  using assms by (simp add: atLeastAtMostSuc_conv)

lemma min_slide_value_correct:
  assumes r: "hist_repr h xs" and low: "hist_low h \<le> j" "j \<le> i" "Suc i < length xs"
    and search: "search (of_nat (Suc j)) (of_nat (Suc i)) = hist_argmin h (of_nat (Suc j)) (of_nat (Suc i))"
  shows "min_slide_value search h (Min ((!) xs ` {j..i})) (of_nat j) (of_nat i)
    = Some (Min ((!) xs ` {Suc j..Suc i}))"
proof -
  let ?m = "Min ((!) xs ` {j..i})"
  have new: "history_find h (of_nat i + 1) = Some (xs ! Suc i)"
    using hist.find_suc [OF r, of i] low by simp
  have old: "history_find h (of_nat j) = Some (xs ! j)"
    using hist_find_present [OF r, of j] low by simp
  obtain k where k: "hist_argmin h (of_nat (Suc j)) (of_nat (Suc i)) = Some (of_nat k)"
      "first_min ((!) xs) (Suc j) (Suc i) k"
    using hist_argmin_correct [OF r, of "Suc j" "Suc i"] low by auto
  have fk: "history_find h (of_nat k) = Some (Min ((!) xs ` {Suc j..Suc i}))"
    using hist_find_present [OF r, of k] k(2) low first_min_Min [OF k(2)] by (auto simp: first_min_def)
  show ?thesis
  proof (cases "i = j")
    case True
    then show ?thesis using new by (simp add: min_slide_value_def)
  next
    case False
    then have ji: "j < i" using low by simp
    then have w: "\<not> (of_nat i :: index_t) < of_nat j" "(of_nat i :: index_t) \<noteq> of_nat j"
      using hist.index_less [OF r, of i j] hist.index_less [OF r, of j i] low(3) by auto
    have split: "?m = min (xs ! j) (Min ((!) xs ` {Suc j..i}))"
      using ji by (simp add: atLeastAtMost_insertL [symmetric])
    have new_win: "Min ((!) xs ` {Suc j..Suc i}) = min (xs ! Suc i) (Min ((!) xs ` {Suc j..i}))"
      using Min_image_Suc [of "Suc j" i "(!) xs"] ji by simp
    have found: "search (of_nat j + 1) (of_nat i + 1) = Some (of_nat k)"
      using search k(1) by (simp add: add.commute)
    show ?thesis
      using w new old found fk unfolding min_slide_value_def split new_win
      by (auto simp: min_def not_less not_le)
  qed
qed

section \<open>Resizing\<close>

lemma fold_ring_write:
  fixes f :: "nat \<Rightarrow> 'a"
  assumes "b \<le> a + n" "length buf = n"
  shows "length (fold (\<lambda>k buf. buf[k mod n := f k]) [a..<b] buf) = n
    \<and> (\<forall>k. a \<le> k \<and> k < b \<longrightarrow> fold (\<lambda>k buf. buf[k mod n := f k]) [a..<b] buf ! (k mod n) = f k)"
  using assms(1)
proof (induction b)
  case 0
  then show ?case using assms(2) by simp
next
  case (Suc b)
  show ?case
  proof (cases "a \<le> b")
    case False
    then show ?thesis using assms(2) by auto
  next
    case True
    let ?buf = "fold (\<lambda>k buf. buf[k mod n := f k]) [a..<b] buf"
    have IH: "length ?buf = n" "\<And>k. a \<le> k \<Longrightarrow> k < b \<Longrightarrow> ?buf ! (k mod n) = f k"
      using Suc by auto
    have pos: "0 < n" using Suc.prems True by simp
    have "?buf[b mod n := f b] ! (k mod n) = f k" if "a \<le> k" "k < Suc b" for k
    proof (cases "k = b")
      case True
      then show ?thesis using IH(1) pos by simp
    next
      case False
      then have "k mod n \<noteq> b mod n" using mod_eq_close [of k n b] that Suc.prems by auto
      then show ?thesis using IH(2) [of k] that False by simp
    qed
    then show ?thesis using True IH(1) by simp
  qed
qed

lemma history_copy_ring:
  assumes "unat (h_newest_i h) < 2 ^ 64 - 1"
  shows "history_copy h new_size buf = fold (\<lambda>k buf. buf[k mod unat new_size :=
      h_buffer h ! (k mod hist_size h)]) [unat (h_oldest_i h) ..< Suc (unat (h_newest_i h))] buf"
proof -
  have "(\<lambda>buf. buf[history_slot new_size (of_nat k) := h_buffer h ! history_slot (h_buffer_sz h) (of_nat k)])
      = (\<lambda>buf. buf[k mod unat new_size := h_buffer h ! (k mod hist_size h)])"
    if "k \<in> set [unat (h_oldest_i h) ..< Suc (unat (h_newest_i h))]" for k
  proof -
    have "k < 2 ^ 64" using that assms by (simp del: upt_Suc)
    then show ?thesis by (simp only: hist_slot_sz hist_size_def)
  qed
  then show ?thesis unfolding history_copy_def by (intro fold_cong refl) blast
qed

lemma hist_newest:
  assumes "hist_repr h xs" "xs \<noteq> []"
  shows "unat (h_newest_i h) = length xs - 1"
proof -
  have len: "length xs < 2 ^ 64 - 1" "h_newest_i h = of_nat (length xs) - 1"
    using assms(1) by (auto simp: hist_repr_def)
  moreover have "(of_nat (length xs) :: index_t) - 1 = of_nat (length xs - 1)"
    using assms(2) by (simp add: of_nat_diff Suc_le_eq)
  ultimately show ?thesis using unat_of_nat64 [of "length xs - 1"] by simp
qed

lemma history_resize_repr:
  assumes r: "hist_repr h xs" and new: "0 < new_size" and ok: "history_resize ok z h new_size = (0, h')"
  shows "hist_repr h' xs \<and> hist_size h' = unat new_size
    \<and> length xs - hist_low h' = min (length xs - hist_low h) (unat new_size)"
proof (cases "new_size = h_buffer_sz h")
  case True
  then have "h' = h" using ok by (simp add: history_resize_def)
  moreover have "length xs - hist_low h \<le> hist_size h"
    using hist_low_eq [OF r] r by (auto simp: hist_repr_def)
  ultimately show ?thesis using r True by (simp add: hist_size_def min_absorb1)
next
  case ne: False
  let ?c = "unat (h_item_count h)" and ?N = "unat new_size" and ?n = "length xs"
  let ?h1 = "if h_item_count h > 0 \<and> h_item_count h > new_size
             then h\<lparr>h_item_count := new_size, h_oldest_i := h_newest_i h - ucast new_size + 1\<rparr> else h"
  have N: "0 < ?N" using new by (simp add: word_less_nat_alt)
  show ?thesis
  proof (cases "h_item_count h = 0")
    case True
    then have "xs = []" using r by (simp add: hist_repr_def)
    then show ?thesis using ok ne True r N
      by (auto simp: history_resize_def hist_repr_def hist_size_def Let_def split: if_splits)
  next
    case False
    then have c: "0 < ?c" "?c \<le> ?n" "?c \<le> hist_size h"
      using r by (auto simp: hist_repr_def unat_gt_0)
    then have xs: "xs \<noteq> []" by auto
    have len: "?n < 2 ^ 64 - 1" using r by (simp add: hist_repr_def)
    have newest: "unat (h_newest_i h) = ?n - 1" using hist_newest [OF r xs] .
    have cnt: "unat (h_item_count ?h1) = min ?c ?N"
      using c by (auto simp: word_less_nat_alt min_def)
    have cut: "unat (h_newest_i h - ucast new_size + 1) = ?n - ?N" if "?N < ?c"
    proof -
      have "(of_nat (?n - ?N) :: index_t) = of_nat ?n - of_nat ?N" using that c by (simp add: of_nat_diff)
      moreover have "(of_nat ?N :: index_t) = ucast new_size" by (simp add: of_nat_unat)
      ultimately have "h_newest_i h - ucast new_size + 1 = of_nat (?n - ?N)"
        using r by (simp add: hist_repr_def)
      then show ?thesis using unat_of_nat64 [of "?n - ?N"] len by simp
    qed
    then have old: "unat (h_oldest_i ?h1) = ?n - min ?c ?N"
      using c hist_low_eq [OF r] by (auto simp: word_less_nat_alt min_def hist_low_def)
    have h': "h' = ?h1\<lparr>h_buffer_sz := new_size,
        h_buffer := history_copy ?h1 new_size (replicate ?N z)\<rparr>"
      using ok ne False by (auto simp: history_resize_def Let_def word_neq_0_conv split: if_splits)
    have f1: "h_newest_i ?h1 = h_newest_i h" "h_buffer ?h1 = h_buffer h" "hist_size ?h1 = hist_size h"
      by (simp_all add: hist_size_def)
    have copy: "history_copy ?h1 new_size (replicate ?N z) = fold (\<lambda>k buf. buf[k mod ?N :=
        h_buffer h ! (k mod hist_size h)]) [?n - min ?c ?N ..< ?n] (replicate ?N z)"
    proof -
      have p: "unat (h_newest_i ?h1) < 2 ^ 64 - 1" unfolding f1 newest using len by simp
      have e: "Suc (?n - 1) = ?n" using xs by simp
      show ?thesis using history_copy_ring [OF p] unfolding f1 newest old e .
    qed
    have "h_buffer h ! (k mod hist_size h) = xs ! k" if "?n - min ?c ?N \<le> k" "k < ?n" for k
      using r that by (simp add: hist_repr_def)
    then have cells: "length (h_buffer h') = ?N"
        "\<forall>k. ?n - min ?c ?N \<le> k \<and> k < ?n \<longrightarrow> h_buffer h' ! (k mod ?N) = xs ! k"
      using fold_ring_write [of ?n "?n - min ?c ?N" ?N "replicate ?N z"
          "\<lambda>k. h_buffer h ! (k mod hist_size h)"] copy h' by auto
    have "h_item_count h' = h_item_count ?h1" "h_oldest_i h' = h_oldest_i ?h1"
        "h_newest_i h' = of_nat ?n - 1" "hist_size h' = ?N"
      using h' r by (simp_all add: hist_repr_def hist_size_def)
    then have "hist_repr h' xs"
      unfolding hist_repr_def using cells cnt old N c len by (auto simp: unat_eq_zero)
    moreover have "hist_low h' = ?n - min ?c ?N" using h' old by (simp add: hist_low_def)
    ultimately show ?thesis
      using \<open>hist_size h' = ?N\<close> hist_low_eq [OF r] c by (simp add: min_def)
  qed
qed

section \<open>Properties\<close>

definition history_feed :: "'a list \<Rightarrow> 'a history \<Rightarrow> 'a history" where
  "history_feed ys h = fold (\<lambda>(k, y) h. history_add h (of_nat k) y) (enumerate 0 ys) h"

lemma feed_repr:
  assumes "history_init True z sz = Some h" "0 < sz" "length ys < 2 ^ 64 - 1"
  shows "hist_repr (history_feed ys h) ys"
  using hist.add_series [of h "[]" ys] hist_init_repr [OF assms(1,2)] assms(3)
  by (simp add: history_feed_def)

lemma feed_snoc:
  "history_feed (ys @ [y]) h = history_add (history_feed ys h) (of_nat (length ys)) y"
  by (simp add: history_feed_def enumerate_append_eq)

lemma feed_size: "hist_size (history_feed ys h) = hist_size h"
proof (induction ys rule: rev_induct)
  case (snoc y ys)
  then show ?case by (simp only: feed_snoc hist_size_add)
qed (simp add: history_feed_def)

lemma feed_low:
  assumes "history_init True z sz = Some h" "0 < sz" "length ys < 2 ^ 64 - 1"
  shows "hist_low (history_feed ys h) = length ys - unat sz"
  using assms(3)
proof (induction ys rule: rev_induct)
  case Nil
  then show ?case using assms(1) by (auto simp: history_feed_def hist_low_def history_init_def)
next
  case (snoc y ys)
  let ?g = "history_feed ys h"
  have r: "hist_repr ?g ys" using feed_repr [OF assms(1,2)] snoc.prems by simp
  have sz: "hist_size ?g = unat sz"
    using feed_size [of ys h] hist_init_repr [OF assms(1,2)] by simp
  have "hist_low ?g = length ys - unat sz" using snoc by simp
  then show ?case using hist_add_low [OF r, of y] sz by (simp add: feed_snoc Suc_diff_le)
qed

text \<open>
  C15: After any sequence of values has been added under consecutive indices to a freshly
  initialised history, looking up an index returns exactly the value added under it if it
  is among the last \<open>buffer_sz\<close> ones, and the null pointer if it is older.
\<close>

theorem history_find_recent:
  assumes "history_init True z sz = Some h" "0 < sz" "length ys < 2 ^ 64 - 1" "k < length ys"
  shows "history_find (history_feed ys h) (of_nat k) =
    (if length ys \<le> k + unat sz then Some (ys ! k) else None)"
proof -
  note r = feed_repr [OF assms(1-3)] and l = feed_low [OF assms(1-3)]
  show ?thesis
    using hist_find_present [OF r, of k] hist_find_absent [OF r, of k] l assms(4) by auto
qed

theorem history_find_recent_witness:
  "history_find (history_feed [7, 8, 9 :: nat] (the (history_init True 0 2))) (of_nat 1) = Some 8
   \<and> history_find (history_feed [7, 8, 9 :: nat] (the (history_init True 0 2))) (of_nat 0) = None"
  using history_find_recent [of 0 2 "the (history_init True 0 2)" "[7, 8, 9]" 1]
    history_find_recent [of 0 2 "the (history_init True 0 2)" "[7, 8, 9]" 0]
  by (simp add: history_init_def)

text \<open>
  Resizing a history that holds the recent end of a series \<open>xs\<close> keeps, at their global
  indices, as many of the newest values as fit the new size, and older indices are
  reported absent; the new buffer holds \<open>new_size\<close> items.
\<close>

lemma history_resize_keeps_newest:
  assumes "hist_repr h xs" "0 < new_size" "history_resize ok z h new_size = (0, h')" "k < length xs"
  shows "hist_size h' = unat new_size \<and> history_find h' (of_nat k) =
    (if length xs - k \<le> min (length xs - hist_low h) (unat new_size) then Some (xs ! k) else None)"
proof -
  have r: "hist_repr h' xs" "hist_size h' = unat new_size"
      "length xs - hist_low h' = min (length xs - hist_low h) (unat new_size)"
    using history_resize_repr [OF assms(1-3)] by auto
  have "hist_low h' \<le> length xs" using hist_low_eq [OF r(1)] by simp
  then have "hist_low h' \<le> k \<longleftrightarrow> length xs - k \<le> min (length xs - hist_low h) (unat new_size)"
    using r(3) assms(4) by arith
  then show ?thesis
    using hist_find_present [OF r(1), of k] hist_find_absent [OF r(1), of k] r(2) assms(4) by auto
qed

text \<open>
  \<open>history_min\<close> on a window of indices that are all still held returns, without touching a
  missing item, the smallest index at which the series takes its minimum over the window.
\<close>

lemma history_min_first_argmin:
  assumes "hist_repr h xs" "hist_low h \<le> j" "j \<le> i" "i < length xs"
  shows "\<exists>k. history_min h (of_nat j) (of_nat i) = Some (of_nat k) \<and> first_min ((!) xs) j i k"
  using ohist.window_argmin [OF assms] by (simp add: history_min_def hist_argmin_def)

text \<open>
  C25: The optimised window slide agrees with a fresh search: given the first index of the minimum of
  \<open>j..i\<close>, \<open>history_min_slide\<close> returns that of \<open>j+1..i+1\<close>, provided index \<open>j\<close>, which is about to leave,
  is still held.
\<close>

theorem history_min_slide_correct:
  assumes "hist_repr h xs" "hist_low h \<le> j" "j \<le> i" "Suc i < length xs" "first_min ((!) xs) j i c"
  shows "\<exists>k. history_min_slide h (of_nat c) (of_nat j) (of_nat i) = Some (of_nat k)
    \<and> history_min h (of_nat (Suc j)) (of_nat (Suc i)) = Some (of_nat k)
    \<and> first_min ((!) xs) (Suc j) (Suc i) k"
proof -
  obtain k where k: "history_min_slide h (of_nat c) (of_nat j) (of_nat i) = Some (of_nat k)"
      "first_min ((!) xs) (Suc j) (Suc i) k"
    using min_slide_correct [OF assms, of "history_min h"]
    by (auto simp: history_min_slide_def history_min_def)
  obtain k' where "hist_argmin h (of_nat (Suc j)) (of_nat (Suc i)) = Some (of_nat k')"
      "first_min ((!) xs) (Suc j) (Suc i) k'"
    using hist_argmin_correct [OF assms(1), of "Suc j" "Suc i"] assms by auto
  then show ?thesis using k first_min_unique [OF k(2), of k'] unfolding history_min_def by blast
qed

theorem history_min_slide_correct_witness:
  "\<exists>k. history_min_slide (history_feed [4, 5, 9, 5] (the (history_init True 0 4)))
       (of_nat 0) (of_nat 0) (of_nat 2) = Some (of_nat k)
     \<and> first_min ((!) [4, 5, 9, 5 :: vcounter_t]) (Suc 0) (Suc 2) k"
proof -
  let ?xs = "[4, 5, 9, 5] :: vcounter_t list"
  have i: "history_init True (0 :: vcounter_t) 4 = Some (the (history_init True 0 4))"
    by (simp add: history_init_def)
  have "first_min ((!) ?xs) 0 (Suc 0) 0"
    using first_min_extend [OF first_min_single [of "(!) ?xs" 0]] by simp
  then have "first_min ((!) ?xs) 0 (Suc (Suc 0)) 0" by (auto dest: first_min_extend)
  moreover have "Suc (Suc 0) = 2" by simp
  ultimately have "first_min ((!) ?xs) 0 2 0" by metis
  then show ?thesis
    using history_min_slide_correct [OF feed_repr [OF i], of ?xs 0 2 0] feed_low [OF i, of ?xs]
    by fastforce
qed

text \<open>
  The value form of the window slide, used by the upshift detection and the path asymmetry
  estimates, maps the minimum of the window \<open>j..i\<close> to that of \<open>j+1..i+1\<close>, on counter and on
  floating point series alike, provided index \<open>j\<close> is still held.
\<close>

lemma history_min_slide_value_correct:
  assumes "hist_repr h xs" "hist_low h \<le> j" "j \<le> i" "Suc i < length xs"
    and "hist_repr g ys" "hist_low g \<le> j" "Suc i < length ys"
  shows "history_min_slide_value h (Min ((!) xs ` {j..i})) (of_nat j) (of_nat i)
      = Some (Min ((!) xs ` {Suc j..Suc i}))
    \<and> history_min_slide_value_dbl g (Min ((!) ys ` {j..i})) (of_nat j) (of_nat i)
      = Some (Min ((!) ys ` {Suc j..Suc i}))"
  using min_slide_value_correct [OF assms(1-4), of "history_min h"]
    min_slide_value_correct [OF assms(5,6,3,7), of "history_min_dbl g"]
  by (simp add: history_min_slide_value_def history_min_slide_value_dbl_def history_min_def
      history_min_dbl_def)

text \<open>
  If the buffer is only as wide as the window, the entry about to leave has already been
  overwritten when the window slides, and the value form dereferences a null pointer,
  unless the entering value happens to be a strict new minimum. (The buffers of the RTT and
  Df series are \<open>max warmup_win (max shift_win 100)\<close> wide, which can equal the shift window.)
\<close>

lemma slide_value_needs_spare_slot:
  assumes "history_init True z sz = Some h" "1 < sz" "length ys < 2 ^ 64 - 1"
    and "Suc i = length ys - 1" "j + unat sz = Suc i" "m \<le> ys ! Suc i"
  shows "history_min_slide_value (history_feed ys h) m (of_nat j) (of_nat i) = None"
proof -
  have sz: "0 < sz" "2 \<le> unat sz"
    using assms(2) by (auto simp: word_less_nat_alt)
  have l: "hist_low (history_feed ys h) = Suc j"
    using feed_low [OF assms(1) sz(1) assms(3)] assms(4,5) sz(2) by simp
  note r = feed_repr [OF assms(1) sz(1) assms(3)]
  have new: "history_find (history_feed ys h) (of_nat i + 1) = Some (ys ! Suc i)"
    using hist.find_suc [OF r, of i] l assms(4,5) sz(2) by simp
  have gone: "history_find (history_feed ys h) (of_nat j) = None"
    using hist_find_absent [OF r, of j] l by simp
  have "i < length ys" "j < i" using assms(4,5) sz(2) by arith+
  then have "\<not> (of_nat i :: index_t) < of_nat j" "(of_nat i :: index_t) \<noteq> of_nat j"
    using hist.index_less [OF r, of i j] hist.index_less [OF r, of j i] by auto
  then show ?thesis
    using new gone assms(6) by (simp add: history_min_slide_value_def min_slide_value_def)
qed

end
