(* ===== verification/Algo_State.thy ===== *)
theory Algo_State
  imports Sync_History Rad_Data "HOL-Library.Monad_Syntax"
begin

text \<open>
  The data of the synchronisation algorithm (\<^verbatim>\<open>radclock/sync_algo.h\<close> and the parts of
  \<^verbatim>\<open>libradclock/radclock-private.h\<close> and \<^verbatim>\<open>radclock/config_mgr.h\<close> it uses), the routines of
  \<^verbatim>\<open>radclock/sync_bidir.c\<close> that size its windows and histories, and those that manage the top
  level history window. Fields keep their C names behind a prefix: \<open>s_\<close> for the per-server
  state, \<open>out_\<close> for the per-stamp output, \<open>rd_\<close> for the published clock parameters, \<open>mp_\<close>
  for the meta-parameters, \<open>conf_\<close> for the configuration.

  A routine that can dereference a null pointer, or never return, has an option result, \<open>None\<close>
  in those cases. Allocation outcomes are the argument \<open>mem\<close>, indexed by the call.
\<close>

section \<open>Data\<close>

record bidir_stamp =
  Ta :: vcounter_t
  Tb :: real
  Te :: real
  Tf :: vcounter_t

definition zero_stamp :: bidir_stamp where
  "zero_stamp = \<lparr>Ta = 0, Tb = 0, Te = 0, Tf = 0\<rparr>"

record bidir_metaparam =
  mp_TSLIMIT :: real
  mp_SKM_SCALE :: real
  mp_RateErrBOUND :: real
  mp_BestSKMrate :: real
  mp_offset_ratio :: int
  mp_plocal_quality :: real
  mp_path_scale :: real
  mp_relasym_bound_global :: real

record radclock_config =
  conf_mask :: uint32
  conf_poll_period :: int
  conf_metaparam :: bidir_metaparam
  conf_phat_init :: real
  conf_asym_host :: real
  conf_asym_net :: real

record algo_error =
  e_Ebound_min_last :: real
  e_error_bound :: real
  e_nerror :: int
  e_cumsum :: real
  e_sq_cumsum :: real
  e_nerror_hwin :: int
  e_cumsum_hwin :: real
  e_sq_cumsum_hwin :: real

record bidir_algostate =
  s_stamp_i :: index_t
  s_stamp :: bidir_stamp
  s_stamp_hist :: "bidir_stamp history"
  s_Df_hist :: "real history"
  s_Db_hist :: "real history"
  s_Dfhat_hist :: "real history"
  s_Dbhat_hist :: "real history"
  s_Asymhat_hist :: "real history"
  s_RTT_hist :: "vcounter_t history"
  s_RTThat_hist :: "vcounter_t history"
  s_thnaive_hist :: "real history"
  s_Dfhat :: real
  s_next_Dfhat :: real
  s_Dfhat_shift :: real
  s_Dfhat_shift_thres :: real
  s_Dbhat :: real
  s_next_Dbhat :: real
  s_Dbhat_shift :: real
  s_Dbhat_shift_thres :: real
  s_Asymhat :: real
  s_h_win :: index_t
  s_history_end :: index_t
  s_warmup_win :: index_t
  s_shift_win :: index_t
  s_shift_end :: index_t
  s_shift_end_OWD :: index_t
  s_plocal_win :: index_t
  s_plocal_end :: index_t
  s_offset_win :: index_t
  s_jsearch_win :: index_t
  s_poll_period :: int
  s_poll_transition_th :: index_t
  s_poll_ratio :: real
  s_poll_changed_i :: index_t
  s_Eshift :: real
  s_Ep :: real
  s_Ep_qual :: real
  s_Ep_sanity :: real
  s_Eplocal_qual :: real
  s_Eplocal_sanity :: real
  s_Eoffset :: real
  s_Eoffset_qual :: real
  s_Eoffset_sanity_min :: real
  s_Eoffset_sanity_rate :: real
  s_wwidth :: index_t
  s_near_i :: index_t
  s_far_i :: index_t
  s_RTThat :: vcounter_t
  s_prevRTThat :: vcounter_t
  s_next_RTThat :: vcounter_t
  s_RTThat_shift :: vcounter_t
  s_RTThat_shift_thres :: vcounter_t
  s_phat :: real
  s_perr :: real
  s_jcount :: index_t
  s_phat_sanity_count :: int
  s_pstamp :: bidir_stamp
  s_next_pstamp :: bidir_stamp
  s_pstamp_i :: index_t
  s_next_pstamp_i :: index_t
  s_pstamp_perr :: real
  s_next_pstamp_perr :: real
  s_pstamp_RTThat :: vcounter_t
  s_next_pstamp_RTThat :: vcounter_t
  s_plocal :: real
  s_plocalerr :: real
  s_plocal_sanity_count :: int
  s_plocal_problem :: int
  s_K :: real
  s_thetahat :: real
  s_minET :: real
  s_thetastamp :: bidir_stamp
  s_offset_quality_count :: int
  s_offset_sanity_count :: int
  s_rawstampgap :: vcounter_t
  s_Pbase :: real
  s_Pchange :: real
  s_Pquality_err :: real
  s_Pquality :: real
  s_algo_err :: algo_error
  s_stats_sd :: "int list"


text \<open>Output of one run of the algorithm; fields of sub-algorithms that did not run keep their value.\<close>

record bidir_algooutput =
  out_n_stamps :: int
  out_leapsec_total :: int
  out_leapsec_next :: int
  out_leapsec_expected :: vcounter_t
  out_RTT :: vcounter_t
  out_phat :: real
  out_perr :: real
  out_plocal :: real
  out_plocalerr :: real
  out_K :: real
  out_thetahat :: real
  out_RTThat :: vcounter_t
  out_RTThat_new :: vcounter_t
  out_RTThat_shift :: vcounter_t
  out_th_naive :: real
  out_minET :: real
  out_minET_last :: real
  out_pDf :: real
  out_pDb :: real
  out_wsum :: real
  out_best_Tf :: vcounter_t
  out_status :: uint32
  out_pathpenalty :: real
  out_Pchange :: real
  out_Pquality :: real

definition null_output :: bidir_algooutput where
  "null_output = \<lparr>out_n_stamps = 0, out_leapsec_total = 0, out_leapsec_next = 0, out_leapsec_expected = 0,
     out_RTT = 0, out_phat = 0, out_perr = 0, out_plocal = 0, out_plocalerr = 0, out_K = 0,
     out_thetahat = 0, out_RTThat = 0, out_RTThat_new = 0, out_RTThat_shift = 0, out_th_naive = 0,
     out_minET = 0, out_minET_last = 0, out_pDf = 0, out_pDb = 0, out_wsum = 0, out_best_Tf = 0,
     out_status = 0, out_pathpenalty = 0, out_Pchange = 0, out_Pquality = 0\<rparr>"

text \<open>The meta-parameters of an excellent environment.\<close>

definition excel_metaparam :: bidir_metaparam where
  "excel_metaparam = \<lparr>mp_TSLIMIT = 15 / 10 ^ 6, mp_SKM_SCALE = 1024, mp_RateErrBOUND = 1 / 10 ^ 7,
     mp_BestSKMrate = 5 / 10 ^ 8, mp_offset_ratio = 6, mp_plocal_quality = 8 / 10 ^ 7,
     mp_path_scale = 18000, mp_relasym_bound_global = 1 / 2\<rparr>"

definition HAS_UPDATE :: "uint32 \<Rightarrow> uint32 \<Rightarrow> bool" where
  "HAS_UPDATE val m \<longleftrightarrow> val AND m = m"

abbreviation UPDMASK_POLLPERIOD :: uint32 where "UPDMASK_POLLPERIOD \<equiv> 0x0000001"
abbreviation UPDMASK_TEMPQUALITY :: uint32 where "UPDMASK_TEMPQUALITY \<equiv> 0x0000004"
abbreviation DEFAULT_PHAT_INIT :: real where "DEFAULT_PHAT_INIT \<equiv> 1 / 10 ^ 9"
abbreviation NTP_BURST :: index_t where "NTP_BURST \<equiv> 8"

text \<open>The zeroed memory the daemon allocates for each server, with \<open>stamp_i = -1\<close>.\<close>

definition null_history :: "'a history" where
  "null_history = \<lparr>h_buffer = [], h_buffer_sz = 0, h_item_count = 0, h_oldest_i = 0, h_newest_i = 0\<rparr>"

definition null_error :: algo_error where
  "null_error = \<lparr>e_Ebound_min_last = 0, e_error_bound = 0, e_nerror = 0, e_cumsum = 0, e_sq_cumsum = 0,
     e_nerror_hwin = 0, e_cumsum_hwin = 0, e_sq_cumsum_hwin = 0\<rparr>"

definition null_state :: bidir_algostate where
  "null_state = \<lparr>s_stamp_i = -1, s_stamp = zero_stamp,
     s_stamp_hist = null_history, s_Df_hist = null_history, s_Db_hist = null_history,
     s_Dfhat_hist = null_history, s_Dbhat_hist = null_history, s_Asymhat_hist = null_history,
     s_RTT_hist = null_history, s_RTThat_hist = null_history, s_thnaive_hist = null_history,
     s_Dfhat = 0, s_next_Dfhat = 0, s_Dfhat_shift = 0, s_Dfhat_shift_thres = 0,
     s_Dbhat = 0, s_next_Dbhat = 0, s_Dbhat_shift = 0, s_Dbhat_shift_thres = 0, s_Asymhat = 0,
     s_h_win = 0, s_history_end = 0, s_warmup_win = 0, s_shift_win = 0, s_shift_end = 0,
     s_shift_end_OWD = 0, s_plocal_win = 0, s_plocal_end = 0, s_offset_win = 0, s_jsearch_win = 0,
     s_poll_period = 0, s_poll_transition_th = 0, s_poll_ratio = 0, s_poll_changed_i = 0,
     s_Eshift = 0, s_Ep = 0, s_Ep_qual = 0, s_Ep_sanity = 0, s_Eplocal_qual = 0, s_Eplocal_sanity = 0,
     s_Eoffset = 0, s_Eoffset_qual = 0, s_Eoffset_sanity_min = 0, s_Eoffset_sanity_rate = 0,
     s_wwidth = 0, s_near_i = 0, s_far_i = 0, s_RTThat = 0, s_prevRTThat = 0, s_next_RTThat = 0,
     s_RTThat_shift = 0, s_RTThat_shift_thres = 0, s_phat = 0, s_perr = 0, s_jcount = 0,
     s_phat_sanity_count = 0, s_pstamp = zero_stamp, s_next_pstamp = zero_stamp, s_pstamp_i = 0,
     s_next_pstamp_i = 0, s_pstamp_perr = 0, s_next_pstamp_perr = 0, s_pstamp_RTThat = 0,
     s_next_pstamp_RTThat = 0, s_plocal = 0, s_plocalerr = 0, s_plocal_sanity_count = 0,
     s_plocal_problem = 0, s_K = 0, s_thetahat = 0, s_minET = 0, s_thetastamp = zero_stamp,
     s_offset_quality_count = 0, s_offset_sanity_count = 0, s_rawstampgap = 0, s_Pbase = 0,
     s_Pchange = 0, s_Pquality_err = 0, s_Pquality = 0, s_algo_err = null_error,
     s_stats_sd = [0, 0, 0]\<rparr>"

text \<open>
  A loop \<^verbatim>\<open>for (j = hi; j >= jmin; j--)\<close> over an unsigned index: it never ends if \<open>jmin\<close> is 0,
  otherwise it runs its body for \<open>hi, hi-1, \<dots>, jmin\<close>.
\<close>

function down_loop :: "(index_t \<Rightarrow> 's \<Rightarrow> 's option) \<Rightarrow> index_t \<Rightarrow> index_t \<Rightarrow> 's \<Rightarrow> 's option" where
  "down_loop body j jmin s =
     (if jmin = 0 then None
      else if j < jmin then Some s
      else Option.bind (body j s) (down_loop body (j - 1) jmin))"
  by pat_completeness auto
termination
proof (relation "measure (\<lambda>(body, j, jmin, s). unat j)")
  fix body and j jmin :: index_t and s x :: 's
  assume "jmin \<noteq> 0" "\<not> j < jmin"
  then have "j \<noteq> 0" by (auto simp: word_neq_0_conv)
  then have "unat (j - 1) < unat j" by (rule measure_unat)
  then show "((body, j - 1, jmin, x), body, j, jmin, s) \<in> measure (\<lambda>(body, j, jmin, s). unat j)"
    by simp
qed simp

declare down_loop.simps [simp del]

text \<open>An invariant that every iteration keeps holds at the end, and the loop ends.\<close>

lemma down_loop_total:
  assumes "jmin \<noteq> 0" "P s"
    and "\<And>j s. jmin \<le> j \<Longrightarrow> j \<le> hi \<Longrightarrow> P s \<Longrightarrow> \<exists>s'. body j s = Some s' \<and> P s'"
  shows "\<exists>s'. down_loop body hi jmin s = Some s' \<and> P s'"
  using assms
proof (induction body hi jmin s rule: down_loop.induct)
  case (1 body j jmin s)
  show ?case
  proof (cases "j < jmin")
    case True
    then show ?thesis using 1 by (subst down_loop.simps) simp
  next
    case False
    then have le: "jmin \<le> j" by simp
    then obtain s1 where s1: "body j s = Some s1" "P s1" using 1 by blast
    have "j \<noteq> 0" using 1(2) le by (auto simp: word_neq_0_conv)
    then have "j - 1 \<le> j" using word_minus_one_less less_imp_le by blast
    then have "\<exists>s'. down_loop body (j - 1) jmin s1 = Some s' \<and> P s'"
      using 1 s1 False by (intro "1.IH") (auto intro: order_trans)
    then show ?thesis using False 1(2) s1 by (subst down_loop.simps) simp
  qed
qed

lemma down_loop_stop: "jmin \<noteq> 0 \<Longrightarrow> j < jmin \<Longrightarrow> down_loop body j jmin s = Some s"
  by (subst down_loop.simps) simp

lemma down_loop_step:
  "jmin \<noteq> 0 \<Longrightarrow> jmin \<le> j \<Longrightarrow> down_loop body j jmin s = Option.bind (body j s) (down_loop body (j - 1) jmin)"
  by (subst down_loop.simps) (auto simp: not_less [symmetric])

section \<open>Thresholds and windows\<close>

definition set_err_thresholds :: "bidir_metaparam \<Rightarrow> bidir_algostate \<Rightarrow> bidir_algostate" where
  "set_err_thresholds mp st = st\<lparr>
     s_Eshift := 10 * mp_TSLIMIT mp,
     s_Ep := 3 * mp_TSLIMIT mp,
     s_Ep_qual := mp_RateErrBOUND mp / 5,
     s_Ep_sanity := 3 * mp_RateErrBOUND mp,
     s_Eplocal_qual := mp_plocal_quality mp,
     s_Eplocal_sanity := 3 * mp_RateErrBOUND mp,
     s_Eoffset := of_int (mp_offset_ratio mp) * mp_TSLIMIT mp,
     s_Eoffset_qual := 3 * (of_int (mp_offset_ratio mp) * mp_TSLIMIT mp),
     s_Eoffset_sanity_min := 100 * mp_TSLIMIT mp,
     s_Eoffset_sanity_rate := 20 * mp_RateErrBOUND mp\<rparr>"

text \<open>
  The poll period is at least 1: the configuration parser admits 1 to 1024 seconds.
  \<open>offset_win*5\<close> is integer arithmetic, so the \<^verbatim>\<open>ceil\<close> around it does nothing.
\<close>

definition set_algo_windows :: "bidir_metaparam \<Rightarrow> bidir_algostate \<Rightarrow> bidir_algostate" where
  "set_algo_windows mp p =
     (let history_scale = 3600 * 24 * 7 :: index_t;
          poll = real_of_int (s_poll_period p);
          h_win = history_scale div word_of_int (s_poll_period p);
          shift_win = c_MAX (real_to_u64 (of_int \<lceil>(10 * mp_TSLIMIT mp / (1 / 10 ^ 7)) / poll\<rceil>)) 100;
          offset_win = real_to_u64 (c_MAX (mp_SKM_SCALE mp / poll) 2);
          plocal_win = real_to_u64 (c_MAX (vc_real (offset_win * 5)) 4)
      in p\<lparr>s_h_win := h_win, s_shift_win := shift_win, s_offset_win := offset_win,
           s_plocal_win := plocal_win\<rparr>)"

definition adjust_warmup_win :: "index_t \<Rightarrow> bidir_algostate \<Rightarrow> uint32 \<Rightarrow> bidir_algostate" where
  "adjust_warmup_win i p plocal_winratio =
     (let win = c_MAX (s_offset_win p) (c_MAX (s_shift_win p)
                  (s_plocal_win p + s_plocal_win p div ucast (plocal_winratio div 2)));
          p1 = (if i = 0 then (if win > s_warmup_win p then p\<lparr>s_warmup_win := win\<rparr> else p)
                else let WU_dur = vc_real (win * word_of_int (s_poll_period p))
                     in p\<lparr>s_warmup_win := real_to_u64 (of_int \<lceil>WU_dur / of_int (s_poll_period p)\<rceil>) + i\<rparr>)
      in if s_warmup_win p1 + s_shift_win p1 > s_h_win p1 div 2
         then p1\<lparr>s_h_win := 3 * ((s_warmup_win p1 + s_shift_win p1) * 2 + 1)\<rparr>
         else p1)"

section \<open>Reaction to configuration changes\<close>

text \<open>The first part of \<^verbatim>\<open>update_state\<close>: thresholds, poll period, windows and shift window.\<close>

definition update_state_windows :: "bidir_metaparam \<Rightarrow> bidir_algostate \<Rightarrow> uint32 \<Rightarrow> int \<Rightarrow>
    bidir_algostate option" where
  "update_state_windows mp state plocal_winratio poll_period =
     (let si = s_stamp_i state;
          st1 = set_err_thresholds mp state;
          st2 = (if poll_period \<noteq> s_poll_period st1
                 then st1\<lparr>s_poll_transition_th := s_offset_win st1,
                          s_poll_ratio := of_int poll_period / of_int (s_poll_period st1),
                          s_poll_period := poll_period,
                          s_poll_changed_i := si\<rparr>
                 else st1);
          st3 = set_algo_windows mp st2
      in if si < s_warmup_win st3 then Some (adjust_warmup_win si st3 plocal_winratio)
         else let end0 = (if si - 1 > s_shift_win st3 - 1 then (si - 1) - (s_shift_win st3 - 1) else 0);
                  shift_end = c_MAX end0 (history_old (s_RTT_hist st3))
              in do {
                m \<leftarrow> history_min (s_RTT_hist st3) shift_end (si - 1);
                v \<leftarrow> history_find (s_RTT_hist st3) m;
                Some (st3\<lparr>s_shift_end := shift_end, s_RTThat_shift := v\<rparr>)
              })"

definition update_state_sizes :: "bidir_algostate \<Rightarrow> uint32 \<Rightarrow> uint32 \<times> uint32 \<times> uint32 \<times> uint32" where
  "update_state_sizes st plocal_winratio =
     (let pw = s_plocal_win st + s_plocal_win st div ucast (plocal_winratio div 2)
      in if s_stamp_i st < s_warmup_win st
         then (ucast (s_warmup_win st), ucast (s_warmup_win st), ucast (s_warmup_win st), ucast (s_warmup_win st))
         else (ucast (c_MAX pw (s_offset_win st)),
               ucast (c_MAX pw (c_MAX (s_offset_win st) (s_shift_win st))),
               ucast (s_offset_win st), ucast (s_offset_win st)))"

text \<open>The histories are resized in the order of the code; a failing allocation keeps the old one.\<close>

definition update_state :: "(nat \<Rightarrow> bool) \<Rightarrow> bidir_metaparam \<Rightarrow> bidir_algostate \<Rightarrow> uint32 \<Rightarrow> int \<Rightarrow>
    bidir_algostate option" where
  "update_state mem mp state plocal_winratio poll_period =
     do {
       st \<leftarrow> update_state_windows mp state plocal_winratio poll_period;
       let (stamp_sz, RTT_sz, RTThat_sz, thnaive_sz) = update_state_sizes st plocal_winratio;
       Some (st\<lparr>
         s_stamp_hist := (if h_buffer_sz (s_stamp_hist st) \<noteq> stamp_sz
           then snd (history_resize (mem 0) zero_stamp (s_stamp_hist st) stamp_sz) else s_stamp_hist st),
         s_RTT_hist := (if h_buffer_sz (s_RTT_hist st) \<noteq> RTT_sz
           then snd (history_resize (mem 1) 0 (s_RTT_hist st) RTT_sz) else s_RTT_hist st),
         s_RTThat_hist := (if h_buffer_sz (s_RTThat_hist st) \<noteq> RTThat_sz
           then snd (history_resize (mem 2) 0 (s_RTThat_hist st) RTThat_sz) else s_RTThat_hist st),
         s_thnaive_hist := (if h_buffer_sz (s_thnaive_hist st) \<noteq> thnaive_sz
           then snd (history_resize (mem 3) 0 (s_thnaive_hist st) thnaive_sz) else s_thnaive_hist st),
         s_Df_hist := snd (history_resize (mem 4) 0 (s_Df_hist st) RTT_sz),
         s_Db_hist := snd (history_resize (mem 5) 0 (s_Db_hist st) RTT_sz),
         s_Dfhat_hist := snd (history_resize (mem 6) 0 (s_Dfhat_hist st) RTT_sz),
         s_Dbhat_hist := snd (history_resize (mem 7) 0 (s_Dbhat_hist st) RTT_sz),
         s_Asymhat_hist := snd (history_resize (mem 8) 0 (s_Asymhat_hist st) RTT_sz)\<rparr>)
     }"

section \<open>The top level history window\<close>

text \<open>The two steps of \<^verbatim>\<open>manage_historywin\<close>: the middle of the first window, and a full window.\<close>

definition historywin_half :: "bidir_algostate \<Rightarrow> bidir_stamp \<Rightarrow> vcounter_t \<Rightarrow> bidir_algostate" where
  "historywin_half state stamp RTT = state\<lparr>
     s_next_RTThat := Tf (s_stamp state) - Ta (s_stamp state),
     s_jsearch_win := s_warmup_win state,
     s_jcount := 1,
     s_next_pstamp_i := s_stamp_i state,
     s_next_pstamp_RTThat := s_RTThat state,
     s_next_pstamp_perr := s_phat state * (vc_real RTT - vc_real (s_RTThat state)),
     s_next_pstamp := stamp,
     s_Ep_qual := s_Ep_qual state / 10,
     s_algo_err := (s_algo_err state)\<lparr>e_cumsum_hwin := 0, e_sq_cumsum_hwin := 0, e_nerror_hwin := 0\<rparr>\<rparr>"

definition historywin_full :: "bidir_algostate \<Rightarrow> bidir_stamp \<Rightarrow> vcounter_t \<Rightarrow> bidir_algostate option" where
  "historywin_full state stamp RTT = do {
     Df \<leftarrow> history_find (s_Df_hist state) (s_stamp_i state - 1);
     Db \<leftarrow> history_find (s_Db_hist state) (s_stamp_i state - 1);
     Some (state\<lparr>
       s_history_end := s_history_end state + s_h_win state div 2,
       s_Dfhat := s_next_Dfhat state,
       s_Dbhat := s_next_Dbhat state,
       s_RTThat := s_next_RTThat state,
       s_next_Dfhat := Df,
       s_next_Dbhat := Db,
       s_next_RTThat := Tf (s_stamp state) - Ta (s_stamp state),
       s_pstamp_i := s_next_pstamp_i state,
       s_pstamp_RTThat := s_next_pstamp_RTThat state,
       s_pstamp_perr := s_next_pstamp_perr state,
       s_pstamp := s_next_pstamp state,
       s_jcount := 1,
       s_next_pstamp_i := s_stamp_i state,
       s_next_pstamp_RTThat := s_next_RTThat state,
       s_next_pstamp_perr := s_phat state * (vc_real RTT - vc_real (s_next_RTThat state)),
       s_next_pstamp := stamp,
       s_algo_err := (s_algo_err state)\<lparr>
         e_cumsum := e_cumsum_hwin (s_algo_err state),
         e_sq_cumsum := e_sq_cumsum_hwin (s_algo_err state),
         e_nerror := e_nerror_hwin (s_algo_err state),
         e_cumsum_hwin := 0, e_sq_cumsum_hwin := 0, e_nerror_hwin := 0\<rparr>\<rparr>)
   }"

definition manage_historywin :: "bidir_algostate \<Rightarrow> bidir_stamp \<Rightarrow> vcounter_t \<Rightarrow> bidir_algostate option" where
  "manage_historywin state stamp RTT =
     (let si = s_stamp_i state;
          st1 = (if si = s_h_win state div 2 then historywin_half state stamp RTT else state)
      in if si = s_history_end st1 then historywin_full st1 stamp RTT else Some st1)"

section \<open>Statistics\<close>

definition collect_stats_state :: "bidir_algostate \<Rightarrow> bidir_stamp \<Rightarrow> bidir_algostate" where
  "collect_stats_state state stamp =
     (let SD = Te stamp - Tb stamp;
          k = (if SD < 50 / 10 ^ 6 then 0 else if SD < 200 / 10 ^ 6 then 1 else 2)
      in state\<lparr>s_stats_sd := (s_stats_sd state)[k := s_stats_sd state ! k + 1]\<rparr>)"

definition print_stats_state :: "bidir_algostate \<Rightarrow> bidir_algostate" where
  "print_stats_state state =
     (let si = s_stamp_i state
      in if si < s_warmup_win state then state\<lparr>s_stats_sd := [0, 0, 0]\<rparr>
         else if si mod word_of_int (6 * 3600 div s_poll_period state) \<noteq> 0 then state
         else state\<lparr>s_stats_sd := [0, 0, 0]\<rparr>)"

end
