(* ===== verification/Stamp_Queue.thy ===== *)
theory Stamp_Queue
  imports Ntp_Proto Algo_State
begin

text \<open>
  The stamp queue of \<^verbatim>\<open>radclock/create_stamp.c\<close>: matching of client requests with server
  replies into full stamps, trimming, and extraction of the oldest full stamp.

  The doubly linked list is represented by the list of its stamps from head (\<^verbatim>\<open>start\<close>) to
  tail (\<^verbatim>\<open>end\<close>), beside the \<^verbatim>\<open>size\<close> counter the code keeps. A pointer into the queue is a
  position. \<open>get_fullstamp_from_queue_andclean\<close> goes on reading the full stamp through a
  pointer after freeing it; the parameter \<open>freed\<close> gives what those later loads see.

  The lemmas show the queue's invariant, what an insertion matches and what an extraction
  returns and cleans, and that full stamps of one server come out in the order they were
  sent whatever the order and losses of the packets.
\<close>

section \<open>Stamps and the queue\<close>

datatype stamp_type_t = STAMP_UNKNOWN | STAMP_SPY | STAMP_NTP | STAMP_PPS

record stamp_t =
  st_type :: stamp_type_t
  st_id :: uint64
  st_server_ipaddr :: string
  st_ttl :: int
  st_stratum :: int
  st_LI :: int
  st_refid :: uint32
  st_rootdelay :: real
  st_rootdispersion :: real
  BST :: bidir_stamp

record stamp_queue =
  q_elts :: "stamp_t list"
  q_size :: int

abbreviation MAX_STQ_SIZE :: int where "MAX_STQ_SIZE \<equiv> 20"

definition init_stamp_queue :: stamp_queue where
  "init_stamp_queue = \<lparr>q_elts = [], q_size = 0\<rparr>"

text \<open>A zeroed stamp (\<^verbatim>\<open>calloc\<close>), and a new NTP stamp with its type and identifier.\<close>

definition blank_stamp :: "uint64 \<Rightarrow> stamp_t" where
  "blank_stamp i = \<lparr>st_type = STAMP_UNKNOWN, st_id = i, st_server_ipaddr = [], st_ttl = 0, st_stratum = 0, st_LI = 0,
     st_refid = 0, st_rootdelay = 0, st_rootdispersion = 0, BST = zero_stamp\<rparr>"

definition ntp_stamp :: "uint64 \<Rightarrow> stamp_t" where
  "ntp_stamp i = \<lparr>st_type = STAMP_NTP, st_id = i, st_server_ipaddr = [], st_ttl = 0, st_stratum = 0, st_LI = 0, st_refid = 0,
     st_rootdelay = 0, st_rootdispersion = 0, BST = zero_stamp\<rparr>"

section \<open>Insertion\<close>

fun scan_id :: "uint64 \<Rightarrow> stamp_t list \<Rightarrow> nat option" where
  "scan_id i [] = None"
| "scan_id i (st # sts) = (if st_id st = i then Some 0 else map_option Suc (scan_id i sts))"

definition is_duplicate :: "uint8 \<Rightarrow> stamp_t \<Rightarrow> bool" where
  "is_duplicate mode st =
     (if mode = MODE_CLIENT then Ta (BST st) \<noteq> 0
      else if mode = MODE_SERVER then Tf (BST st) \<noteq> 0 else False)"

definition fill_halfstamp :: "uint8 \<Rightarrow> stamp_t \<Rightarrow> stamp_t \<Rightarrow> stamp_t" where
  "fill_halfstamp mode st new =
     (if mode = MODE_CLIENT then
        st\<lparr>st_server_ipaddr := take 16 (st_server_ipaddr new),
           BST := (BST st)\<lparr>Ta := Ta (BST new)\<rparr>\<rparr>
      else if mode = MODE_SERVER then
        st\<lparr>st_ttl := st_ttl new, st_refid := st_refid new, st_stratum := st_stratum new,
           st_LI := st_LI new, st_rootdelay := st_rootdelay new,
           st_rootdispersion := st_rootdispersion new,
           BST := (BST st)\<lparr>Tb := Tb (BST new), Te := Te (BST new), Tf := Tf (BST new)\<rparr>\<rparr>
      else st)"

definition trim_queue :: "stamp_queue \<Rightarrow> stamp_queue" where
  "trim_queue q =
     (if q_size q = MAX_STQ_SIZE
      then \<lparr>q_elts = butlast (q_elts q), q_size = q_size q - 1\<rparr> else q)"

definition insertandmatch_halfstamp ::
    "stamp_queue \<Rightarrow> stamp_t \<Rightarrow> uint8 \<Rightarrow> int \<times> stamp_queue" where
  "insertandmatch_halfstamp q new mode =
     (if mode \<noteq> MODE_CLIENT \<and> mode \<noteq> MODE_SERVER then (-1, q)
      else case scan_id (st_id new) (q_elts q) of
        Some i \<Rightarrow>
          let st = q_elts q ! i
          in if is_duplicate mode st then (1, q)
             else (0, q\<lparr>q_elts := (q_elts q)[i := fill_halfstamp mode st new]\<rparr>)
      | None \<Rightarrow>
          let q = trim_queue q
          in (1, \<lparr>q_elts = fill_halfstamp mode (ntp_stamp (st_id new)) new # q_elts q,
                  q_size = q_size q + 1\<rparr>))"

section \<open>Extraction\<close>

definition is_full :: "stamp_t \<Rightarrow> bool" where
  "is_full st \<longleftrightarrow> Ta (BST st) \<noteq> 0 \<and> Tf (BST st) \<noteq> 0"

definition c_half :: "stamp_t \<Rightarrow> bool" where
  "c_half st \<longleftrightarrow> Ta (BST st) \<noteq> 0 \<and> Tf (BST st) = 0"

definition s_half :: "stamp_t \<Rightarrow> bool" where
  "s_half st \<longleftrightarrow> Ta (BST st) = 0 \<and> Tf (BST st) \<noteq> 0"

text \<open>The elements with their positions in the order of the scans, tail to head.\<close>

definition from_tail :: "stamp_t list \<Rightarrow> (nat \<times> stamp_t) list" where
  "from_tail sts = rev (enumerate 0 sts)"

text \<open>First scan: position and \<^verbatim>\<open>Ta\<close> of the oldest full stamp, \<open>full_time\<close> 0 if there is none.\<close>

fun scan_oldest :: "(nat \<times> stamp_t) list \<Rightarrow> nat \<times> vcounter_t \<Rightarrow> nat \<times> vcounter_t" where
  "scan_oldest [] acc = acc"
| "scan_oldest ((i, st) # rest) (full_i, full_time) =
     scan_oldest rest
       (if is_full st \<and> (full_time = 0 \<or> Ta (BST st) < full_time)
        then (i, Ta (BST st)) else (full_i, full_time))"

definition dangerous :: "vcounter_t \<Rightarrow> stamp_t \<Rightarrow> stamp_t \<Rightarrow> bool" where
  "dangerous full_time full_st st \<longleftrightarrow>
     (s_half st \<and> Tf (BST st) < Tf (BST full_st))
     \<or> (c_half st \<and> Ta (BST st) < full_time \<and> st_server_ipaddr st = st_server_ipaddr full_st)"

text \<open>Second scan: keep what is neither the chosen stamp nor dangerous.\<close>

fun scan_clean ::
    "(stamp_t \<Rightarrow> stamp_t) \<Rightarrow> nat \<Rightarrow> vcounter_t \<Rightarrow> stamp_t \<Rightarrow> (nat \<times> stamp_t) list
      \<Rightarrow> stamp_t list \<times> int \<Rightarrow> stamp_t list \<times> int" where
  "scan_clean freed full_i full_time full_st [] (kept, sz) = (kept, sz)"
| "scan_clean freed full_i full_time full_st ((i, st) # rest) (kept, sz) =
     (if i = full_i
      then scan_clean freed full_i full_time (freed full_st) rest (kept, sz - 1)
      else if dangerous full_time full_st st
      then scan_clean freed full_i full_time full_st rest (kept, sz - 1)
      else scan_clean freed full_i full_time full_st rest (st # kept, sz))"

definition get_fullstamp_from_queue_andclean ::
    "(stamp_t \<Rightarrow> stamp_t) \<Rightarrow> stamp_queue \<Rightarrow> stamp_t option \<times> stamp_queue" where
  "get_fullstamp_from_queue_andclean freed q =
     (if q_size q = 0 then (None, q)
      else
        let (full_i, full_time) = scan_oldest (from_tail (q_elts q)) (0, 0)
        in if full_time > 0
           then let full_st = q_elts q ! full_i;
                    (kept, sz) = scan_clean freed full_i full_time full_st
                      (from_tail (q_elts q)) ([], q_size q)
                in (Some full_st, \<lparr>q_elts = kept, q_size = sz\<rparr>)
           else (None, q))"

section \<open>Invariant\<close>

definition stq_ok :: "stamp_queue \<Rightarrow> bool" where
  [rad_wf]: "stq_ok q \<longleftrightarrow> q_size q = int (length (q_elts q)) \<and> length (q_elts q) \<le> 20
     \<and> distinct (map st_id (q_elts q))"

lemma stq_ok_init: "stq_ok init_stamp_queue"
  by (simp add: stq_ok_def init_stamp_queue_def)

lemma scan_id_Some:
  "scan_id i sts = Some k \<Longrightarrow> k < length sts \<and> st_id (sts ! k) = i"
  by (induction sts arbitrary: k) (auto split: if_splits)

lemma scan_id_None: "scan_id i sts = None \<longleftrightarrow> i \<notin> st_id ` set sts"
  by (induction sts) auto

lemma fill_id [simp]: "st_id (fill_halfstamp mode st new) = st_id st"
  by (simp add: fill_halfstamp_def)

lemma map_id_update:
  "i < length sts \<Longrightarrow> st_id x = st_id (sts ! i) \<Longrightarrow> map st_id (sts[i := x]) = map st_id sts"
  by (simp add: list_eq_iff_nth_eq nth_list_update)

lemma trim_ok:
  assumes "stq_ok q"
  shows "stq_ok (trim_queue q)" "length (q_elts (trim_queue q)) < 20"
    "set (q_elts (trim_queue q)) \<subseteq> set (q_elts q)"
  using assms
  by (auto simp: stq_ok_def trim_queue_def map_butlast intro: distinct_butlast dest: in_set_butlastD)

lemma insert_ok:
  assumes "stq_ok q"
  shows "stq_ok (snd (insertandmatch_halfstamp q new mode))"
proof (cases "scan_id (st_id new) (q_elts q)")
  case None
  then have "st_id new \<notin> st_id ` set (q_elts (trim_queue q))"
    using trim_ok(3) [OF assms] by (auto simp: scan_id_None)
  then show ?thesis
    using None trim_ok(1,2) [OF assms] assms
    by (auto simp: insertandmatch_halfstamp_def Let_def stq_ok_def ntp_stamp_def)
next
  case (Some i)
  then have "i < length (q_elts q)" by (auto dest: scan_id_Some)
  then show ?thesis
    using Some assms by (auto simp: insertandmatch_halfstamp_def Let_def stq_ok_def map_id_update)
qed

section \<open>What the scans find\<close>

lemma scan_oldest_spec:
  "scan_oldest L (i0, t0) = (i, t) \<Longrightarrow>
   (t0 \<noteq> 0 \<longrightarrow> t \<noteq> 0 \<and> t \<le> t0)
   \<and> ((i, t) = (i0, t0) \<or> (\<exists>st. (i, st) \<in> set L \<and> is_full st \<and> t = Ta (BST st)))
   \<and> (\<forall>(j, s)\<in>set L. is_full s \<longrightarrow> t \<noteq> 0 \<and> t \<le> Ta (BST s))"
proof (induction L arbitrary: i0 t0)
  case (Cons p L)
  obtain j st where p: "p = (j, st)" by force
  show ?case
  proof (cases "is_full st \<and> (t0 = 0 \<or> Ta (BST st) < t0)")
    case True
    then have "Ta (BST st) \<noteq> 0" by (simp add: is_full_def)
    moreover have "scan_oldest L (j, Ta (BST st)) = (i, t)" using Cons.prems p True by simp
    ultimately show ?thesis using Cons.IH [of j "Ta (BST st)"] True p by fastforce
  next
    case False
    have "scan_oldest L (i0, t0) = (i, t)" using Cons.prems unfolding p scan_oldest.simps if_not_P [OF False] .
    moreover have "is_full st \<longrightarrow> t0 \<noteq> 0 \<and> t0 \<le> Ta (BST st)" using False by auto
    ultimately show ?thesis using Cons.IH [of i0 t0] p by fastforce
  qed
qed simp

lemma from_tail_set: "(i, st) \<in> set (from_tail xs) \<longleftrightarrow> i < length xs \<and> xs ! i = st"
  by (auto simp: from_tail_def in_set_enumerate_eq)

lemma from_tail_split:
  assumes "i < length xs"
  shows "from_tail xs = rev (enumerate (Suc i) (drop (Suc i) xs)) @ (i, xs ! i) # rev (enumerate 0 (take i xs))"
proof -
  have "xs = take i xs @ xs ! i # drop (Suc i) xs" using assms by (rule id_take_nth_drop)
  then have "enumerate 0 xs = enumerate 0 (take i xs) @ (i, xs ! i) # enumerate (Suc i) (drop (Suc i) xs)"
    using assms by (metis add_0 enumerate_append_eq enumerate_simps(2) length_take min.absorb4)
  then show ?thesis by (simp add: from_tail_def)
qed

definition kept_by :: "vcounter_t \<Rightarrow> stamp_t \<Rightarrow> stamp_t list \<Rightarrow> stamp_t list" where
  "kept_by full_time full_st = filter (\<lambda>s. \<not> dangerous full_time full_st s)"

lemma length_kept_by: "length (kept_by ft fs xs) \<le> length xs"
  by (simp add: kept_by_def)

text \<open>A stretch of the queue that does not hold the chosen stamp.\<close>

lemma scan_clean_stretch:
  assumes "\<forall>j\<in>set (map fst (enumerate k xs)). j \<noteq> fi"
  shows "scan_clean freed fi ft fs (rev (enumerate k xs) @ rest) (kept, n) =
    scan_clean freed fi ft fs rest
      (kept_by ft fs xs @ kept, n - (int (length xs) - int (length (kept_by ft fs xs))))"
  using assms
proof (induction xs arbitrary: kept n rest k rule: rev_induct)
  case (snoc x xs)
  have "rev (enumerate k (xs @ [x])) @ rest = (k + length xs, x) # rev (enumerate k xs) @ rest"
    by (simp add: enumerate_append_eq)
  moreover have "k + length xs \<noteq> fi" "\<forall>j\<in>set (map fst (enumerate k xs)). j \<noteq> fi"
    using snoc.prems by (auto simp: enumerate_append_eq)
  ultimately show ?case
    using snoc.IH [of k rest] by (simp add: kept_by_def algebra_simps)
qed (simp add: kept_by_def)

lemma scan_clean_result:
  assumes "i < length xs"
  shows "scan_clean freed i ft (xs ! i) (from_tail xs) ([], int (length xs)) =
    (kept_by ft (freed (xs ! i)) (take i xs) @ kept_by ft (xs ! i) (drop (Suc i) xs),
     int (length (kept_by ft (freed (xs ! i)) (take i xs) @ kept_by ft (xs ! i) (drop (Suc i) xs))))"
proof -
  let ?a = "kept_by ft (freed (xs ! i)) (take i xs)" and ?b = "kept_by ft (xs ! i) (drop (Suc i) xs)"
    and ?n = "int (length xs)"
  have "scan_clean freed i ft (xs ! i) (from_tail xs) ([], ?n) =
      scan_clean freed i ft (xs ! i) ((i, xs ! i) # rev (enumerate 0 (take i xs)))
        (?b, ?n - (int (length (drop (Suc i) xs)) - int (length ?b)))"
    unfolding from_tail_split [OF assms] by (subst scan_clean_stretch) auto
  also have "\<dots> = scan_clean freed i ft (freed (xs ! i)) (rev (enumerate 0 (take i xs)) @ [])
        (?b, ?n - (int (length (drop (Suc i) xs)) - int (length ?b)) - 1)"
    by simp
  also have "\<dots> = (?a @ ?b, ?n - (int (length (drop (Suc i) xs)) - int (length ?b)) - 1
        - (int (length (take i xs)) - int (length ?a)))"
    by (subst scan_clean_stretch) auto
  also have "\<dots> = (?a @ ?b, int (length (?a @ ?b)))"
    using assms by (simp add: of_nat_diff)
  finally show ?thesis .
qed

text \<open>A full stamp was extracted from position \<open>i\<close>, with what is left of the queue.\<close>

definition extracted ::
    "(stamp_t \<Rightarrow> stamp_t) \<Rightarrow> stamp_t list \<Rightarrow> nat \<Rightarrow> stamp_t list" where
  "extracted freed xs i =
     (let st = xs ! i
      in kept_by (Ta (BST st)) (freed st) (take i xs) @ kept_by (Ta (BST st)) st (drop (Suc i) xs))"

lemma get_fullstamp_cases:
  assumes "stq_ok q"
  obtains (none) "get_fullstamp_from_queue_andclean freed q = (None, q)" "\<forall>s\<in>set (q_elts q). \<not> is_full s"
  | (some) i where "i < length (q_elts q)" "is_full (q_elts q ! i)"
      "\<forall>s\<in>set (q_elts q). is_full s \<longrightarrow> Ta (BST (q_elts q ! i)) \<le> Ta (BST s)"
      "get_fullstamp_from_queue_andclean freed q =
         (Some (q_elts q ! i), \<lparr>q_elts = extracted freed (q_elts q) i,
            q_size = int (length (extracted freed (q_elts q) i))\<rparr>)"
proof -
  obtain i t where sc: "scan_oldest (from_tail (q_elts q)) (0, 0) = (i, t)" by force
  note spec = scan_oldest_spec [OF sc]
  have all: "is_full s \<longrightarrow> t \<noteq> 0 \<and> t \<le> Ta (BST s)" if "s \<in> set (q_elts q)" for s
  proof -
    from that obtain j where "j < length (q_elts q)" "q_elts q ! j = s" by (auto simp: in_set_conv_nth)
    then have "(j, s) \<in> set (from_tail (q_elts q))" by (simp add: from_tail_set)
    then show ?thesis using spec by blast
  qed
  show ?thesis
  proof (cases "t = 0")
    case True
    then show ?thesis using all sc by (intro none) (auto simp: get_fullstamp_from_queue_andclean_def)
  next
    case False
    then obtain st where i: "i < length (q_elts q)" "q_elts q ! i = st" "is_full st" "t = Ta (BST st)"
      using spec by (auto simp: from_tail_set)
    let ?e = "extracted freed (q_elts q) i"
    have "get_fullstamp_from_queue_andclean freed q = (Some (q_elts q ! i), \<lparr>q_elts = ?e, q_size = int (length ?e)\<rparr>)"
      using assms i sc False scan_clean_result [OF i(1), of freed t]
      by (auto simp: get_fullstamp_from_queue_andclean_def extracted_def Let_def stq_ok_def word_neq_0_conv)
    then show ?thesis using all i by (intro some [of i]) auto
  qed
qed

lemma extracted_set:
  assumes "i < length xs"
  shows "s \<in> set (extracted freed xs i) \<Longrightarrow> s \<in> set xs"
    and "distinct (map st_id xs) \<Longrightarrow> distinct (map st_id (extracted freed xs i))"
    and "distinct (map st_id xs) \<Longrightarrow> xs ! i \<notin> set (extracted freed xs i)"
proof -
  let ?t = "take i xs" and ?d = "drop (Suc i) xs"
  have xs: "xs = ?t @ xs ! i # ?d" using assms by (rule id_take_nth_drop)
  show "s \<in> set (extracted freed xs i) \<Longrightarrow> s \<in> set xs"
    by (auto simp: extracted_def Let_def kept_by_def dest: in_set_takeD in_set_dropD)
  assume "distinct (map st_id xs)"
  then have d: "distinct (map st_id ?t)" "distinct (map st_id ?d)"
    "st_id ` set ?t \<inter> st_id ` set ?d = {}" "st_id (xs ! i) \<notin> st_id ` set ?t" "st_id (xs ! i) \<notin> st_id ` set ?d"
    by (subst (asm) xs, simp)+
  show "distinct (map st_id (extracted freed xs i))"
    using d(1-3) by (auto simp: extracted_def Let_def kept_by_def distinct_map_filter)
  show "xs ! i \<notin> set (extracted freed xs i)"
    using d(4,5) by (auto simp: extracted_def Let_def kept_by_def)
qed

lemma extracted_id:
  assumes "i < length xs" "distinct (map st_id xs)"
  shows "extracted id xs i = filter (\<lambda>s. s \<noteq> xs ! i \<and> \<not> dangerous (Ta (BST (xs ! i))) (xs ! i) s) xs"
proof -
  let ?t = "take i xs" and ?d = "drop (Suc i) xs"
  have xs: "xs = ?t @ xs ! i # ?d" using assms(1) by (rule id_take_nth_drop)
  have "xs ! i \<notin> set ?t \<and> xs ! i \<notin> set ?d"
  proof -
    have "distinct xs" using assms(2) by (simp add: distinct_map)
    then show ?thesis by (subst (asm) xs) auto
  qed
  then have "filter P ?t = filter (\<lambda>s. s \<noteq> xs ! i \<and> P s) ?t" "filter P ?d = filter (\<lambda>s. s \<noteq> xs ! i \<and> P s) ?d" for P
    by (auto intro: filter_cong)
  then show ?thesis
    by (subst (5) xs) (simp add: extracted_def Let_def kept_by_def)
qed

lemma extracted_ok:
  assumes "stq_ok q" "i < length (q_elts q)"
  shows "stq_ok \<lparr>q_elts = extracted freed (q_elts q) i, q_size = int (length (extracted freed (q_elts q) i))\<rparr>"
proof -
  have "length (extracted freed (q_elts q) i) \<le> length (take i (q_elts q)) + length (drop (Suc i) (q_elts q))"
    unfolding extracted_def Let_def length_append by (intro add_mono length_kept_by)
  then have "length (extracted freed (q_elts q) i) \<le> length (q_elts q)" using assms(2) by simp
  then show ?thesis using assms extracted_set(2) [OF assms(2)] by (auto simp: stq_ok_def)
qed

section \<open>Properties of the queue\<close>

text \<open>
  C21: An extraction from a well-formed queue that holds a full stamp returns the full stamp
  with the smallest send time. While the freed element keeps its contents, what remains is
  exactly the queue, in its order, without that stamp, without the unanswered requests to the
  same server sent before it, and without the orphan replies received before its reply;
  the queue stays well-formed.
\<close>

theorem get_fullstamp_oldest:
  assumes ok: "stq_ok q" and full: "s \<in> set (q_elts q)" "is_full s"
  shows "\<exists>st q'. get_fullstamp_from_queue_andclean id q = (Some st, q')
     \<and> st \<in> set (q_elts q) \<and> is_full st \<and> Ta (BST st) \<le> Ta (BST s)
     \<and> q_elts q' = filter (\<lambda>x. x \<noteq> st \<and> \<not> dangerous (Ta (BST st)) st x) (q_elts q)
     \<and> stq_ok q'"
  using ok
proof (cases rule: get_fullstamp_cases [where freed = id])
  case none
  then show ?thesis using full by blast
next
  case (some i)
  have d: "distinct (map st_id (q_elts q))" using ok by (simp add: stq_ok_def)
  have "stq_ok \<lparr>q_elts = extracted id (q_elts q) i, q_size = int (length (extracted id (q_elts q) i))\<rparr>"
    using ok some(1) by (rule extracted_ok)
  then show ?thesis
    using some full by (auto simp: extracted_id [OF some(1) d])
qed

definition demo_stamp :: "uint64 \<Rightarrow> vcounter_t \<Rightarrow> vcounter_t \<Rightarrow> stamp_t" where
  "demo_stamp i a f = (ntp_stamp i)\<lparr>st_server_ipaddr := ''10.0.0.1'',
     BST := \<lparr>Ta = a, Tb = 0, Te = 0, Tf = f\<rparr>\<rparr>"

theorem get_fullstamp_oldest_witness:
  "\<exists>st q'. get_fullstamp_from_queue_andclean id
      \<lparr>q_elts = [demo_stamp 3 30 35, demo_stamp 2 20 0, demo_stamp 1 10 0], q_size = 3\<rparr> = (Some st, q')
    \<and> st = demo_stamp 3 30 35 \<and> q_elts q' = []"
proof -
  let ?q = "\<lparr>q_elts = [demo_stamp 3 30 35, demo_stamp 2 20 0, demo_stamp 1 10 0], q_size = 3\<rparr>"
  have "stq_ok ?q" by (simp add: stq_ok_def demo_stamp_def ntp_stamp_def)
  moreover have "is_full (demo_stamp 3 30 35)" "\<not> is_full (demo_stamp 2 20 0)" "\<not> is_full (demo_stamp 1 10 0)"
    "dangerous 30 (demo_stamp 3 30 35) (demo_stamp 2 20 0)" "dangerous 30 (demo_stamp 3 30 35) (demo_stamp 1 10 0)"
    "Ta (BST (demo_stamp 3 30 35)) = 30"
    by (simp_all add: is_full_def demo_stamp_def dangerous_def c_half_def ntp_stamp_def)
  ultimately show ?thesis using get_fullstamp_oldest [of ?q "demo_stamp 3 30 35"] by auto
qed

section \<open>Matching\<close>

text \<open>\<open>pending q x k\<close>: the halfstamp \<open>x\<close> stands in the queue with at most \<open>k\<close> elements before it.\<close>

definition pending :: "stamp_queue \<Rightarrow> stamp_t \<Rightarrow> nat \<Rightarrow> bool" where
  "pending q x k \<longleftrightarrow> (\<exists>j\<le>k. j < length (q_elts q) \<and> q_elts q ! j = x)"

definition push_all :: "(stamp_t \<times> uint8) list \<Rightarrow> stamp_queue \<Rightarrow> stamp_queue" where
  "push_all hs q = fold (\<lambda>(h, m) q. snd (insertandmatch_halfstamp q h m)) hs q"

lemma pending_insert:
  assumes ok: "stq_ok q" and p: "pending q x k" and k: "k < 19" and ne: "st_id h \<noteq> st_id x"
  shows "pending (snd (insertandmatch_halfstamp q h m)) x (Suc k)"
proof -
  obtain j where j: "j \<le> k" "j < length (q_elts q)" "q_elts q ! j = x" using p by (auto simp: pending_def)
  then have keep: "pending q x (Suc k)" unfolding pending_def by (intro exI [of _ j]) simp
  show ?thesis
  proof (cases "scan_id (st_id h) (q_elts q)")
    case (Some i)
    then have "i \<noteq> j" using ne j scan_id_Some by metis
    then have "pending (q\<lparr>q_elts := (q_elts q)[i := y]\<rparr>) x (Suc k)" for y
      using j unfolding pending_def by (intro exI [of _ j]) simp
    then show ?thesis using Some keep by (auto simp: insertandmatch_halfstamp_def Let_def)
  next
    case None
    have "length (q_elts (trim_queue q)) = (if length (q_elts q) = 20 then 19 else length (q_elts q))"
      using ok by (auto simp: trim_queue_def stq_ok_def)
    then have "j < length (q_elts (trim_queue q))" using j k by (auto split: if_splits)
    moreover from this have "q_elts (trim_queue q) ! j = x"
      using j by (auto simp: trim_queue_def nth_butlast)
    ultimately have "pending \<lparr>q_elts = fill_halfstamp m (ntp_stamp (st_id h)) h # q_elts (trim_queue q),
        q_size = q_size (trim_queue q) + 1\<rparr> x (Suc k)"
      using j unfolding pending_def by (intro exI [of _ "Suc j"]) simp
    then show ?thesis using None keep
      by (auto simp: insertandmatch_halfstamp_def Let_def)
  qed
qed

lemma pending_push_all:
  assumes "stq_ok q" "pending q x k" "k + length hs \<le> 19" "\<forall>(h, m)\<in>set hs. st_id h \<noteq> st_id x"
  shows "stq_ok (push_all hs q) \<and> pending (push_all hs q) x (k + length hs)"
  using assms
proof (induction hs arbitrary: q k)
  case (Cons p hs)
  obtain h m where p: "p = (h, m)" by force
  have "pending (snd (insertandmatch_halfstamp q h m)) x (Suc k)"
    using Cons.prems p by (intro pending_insert) auto
  then show ?case
    using Cons.IH [of "snd (insertandmatch_halfstamp q h m)" "Suc k"] Cons.prems p
    by (auto simp: push_all_def insert_ok)
qed (simp add: push_all_def)

lemma scan_id_unique:
  assumes "distinct (map st_id xs)" "j < length xs"
  shows "scan_id (st_id (xs ! j)) xs = Some j"
proof (cases "scan_id (st_id (xs ! j)) xs")
  case None
  then show ?thesis using assms(2) by (auto simp: scan_id_None)
next
  case (Some k)
  then have "k < length xs" "st_id (xs ! k) = st_id (xs ! j)" by (auto dest: scan_id_Some)
  then show ?thesis using assms Some by (metis (no_types, lifting) length_map nth_eq_iff_index_eq nth_map)
qed

text \<open>
  C23: The two halves of an exchange meet whatever order they arrive in. A halfstamp with a
  fresh identifier is buffered; after up to 19 other halfstamps of any kind the opposite
  half with the same identifier completes it: the insertion reports a match and the queue
  holds the stamp with the send side of the request and the server side of the reply.
\<close>

theorem halves_meet:
  assumes ok: "stq_ok q" and fresh: "st_id a \<notin> st_id ` set (q_elts q)" and same: "st_id b = st_id a"
    and modes: "(ma, mb) = (MODE_CLIENT, MODE_SERVER) \<or> (ma, mb) = (MODE_SERVER, MODE_CLIENT)"
    and others: "length hs \<le> 19" "\<forall>(h, m)\<in>set hs. st_id h \<noteq> st_id a"
  shows "fst (insertandmatch_halfstamp q a ma) = 1
    \<and> fst (insertandmatch_halfstamp (push_all hs (snd (insertandmatch_halfstamp q a ma))) b mb) = 0
    \<and> fill_halfstamp mb (fill_halfstamp ma (ntp_stamp (st_id a)) a) b
        \<in> set (q_elts (snd (insertandmatch_halfstamp (push_all hs (snd (insertandmatch_halfstamp q a ma))) b mb)))"
proof -
  let ?x = "fill_halfstamp ma (ntp_stamp (st_id a)) a"
  let ?q1 = "snd (insertandmatch_halfstamp q a ma)"
  let ?q2 = "push_all hs ?q1"
  have x: "st_id ?x = st_id a" by (simp add: ntp_stamp_def)
  have none: "scan_id (st_id a) (q_elts q) = None" using fresh by (simp add: scan_id_None)
  then have first: "fst (insertandmatch_halfstamp q a ma) = 1" and "pending ?q1 ?x 0"
    using modes by (auto simp: insertandmatch_halfstamp_def Let_def pending_def)
  then have "stq_ok ?q2 \<and> pending ?q2 ?x (0 + length hs)"
    using others ok x by (intro pending_push_all) (auto intro: insert_ok)
  then obtain j where j: "j < length (q_elts ?q2)" "q_elts ?q2 ! j = ?x" and ok2: "stq_ok ?q2"
    by (auto simp: pending_def)
  then have sc: "scan_id (st_id b) (q_elts ?q2) = Some j"
    using scan_id_unique [of "q_elts ?q2" j] x same by (simp add: stq_ok_def)
  have nodup: "\<not> is_duplicate mb ?x"
    using modes by (auto simp: is_duplicate_def fill_halfstamp_def ntp_stamp_def zero_stamp_def)
  then have "insertandmatch_halfstamp ?q2 b mb = (0, ?q2\<lparr>q_elts := (q_elts ?q2)[j := fill_halfstamp mb ?x b]\<rparr>)"
    using sc j modes by (auto simp: insertandmatch_halfstamp_def Let_def)
  then show ?thesis using first j by (simp add: set_update_memI)
qed

theorem halves_meet_witness:
  "fst (insertandmatch_halfstamp (push_all [(demo_stamp 8 40 0, MODE_CLIENT)]
      (snd (insertandmatch_halfstamp init_stamp_queue (demo_stamp 7 30 0) MODE_CLIENT)))
        (demo_stamp 7 0 35) MODE_SERVER) = 0"
  using halves_meet [of init_stamp_queue "demo_stamp 7 30 0" "demo_stamp 7 0 35" MODE_CLIENT MODE_SERVER
      "[(demo_stamp 8 40 0, MODE_CLIENT)]"] stq_ok_init
  by (simp add: init_stamp_queue_def demo_stamp_def ntp_stamp_def)

section \<open>Order of the full stamps\<close>

datatype stq_event = Client_half stamp_t | Server_half stamp_t | Take

fun stq_run :: "(stamp_t \<Rightarrow> stamp_t) \<Rightarrow> stq_event list \<Rightarrow> stamp_queue \<Rightarrow> stamp_t list \<times> stamp_queue" where
  "stq_run freed [] q = ([], q)"
| "stq_run freed (Client_half h # es) q = stq_run freed es (snd (insertandmatch_halfstamp q h MODE_CLIENT))"
| "stq_run freed (Server_half h # es) q = stq_run freed es (snd (insertandmatch_halfstamp q h MODE_SERVER))"
| "stq_run freed (Take # es) q =
     (case get_fullstamp_from_queue_andclean freed q of
        (None, q') \<Rightarrow> stq_run freed es q'
      | (Some st, q') \<Rightarrow> (case stq_run freed es q' of (sts, q'') \<Rightarrow> (st # sts, q'')))"

fun client_times :: "stq_event list \<Rightarrow> vcounter_t list" where
  "client_times [] = []"
| "client_times (Client_half h # es) = Ta (BST h) # client_times es"
| "client_times (_ # es) = client_times es"

text \<open>
  \<open>order_inv q M L\<close>: no send time exceeds \<open>M\<close>, send times are unique, and what the queue holds
  of a server was sent after the last full stamp \<open>L\<close> returned for it.
\<close>

definition order_inv :: "stamp_t set \<Rightarrow> vcounter_t \<Rightarrow> (string \<Rightarrow> vcounter_t) \<Rightarrow> bool" where
  "order_inv S M L \<longleftrightarrow> (\<forall>x\<in>S. Ta (BST x) \<le> M) \<and> inj_on (\<lambda>x. Ta (BST x)) {x \<in> S. Ta (BST x) \<noteq> 0}
     \<and> (\<forall>x\<in>S. Ta (BST x) \<noteq> 0 \<longrightarrow> L (st_server_ipaddr x) < Ta (BST x)) \<and> (\<forall>a. L a \<le> M)"

lemma order_inv_subset: "order_inv S M L \<Longrightarrow> S' \<subseteq> S \<Longrightarrow> order_inv S' M L"
  unfolding order_inv_def by (auto intro: inj_on_subset)

lemma order_inv_client:
  assumes "order_inv S M L" "M < Ta (BST y)"
  shows "order_inv (insert y S) (Ta (BST y)) L"
proof -
  have lt: "Ta (BST x) < Ta (BST y)" if "x \<in> S" for x
    using assms that unfolding order_inv_def by (meson le_less_trans)
  have L: "L a < Ta (BST y)" for a using assms unfolding order_inv_def by (meson le_less_trans)
  have "inj_on (\<lambda>x. Ta (BST x)) (insert y {x \<in> S. Ta (BST x) \<noteq> 0})"
    using assms(1) less_irrefl lt unfolding order_inv_def inj_on_insert by fastforce
  then have "inj_on (\<lambda>x. Ta (BST x)) {x \<in> insert y S. Ta (BST x) \<noteq> 0}"
    by (rule inj_on_subset) auto
  then show ?thesis
    using assms(1) lt L unfolding order_inv_def by (auto simp: less_imp_le)
qed

lemma order_inv_server:
  assumes "order_inv S M L" "x \<in> S" "Ta (BST y) = Ta (BST x)" "st_server_ipaddr y = st_server_ipaddr x"
  shows "order_inv (insert y (S - {x})) M L"
  using assms unfolding order_inv_def inj_on_def by auto

lemma order_inv_orphan:
  assumes "order_inv S M L" "Ta (BST y) = 0"
  shows "order_inv (insert y S) M L"
  using assms unfolding order_inv_def inj_on_def by auto

lemma set_fill:
  assumes "stq_ok q" "i < length (q_elts q)"
  shows "set ((q_elts q)[i := y]) = insert y (set (q_elts q) - {q_elts q ! i})"
  using assms by (intro set_update_distinct) (auto simp: stq_ok_def distinct_map)

lemma order_insert_client:
  assumes ok: "stq_ok q" and inv: "order_inv (set (q_elts q)) M L" and new: "M < Ta (BST h)"
  shows "order_inv (set (q_elts (snd (insertandmatch_halfstamp q h MODE_CLIENT)))) (Ta (BST h)) L"
proof -
  have up: "order_inv S (Ta (BST h)) L" if "order_inv S M L" for S
    using that new unfolding order_inv_def by (meson le_less_trans less_imp_le)
  have y: "Ta (BST (fill_halfstamp MODE_CLIENT st h)) = Ta (BST h)" for st
    by (simp add: fill_halfstamp_def)
  show ?thesis
  proof (cases "scan_id (st_id h) (q_elts q)")
    case None
    have "order_inv (set (q_elts (trim_queue q))) M L"
      using inv trim_ok(3) [OF ok] by (rule order_inv_subset)
    then show ?thesis
      using None order_inv_client [of _ M L "fill_halfstamp MODE_CLIENT (ntp_stamp (st_id h)) h"] new y
      by (simp add: insertandmatch_halfstamp_def Let_def)
  next
    case (Some i)
    then have i: "i < length (q_elts q)" by (auto dest: scan_id_Some)
    have "order_inv (set (q_elts q) - {q_elts q ! i}) M L" using inv by (rule order_inv_subset) auto
    then have "order_inv (set ((q_elts q)[i := fill_halfstamp MODE_CLIENT (q_elts q ! i) h])) (Ta (BST h)) L"
      using order_inv_client [of _ M L "fill_halfstamp MODE_CLIENT (q_elts q ! i) h"] new y
      by (simp add: set_fill [OF ok i])
    then show ?thesis using Some up [OF inv] by (auto simp: insertandmatch_halfstamp_def Let_def)
  qed
qed

lemma order_insert_server:
  assumes ok: "stq_ok q" and inv: "order_inv (set (q_elts q)) M L"
  shows "order_inv (set (q_elts (snd (insertandmatch_halfstamp q h MODE_SERVER)))) M L"
proof (cases "scan_id (st_id h) (q_elts q)")
  case None
  have "order_inv (set (q_elts (trim_queue q))) M L"
    using inv trim_ok(3) [OF ok] by (rule order_inv_subset)
  then have "order_inv (insert (fill_halfstamp MODE_SERVER (ntp_stamp (st_id h)) h) (set (q_elts (trim_queue q)))) M L"
    by (rule order_inv_orphan) (simp add: fill_halfstamp_def ntp_stamp_def zero_stamp_def)
  then show ?thesis using None by (simp add: insertandmatch_halfstamp_def Let_def)
next
  case (Some i)
  then have i: "i < length (q_elts q)" by (auto dest: scan_id_Some)
  have "order_inv (set ((q_elts q)[i := fill_halfstamp MODE_SERVER (q_elts q ! i) h])) M L"
    using inv i by (simp add: set_fill [OF ok i]) (rule order_inv_server; simp add: fill_halfstamp_def)
  then show ?thesis using Some inv by (auto simp: insertandmatch_halfstamp_def Let_def)
qed

text \<open>Ordering only needs the freed stamp to keep its server address.\<close>

lemma order_take:
  assumes ok: "stq_ok q" and inv: "order_inv (set (q_elts q)) M L"
    and freed: "\<forall>s. st_server_ipaddr (freed s) = st_server_ipaddr s"
    and i: "i < length (q_elts q)" "is_full (q_elts q ! i)"
      "\<forall>s\<in>set (q_elts q). is_full s \<longrightarrow> Ta (BST (q_elts q ! i)) \<le> Ta (BST s)"
  shows "order_inv (set (extracted freed (q_elts q) i)) M (L(st_server_ipaddr (q_elts q ! i) := Ta (BST (q_elts q ! i))))"
proof -
  let ?st = "q_elts q ! i"
  have d: "distinct (map st_id (q_elts q))" using ok by (simp add: stq_ok_def)
  have st: "?st \<in> set (q_elts q)" "Ta (BST ?st) \<noteq> 0" using i by (auto simp: is_full_def)
  have "Ta (BST ?st) < Ta (BST x)"
    if x: "x \<in> set (extracted freed (q_elts q) i)" "Ta (BST x) \<noteq> 0" "st_server_ipaddr x = st_server_ipaddr ?st" for x
  proof -
    have xq: "x \<in> set (q_elts q)" "x \<noteq> ?st"
      using extracted_set(1,3) [OF i(1)] d x(1) by auto
    then have ne: "Ta (BST x) \<noteq> Ta (BST ?st)"
      using inv st x(2) unfolding order_inv_def inj_on_def by blast
    have "Ta (BST ?st) \<le> Ta (BST x)"
    proof (cases "is_full x")
      case False
      then have "c_half x" using x(2) by (simp add: c_half_def is_full_def)
      moreover have "\<not> dangerous (Ta (BST ?st)) (freed ?st) x \<or> \<not> dangerous (Ta (BST ?st)) ?st x"
        using x(1) by (auto simp: extracted_def Let_def kept_by_def)
      ultimately show ?thesis using x(3) freed by (auto simp: dangerous_def not_less)
    qed (use i(3) xq in blast)
    then show ?thesis using ne by simp
  qed
  then show ?thesis
    using inv st extracted_set(1) [OF i(1)] unfolding order_inv_def
    by (auto intro: inj_on_subset)
qed

lemma run_order:
  assumes freed: "\<forall>s. st_server_ipaddr (freed s) = st_server_ipaddr s"
  shows "stq_ok q \<Longrightarrow> order_inv (set (q_elts q)) M L \<Longrightarrow> sorted_wrt (<) (M # client_times es) \<Longrightarrow>
    sorted_wrt (\<lambda>a b. st_server_ipaddr a = st_server_ipaddr b \<longrightarrow> Ta (BST a) < Ta (BST b)) (fst (stq_run freed es q))
    \<and> (\<forall>st\<in>set (fst (stq_run freed es q)). L (st_server_ipaddr st) < Ta (BST st))"
proof (induction es arbitrary: q M L)
  case (Cons e es)
  show ?case
  proof (cases e)
    case (Client_half h)
    then have "M < Ta (BST h)" "sorted_wrt (<) (Ta (BST h) # client_times es)" using Cons.prems(3) by auto
    then show ?thesis
      using Cons.IH [OF insert_ok [OF Cons.prems(1)] order_insert_client [OF Cons.prems(1,2)]] Client_half
      by simp
  next
    case (Server_half h)
    then show ?thesis
      using Cons.IH [OF insert_ok [OF Cons.prems(1)] order_insert_server [OF Cons.prems(1,2)]] Cons.prems(3)
      by simp
  next
    case Take
    from Cons.prems(1) show ?thesis
    proof (cases rule: get_fullstamp_cases [where freed = freed])
      case none
      then show ?thesis using Take Cons.IH [OF Cons.prems(1,2)] Cons.prems(3) by simp
    next
      case (some i)
      let ?st = "q_elts q ! i" and ?e = "extracted freed (q_elts q) i"
      have ok: "stq_ok \<lparr>q_elts = ?e, q_size = int (length ?e)\<rparr>"
        using Cons.prems(1) some(1) by (rule extracted_ok)
      let ?L = "L(st_server_ipaddr ?st := Ta (BST ?st))"
      have lt: "L (st_server_ipaddr ?st) < Ta (BST ?st)"
        using Cons.prems(2) some(1,2) by (auto simp: order_inv_def is_full_def)
      have ih: "sorted_wrt (\<lambda>a b. st_server_ipaddr a = st_server_ipaddr b \<longrightarrow> Ta (BST a) < Ta (BST b))
            (fst (stq_run freed es \<lparr>q_elts = ?e, q_size = int (length ?e)\<rparr>))
          \<and> (\<forall>st\<in>set (fst (stq_run freed es \<lparr>q_elts = ?e, q_size = int (length ?e)\<rparr>)).
               ?L (st_server_ipaddr st) < Ta (BST st))"
      proof (rule Cons.IH [OF ok])
        show "order_inv (set (q_elts \<lparr>q_elts = ?e, q_size = int (length ?e)\<rparr>)) M ?L"
          using order_take [OF Cons.prems(1,2) freed some(1-3)] by (simp only: stamp_queue.simps)
        show "sorted_wrt (<) (M # client_times es)" using Cons.prems(3) Take by simp
      qed
      have "L (st_server_ipaddr st) < Ta (BST st)"
        if "st \<in> set (fst (stq_run freed es \<lparr>q_elts = ?e, q_size = int (length ?e)\<rparr>))" for st
      proof -
        have "?L (st_server_ipaddr st) < Ta (BST st)" using ih that by blast
        then show ?thesis using lt less_trans [OF lt] by (simp split: if_splits)
      qed
      moreover have "fst (stq_run freed (e # es) q) =
          ?st # fst (stq_run freed es \<lparr>q_elts = ?e, q_size = int (length ?e)\<rparr>)"
        using Take some(4) by (simp split: prod.splits)
      moreover have "Ta (BST ?st) < Ta (BST st)"
        if "st \<in> set (fst (stq_run freed es \<lparr>q_elts = ?e, q_size = int (length ?e)\<rparr>))"
          "st_server_ipaddr ?st = st_server_ipaddr st" for st
        using bspec [OF conjunct2 [OF ih] that(1)] that(2) by simp
      ultimately show ?thesis using conjunct1 [OF ih] lt by (simp del: stq_run.simps)
    qed
  qed
qed simp

text \<open>
  C4: Full stamps of one server leave the queue in the order their requests were sent. For
  every sequence of captured requests, captured replies and extractions, with reordered,
  lost, duplicated and orphan packets and several servers, as long as requests are captured
  with increasing counter values, any two full stamps of one server come out with
  increasing send times. The freed element has to keep the server address it held.
\<close>

theorem fullstamps_in_order:
  assumes "\<forall>s. st_server_ipaddr (freed s) = st_server_ipaddr s"
    and "sorted_wrt (<) (0 # client_times es)"
    and "i < j" "j < length (fst (stq_run freed es init_stamp_queue))"
    and "st_server_ipaddr (fst (stq_run freed es init_stamp_queue) ! i)
       = st_server_ipaddr (fst (stq_run freed es init_stamp_queue) ! j)"
  shows "Ta (BST (fst (stq_run freed es init_stamp_queue) ! i))
       < Ta (BST (fst (stq_run freed es init_stamp_queue) ! j))"
proof -
  have "order_inv (set (q_elts init_stamp_queue)) 0 (\<lambda>_. 0)"
    by (simp add: order_inv_def init_stamp_queue_def)
  then show ?thesis
    using run_order [OF assms(1) stq_ok_init _ assms(2)] assms(3-5) unfolding sorted_wrt_iff_nth_less by blast
qed

text \<open>Two requests; the reply to the first one is late and comes after the second exchange.\<close>

definition demo_events :: "stq_event list" where
  "demo_events = [Client_half (demo_stamp 1 10 0), Server_half (demo_stamp 1 0 12), Take,
     Client_half (demo_stamp 2 20 0), Client_half (demo_stamp 3 30 0), Server_half (demo_stamp 3 0 35), Take,
     Server_half (demo_stamp 2 0 40), Take]"

lemma demo_run:
  "fst (stq_run id demo_events init_stamp_queue) =
     [demo_stamp 1 10 12, demo_stamp 3 30 35]"
proof -
  have f: "fill_halfstamp MODE_CLIENT (ntp_stamp i) (demo_stamp i a 0) = demo_stamp i a 0"
    "fill_halfstamp MODE_SERVER (demo_stamp i a 0) (demo_stamp i 0 t) = demo_stamp i a t" for i a t
    by (simp_all add: fill_halfstamp_def demo_stamp_def ntp_stamp_def zero_stamp_def)
  show ?thesis
    by (simp add: demo_events_def init_stamp_queue_def insertandmatch_halfstamp_def Let_def f
        get_fullstamp_from_queue_andclean_def trim_queue_def from_tail_def is_full_def demo_stamp_def
        ntp_stamp_def zero_stamp_def is_duplicate_def fill_halfstamp_def dangerous_def c_half_def s_half_def)
qed

theorem fullstamps_in_order_witness:
  "Ta (BST (fst (stq_run id demo_events init_stamp_queue) ! 0))
     < Ta (BST (fst (stq_run id demo_events init_stamp_queue) ! 1))"
  by (rule fullstamps_in_order) (simp_all add: demo_run, simp_all add: demo_events_def demo_stamp_def)

text \<open>
  An extraction reads the chosen stamp after freeing it, so its outcome depends on what
  the allocator leaves in the freed block: with the contents intact an older unanswered
  request nearer the head is cleaned, with an overwritten address it stays in the queue and
  a later reply would complete it out of order.
\<close>

lemma clean_reads_freed_stamp:
  "q_elts (snd (get_fullstamp_from_queue_andclean id
      \<lparr>q_elts = [demo_stamp 1 10 0, demo_stamp 2 20 25], q_size = 2\<rparr>)) = []
   \<and> q_elts (snd (get_fullstamp_from_queue_andclean (\<lambda>s. s\<lparr>st_server_ipaddr := []\<rparr>)
      \<lparr>q_elts = [demo_stamp 1 10 0, demo_stamp 2 20 25], q_size = 2\<rparr>)) = [demo_stamp 1 10 0]"
  by (simp add: get_fullstamp_from_queue_andclean_def from_tail_def is_full_def demo_stamp_def
      ntp_stamp_def dangerous_def c_half_def s_half_def)

end
