(* ===== verification/Packet_Capture.thy ===== *)
theory Packet_Capture
  imports Stamp_Queue
begin

text \<open>
  From captured packets to stamps: the rest of \<^verbatim>\<open>radclock/create_stamp.c\<close>.

  A packet is the contents of its buffer, one byte per offset, with the capture length of its
  pcap header. A pointer into it is an offset. Reading goes through the offsets the C code
  computes, also beyond the captured part. An uninitialised pointer that the code goes on to
  use is \<open>Wild\<close>, and a call that dereferences it is \<open>None\<close>.

  \<^verbatim>\<open>inet_ntop\<close> of the C library is the parameter \<open>ntop\<close>; the function that delivers captured
  packets is represented by the list of its results.
\<close>

section \<open>Packets\<close>

datatype sockaddr_storage = Sin uint32 | Sin6 "uint8 list"

record radpcap_packet =
  pk_caplen :: uint32
  pk_ts_sec :: int
  pk_ts_usec :: int
  pk_payload :: "(nat \<Rightarrow> uint8) option"
  pk_size :: nat
  pk_type :: uint32
  pk_ss_if :: sockaddr_storage

record timeref_stats =
  ref_count :: uint32
  badqual_count :: uint32

abbreviation DLT_EN10MB :: uint32 where "DLT_EN10MB \<equiv> 1"
abbreviation DLT_LINUX_SLL :: uint32 where "DLT_LINUX_SLL \<equiv> 113"
abbreviation SIZEOF_pcap_pkthdr :: nat where "SIZEOF_pcap_pkthdr \<equiv> 24"
abbreviation SIZEOF_sll_header :: nat where "SIZEOF_sll_header \<equiv> 16"
abbreviation SIZEOF_ether_header :: nat where "SIZEOF_ether_header \<equiv> 14"
abbreviation SIZEOF_udphdr :: nat where "SIZEOF_udphdr \<equiv> 8"
abbreviation SIZEOF_ip :: nat where "SIZEOF_ip \<equiv> 20"
abbreviation SIZEOF_ip6_hdr :: nat where "SIZEOF_ip6_hdr \<equiv> 40"

text \<open>Loads: a 16 bit field in network order, a 32 bit field as the little endian host loads it.\<close>

definition load16n :: "(nat \<Rightarrow> uint8) \<Rightarrow> nat \<Rightarrow> nat" where
  "load16n b off = 256 * unat (b off) + unat (b (off + 1))"

definition load32 :: "(nat \<Rightarrow> uint8) \<Rightarrow> nat \<Rightarrow> uint32" where
  "load32 b off = of_bytes (unat (b off)) (unat (b (off + 1))) (unat (b (off + 2))) (unat (b (off + 3)))"

definition load64 :: "(nat \<Rightarrow> uint8) \<Rightarrow> nat \<Rightarrow> uint64" where
  "load64 b off = push_bit 32 (ucast (load32 b (off + 4))) OR ucast (load32 b off)"

definition load_fp :: "(nat \<Rightarrow> uint8) \<Rightarrow> nat \<Rightarrow> l_fp" where
  "load_fp b off = \<lparr>l_int = load32 b off, l_fra = load32 b (off + 4)\<rparr>"

text \<open>The NTP packet at an offset.\<close>

definition ntp_pkt_at :: "(nat \<Rightarrow> uint8) \<Rightarrow> nat \<Rightarrow> ntp_pkt" where
  "ntp_pkt_at b off =
     \<lparr>np_li_vn_mode = b off, np_stratum = b (off + 1), np_ppoll = b (off + 2), np_precision = sint (b (off + 3)),
      np_rootdelay = load32 b (off + 4), np_rootdispersion = load32 b (off + 8), np_refid = load32 b (off + 12),
      np_reftime = load_fp b (off + 16), np_org = load_fp b (off + 24), np_rec = load_fp b (off + 32),
      np_xmt = load_fp b (off + 40)\<rparr>"

section \<open>The headers\<close>

text \<open>
  \<open>remaining\<close> is an \<^verbatim>\<open>int\<close>. Subtracting a \<^verbatim>\<open>sizeof\<close> goes through \<^verbatim>\<open>size_t\<close> and back; comparing
  with an unsigned quantity compares in the unsigned type.
\<close>

definition int_minus :: "int \<Rightarrow> nat \<Rightarrow> int" where
  "int_minus remaining k = sint (word_of_int (remaining - int k) :: uint32)"

definition less_u32 :: "int \<Rightarrow> nat \<Rightarrow> bool" where
  "less_u32 remaining k \<longleftrightarrow> (word_of_int remaining :: uint32) < of_nat k"

definition less_size_t :: "int \<Rightarrow> nat \<Rightarrow> bool" where
  "less_size_t remaining k \<longleftrightarrow> (word_of_int remaining :: uint64) < of_nat k"

definition ip_hl :: "(nat \<Rightarrow> uint8) \<Rightarrow> nat \<Rightarrow> nat" where
  "ip_hl b h = unat (b h) mod 16"

definition check_ipv4 :: "(nat \<Rightarrow> uint8) \<Rightarrow> nat \<Rightarrow> int \<Rightarrow> int" where
  "check_ipv4 b h remaining =
     (if unat (b h) div 16 \<noteq> 4 then 1
      else if (of_nat (unat (b (h + 6)) + 256 * unat (b (h + 7))) :: uint16) AND 0xff1f \<noteq> 0 then 1
      else if b (h + 9) \<noteq> 17 then 1
      else if less_u32 remaining (ip_hl b h * 4) then 1
      else 0)"

definition check_ipv6 :: "(nat \<Rightarrow> uint8) \<Rightarrow> nat \<Rightarrow> int \<Rightarrow> int" where
  "check_ipv6 b h remaining =
     (if b (h + 6) \<noteq> 17 then 1 else if remaining < 40 then 1 else 0)"

text \<open>
  The offset of the UDP header (\<open>None\<close> when the variable is left uninitialised), the addresses
  and the TTL, once the link and network layers are parsed.
\<close>

datatype headers =
    Bad
  | Headers "nat option" int sockaddr_storage sockaddr_storage int
  | Headers_no_addr "nat option" int

definition parse_headers :: "radpcap_packet \<Rightarrow> (nat \<Rightarrow> uint8) \<Rightarrow> headers" where
  "parse_headers packet b =
     (let remaining = sint (pk_caplen packet)
      in if pk_type packet = DLT_EN10MB then
           Headers_no_addr None (int_minus remaining SIZEOF_ether_header)
         else if pk_type packet = DLT_LINUX_SLL then
           if load16n b 2 \<noteq> 0x0001 then
             Headers_no_addr None (int_minus remaining SIZEOF_ether_header)
           else if load16n b 14 = 0x0800 then
             let h = SIZEOF_sll_header; remaining = int_minus remaining SIZEOF_sll_header
             in if check_ipv4 b h remaining \<noteq> 0 then Bad
                else Headers (Some (h + ip_hl b h * 4)) (int_minus remaining SIZEOF_ip)
                       (Sin (load32 b (h + 12))) (Sin (load32 b (h + 16))) (int (unat (b (h + 8))))
           else if load16n b 14 = 0x86dd then
             let h = SIZEOF_sll_header; remaining = int_minus remaining SIZEOF_sll_header
             in if check_ipv6 b h remaining \<noteq> 0 then Bad
                else Headers (Some (h + SIZEOF_ip6_hdr)) (int_minus remaining SIZEOF_ip6_hdr)
                       (Sin6 (map (\<lambda>k. b (h + 8 + k)) [0..<16])) (Sin6 (map (\<lambda>k. b (h + 24 + k)) [0..<16]))
                       (int (unat (b (h + 7))))
           else Bad
         else Bad)"

text \<open>\<open>Ntp_at off src dst ttl\<close>: success with the NTP packet at offset \<open>off\<close>; \<open>Wild\<close>: success with a wild pointer.\<close>

datatype payload = Not_ntp | Wild | Ntp_at nat sockaddr_storage sockaddr_storage int

definition check_lengths :: "int \<Rightarrow> bool" where
  "check_lengths remaining \<longleftrightarrow>
     \<not> less_size_t remaining SIZEOF_udphdr \<and> \<not> int_minus remaining SIZEOF_udphdr < 12"

definition get_valid_ntp_payload :: "radpcap_packet \<Rightarrow> (nat \<Rightarrow> uint8) \<Rightarrow> payload" where
  "get_valid_ntp_payload packet b =
     (case parse_headers packet b of
        Bad \<Rightarrow> Not_ntp
      | Headers (Some udph) remaining src dst ttl \<Rightarrow>
          if check_lengths remaining then Ntp_at (udph + SIZEOF_udphdr) src dst ttl else Not_ntp
      | Headers None remaining src dst ttl \<Rightarrow> if check_lengths remaining then Wild else Not_ntp
      | Headers_no_addr udph remaining \<Rightarrow> if check_lengths remaining then Wild else Not_ntp)"

section \<open>The raw timestamp\<close>

definition get_vcount_from_etherframe :: "radpcap_packet \<Rightarrow> vcounter_t option" where
  "get_vcount_from_etherframe packet =
     (if pk_size packet < SIZEOF_pcap_pkthdr then None
      else Some (push_bit 32 (word_of_int (pk_ts_sec packet))
                 + ucast (word_of_int (pk_ts_usec packet) :: uint32)))"

definition get_vcount_from_sll :: "radpcap_packet \<Rightarrow> vcounter_t option" where
  "get_vcount_from_sll packet =
     (if pk_size packet < SIZEOF_pcap_pkthdr + SIZEOF_sll_header then None
      else case pk_payload packet of
        None \<Rightarrow> None
      | Some b \<Rightarrow> Some (ntohll (load64 b 6)))"

definition get_vcount :: "radpcap_packet \<Rightarrow> vcounter_t option" where
  "get_vcount packet =
     (if pk_type packet = DLT_EN10MB then get_vcount_from_etherframe packet
      else if pk_type packet = DLT_LINUX_SLL then get_vcount_from_sll packet
      else None)"

section \<open>Filters\<close>

fun compare_sockaddr_storage :: "sockaddr_storage \<Rightarrow> sockaddr_storage \<Rightarrow> int" where
  "compare_sockaddr_storage (Sin a) (Sin b) = (if a = b then 0 else 1)"
| "compare_sockaddr_storage (Sin6 a) (Sin6 b) = (if a = b then 0 else 1)"
| "compare_sockaddr_storage _ _ = 1"

fun is_loopback_sockaddr_storage :: "sockaddr_storage \<Rightarrow> bool" where
  "is_loopback_sockaddr_storage (Sin a) \<longleftrightarrow> a = htonl 0x7f000001"
| "is_loopback_sockaddr_storage (Sin6 a) \<longleftrightarrow> a = replicate 15 0 @ [1]"

definition bad_packet_client :: "sockaddr_storage \<Rightarrow> sockaddr_storage \<Rightarrow> int" where
  "bad_packet_client ss_if ss_dst =
     (if compare_sockaddr_storage ss_if ss_dst = 0 \<and> \<not> is_loopback_sockaddr_storage ss_dst then 1 else 0)"

definition bad_packet_server ::
    "ntp_pkt \<Rightarrow> sockaddr_storage \<Rightarrow> sockaddr_storage \<Rightarrow> timeref_stats \<Rightarrow> int \<times> timeref_stats" where
  "bad_packet_server ntp ss_if ss_src stats =
     (if compare_sockaddr_storage ss_if ss_src = 0 \<and> \<not> is_loopback_sockaddr_storage ss_src then (1, stats)
      else if PKT_LEAP (np_li_vn_mode ntp) = LEAP_NOTINSYNC
      then (1, stats\<lparr>badqual_count := badqual_count stats + 1\<rparr>)
      else if np_stratum ntp = STRATUM_UNSPEC then (1, stats)
      else (0, stats))"

section \<open>Halfstamps\<close>

definition client_halfstamp ::
    "(sockaddr_storage \<Rightarrow> string) \<Rightarrow> ntp_pkt \<Rightarrow> vcounter_t \<Rightarrow> sockaddr_storage \<Rightarrow> stamp_t" where
  "client_halfstamp ntop ntp vcount ss_dst =
     (ntp_stamp (fp_id (np_xmt ntp)))
       \<lparr>st_server_ipaddr := ntop ss_dst, BST := zero_stamp\<lparr>Ta := vcount\<rparr>\<rparr>"

definition push_client_halfstamp ::
    "(sockaddr_storage \<Rightarrow> string) \<Rightarrow> stamp_queue \<Rightarrow> ntp_pkt \<Rightarrow> vcounter_t \<Rightarrow> sockaddr_storage \<Rightarrow> int \<times> stamp_queue" where
  "push_client_halfstamp ntop q ntp vcount ss_dst =
     insertandmatch_halfstamp q (client_halfstamp ntop ntp vcount ss_dst) MODE_CLIENT"

definition server_halfstamp :: "ntp_pkt \<Rightarrow> vcounter_t \<Rightarrow> int \<Rightarrow> stamp_t" where
  "server_halfstamp ntp vcount ttl =
     (ntp_stamp (fp_id (np_org ntp)))
       \<lparr>st_ttl := ttl, st_refid := ntohl (np_refid ntp), st_stratum := int (unat (np_stratum ntp)),
        st_LI := int (unat (PKT_LEAP (np_li_vn_mode ntp))),
        st_rootdelay := vc_real (ntohl (np_rootdelay ntp)) / 65536,
        st_rootdispersion := vc_real (ntohl (np_rootdispersion ntp)) / 65536,
        BST := \<lparr>Ta = 0, Tb = NTPtime_to_UTCld (np_rec ntp), Te = NTPtime_to_UTCld (np_xmt ntp), Tf = vcount\<rparr>\<rparr>"

definition push_server_halfstamp ::
    "stamp_queue \<Rightarrow> ntp_pkt \<Rightarrow> vcounter_t \<Rightarrow> int \<Rightarrow> int \<times> stamp_queue" where
  "push_server_halfstamp q ntp vcount ttl =
     insertandmatch_halfstamp q (server_halfstamp ntp vcount ttl) MODE_SERVER"

text \<open>The dispatch on the packet mode, once the packet is parsed.\<close>

definition update_queue_by_mode ::
    "(sockaddr_storage \<Rightarrow> string) \<Rightarrow> stamp_queue \<Rightarrow> sockaddr_storage \<Rightarrow> ntp_pkt \<Rightarrow> vcounter_t
      \<Rightarrow> sockaddr_storage \<Rightarrow> sockaddr_storage \<Rightarrow> int \<Rightarrow> timeref_stats \<Rightarrow> int \<times> stamp_queue \<times> timeref_stats" where
  "update_queue_by_mode ntop q ss_if ntp vcount ss_src ss_dst ttl stats =
     (let mode = PKT_MODE (np_li_vn_mode ntp)
      in if mode = MODE_BROADCAST then (0, q, stats)
         else if mode = MODE_CLIENT then
           if bad_packet_client ss_if ss_dst \<noteq> 0 then (1, q, stats)
           else let (err, q) = push_client_halfstamp ntop q ntp vcount ss_dst in (err, q, stats)
         else if mode = MODE_SERVER then
           let (err, stats) = bad_packet_server ntp ss_if ss_src stats
           in if err \<noteq> 0 then (err, q, stats)
              else let (err, q) = push_server_halfstamp q ntp vcount ttl in (err, q, stats)
         else (1, q, stats))"

definition update_stamp_queue ::
    "(sockaddr_storage \<Rightarrow> string) \<Rightarrow> stamp_queue \<Rightarrow> radpcap_packet \<Rightarrow> timeref_stats
      \<Rightarrow> (int \<times> stamp_queue \<times> timeref_stats) option" where
  "update_stamp_queue ntop q packet stats =
     (case get_vcount packet of
        None \<Rightarrow> Some (-1, q, stats)
      | Some vcount \<Rightarrow>
          (case pk_payload packet of
             None \<Rightarrow> None
           | Some b \<Rightarrow>
               (case get_valid_ntp_payload packet b of
                  Not_ntp \<Rightarrow> Some (1, q, stats)
                | Wild \<Rightarrow> None
                | Ntp_at off ss_src ss_dst ttl \<Rightarrow>
                    Some (update_queue_by_mode ntop q (pk_ss_if packet) (ntp_pkt_at b off) vcount
                      ss_src ss_dst ttl stats))))"

section \<open>The stamp source\<close>

text \<open>
  The results of successive calls of \<^verbatim>\<open>get_packet\<close>: an error code or a packet. Past the end of
  the list there is no data (code 1).
\<close>

type_synonym packet_source = "(int + radpcap_packet) list"

fun get_packet :: "packet_source \<Rightarrow> (int + radpcap_packet) \<times> packet_source" where
  "get_packet [] = (Inl 1, [])"
| "get_packet (x # src) = (x, src)"

definition count_packet :: "timeref_stats \<Rightarrow> timeref_stats" where
  "count_packet stats = stats\<lparr>ref_count := ref_count stats + 1\<rparr>"

fun live_attempts ::
    "(sockaddr_storage \<Rightarrow> string) \<Rightarrow> nat \<Rightarrow> int \<Rightarrow> stamp_queue \<Rightarrow> timeref_stats \<Rightarrow> packet_source
      \<Rightarrow> (int \<times> stamp_queue \<times> timeref_stats \<times> packet_source) option" where
  "live_attempts ntop 0 err q stats src = Some (err, q, stats, src)"
| "live_attempts ntop (Suc attempt) err q stats src =
     (case get_packet src of
        (Inl e, src) \<Rightarrow> Some (e, q, stats, src)
      | (Inr packet, src) \<Rightarrow>
          (case update_stamp_queue ntop q packet (count_packet stats) of
             None \<Rightarrow> None
           | Some (err, q, stats) \<Rightarrow>
               if err = -1 \<or> err = 0 then Some (err, q, stats, src)
               else live_attempts ntop attempt err q stats src))"

datatype run_mode = RADCLOCK_SYNC_NOTSET | RADCLOCK_SYNC_DEAD | RADCLOCK_SYNC_LIVE

text \<open>The part after the switch: a full stamp is taken from the queue unless the code forbids it.\<close>

definition take_stamp ::
    "(stamp_t \<Rightarrow> stamp_t) \<Rightarrow> int \<times> stamp_queue \<times> timeref_stats \<times> packet_source
      \<Rightarrow> int \<times> stamp_t option \<times> stamp_queue \<times> timeref_stats \<times> packet_source" where
  "take_stamp freed r =
     (case r of (err, q, stats, src) \<Rightarrow>
        if err = -1 then (-1, None, q, stats, src)
        else if err = 1 then (1, None, q, stats, src)
        else (case get_fullstamp_from_queue_andclean freed q of
                (None, q) \<Rightarrow> (1, None, q, stats, src)
              | (Some st, q) \<Rightarrow> (0, Some st, q, stats, src)))"

definition get_network_stamp ::
    "(stamp_t \<Rightarrow> stamp_t) \<Rightarrow> (sockaddr_storage \<Rightarrow> string) \<Rightarrow> run_mode \<Rightarrow> stamp_queue \<Rightarrow> timeref_stats
      \<Rightarrow> packet_source \<Rightarrow> (int \<times> stamp_t option \<times> stamp_queue \<times> timeref_stats \<times> packet_source) option" where
  "get_network_stamp freed ntop mode q stats src =
     (case mode of
        RADCLOCK_SYNC_DEAD \<Rightarrow>
          (case get_packet src of
             (Inl e, src) \<Rightarrow> Some (-1, None, q, stats, src)
           | (Inr packet, src) \<Rightarrow>
               map_option (\<lambda>(err, q, stats). take_stamp freed (err, q, stats, src))
                 (update_stamp_queue ntop q packet (count_packet stats)))
      | RADCLOCK_SYNC_LIVE \<Rightarrow>
          map_option (take_stamp freed) (live_attempts ntop 20 0 q stats src)
      | RADCLOCK_SYNC_NOTSET \<Rightarrow> Some (take_stamp freed (-1, q, stats, src)))"

section \<open>Where the packet lies\<close>

lemma sint_small:
  assumes "-(2 ^ 31) \<le> i" "i < 2 ^ 31"
  shows "sint (word_of_int i :: uint32) = i"
proof -
  have "sint (word_of_int i :: uint32) = (i + 2 ^ 31) mod 2 ^ 32 - 2 ^ 31"
    by (simp add: sint_sbintrunc' signed_take_bit_eq_take_bit_shift take_bit_eq_mod)
  then show ?thesis using assms by simp
qed

lemma int_minus_small: "-(2 ^ 31) \<le> r - int k \<Longrightarrow> r - int k < 2 ^ 31 \<Longrightarrow> int_minus r k = r - int k"
  unfolding int_minus_def by (rule sint_small)

lemma caplen_sint:
  assumes "unat (w :: uint32) < 2 ^ 31"
  shows "sint w = int (unat w)"
proof -
  have "w = word_of_int (int (unat w))" by (simp add: of_nat_unat)
  moreover have "sint (word_of_int (int (unat w)) :: uint32) = int (unat w)"
    using assms by (intro sint_small) auto
  ultimately show ?thesis by metis
qed

lemma check_lengths_bound:
  assumes "check_lengths r" "-(2 ^ 20) \<le> r" "r < 2 ^ 31"
  shows "20 \<le> r"
  using assms by (simp add: check_lengths_def int_minus_small)

lemma less_u32_nonneg:
  assumes "0 \<le> r" "r < 2 ^ 32" "k < 2 ^ 32"
  shows "less_u32 r k \<longleftrightarrow> r < int k"
  using assms unfolding less_u32_def by (simp add: word_less_def uint_word_of_int unsigned_of_nat take_bit_eq_mod)

text \<open>
  An accepted packet was captured far enough: with a capture length below 2^31 the NTP
  header of an accepted IPv6 packet, and of an accepted IPv4 packet without IP options,
  begins where the headers end and its first 12 bytes lie within the captured bytes. With
  options the parser only guarantees 56 captured bytes and the IP header itself.
\<close>

lemma ntp_payload_captured:
  assumes "get_valid_ntp_payload packet b = Ntp_at off src dst ttl"
    and "unat (pk_caplen packet) < 2 ^ 31"
  shows "(case src of
            Sin6 a \<Rightarrow> off = 64 \<and> off + 12 \<le> unat (pk_caplen packet)
          | Sin a \<Rightarrow> off = 24 + 4 * ip_hl b 16 \<and> 56 \<le> unat (pk_caplen packet)
                \<and> 16 + 4 * ip_hl b 16 \<le> unat (pk_caplen packet)
                \<and> (ip_hl b 16 = 5 \<longrightarrow> off + 12 \<le> unat (pk_caplen packet)))"
proof -
  define c where "c = int (unat (pk_caplen packet))"
  have c: "0 \<le> c" "c < 2 ^ 31" using assms(2) by (simp_all add: c_def)
  have s: "sint (pk_caplen packet) = c" using caplen_sint [OF assms(2)] by (simp add: c_def)
  have i16: "int_minus c 16 = c - 16" using c by (simp add: int_minus_small)
  have i20: "int_minus (c - 16) 20 = c - 36" "int_minus (c - 16) 40 = c - 56"
    using c by (simp_all add: int_minus_small)
  consider (v4) "load16n b 14 = 0x0800" "check_ipv4 b 16 (c - 16) = 0" "check_lengths (c - 36)"
      "off = 16 + ip_hl b 16 * 4 + 8" "src = Sin (load32 b 28)"
    | (v6) "check_lengths (c - 56)" "off = 64" "\<exists>a. src = Sin6 a"
    using assms(1) unfolding get_valid_ntp_payload_def parse_headers_def Let_def s i16
    by (auto simp: i20 split: if_splits)
  then show ?thesis
  proof cases
    case v4
    have "20 \<le> c - 36" using v4(3) c by (intro check_lengths_bound) auto
    moreover have "\<not> less_u32 (c - 16) (ip_hl b 16 * 4)" using v4(2) by (simp add: check_ipv4_def split: if_splits)
    moreover have "ip_hl b 16 * 4 < 2 ^ 32" by (simp add: ip_hl_def)
    ultimately have "int (ip_hl b 16 * 4) \<le> c - 16" using c by (subst (asm) less_u32_nonneg) auto
    then show ?thesis using v4 \<open>20 \<le> c - 36\<close> by (simp add: c_def)
  next
    case v6
    then have "20 \<le> c - 56" using c by (intro check_lengths_bound) auto
    then show ?thesis using v6 by (auto simp: c_def)
  qed
qed

text \<open>A captured IPv4 packet with \<open>hl\<close> 32 bit words of IP header and NTP bytes that are all \<open>x\<close>.\<close>

definition demo_bytes :: "uint8 \<Rightarrow> uint8 \<Rightarrow> nat \<Rightarrow> uint8" where
  "demo_bytes hl x k =
     (if k = 3 then 1 else if k = 13 then 9 else if k = 14 then 8 else if k = 16 then 64 + hl else if k = 25 then 17
      else if 44 \<le> k then x else 0)"

definition demo_packet :: "uint8 \<Rightarrow> uint8 \<Rightarrow> uint32 \<Rightarrow> radpcap_packet" where
  "demo_packet hl x caplen =
     \<lparr>pk_caplen = caplen, pk_ts_sec = 0, pk_ts_usec = 0, pk_payload = Some (demo_bytes hl x),
      pk_size = 24 + unat caplen, pk_type = DLT_LINUX_SLL, pk_ss_if = Sin 1\<rparr>"

text \<open>
  An IPv4 packet with IP options can be accepted with its whole NTP header outside the
  captured bytes: the parser finds the UDP header behind the options but deducts only the
  20 bytes of a bare IP header from the remaining length.
\<close>

lemma ntp_payload_beyond_capture:
  "\<exists>off src dst ttl. get_valid_ntp_payload (demo_packet 15 28 76) (demo_bytes 15 28) = Ntp_at off src dst ttl
     \<and> unat (pk_caplen (demo_packet 15 28 76)) < off"
proof -
  have hl: "ip_hl (demo_bytes 15 28) 16 = 15" by (simp add: ip_hl_def demo_bytes_def)
  have "get_valid_ntp_payload (demo_packet 15 28 76) (demo_bytes 15 28) = Ntp_at 84 (Sin 0) (Sin 0) 0"
    by (simp add: get_valid_ntp_payload_def parse_headers_def demo_packet_def load16n_def check_ipv4_def hl
        less_u32_def int_minus_def check_lengths_def less_size_t_def)
       (simp add: demo_bytes_def load32_def of_bytes_def)
  then show ?thesis by (simp add: demo_packet_def)
qed

section \<open>The stamps that come out\<close>

lemma insert_code: "fst (insertandmatch_halfstamp q h m) \<in> {-1, 0, 1}"
  by (auto simp: insertandmatch_halfstamp_def Let_def split: option.splits)

lemma by_mode_ok:
  assumes "update_queue_by_mode ntop q ss_if ntp vcount src dst ttl stats = (err, q', stats')" "stq_ok q"
  shows "stq_ok q' \<and> ref_count stats' = ref_count stats \<and> err \<in> {-1, 0, 1}"
  using assms insert_ok [OF assms(2), of "client_halfstamp ntop ntp vcount dst" MODE_CLIENT]
    insert_ok [OF assms(2), of "server_halfstamp ntp vcount ttl" MODE_SERVER]
    insert_code [of q "client_halfstamp ntop ntp vcount dst" MODE_CLIENT]
    insert_code [of q "server_halfstamp ntp vcount ttl" MODE_SERVER]
  by (auto simp: update_queue_by_mode_def Let_def push_client_halfstamp_def push_server_halfstamp_def
      bad_packet_server_def split: if_splits prod.splits)

lemma update_ok:
  assumes "update_stamp_queue ntop q packet stats = Some (err, q', stats')" "stq_ok q"
  shows "stq_ok q' \<and> ref_count stats' = ref_count stats \<and> err \<in> {-1, 0, 1}"
  using assms by (auto simp: update_stamp_queue_def split: option.splits payload.splits dest: by_mode_ok)

definition packets_taken :: "packet_source \<Rightarrow> packet_source \<Rightarrow> nat \<Rightarrow> bool" where
  "packets_taken src src' n \<longleftrightarrow> (\<exists>used. src = used @ src' \<and> n = length (filter (\<lambda>x. \<not> isl x) used) \<and> length used \<le> n + 1)"

lemma packets_taken_Cons: "packets_taken src src' n \<Longrightarrow> packets_taken (Inr p # src) src' (Suc n)"
  unfolding packets_taken_def by (elim exE) (rule_tac x = "Inr p # used" in exI, simp)

lemma live_ok:
  "live_attempts ntop k err q stats src = Some (err', q', stats', src') \<Longrightarrow> stq_ok q \<Longrightarrow>
   stq_ok q' \<and> (\<exists>n\<le>k. packets_taken src src' n \<and> ref_count stats' = ref_count stats + of_nat n)"
proof (induction k arbitrary: err q stats src)
  case 0
  then show ?case by (auto simp: packets_taken_def)
next
  case (Suc k)
  show ?case
  proof (cases "get_packet src")
    case (Pair x src1)
    show ?thesis
    proof (cases x)
      case (Inl e)
      then have "src' = src1 \<and> q' = q \<and> stats' = stats" using Suc.prems(1) Pair by simp
      moreover have "packets_taken src src1 0"
        using Pair Inl by (cases src) (auto simp: packets_taken_def)
      ultimately show ?thesis using Suc.prems(2) by auto
    next
      case (Inr p)
      then have src: "src = Inr p # src1" using Pair by (cases src) auto
      from Suc.prems(1) Pair Inr obtain err1 q1 stats1 where
        up: "update_stamp_queue ntop q p (count_packet stats) = Some (err1, q1, stats1)"
        and rest: "(if err1 = -1 \<or> err1 = 0 then Some (err1, q1, stats1, src1)
            else live_attempts ntop k err1 q1 stats1 src1) = Some (err', q', stats', src')"
        by (auto split: option.splits)
      have u: "stq_ok q1" "ref_count stats1 = ref_count stats + 1"
        using update_ok [OF up Suc.prems(2)] by (auto simp: count_packet_def)
      show ?thesis
      proof (cases "err1 = -1 \<or> err1 = 0")
        case True
        then have "q' = q1 \<and> stats' = stats1 \<and> src' = src1" using rest by auto
        moreover have "packets_taken src src1 1"
          using src unfolding packets_taken_def by (intro exI [of _ "[Inr p]"]) simp
        ultimately show ?thesis using u by (auto intro!: exI [of _ 1])
      next
        case False
        then obtain n where n: "stq_ok q'" "n \<le> k" "packets_taken src1 src' n"
          "ref_count stats' = ref_count stats1 + of_nat n"
          using Suc.IH [of err1 q1 stats1 src1] u(1) rest by auto
        then have "packets_taken src src' (Suc n)" using src by (simp add: packets_taken_Cons)
        then show ?thesis using n u by (intro conjI exI [of _ "Suc n"]) auto
      qed
    qed
  qed
qed

lemma live_first:
  assumes "update_stamp_queue ntop q p (count_packet stats) = Some (err, q', stats')" "err = -1 \<or> err = 0" "0 < k"
  shows "live_attempts ntop k e q stats (Inr p # rest) = Some (err, q', stats', rest)"
  using assms by (cases k) auto

lemma get_fullstamp_ok:
  assumes "stq_ok q"
  shows "stq_ok (snd (get_fullstamp_from_queue_andclean freed q))"
    and "fst (get_fullstamp_from_queue_andclean freed q) = Some st \<Longrightarrow> is_full st"
  using assms
  by (cases rule: get_fullstamp_cases [where freed = freed and q = q]; auto intro: extracted_ok)+

lemma take_stamp_ok:
  assumes "take_stamp freed (err, q, stats, src) = (code, st, q', stats', src')" "stq_ok q"
  shows "stq_ok q' \<and> stats' = stats \<and> src' = src \<and> (code = 0 \<longleftrightarrow> st \<noteq> None) \<and> (\<forall>x. st = Some x \<longrightarrow> is_full x)"
  using assms get_fullstamp_ok [OF assms(2), of freed]
  by (auto simp: take_stamp_def split: if_splits prod.splits option.splits)

text \<open>
  One call for a stamp in live mode takes at most 20 packets from the capture and counts
  each of them once; it reports success exactly when it returns a stamp, the stamp has both
  its halves, and the queue is left well-formed.
\<close>

lemma get_network_stamp_sound:
  assumes "get_network_stamp freed ntop RADCLOCK_SYNC_LIVE q stats src = Some (code, st, q', stats', src')"
    and "stq_ok q"
  shows "stq_ok q' \<and> (code = 0 \<longleftrightarrow> st \<noteq> None) \<and> (\<forall>x. st = Some x \<longrightarrow> is_full x)
     \<and> (\<exists>n\<le>20. packets_taken src src' n \<and> ref_count stats' = ref_count stats + of_nat n)"
proof -
  obtain err q1 stats1 src1 where l: "live_attempts ntop 20 0 q stats src = Some (err, q1, stats1, src1)"
    and t: "take_stamp freed (err, q1, stats1, src1) = (code, st, q', stats', src')"
    using assms(1) by (auto simp: get_network_stamp_def)
  show ?thesis using live_ok [OF l assms(2)] take_stamp_ok [OF t] by auto
qed

text \<open>
  C22: A reply is turned into a stamp by the call that reads it: with a request in the queue,
  if the next captured packet is an acceptable server reply that echoes the request's
  transmit timestamp, \<open>get_network_stamp\<close> returns at once with a full stamp at least as old
  as the request.
\<close>

theorem reply_yields_stamp:
  assumes ok: "stq_ok q" and i: "i < length (q_elts q)" "c_half (q_elts q ! i)"
    and pkt: "get_vcount p = Some v" "v \<noteq> 0" "pk_payload p = Some b"
      "get_valid_ntp_payload p b = Ntp_at off src dst ttl"
    and reply: "PKT_MODE (np_li_vn_mode (ntp_pkt_at b off)) = MODE_SERVER"
      "fst (bad_packet_server (ntp_pkt_at b off) (pk_ss_if p) src (count_packet stats)) = 0"
      "fp_id (np_org (ntp_pkt_at b off)) = st_id (q_elts q ! i)"
  shows "\<exists>st q' stats'. get_network_stamp freed ntop RADCLOCK_SYNC_LIVE q stats (Inr p # rest)
           = Some (0, Some st, q', stats', rest) \<and> is_full st \<and> Ta (BST st) \<le> Ta (BST (q_elts q ! i))"
proof -
  let ?h = "server_halfstamp (ntp_pkt_at b off) v ttl" and ?x = "q_elts q ! i"
  let ?y = "fill_halfstamp MODE_SERVER ?x ?h"
  let ?q = "q\<lparr>q_elts := (q_elts q)[i := ?y]\<rparr>"
  have id: "st_id ?h = st_id ?x" using reply(3) by (simp add: server_halfstamp_def ntp_stamp_def)
  have sc: "scan_id (st_id ?h) (q_elts q) = Some i"
    using scan_id_unique [of "q_elts q" i] ok i(1) id by (simp add: stq_ok_def)
  have "\<not> is_duplicate MODE_SERVER ?x" using i(2) by (simp add: is_duplicate_def c_half_def)
  then have ins: "insertandmatch_halfstamp q ?h MODE_SERVER = (0, ?q)"
    using sc by (simp add: insertandmatch_halfstamp_def Let_def)
  obtain stats1 where bad: "bad_packet_server (ntp_pkt_at b off) (pk_ss_if p) src (count_packet stats) = (0, stats1)"
    using reply(2) by (metis prod.collapse)
  have "update_stamp_queue ntop q p (count_packet stats) = Some (0, ?q, stats1)"
    using pkt reply(1) bad ins
    by (simp add: update_stamp_queue_def update_queue_by_mode_def Let_def push_server_halfstamp_def)
  then have live: "live_attempts ntop 20 0 q stats (Inr p # rest) = Some (0, ?q, stats1, rest)"
    by (rule live_first) simp_all
  have y: "is_full ?y" "Ta (BST ?y) = Ta (BST ?x)"
    using i(2) pkt(2) by (simp_all add: is_full_def c_half_def fill_halfstamp_def server_halfstamp_def)
  have okq: "stq_ok ?q" using insert_ok [OF ok, of ?h MODE_SERVER] ins by simp
  have yq: "?y \<in> set (q_elts ?q)" using i(1) by (simp add: set_update_memI)
  from okq show ?thesis
  proof (cases rule: get_fullstamp_cases [where freed = freed])
    case none
    then show ?thesis using y(1) yq by blast
  next
    case (some j)
    then show ?thesis using live y yq
      by (auto simp: get_network_stamp_def take_stamp_def)
  qed
qed

lemma demo_reply:
  "get_vcount (demo_packet 5 28 92) = Some 9"
  "get_valid_ntp_payload (demo_packet 5 28 92) (demo_bytes 5 28) = Ntp_at 44 (Sin 0) (Sin 0) 0"
proof -
  have hl: "ip_hl (demo_bytes 5 28) 16 = 5" by (simp add: ip_hl_def demo_bytes_def)
  have "load64 (demo_bytes 5 28) 6 = 0x0900000000000000"
    by (simp add: load64_def load32_def demo_bytes_def of_bytes_def)
  moreover have "ntohll 0x0900000000000000 = 9"
    by (simp add: ntohll_def ntohl_def byte_of_def of_bytes_def)
  ultimately show "get_vcount (demo_packet 5 28 92) = Some 9"
    by (simp add: get_vcount_def get_vcount_from_sll_def demo_packet_def)
  show "get_valid_ntp_payload (demo_packet 5 28 92) (demo_bytes 5 28) = Ntp_at 44 (Sin 0) (Sin 0) 0"
    by (simp add: get_valid_ntp_payload_def parse_headers_def demo_packet_def load16n_def check_ipv4_def hl
        less_u32_def int_minus_def check_lengths_def less_size_t_def)
       (simp add: demo_bytes_def load32_def of_bytes_def)
qed

theorem reply_yields_stamp_witness:
  "\<exists>st q' stats'. get_network_stamp id (\<lambda>_. []) RADCLOCK_SYNC_LIVE
      \<lparr>q_elts = [demo_stamp 0x1c1c1c1c1c1c1c1c 5 0], q_size = 1\<rparr> \<lparr>ref_count = 0, badqual_count = 0\<rparr>
      [Inr (demo_packet 5 28 92)] = Some (0, Some st, q', stats', []) \<and> is_full st"
proof -
  let ?b = "demo_bytes 5 28" and ?q = "\<lparr>q_elts = [demo_stamp 0x1c1c1c1c1c1c1c1c 5 0], q_size = 1\<rparr>"
  have ok: "stq_ok ?q" by (simp add: stq_ok_def)
  have c: "c_half (q_elts ?q ! 0)" by (simp add: c_half_def demo_stamp_def)
  have m: "np_li_vn_mode (ntp_pkt_at ?b 44) = 28" "np_stratum (ntp_pkt_at ?b 44) = 28"
    "np_org (ntp_pkt_at ?b 44) = \<lparr>l_int = 0x1c1c1c1c, l_fra = 0x1c1c1c1c\<rparr>"
    by (simp_all add: ntp_pkt_at_def demo_bytes_def load_fp_def load32_def of_bytes_def)
  have mode: "PKT_MODE (np_li_vn_mode (ntp_pkt_at ?b 44)) = MODE_SERVER" by (simp add: m PKT_MODE_def)
  have fine: "fst (bad_packet_server (ntp_pkt_at ?b 44) (pk_ss_if (demo_packet 5 28 92)) (Sin 0) s) = 0" for s
    by (simp add: bad_packet_server_def m demo_packet_def PKT_LEAP_def)
  have idf: "fp_id (np_org (ntp_pkt_at ?b 44)) = st_id (q_elts ?q ! 0)"
    by (simp add: m fp_id_def ntohl_def byte_of_def of_bytes_def demo_stamp_def ntp_stamp_def)
  have "0 < length (q_elts ?q)" "pk_payload (demo_packet 5 28 92) = Some ?b" "(9 :: 64 word) \<noteq> 0"
    by (simp_all add: demo_packet_def)
  from reply_yields_stamp [OF ok this(1) c demo_reply(1) this(3,2) demo_reply(2) mode fine idf]
  show ?thesis by blast
qed

end
