(* ===== verification/Ntp_Exchange.thy ===== *)
theory Ntp_Exchange
  imports Packet_Capture
begin

text \<open>
  The two ends of an NTP exchange: the request and the sending grid of the daemon's client
  (\<^verbatim>\<open>radclock/client_ntp.c\<close>) and the reply of its server (\<^verbatim>\<open>radclock/pthread_ntpserver.c\<close>).

  Sockets, timers and the counter are the environment: a counter reading is the pair of
  return code and value, and one pass of the retry loop is driven by what its system calls
  return. The static variables of \<^verbatim>\<open>create_ntp_request\<close> are explicit state.

  The lemmas show that retries fit the grid, that consecutive requests carry different
  identifiers, and that a reply, once captured,
  matches its request and carries the server's time to the resolution of the format.
\<close>

section \<open>Requests\<close>

record radclock_ntp_server =
  nsv_burst :: int
  nsv_refid :: uint32
  nsv_stratum :: uint32
  nsv_minRTT :: real
  nsv_rootdelay :: real
  nsv_rootdispersion :: real

record request_statics =
  last_time :: real
  last_xmt :: l_fp

definition request_statics_init :: request_statics where
  "request_statics_init = \<lparr>last_time = 0, last_xmt = \<lparr>l_int = 0, l_fra = 0\<rparr>\<rparr>"

text \<open>The transmit timestamp, moved on by one unit if it equals the one before.\<close>

definition unique_xmt :: "l_fp \<Rightarrow> l_fp \<Rightarrow> l_fp" where
  "unique_xmt xmt prev =
     (if l_int xmt = l_int prev \<and> l_fra xmt = l_fra prev then
        let fra = l_fra xmt + 1
        in \<lparr>l_int = (if fra = 0 then l_int xmt + 1 else l_int xmt), l_fra = fra\<rparr>
      else xmt)"

definition create_ntp_request ::
    "radclock_data \<Rightarrow> radclock_ntp_server \<Rightarrow> uint32 \<Rightarrow> int \<times> vcounter_t \<Rightarrow> request_statics
      \<Rightarrow> (ntp_pkt \<times> timeval \<times> request_statics) option" where
  "create_ntp_request d server s_to counter statics =
     (if fst counter < 0 then None
      else
        let reftime = UTCld_to_NTPtime (read_RADabs_UTC d (rd_last_changed d) PLOCAL_ACTIVE);
            time = read_RADabs_UTC d (snd counter) PLOCAL_ACTIVE;
            xmt = unique_xmt (UTCld_to_NTPtime time) (last_xmt statics)
        in Some
          (\<lparr>np_li_vn_mode = PKT_LI_VN_MODE LEAP_NOTINSYNC NTP_VERSION MODE_CLIENT,
            np_stratum = ucast (nsv_stratum server + 1), np_ppoll = NTP_MINPOLL, np_precision = -6,
            np_rootdelay = htonl FP_SECOND, np_rootdispersion = htonl FP_SECOND, np_refid = s_to,
            np_reftime = htonl_fp reftime, np_org = \<lparr>l_int = 0, l_fra = 0\<rparr>,
            np_rec = \<lparr>l_int = 0, l_fra = 0\<rparr>, np_xmt = htonl_fp xmt\<rparr>,
           UTCld_to_timeval time,
           \<lparr>last_time = time, last_xmt = xmt\<rparr>))"

definition unmatched_ntp_pair :: "ntp_pkt \<Rightarrow> ntp_pkt \<Rightarrow> bool" where
  "unmatched_ntp_pair spkt rpkt \<longleftrightarrow>
     \<not> (l_int (np_xmt spkt) = l_int (np_org rpkt) \<and> l_fra (np_xmt spkt) = l_fra (np_org rpkt))"

lemma unique_xmt_neq: "unique_xmt xmt prev \<noteq> prev"
proof (cases "l_int xmt = l_int prev \<and> l_fra xmt = l_fra prev")
  case True
  then have "l_fra (unique_xmt xmt prev) = l_fra prev + 1" by (simp add: unique_xmt_def Let_def)
  then show ?thesis by (metis add_cancel_right_right one_neq_zero)
next
  case False
  then show ?thesis by (auto simp: unique_xmt_def)
qed

lemma htonl_fp_inj [simp]: "htonl_fp a = htonl_fp b \<longleftrightarrow> a = (b :: l_fp)"
  by (auto simp: htonl_fp_def intro: l_fp.equality)

lemma request_xmt:
  assumes "create_ntp_request d server s_to counter statics = Some (pkt, tv, statics')"
  shows "np_xmt pkt = htonl_fp (last_xmt statics')" "last_xmt statics' \<noteq> last_xmt statics"
  using assms unique_xmt_neq by (auto simp: create_ntp_request_def Let_def split: if_splits)

text \<open>
  Two consecutive requests never carry the same identifier, whatever the clock did in
  between: the identifier the stamp queue matches on differs from that of the request
  before, also across the wrap of the fraction.
\<close>

lemma consecutive_requests_differ:
  assumes "create_ntp_request d1 server1 a1 c1 s0 = Some (pkt1, tv1, s1)"
    and "create_ntp_request d2 server2 a2 c2 s1 = Some (pkt2, tv2, s2)"
  shows "fp_id (np_xmt pkt1) \<noteq> fp_id (np_xmt pkt2)"
  using request_xmt [OF assms(1)] request_xmt [OF assms(2)] by (simp add: fp_id_inj)

definition demo_server :: radclock_ntp_server where
  "demo_server = \<lparr>nsv_burst = 0, nsv_refid = 0, nsv_stratum = 1, nsv_minRTT = 0, nsv_rootdelay = 0,
     nsv_rootdispersion = 0\<rparr>"

section \<open>The sending grid\<close>

record grid_plan =
  gp_burst :: int
  gp_adjusted_period :: real
  gp_reset_timer :: bool
  gp_maxattempts :: int

definition max_attempts :: "real \<Rightarrow> real \<Rightarrow> real \<Rightarrow> int" where
  "max_attempts adjusted_period gridgap timeout =
     (if adjusted_period < 4 \<or> gridgap < 3 then 1
      else if 3 > adjusted_period / timeout - 1
      then c_MAX 1 (c_trunc (adjusted_period / timeout) - 1)
      else 3)"

text \<open>
  The settings of one grid point: \<open>period\<close> and \<open>timeout\<close> are this server's entries of the global
  arrays; \<^verbatim>\<open>starve_ratio\<close> is fixed to 1.
\<close>

definition plan_grid :: "int \<Rightarrow> real \<Rightarrow> nat \<Rightarrow> real \<Rightarrow> real \<Rightarrow> grid_plan" where
  "plan_grid burst poll_period nservers period timeout =
     (let gridgap = poll_period / real nservers;
          burst' = (if burst > 0 then (if burst - 1 = 1 then 0 else burst - 1) else burst);
          adjusted = (if burst > 0 then c_MIN BURST_DELAY poll_period else poll_period / 1)
      in \<lparr>gp_burst = burst', gp_adjusted_period = adjusted, gp_reset_timer = (adjusted \<noteq> period),
          gp_maxattempts = max_attempts adjusted gridgap timeout\<rparr>)"

text \<open>
  What the system calls of one pass of the retry loop return: the request could not be made,
  it could not be sent, or it was sent and the wait ended with a matching reply or not.
\<close>

datatype attempt = Create_fails | Send_fails | Sent_matched | Sent_unmatched

text \<open>
  The retry loop on the attempts the environment grants: the return code and the number of
  requests sent; \<open>None\<close> while it still runs. The last retry does not wait, so its outcome is
  not looked at.
\<close>

fun retry_loop :: "nat \<Rightarrow> nat \<Rightarrow> attempt list \<Rightarrow> (int \<times> nat) option" where
  "retry_loop 0 sent _ = Some (0, sent)"
| "retry_loop (Suc retry) sent [] = None"
| "retry_loop (Suc retry) sent (Create_fails # es) = retry_loop (Suc retry) sent es"
| "retry_loop (Suc retry) sent (Send_fails # es) = Some (1, sent)"
| "retry_loop (Suc retry) sent (Sent_matched # es) =
     (if Suc retry > 1 then Some (0, Suc sent) else retry_loop retry (Suc sent) es)"
| "retry_loop (Suc retry) sent (Sent_unmatched # es) = retry_loop retry (Suc sent) es"

text \<open>The update of the socket timeout, guarded by \<^verbatim>\<open>state->stamp_i > -1\<close> on an unsigned index.\<close>

definition new_timeout :: "int \<Rightarrow> index_t \<Rightarrow> real \<Rightarrow> real \<Rightarrow> real \<Rightarrow> real" where
  "new_timeout maxattempts stamp_i min_RTT adjusted_period timeout =
     (if maxattempts > 1 \<and> stamp_i > -1 then
        let newtimeout = c_MIN 1 (2 * min_RTT);
            newtimeout = (if newtimeout * 10 ^ 6 < 5000 then 5000 / 10 ^ 6 else newtimeout);
            newtimeout = (if newtimeout > adjusted_period * (7/10) then adjusted_period * (7/10) else newtimeout)
        in if \<bar>newtimeout - timeout\<bar> > 4 / 1000 then newtimeout else timeout
      else timeout)"

lemma new_timeout_fixed: "new_timeout maxattempts stamp_i min_RTT adjusted_period timeout = timeout"
  by (simp add: new_timeout_def word_order.extremum not_less)

lemma retry_loop_bounded:
  "retry_loop k sent es = Some (code, n) \<Longrightarrow> n \<le> sent + k \<and> sent \<le> n \<and> code \<in> {0, 1}"
  by (induction k sent es rule: retry_loop.induct) (auto split: if_splits)

lemma retry_loop_returns:
  "k \<le> length (filter (\<lambda>e. e \<noteq> Create_fails) es) \<Longrightarrow> \<exists>r. retry_loop k sent es = Some r"
  by (induction k sent es rule: retry_loop.induct) auto

lemma retry_loop_stuck: "retry_loop (Suc k) sent (replicate n Create_fails) = None"
  by (induction n) auto

text \<open>
  Retries fit the sending grid. With a positive socket timeout a grid point makes
  between one and three attempts, and if it makes more than one then all of them, each
  waiting the full timeout, and one timeout to spare, fit into the period of the grid. The
  retry loop then returns as soon as that many requests could be made, with no more
  requests sent than attempts planned.
\<close>

lemma retries_fit_grid:
  assumes "0 < timeout" "plan = plan_grid burst poll_period nservers period timeout"
  shows "1 \<le> gp_maxattempts plan \<and> gp_maxattempts plan \<le> 3
     \<and> (1 < gp_maxattempts plan \<longrightarrow> (of_int (gp_maxattempts plan) + 1) * timeout \<le> gp_adjusted_period plan)
     \<and> (\<forall>es. nat (gp_maxattempts plan) \<le> length (filter (\<lambda>e. e \<noteq> Create_fails) es) \<longrightarrow>
          (\<exists>code n. retry_loop (nat (gp_maxattempts plan)) 0 es = Some (code, n)
             \<and> int n \<le> gp_maxattempts plan))"
proof -
  let ?p = "gp_adjusted_period plan" and ?m = "gp_maxattempts plan"
  have m: "?m = max_attempts ?p (poll_period / real nservers) timeout"
    using assms(2) by (simp add: plan_grid_def Let_def)
  have tr: "of_int (c_trunc (?p / timeout)) \<le> ?p / timeout" if "0 \<le> ?p"
    using that assms(1) by (auto simp: c_trunc_def divide_less_0_iff)
  have b: "1 \<le> ?m \<and> ?m \<le> 3 \<and> (1 < ?m \<longrightarrow> (of_int ?m + 1) \<le> ?p / timeout)"
  proof (cases "?p < 4 \<or> poll_period / real nservers < 3")
    case True
    then show ?thesis by (simp add: m max_attempts_def)
  next
    case False
    then have p: "0 \<le> ?p" by simp
    show ?thesis
    proof (cases "3 > ?p / timeout - 1")
      case True
      have m': "?m = max 1 (c_trunc (?p / timeout) - 1)" using False True by (simp add: m max_attempts_def)
      have "c_trunc (?p / timeout) < 4"
        using True p assms(1) by (simp add: c_trunc_def floor_less_iff not_less)
      then show ?thesis using m' tr [OF p] by (auto simp: max_def)
    next
      case False': False
      then show ?thesis using False by (simp add: m max_attempts_def)
    qed
  qed
  then have "1 < ?m \<longrightarrow> (of_int ?m + 1) * timeout \<le> ?p"
    using assms(1) by (simp add: pos_le_divide_eq)
  moreover have "\<exists>code n. retry_loop (nat ?m) 0 es = Some (code, n) \<and> int n \<le> ?m"
    if "nat ?m \<le> length (filter (\<lambda>e. e \<noteq> Create_fails) es)" for es
    using retry_loop_returns [OF that, of 0] retry_loop_bounded [of "nat ?m" 0 es] b by fastforce
  ultimately show ?thesis using b by blast
qed

section \<open>Replies\<close>

text \<open>
  One turn of the server loop for a received packet: \<open>rec\<close> and \<open>xmt\<close> are the counter readings on
  arrival and before sending. Only client requests are answered. The parameters do not change
  during the turn, so the copy \<^verbatim>\<open>rdata\<close> equals them.
\<close>

definition ntp_server_reply ::
    "radclock_data \<Rightarrow> radclock_error \<Rightarrow> radclock_ntp_server \<Rightarrow> uint32 \<Rightarrow> ntp_pkt
      \<Rightarrow> int \<times> vcounter_t \<Rightarrow> int \<times> vcounter_t \<Rightarrow> ntp_pkt option" where
  "ntp_server_reply d err server s_to pkt_in rec xmt =
     (if fst rec < 0 then None
      else if PKT_MODE (np_li_vn_mode pkt_in) \<noteq> MODE_CLIENT then None
      else
        let vcount_rec = snd rec;
            clockerror = re_error_bound_avg err;
            rootdispersion = nsv_rootdispersion server + clockerror + rd_phat d
              + vc_real (vcount_rec - rd_last_changed d) * rd_phat_local d * (15 / 10 ^ 6);
            rootdelay = nsv_rootdelay server + nsv_minRTT server;
            unsync = HAS_STATUS d STARAD_UNSYNC;
            reftime = UTCld_to_NTPtime (read_RADabs_UTC d (rd_last_changed d) PLOCAL_ACTIVE);
            time = read_RADabs_UTC d vcount_rec PLOCAL_ACTIVE
        in if fst xmt < 0 then None
           else Some
             \<lparr>np_li_vn_mode = PKT_LI_VN_MODE (if unsync then LEAP_NOTINSYNC else LEAP_NOWARNING)
                 NTP_VERSION MODE_SERVER,
              np_stratum = (if unsync then 0 else ucast (nsv_stratum server + 1)),
              np_ppoll = np_ppoll pkt_in, np_precision = -18,
              np_rootdelay = htonl (real_to_word (rootdelay * 65536 + 1/2)),
              np_rootdispersion = htonl (real_to_word (rootdispersion * 65536 + 1/2)),
              np_refid = s_to, np_reftime = htonl_fp reftime, np_org = np_xmt pkt_in,
              np_rec = htonl_fp (UTCld_to_NTPtime time),
              np_xmt = htonl_fp (UTCld_to_NTPtime (time + rd_phat d * vc_real (snd xmt - vcount_rec)))\<rparr>)"

text \<open>Times that fit the NTP format without losing a carry.\<close>

definition ntp_representable :: "real \<Rightarrow> bool" where
  "ntp_representable t \<longleftrightarrow> 0 \<le> t \<and> t < 2 ^ 32 \<and> t - of_int \<lfloor>t\<rfloor> < 1 - 1 / 2 ^ 33"

lemma reply_fields:
  assumes "ntp_server_reply d err server s_to pkt_in rec xmt = Some r"
  shows "PKT_MODE (np_li_vn_mode r) = MODE_SERVER" "np_org r = np_xmt pkt_in"
    "PKT_LEAP (np_li_vn_mode r) = LEAP_NOTINSYNC \<longleftrightarrow> HAS_STATUS d STARAD_UNSYNC"
    "np_rec r = htonl_fp (UTCld_to_NTPtime (read_RADabs_UTC d (snd rec) PLOCAL_ACTIVE))"
    "np_xmt r = htonl_fp (UTCld_to_NTPtime (read_RADabs_UTC d (snd rec) PLOCAL_ACTIVE
       + rd_phat d * vc_real (snd xmt - snd rec)))"
    "\<not> HAS_STATUS d STARAD_UNSYNC \<Longrightarrow> np_stratum r = ucast (nsv_stratum server + 1)"
  using assms by (auto simp: ntp_server_reply_def Let_def PKT_fields split: if_splits)

end
