(* ===== verification/Server_Select.thy ===== *)
theory Server_Select
  imports Ntp_Exchange
begin

text \<open>
  The daemon's handle and the decisions of the processing thread that do not run the
  synchronisation algorithm (\<^verbatim>\<open>radclock/pthread_dataproc.c\<close>, \<^verbatim>\<open>radclock/radclock_daemon.h\<close>,
  \<^verbatim>\<open>radclock/radclock_main.c\<close>): the vetting of a stamp against the one before
  (\<open>insane_bidir_stamp\<close>, \<open>flag_serverchange\<close>), the server a stamp belongs to (\<open>serverIPtoID\<close>), the
  leap second state (\<open>manage_leapseconds\<close>) and the choice of the preferred clock
  (\<open>preferred_RADclock\<close>).

  The arrays of the handle, one element per server, are lists. Address conversion
  (\<^verbatim>\<open>inet_ntoa\<close>, \<^verbatim>\<open>inet_aton\<close>) is a parameter. The static variables of \<open>manage_leapseconds\<close> are
  explicit state.
\<close>

section \<open>The handle\<close>

record daemon_config = radclock_config +
  conf_server_ipc :: bool
  conf_server_vm_udp :: bool
  conf_server_xen :: bool
  conf_server_vmware :: bool
  conf_adjust_FFclock :: bool
  conf_adjust_FBclock :: bool

record leap_statics =
  postleap_freeze :: int
  leap_warningcount :: int
  leap_imminent :: int
  tleap :: real

definition leap_statics_init :: leap_statics where
  "leap_statics_init = \<lparr>postleap_freeze = 0, leap_warningcount = 0, leap_imminent = 0, tleap = 0\<rparr>"

record radclock_handle =
  h_conf :: daemon_config
  h_run_mode :: run_mode
  h_nservers :: nat
  h_pref_sID :: nat
  h_pref_date :: vcounter_t
  h_servertrust :: uint64
  h_s_to :: "uint32 list"
  h_ntp_server :: "radclock_ntp_server list"
  h_rad_data :: "radclock_data list"
  h_rad_error :: "radclock_error list"
  h_laststamp :: "stamp_t list"
  h_output :: "bidir_algooutput list"
  h_state :: "bidir_algostate list"

definition RAD_DATA :: "radclock_handle \<Rightarrow> radclock_data" where
  "RAD_DATA h = h_rad_data h ! h_pref_sID h"

definition RAD_ERROR :: "radclock_handle \<Rightarrow> radclock_error" where
  "RAD_ERROR h = h_rad_error h ! h_pref_sID h"

definition NTP_SERVER :: "radclock_handle \<Rightarrow> radclock_ntp_server" where
  "NTP_SERVER h = h_ntp_server h ! h_pref_sID h"

abbreviation DEFAULT_PHAT_INIT :: real where "DEFAULT_PHAT_INIT \<equiv> 1 / 10 ^ 9"

definition init_data :: radclock_data where
  "init_data = null_data\<lparr>rd_phat := DEFAULT_PHAT_INIT, rd_phat_local := DEFAULT_PHAT_INIT,
     rd_status := STARAD_UNSYNC OR STARAD_WARMUP\<rparr>"

definition init_server :: radclock_ntp_server where
  "init_server = \<lparr>nsv_burst = Ntp_Proto.NTP_BURST, nsv_refid = 0, nsv_stratum = 16, nsv_minRTT = 0,
     nsv_rootdelay = 0, nsv_rootdispersion = 0\<rparr>"

text \<open>
  A fresh handle (\<^verbatim>\<open>create_handle\<close>) with the arrays for \<open>ns\<close> servers (\<^verbatim>\<open>init_mRADclocks\<close>); the addresses
  are resolved later when running live and stay 0 otherwise.
\<close>

definition create_handle :: "daemon_config \<Rightarrow> radclock_handle" where
  "create_handle conf =
     \<lparr>h_conf = conf, h_run_mode = RADCLOCK_SYNC_NOTSET, h_nservers = 0, h_pref_sID = 0, h_pref_date = 0,
      h_servertrust = 0, h_s_to = [], h_ntp_server = [], h_rad_data = [], h_rad_error = [],
      h_laststamp = [], h_output = [], h_state = []\<rparr>"

definition init_mRADclocks :: "nat \<Rightarrow> radclock_handle \<Rightarrow> radclock_handle" where
  "init_mRADclocks ns h =
     h\<lparr>h_nservers := ns,
       h_rad_data := replicate ns init_data,
       h_rad_error := replicate ns \<lparr>re_error_bound = 0, re_error_bound_avg = 0, re_error_bound_std = 0, re_min_RTT = 0\<rparr>,
       h_s_to := replicate ns 0,
       h_ntp_server := replicate ns init_server,
       h_laststamp := replicate ns (blank_stamp 0),
       h_output := replicate ns null_output,
       h_state := replicate ns (null_state\<lparr>s_stamp_i := -1\<rparr>)\<rparr>"

text \<open>Every array has one element per server, and the preferred server is one of them.\<close>

definition handle_ok :: "radclock_handle \<Rightarrow> bool" where
  [rad_wf]: "handle_ok h \<longleftrightarrow> h_pref_sID h < h_nservers h
     \<and> length (h_s_to h) = h_nservers h \<and> length (h_ntp_server h) = h_nservers h
     \<and> length (h_rad_data h) = h_nservers h \<and> length (h_rad_error h) = h_nservers h
     \<and> length (h_laststamp h) = h_nservers h \<and> length (h_output h) = h_nservers h
     \<and> length (h_state h) = h_nservers h"

lemma handle_ok_init: "0 < ns \<Longrightarrow> handle_ok (init_mRADclocks ns (create_handle conf))"
  by (simp add: handle_ok_def init_mRADclocks_def create_handle_def)

section \<open>Vetting a stamp\<close>

definition flag_serverchange :: "stamp_t \<Rightarrow> stamp_t \<Rightarrow> int \<Rightarrow> int" where
  "flag_serverchange laststamp stamp qual_warning =
     (if st_ttl laststamp \<noteq> st_ttl stamp \<or> st_LI laststamp \<noteq> st_LI stamp
         \<or> st_refid laststamp \<noteq> st_refid stamp \<or> st_stratum laststamp \<noteq> st_stratum stamp
      then (if qual_warning = 0 then 1 else qual_warning)
      else qual_warning)"

text \<open>The test of the RTT is for stamps of NTP packets; it does not apply to those of the spy mode.\<close>

definition insane_bidir_stamp :: "stamp_t \<Rightarrow> stamp_t \<Rightarrow> bool" where
  "insane_bidir_stamp stamp laststamp =
     (if st_type stamp \<noteq> st_type laststamp then True
      else if stamp = laststamp then True
      else if Ta (BST stamp) = 0 \<or> Tb (BST stamp) = 0 \<or> Te (BST stamp) = 0 \<or> Tf (BST stamp) = 0 then True
      else if Ta (BST stamp) \<le> Ta (BST laststamp) then True
      else if Tf (BST stamp) < Ta (BST stamp) then True
      else if Te (BST stamp) < Tb (BST stamp) then True
      else if st_type stamp = STAMP_NTP \<and> Tf (BST stamp) - Ta (BST stamp) < 120 then True
      else False)"

text \<open>What the algorithm relies on: a causal stamp, with a possible RTT if it is one of NTP packets.\<close>

definition sane_stamp :: "stamp_t \<Rightarrow> bool" where
  "sane_stamp stamp \<longleftrightarrow>
     (let b = BST stamp
      in Ta b \<noteq> 0 \<and> Tb b \<noteq> 0 \<and> Te b \<noteq> 0 \<and> Tf b \<noteq> 0 \<and> Ta b \<le> Tf b \<and> Tb b \<le> Te b
         \<and> (st_type stamp = STAMP_NTP \<longrightarrow> 120 \<le> unat (Tf b) - unat (Ta b)))"

lemma not_insane:
  assumes "\<not> insane_bidir_stamp stamp laststamp"
  shows "sane_stamp stamp" "Ta (BST laststamp) < Ta (BST stamp)" "st_type stamp = st_type laststamp"
proof -
  let ?a = "Ta (BST stamp)" and ?f = "Tf (BST stamp)"
  have c: "?a \<noteq> 0" "Tb (BST stamp) \<noteq> 0" "Te (BST stamp) \<noteq> 0" "?f \<noteq> 0" "\<not> ?f < ?a"
    "\<not> Te (BST stamp) < Tb (BST stamp)" "st_type stamp = STAMP_NTP \<Longrightarrow> \<not> ?f - ?a < 120"
    using assms by (auto simp: insane_bidir_stamp_def split: if_splits)
  have "unat (?f - ?a) = unat ?f - unat ?a" using c(5) by (simp add: unat_sub not_less)
  moreover have "120 \<le> unat (?f - ?a)" if "st_type stamp = STAMP_NTP" using c(7) [OF that] by (simp add: word_less_nat_alt)
  ultimately show "sane_stamp stamp"
    using c by (auto simp: sane_stamp_def Let_def word_less_nat_alt word_le_nat_alt)
  show "Ta (BST laststamp) < ?a" "st_type stamp = st_type laststamp"
    using assms by (auto simp: insane_bidir_stamp_def split: if_splits)
qed

section \<open>The server of a stamp\<close>

fun serverIPtoID_loop ::
    "(uint32 \<Rightarrow> string) \<Rightarrow> (string \<Rightarrow> uint32 option) \<Rightarrow> run_mode \<Rightarrow> string \<Rightarrow> nat \<Rightarrow> uint32 list
      \<Rightarrow> nat option \<times> uint32 list" where
  "serverIPtoID_loop ntoa aton mode ip s [] = (None, [])"
| "serverIPtoID_loop ntoa aton mode ip s (a # as) =
     (let a' = (if mode = RADCLOCK_SYNC_DEAD \<and> a = 0
                then (case aton ip of Some x \<Rightarrow> x | None \<Rightarrow> a) else a)
      in if ip = ntoa a' then (Some s, a' # as)
         else let (r, as') = serverIPtoID_loop ntoa aton mode ip (Suc s) as in (r, a' # as'))"

text \<open>\<open>None\<close> stands for the return value -1.\<close>

definition serverIPtoID ::
    "(uint32 \<Rightarrow> string) \<Rightarrow> (string \<Rightarrow> uint32 option) \<Rightarrow> radclock_handle \<Rightarrow> string
      \<Rightarrow> nat option \<times> radclock_handle" where
  "serverIPtoID ntoa aton h ip =
     (let (r, as) = serverIPtoID_loop ntoa aton (h_run_mode h) ip 0 (h_s_to h)
      in (r, h\<lparr>h_s_to := as\<rparr>))"

lemma serverIPtoID_loop_ok:
  "serverIPtoID_loop ntoa aton mode ip s as = (r, as') \<Longrightarrow>
     length as' = length as \<and> (\<forall>i. r = Some i \<longrightarrow> s \<le> i \<and> i < s + length as \<and> ntoa (as' ! (i - s)) = ip)"
proof (induction ntoa aton mode ip s as arbitrary: r as' rule: serverIPtoID_loop.induct)
  case (2 ntoa aton mode ip s a as)
  let ?a = "if mode = RADCLOCK_SYNC_DEAD \<and> a = 0 then (case aton ip of Some x \<Rightarrow> x | None \<Rightarrow> a) else a"
  show ?case
  proof (cases "ip = ntoa ?a")
    case True
    then have "r = Some s" "as' = ?a # as" using "2.prems" by (simp_all add: Let_def)
    then show ?thesis using True by simp
  next
    case False
    obtain r1 as1 where r1: "serverIPtoID_loop ntoa aton mode ip (Suc s) as = (r1, as1)" by (metis surj_pair)
    then have "r = r1" "as' = ?a # as1" using "2.prems" False by (simp_all add: Let_def)
    moreover note "2.IH" [OF refl False r1]
    ultimately show ?thesis by (auto simp: nth_Cons' Suc_diff_le)
  qed
qed simp

text \<open>A server keeps its number: looking the address up again gives the same answer and changes nothing.\<close>

lemma serverIPtoID_loop_again:
  "serverIPtoID_loop ntoa aton mode ip s as = (Some i, as') \<Longrightarrow>
     (\<And>x. aton ip = Some x \<Longrightarrow> ntoa x = ip) \<Longrightarrow>
     serverIPtoID_loop ntoa aton mode ip s as' = (Some i, as')"
proof (induction ntoa aton mode ip s as arbitrary: i as' rule: serverIPtoID_loop.induct)
  case (2 ntoa aton mode ip s a as)
  let ?a = "if mode = RADCLOCK_SYNC_DEAD \<and> a = 0 then (case aton ip of Some x \<Rightarrow> x | None \<Rightarrow> a) else a"
  show ?case
  proof (cases "ip = ntoa ?a")
    case True
    then have "i = s" "as' = ?a # as" using "2.prems"(1) by (simp_all add: Let_def)
    moreover have "(if mode = RADCLOCK_SYNC_DEAD \<and> ?a = 0 then (case aton ip of Some x \<Rightarrow> x | None \<Rightarrow> ?a) else ?a) = ?a"
      by (auto split: option.splits)
    ultimately show ?thesis using True by (simp add: Let_def)
  next
    case False
    obtain r1 as1 where r1: "serverIPtoID_loop ntoa aton mode ip (Suc s) as = (r1, as1)" by (metis surj_pair)
    then have r: "r1 = Some i" "as' = ?a # as1" using "2.prems"(1) False by (simp_all add: Let_def)
    have "serverIPtoID_loop ntoa aton mode ip (Suc s) as1 = (Some i, as1)"
      using "2.IH" [OF refl False] r1 r(1) "2.prems"(2) by simp
    moreover have "(if mode = RADCLOCK_SYNC_DEAD \<and> ?a = 0 then (case aton ip of Some x \<Rightarrow> x | None \<Rightarrow> ?a) else ?a) = ?a"
      by (auto split: option.splits)
    ultimately show ?thesis using False r(2) by (simp add: Let_def)
  qed
qed simp

section \<open>Leap seconds\<close>

abbreviation LEAP_ADDSECOND :: int where "LEAP_ADDSECOND \<equiv> 1"
abbreviation LEAP_DELSECOND :: int where "LEAP_DELSECOND \<equiv> 2"

definition leap_detect :: "stamp_t \<Rightarrow> bidir_algooutput \<Rightarrow> leap_statics \<Rightarrow> bidir_algooutput \<times> leap_statics" where
  "leap_detect stamp output ls =
     (if postleap_freeze ls > 0 then (output, ls\<lparr>postleap_freeze := postleap_freeze ls - 1\<rparr>)
      else if leap_imminent ls \<noteq> 0 then
        let (output, ls) =
              (if st_LI stamp = LEAP_ADDSECOND then
                 (output\<lparr>out_leapsec_next := 1\<rparr>, ls\<lparr>leap_warningcount := leap_warningcount ls + 1\<rparr>)
               else if st_LI stamp = LEAP_DELSECOND then
                 (output\<lparr>out_leapsec_next := -1\<rparr>, ls\<lparr>leap_warningcount := leap_warningcount ls + 1\<rparr>)
               else if leap_warningcount ls > 0 then
                 (output, ls\<lparr>leap_warningcount := leap_warningcount ls - 1\<rparr>)
               else (output, ls))
        in if leap_warningcount ls > 10 \<and> leap_imminent ls \<noteq> 1 then
             (output, ls\<lparr>tleap := 1,
                leap_imminent := (if 1 - vc_real (Tf (BST stamp)) < 2 * 3600 then 1 else leap_imminent ls)\<rparr>)
           else (output, ls)
      else (output, ls))"

text \<open>\<open>vcount\<close> is the counter read in live mode.\<close>

definition manage_leapseconds ::
    "run_mode \<Rightarrow> vcounter_t \<Rightarrow> stamp_t \<Rightarrow> radclock_data \<Rightarrow> bidir_algooutput \<Rightarrow> leap_statics
      \<Rightarrow> bidir_algooutput \<times> leap_statics" where
  "manage_leapseconds mode vcount stamp rad_data output0 ls0 =
     (let (output, ls) = leap_detect stamp output0 ls0
      in if leap_imminent ls \<noteq> 0 then
           let now = (if mode = RADCLOCK_SYNC_LIVE then vcount else 0)
           in if Te (BST stamp) \<ge> tleap ls
                 \<or> (out_leapsec_expected output > 0 \<and> now \<ge> out_leapsec_expected output) then
                (output\<lparr>out_leapsec_total := out_leapsec_total output + out_leapsec_next output,
                        out_leapsec_expected := 0, out_leapsec_next := 0\<rparr>,
                 ls\<lparr>postleap_freeze := 1000, leap_warningcount := 0, leap_imminent := 0\<rparr>)
              else
                (output\<lparr>out_leapsec_expected := Tf (BST stamp)
                   + real_to_word ((tleap ls - read_RADabs_UTC rad_data (Tf (BST stamp)) True) / rd_phat_local rad_data)\<rparr>,
                 ls)
         else (output, ls))"

text \<open>
  From its initial statics the leap code never acts: the flag \<open>leap_imminent\<close> is only ever set
  under the condition that it is set already.
\<close>

lemma leap_code_inactive:
  assumes "leap_imminent ls = 0" "postleap_freeze ls = 0"
  shows "manage_leapseconds mode vcount stamp rad_data output ls = (output, ls)"
  using assms by (simp add: manage_leapseconds_def leap_detect_def)

text \<open>
  When a leap is imminent, UTC is continuous up to the leap itself: the total moves by the
  announced leap at the first stamp past it and the announcement is withdrawn.
\<close>

lemma leap_taken:
  assumes "leap_imminent ls = 1" "postleap_freeze ls = 1" "tleap ls \<le> Te (BST stamp)"
  shows "manage_leapseconds mode vcount stamp rad_data output ls =
    (output\<lparr>out_leapsec_total := out_leapsec_total output + out_leapsec_next output,
            out_leapsec_expected := 0, out_leapsec_next := 0\<rparr>,
     ls\<lparr>postleap_freeze := 1000, leap_warningcount := 0, leap_imminent := 0\<rparr>)"
  using assms by (simp add: manage_leapseconds_def leap_detect_def)

section \<open>The preferred clock\<close>

abbreviation qual_win :: int where "qual_win \<equiv> 20"

definition to_cint :: "uint64 \<Rightarrow> int" where
  "to_cint w = sint (ucast w :: uint32)"

definition trusted :: "uint64 \<Rightarrow> nat \<Rightarrow> bool" where
  "trusted servertrust s \<longleftrightarrow> servertrust AND push_bit s 1 = 0"

text \<open>Servers with enough stamps behind their minimum RTT.\<close>

definition in_play :: "radclock_handle \<Rightarrow> nat \<Rightarrow> bool" where
  "in_play h s \<longleftrightarrow> \<not> to_cint (s_stamp_i (h_state h ! s) + 1) < qual_win"

definition drift_per_tick :: "radclock_handle \<Rightarrow> real" where
  "drift_per_tick h = rd_phat (RAD_DATA h) * mp_RateErrBOUND (conf_metaparam (h_conf h))"

definition inflated_penalty :: "radclock_handle \<Rightarrow> vcounter_t \<Rightarrow> nat \<Rightarrow> real" where
  "inflated_penalty h now s =
     out_pathpenalty (h_output h ! s) + vc_real (now - rd_last_changed (h_rad_data h ! s)) * drift_per_tick h"

record pref_scan =
  ps_min :: "(nat \<times> real) option"
  ps_curr :: real
  ps_stamps :: int
  ps_state :: "bidir_algostate list"

definition pref_step :: "radclock_handle \<Rightarrow> vcounter_t \<Rightarrow> pref_scan \<Rightarrow> nat \<Rightarrow> pref_scan" where
  "pref_step h now ps s =
     (if \<not> in_play h s then ps
      else
        let state = h_state h ! s;
            gap = now - rd_last_changed (h_rad_data h ! s);
            pp = inflated_penalty h now s;
            pref = (s = h_pref_sID h)
        in ps\<lparr>ps_stamps := to_cint (word_of_int (ps_stamps ps) + (s_stamp_i state + 1)),
             ps_state := (ps_state ps)[s := state\<lparr>s_rawstampgap := gap\<rparr>],
             ps_curr := (if pref then pp else ps_curr ps),
             ps_min :=
               (if pref \<or> trusted (h_servertrust h) s then
                  (case ps_min ps of
                     None \<Rightarrow> Some (s, pp)
                   | Some (s_min, pp_min) \<Rightarrow> if pp < pp_min then Some (s, pp) else Some (s_min, pp_min))
                else ps_min ps)\<rparr>)"

definition pref_scan_all :: "radclock_handle \<Rightarrow> vcounter_t \<Rightarrow> pref_scan" where
  "pref_scan_all h now =
     foldl (pref_step h now) \<lparr>ps_min = None, ps_curr = 0, ps_stamps = 0, ps_state = h_state h\<rparr> [0..<h_nservers h]"

text \<open>The anti-churn test; the index -1 of a server without stamps is the largest unsigned value.\<close>

definition blockupdate :: "radclock_handle \<Rightarrow> vcounter_t \<Rightarrow> bool" where
  "blockupdate h now \<longleftrightarrow>
     s_stamp_i (h_state h ! h_pref_sID h) \<ge> 20
     \<and> rd_phat (RAD_DATA h) * vc_real (now - h_pref_date h) < mp_path_scale (conf_metaparam (h_conf h))"

definition pref_choice :: "radclock_handle \<Rightarrow> vcounter_t \<Rightarrow> pref_scan \<Rightarrow> nat" where
  "pref_choice h now ps =
     (case ps_min ps of
        None \<Rightarrow> h_pref_sID h
      | Some (s_min, pp_min) \<Rightarrow>
          if ps_stamps ps < qual_win * int (h_nservers h) then h_pref_sID h
          else if s_min \<noteq> h_pref_sID h then
            if pp_min < 8/10 * ps_curr ps \<or> ps_curr ps = 0 then
              if blockupdate h now then h_pref_sID h else s_min
            else h_pref_sID h
          else s_min)"

definition preferred_RADclock :: "radclock_handle \<Rightarrow> vcounter_t \<Rightarrow> nat \<times> radclock_handle" where
  "preferred_RADclock h now =
     (let ps = pref_scan_all h now in (pref_choice h now ps, h\<lparr>h_state := ps_state ps\<rparr>))"

text \<open>Candidates, and what the scan knows after the first \<open>n\<close> servers.\<close>

definition candidate :: "radclock_handle \<Rightarrow> nat \<Rightarrow> bool" where
  "candidate h s \<longleftrightarrow> in_play h s \<and> (s = h_pref_sID h \<or> trusted (h_servertrust h) s)"

definition current_penalty :: "radclock_handle \<Rightarrow> vcounter_t \<Rightarrow> real" where
  "current_penalty h now = (if in_play h (h_pref_sID h) then inflated_penalty h now (h_pref_sID h) else 0)"

text \<open>The first smallest value of \<open>f\<close> among the candidates \<open>P\<close> below \<open>n\<close>.\<close>

definition first_min :: "(nat \<Rightarrow> bool) \<Rightarrow> (nat \<Rightarrow> real) \<Rightarrow> nat \<Rightarrow> (nat \<times> real) option \<Rightarrow> bool" where
  "first_min P f n r \<longleftrightarrow>
     (case r of
        None \<Rightarrow> (\<forall>s<n. \<not> P s)
      | Some (m, v) \<Rightarrow> m < n \<and> P m \<and> v = f m
          \<and> (\<forall>s<n. P s \<longrightarrow> v \<le> f s) \<and> (\<forall>s<m. P s \<longrightarrow> v < f s))"

lemma first_min_skip: "first_min P f n r \<Longrightarrow> \<not> P n \<Longrightarrow> first_min P f (Suc n) r"
  by (auto simp: first_min_def less_Suc_eq split: option.splits)

lemma first_min_None: "first_min P f n None \<Longrightarrow> P n \<Longrightarrow> first_min P f (Suc n) (Some (n, f n))"
  by (auto simp: first_min_def less_Suc_eq)

lemma first_min_better:
  "first_min P f n (Some (m, v)) \<Longrightarrow> P n \<Longrightarrow> f n < v \<Longrightarrow> first_min P f (Suc n) (Some (n, f n))"
  by (auto simp: first_min_def less_Suc_eq)

lemma first_min_keep:
  "first_min P f n (Some (m, v)) \<Longrightarrow> \<not> f n < v \<Longrightarrow> first_min P f (Suc n) (Some (m, v))"
  by (auto simp: first_min_def less_Suc_eq)

definition pref_inv :: "radclock_handle \<Rightarrow> vcounter_t \<Rightarrow> nat \<Rightarrow> pref_scan \<Rightarrow> bool" where
  "pref_inv h now n ps \<longleftrightarrow>
     first_min (candidate h) (inflated_penalty h now) n (ps_min ps)
     \<and> ps_curr ps = (if h_pref_sID h < n then current_penalty h now else 0)
     \<and> length (ps_state ps) = length (h_state h)
     \<and> (\<forall>s. \<exists>gap. ps_state ps ! s = (h_state h ! s)\<lparr>s_rawstampgap := gap\<rparr>)"

lemma update_pointwise:
  assumes "\<forall>s. \<exists>g. xs ! s = f g (ys ! s)"
  shows "\<forall>s. \<exists>g. xs[n := f g' (ys ! n)] ! s = f g (ys ! s)"
  using assms by (metis list_update_beyond not_less nth_list_update_eq nth_list_update_neq)

lemma first_min_0 [simp]: "first_min P f 0 None"
  by (simp add: first_min_def)

lemma same_gap: "\<exists>gap. st = st\<lparr>s_rawstampgap := gap\<rparr>" for st :: bidir_algostate
  by (rule exI [of _ "s_rawstampgap st"]) simp

lemma pref_inv_step:
  assumes "pref_inv h now n ps"
  shows "pref_inv h now (Suc n) (pref_step h now ps n)"
proof (cases "in_play h n")
  case False
  then have "\<not> candidate h n" by (simp add: candidate_def)
  then show ?thesis using assms False
    by (auto simp: pref_inv_def pref_step_def current_penalty_def less_Suc_eq first_min_skip)
next
  case True
  let ?ps = "pref_step h now ps n" and ?pp = "inflated_penalty h now n"
  have cand: "candidate h n \<longleftrightarrow> n = h_pref_sID h \<or> trusted (h_servertrust h) n"
    using True by (simp add: candidate_def)
  have min: "ps_min ?ps = (if candidate h n then
      (case ps_min ps of None \<Rightarrow> Some (n, ?pp) | Some (m, pp) \<Rightarrow> if ?pp < pp then Some (n, ?pp) else Some (m, pp))
      else ps_min ps)"
    using True cand by (simp add: pref_step_def Let_def)
  have curr: "ps_curr ?ps = (if n = h_pref_sID h then ?pp else ps_curr ps)"
    and state: "ps_state ?ps = (ps_state ps)[n := (h_state h ! n)\<lparr>s_rawstampgap := now - rd_last_changed (h_rad_data h ! n)\<rparr>]"
    using True by (simp_all add: pref_step_def Let_def)
  have "\<forall>s. \<exists>gap. ps_state ?ps ! s = (h_state h ! s)\<lparr>s_rawstampgap := gap\<rparr>"
    unfolding state
    by (rule update_pointwise [where f = "\<lambda>gap st. st\<lparr>s_rawstampgap := gap\<rparr>"])
      (use assms in \<open>unfold pref_inv_def, blast\<close>)
  moreover have "ps_curr ?ps = (if h_pref_sID h < Suc n then current_penalty h now else 0)"
    using assms True by (auto simp: curr pref_inv_def current_penalty_def)
  moreover have "first_min (candidate h) (inflated_penalty h now) (Suc n) (ps_min ?ps)"
  proof -
    have fm: "first_min (candidate h) (inflated_penalty h now) n (ps_min ps)"
      using assms by (simp add: pref_inv_def)
    show ?thesis
    proof (cases "candidate h n")
      case c: True
      show ?thesis
      proof (cases "ps_min ps")
        case None
        then show ?thesis using fm c by (simp add: min first_min_None)
      next
        case (Some mv)
        obtain m v where "mv = (m, v)" by (metis surj_pair)
        then show ?thesis using fm c Some
          by (simp add: min first_min_better first_min_keep)
      qed
    qed (use fm in \<open>simp add: min first_min_skip\<close>)
  qed
  ultimately show ?thesis using assms by (simp add: pref_inv_def state)
qed

lemma pref_scan_inv: "pref_inv h now (h_nservers h) (pref_scan_all h now)"
proof -
  have "pref_inv h now n (foldl (pref_step h now)
      \<lparr>ps_min = None, ps_curr = 0, ps_stamps = 0, ps_state = h_state h\<rparr> [0..<n])" for n
    by (induction n) (auto simp: pref_inv_step, simp add: pref_inv_def same_gap)
  then show ?thesis by (simp add: pref_scan_all_def)
qed

lemma pref_choice_cases:
  assumes "pref_choice h now ps \<noteq> h_pref_sID h"
  obtains m pp where "ps_min ps = Some (m, pp)" "pref_choice h now ps = m" "\<not> blockupdate h now"
    "pp < 8/10 * ps_curr ps \<or> ps_curr ps = 0"
  using assms by (auto simp: pref_choice_def split: option.splits if_splits)

lemma preferred_frame:
  assumes "preferred_RADclock h now = (s, h')"
  shows "h' = h\<lparr>h_state := h_state h'\<rparr>" "length (h_state h') = length (h_state h)"
    "\<exists>gap. h_state h' ! i = (h_state h ! i)\<lparr>s_rawstampgap := gap\<rparr>"
proof -
  have h': "h' = h\<lparr>h_state := ps_state (pref_scan_all h now)\<rparr>"
    using assms by (simp add: preferred_RADclock_def Let_def)
  then show "h' = h\<lparr>h_state := h_state h'\<rparr>" by simp
  show "length (h_state h') = length (h_state h)"
    "\<exists>gap. h_state h' ! i = (h_state h ! i)\<lparr>s_rawstampgap := gap\<rparr>"
    using pref_scan_inv [of h now] unfolding pref_inv_def h' by auto
qed

lemma preferred_in_range:
  assumes "preferred_RADclock h now = (s, h')" "h_pref_sID h < h_nservers h"
  shows "s < h_nservers h"
  using assms pref_scan_inv [of h now]
  by (auto simp: preferred_RADclock_def Let_def pref_choice_def pref_inv_def first_min_def
      split: option.splits if_splits)

text \<open>
  C16: The preferred clock is only ever replaced by the best one. If the choice differs from
  the current server then the new one is trusted and has at least 20 stamps, no other
  candidate has a smaller penalty (the algorithm's, inflated by the drift possible since the
  candidate's last stamp), it betters the current server by a fifth unless that one has no
  penalty yet, and the anti-churn time since the last change is over.
\<close>

theorem preferred_switch_justified:
  assumes "handle_ok h" "preferred_RADclock h now = (s, h')" "s \<noteq> h_pref_sID h"
  shows "s < h_nservers h \<and> in_play h s \<and> trusted (h_servertrust h) s
     \<and> (\<forall>t<h_nservers h. candidate h t \<longrightarrow> inflated_penalty h now s \<le> inflated_penalty h now t)
     \<and> (current_penalty h now = 0 \<or> inflated_penalty h now s < 8/10 * current_penalty h now)
     \<and> \<not> blockupdate h now"
proof -
  let ?ps = "pref_scan_all h now"
  have inv: "pref_inv h now (h_nservers h) ?ps" by (rule pref_scan_inv)
  have s: "s = pref_choice h now ?ps" using assms(2) by (simp add: preferred_RADclock_def Let_def)
  with assms(3) obtain m pp where m: "ps_min ?ps = Some (m, pp)" "s = m" "\<not> blockupdate h now"
    "pp < 8/10 * ps_curr ?ps \<or> ps_curr ?ps = 0"
    by (metis pref_choice_cases)
  moreover have "ps_curr ?ps = current_penalty h now"
    using inv assms(1) by (simp add: pref_inv_def handle_ok_def)
  moreover have "pp = inflated_penalty h now s" "s < h_nservers h" "candidate h s"
    "\<forall>t<h_nservers h. candidate h t \<longrightarrow> inflated_penalty h now s \<le> inflated_penalty h now t"
    using inv m(1,2) by (auto simp: pref_inv_def first_min_def)
  ultimately show ?thesis using assms(3) by (auto simp: candidate_def)
qed

definition demo_conf :: daemon_config where
  "demo_conf = \<lparr>conf_mask = 0, conf_poll_period = 16, conf_metaparam = excel_metaparam,
     conf_phat_init = DEFAULT_PHAT_INIT, conf_asym_host = 0, conf_asym_net = 0, conf_server_ipc = True,
     conf_server_vm_udp = False, conf_server_xen = False, conf_server_vmware = False,
     conf_adjust_FFclock = False, conf_adjust_FBclock = False\<rparr>"

text \<open>Two servers with 31 stamps each and penalties 10 and 1; server 0 is preferred.\<close>

definition demo_handle :: "vcounter_t \<Rightarrow> radclock_handle" where
  "demo_handle date = (init_mRADclocks 2 (create_handle demo_conf))
     \<lparr>h_run_mode := RADCLOCK_SYNC_LIVE, h_pref_date := date,
      h_rad_data := [null_data\<lparr>rd_phat := 1, rd_phat_local := 1, rd_last_changed := 100000\<rparr>,
                     null_data\<lparr>rd_phat := 1, rd_phat_local := 1, rd_last_changed := 100000\<rparr>],
      h_output := [null_output\<lparr>out_pathpenalty := 10\<rparr>, null_output\<lparr>out_pathpenalty := 1\<rparr>],
      h_state := [null_state\<lparr>s_stamp_i := 30\<rparr>, null_state\<lparr>s_stamp_i := 30\<rparr>]\<rparr>"

lemma demo_handle_fields:
  "h_nservers (demo_handle d) = 2" "h_pref_sID (demo_handle d) = 0" "h_pref_date (demo_handle d) = d"
  "h_servertrust (demo_handle d) = 0" "RAD_DATA (demo_handle d) = h_rad_data (demo_handle d) ! 0"
  "h_rad_data (demo_handle d) = [null_data\<lparr>rd_phat := 1, rd_phat_local := 1, rd_last_changed := 100000\<rparr>,
     null_data\<lparr>rd_phat := 1, rd_phat_local := 1, rd_last_changed := 100000\<rparr>]"
  "map s_stamp_i (h_state (demo_handle d)) = [30, 30]"
  "map out_pathpenalty (h_output (demo_handle d)) = [10, 1]"
  "conf_metaparam (h_conf (demo_handle d)) = excel_metaparam" "handle_ok (demo_handle d)"
  by (simp_all add: demo_handle_def init_mRADclocks_def create_handle_def demo_conf_def RAD_DATA_def handle_ok_def)

lemma demo_handle_play: "in_play (demo_handle d) s \<longleftrightarrow> True" if "s < 2"
proof -
  have "s_stamp_i (h_state (demo_handle d) ! s) = 30"
    using that by (auto simp: demo_handle_def less_2_cases_iff)
  then show ?thesis by (simp add: in_play_def to_cint_def)
qed

lemma demo_handle_penalty:
  "inflated_penalty (demo_handle d) 100000 0 = 10" "inflated_penalty (demo_handle d) 100000 1 = 1"
  by (simp_all add: inflated_penalty_def demo_handle_def init_mRADclocks_def)

lemma demo_handle_choice: "\<exists>h'. preferred_RADclock (demo_handle 0) 100000 = (1, h')"
proof -
  let ?h = "demo_handle 0"
  have st: "s_stamp_i (h_state ?h ! 0) = 30" "s_stamp_i (h_state ?h ! 1) = 30"
    by (simp_all add: demo_handle_def)
  have tr: "trusted (h_servertrust ?h) 1" by (simp add: demo_handle_fields trusted_def)
  have up: "[0..<h_nservers ?h] = [0, 1]" by (simp add: demo_handle_fields upt_rec)
  have "ps_min (pref_scan_all ?h 100000) = Some (1, 1) \<and> ps_curr (pref_scan_all ?h 100000) = 10
      \<and> ps_stamps (pref_scan_all ?h 100000) = 62"
    unfolding pref_scan_all_def up
    by (simp add: pref_step_def Let_def demo_handle_play demo_handle_penalty demo_handle_penalty(2) [unfolded One_nat_def]
        demo_handle_fields(2) tr [unfolded One_nat_def] st st(2) [unfolded One_nat_def] to_cint_def)
  moreover have "\<not> blockupdate ?h 100000"
    by (simp add: blockupdate_def demo_handle_fields excel_metaparam_def)
  ultimately show ?thesis
    by (simp add: preferred_RADclock_def Let_def pref_choice_def demo_handle_fields)
qed

theorem preferred_switch_justified_witness:
  "\<exists>h'. preferred_RADclock (demo_handle 0) 100000 = (1, h') \<and> trusted (h_servertrust (demo_handle 0)) 1
     \<and> \<not> blockupdate (demo_handle 0) 100000"
proof -
  obtain h' where h': "preferred_RADclock (demo_handle 0) 100000 = (1, h')" using demo_handle_choice by blast
  have "(1 :: nat) \<noteq> h_pref_sID (demo_handle 0)" by (simp add: demo_handle_fields)
  from preferred_switch_justified [OF demo_handle_fields(10) h' this] h' show ?thesis by blast
qed

text \<open>
  A first server that never answers is held on to. As long as the raw counter has not
  advanced by the anti-churn time since the daemon's epoch (five hours of a nominal 1 GHz
  counter), the initial preferred server stays preferred although it has no stamps, however
  good the others are: its index -1 passes the unsigned test for an adequate clock.
\<close>

lemma silent_first_server_kept:
  assumes "s_stamp_i (h_state h ! h_pref_sID h) = -1" "RAD_DATA h = init_data" "h_pref_date h = 0"
    and "mp_path_scale (conf_metaparam (h_conf h)) = 5 * 3600" "unat now < 5 * 3600 * 10 ^ 9"
  shows "fst (preferred_RADclock h now) = h_pref_sID h"
proof -
  have "real (unat now) < 5 * 3600 * 10 ^ 9" using assms(5) by (simp flip: of_nat_less_iff)
  then have "blockupdate h now"
    using assms by (simp add: blockupdate_def init_data_def)
  then show ?thesis
    by (metis (no_types) fst_conv pref_choice_cases preferred_RADclock_def)
qed

end
