(* ===== verification/Fb_Clock.thy ===== *)
theory Fb_Clock
  imports Server_Select
begin

text \<open>
  The discipline of the system's feedback clock by the preferred clock (\<open>read_clocks\<close> and
  \<open>update_FBclock\<close> of \<^verbatim>\<open>radclock/pthread_dataproc.c\<close>): a phase for the initial burst, one step of
  the clock, slewing until it is close, an estimation of its frequency, then the kernel's
  phase-locked loop.

  Reads of the counter and the system clock come from the environment, as do the answers of
  the kernel; the calls that set the clock are returned as a list. The kernel is one with
  nanosecond resolution (\<^verbatim>\<open>STA_NANO\<close>). The static variables are explicit state. Operations on
  \<^verbatim>\<open>double\<close> values and literals are rounded (\<open>dbl\<close>); the reading of the RADclock is exact.
\<close>

section \<open>Kernel calls\<close>

datatype tx_mode = MOD_OFFSET | MOD_FREQUENCY | MOD_MAXERROR | MOD_ESTERROR | MOD_STATUS | MOD_TIMECONST | MOD_NANO
datatype tx_flag = STA_PLL | STA_FLL | STA_UNSYNC

record timex =
  tx_modes :: "tx_mode list"
  tx_offset :: int
  tx_freq :: int
  tx_maxerror :: int
  tx_esterror :: int
  tx_status :: "tx_flag list"
  tx_constant :: int

definition tx_zero :: timex where
  "tx_zero = \<lparr>tx_modes = [], tx_offset = 0, tx_freq = 0, tx_maxerror = 0, tx_esterror = 0, tx_status = [],
     tx_constant = 0\<rparr>"

datatype kcall = Settimeofday timeval | Adjtime timeval | Ntp_adjtime timex

abbreviation KERN_RES :: real where "KERN_RES \<equiv> 10 ^ 9"
abbreviation TIME_CONSTANT :: int where "TIME_CONSTANT \<equiv> 6"
abbreviation TX_MODES :: "tx_mode list" where "TX_MODES \<equiv> [MOD_OFFSET, MOD_STATUS, MOD_NANO]"

text \<open>
  One run's environment: the counter read when the clock is set, the bracketed readings of
  the system clock in order, what the kernel fills into a query, and the return codes.
\<close>

record fb_env =
  fe_counter :: vcounter_t
  fe_bracket :: "nat \<Rightarrow> vcounter_t \<times> timeval \<times> vcounter_t"
  fe_query :: timex
  fe_ret :: "kcall \<Rightarrow> int"

record fb_statics =
  sys_init :: vcounter_t
  sys_init_tv :: timeval
  next_stamp :: int

section \<open>Reading both clocks\<close>

text \<open>Up to five attempts for a bracket under 5 microseconds; with a period of 0 the bound is infinite.\<close>

fun read_bracket ::
    "real \<Rightarrow> (nat \<Rightarrow> vcounter_t \<times> timeval \<times> vcounter_t) \<Rightarrow> nat \<Rightarrow> nat
      \<Rightarrow> (vcounter_t \<times> timeval \<times> vcounter_t) \<times> nat" where
  "read_bracket phat br 0 k = (br k, Suc k)"
| "read_bracket phat br (Suc i) k =
     (case br k of (before, sys_tv, after) \<Rightarrow>
        if phat = 0 \<or> dbl (vc_real (after - before)) < dbl (dbl (5 / 10 ^ 6) / phat) then (br k, Suc k)
        else read_bracket phat br i (Suc k))"

definition read_clocks ::
    "radclock_data \<Rightarrow> (nat \<Rightarrow> vcounter_t \<times> timeval \<times> vcounter_t) \<Rightarrow> nat
      \<Rightarrow> timeval \<times> timeval \<times> vcounter_t \<times> nat" where
  "read_clocks d br k =
     (case read_bracket (rd_phat d) br 4 k of ((before, sys_tv, after), k') \<Rightarrow>
        let counter = (before + after) div 2
        in (sys_tv, UTCld_to_timeval (read_RADabs_UTC d counter PLOCAL_ACTIVE), counter, k'))"

text \<open>The attempts end, and a wide bracket is only used if all five were wide.\<close>

lemma read_bracket_ok:
  "read_bracket phat br i k = (b, k') \<Longrightarrow>
     k < k' \<and> k' \<le> Suc (k + i) \<and> b = br (k' - 1)
     \<and> (k' < Suc (k + i) \<longrightarrow> phat = 0 \<or> dbl (vc_real (snd (snd b) - fst b)) < dbl (dbl (5 / 10 ^ 6) / phat))"
proof (induction phat br i k rule: read_bracket.induct)
  case (2 phat br i k)
  obtain before sys after where b: "br k = (before, sys, after)" by (metis surj_pair)
  show ?case
  proof (cases "phat = 0 \<or> dbl (vc_real (after - before)) < dbl (dbl (5 / 10 ^ 6) / phat)")
    case True
    then have "b = (before, sys, after)" "k' = Suc k" using "2.prems" b by simp_all
    then show ?thesis using True b by simp
  next
    case False
    then have "read_bracket phat br i (Suc k) = (b, k')" using "2.prems" b by auto
    from "2.IH" [OF b [symmetric] refl False this] show ?thesis by auto
  qed
qed auto

section \<open>The discipline\<close>

definition tv_offset :: "timeval \<Rightarrow> real" where
  "tv_offset tv = dbl (dbl (of_int (tv_sec tv)) + dbl (of_int (tv_usec tv) / 10 ^ 6))"

definition to_int32 :: "real \<Rightarrow> int" where
  "to_int32 x = sint (word_of_int (c_trunc x) :: uint32)"

definition tx_reset :: timex where
  "tx_reset = tx_zero\<lparr>tx_modes := [MOD_FREQUENCY, MOD_STATUS], tx_status := [STA_UNSYNC], tx_freq := 0\<rparr>"

definition set_status :: "(radclock_data \<Rightarrow> radclock_data) \<Rightarrow> radclock_handle \<Rightarrow> radclock_handle" where
  "set_status f h = h\<lparr>h_rad_data := (h_rad_data h)[h_pref_sID h := f (RAD_DATA h)]\<rparr>"

text \<open>Normal operation: \<open>tx\<close> is the structure as the code before left it, \<open>k\<close> counts the brackets used.\<close>

definition fb_pll ::
    "fb_env \<Rightarrow> radclock_handle \<Rightarrow> timex \<Rightarrow> nat \<Rightarrow> kcall \<times> radclock_handle" where
  "fb_pll env h tx k =
     (case read_clocks (RAD_DATA h) (fe_bracket env) k of (sys_tv, rad_tv, vcount, k) \<Rightarrow>
        let offset = tv_offset (subtract_tv rad_tv sys_tv);
            tx = tx\<lparr>tx_modes := TX_MODES @ [MOD_MAXERROR, MOD_ESTERROR, MOD_TIMECONST],
                   tx_offset := to_int32 (dbl (offset * KERN_RES)), tx_status := [STA_PLL],
                   tx_maxerror := c_trunc (dbl (dbl (dbl (nsv_rootdelay (NTP_SERVER h) / 2) + nsv_rootdispersion (NTP_SERVER h)) * 10 ^ 6)),
                   tx_esterror := c_trunc (dbl (rd_phat (RAD_DATA h) * 10 ^ 6))\<rparr>
        in if \<bar>offset\<bar> > dbl (100 / 10 ^ 6) then
             (Ntp_adjtime (tx\<lparr>tx_constant := TIME_CONSTANT - 2\<rparr>), set_status (\<lambda>d. DEL_STATUS d STARAD_SYSCLOCK) h)
           else
             (Ntp_adjtime (tx\<lparr>tx_constant := (if \<bar>offset\<bar> > dbl (40 / 10 ^ 6) then TIME_CONSTANT - 1 else TIME_CONSTANT)\<rparr>),
              set_status (\<lambda>d. ADD_STATUS d STARAD_SYSCLOCK) h))"

text \<open>The end of the frequency estimation: the skew in PPM, scaled by 2^16, and an offset to start from.\<close>

definition fb_freq_end :: "fb_env \<Rightarrow> radclock_data \<Rightarrow> fb_statics \<Rightarrow> kcall list \<times> nat" where
  "fb_freq_end env d fs =
     (case read_clocks d (fe_bracket env) 0 of (sys_tv, rad_tv, vcount, k) \<Rightarrow>
        let elapsed = tv_offset (subtract_tv sys_tv (sys_init_tv fs));
            freq = dbl (dbl (dbl (rd_phat d * dbl (dbl (vc_real (vcount - sys_init fs)) / elapsed)) - 1) * 10 ^ 6);
            offset = tv_offset (subtract_tv rad_tv sys_tv);
            tx = tx_zero\<lparr>tx_modes := TX_MODES @ [MOD_FREQUENCY], tx_offset := to_int32 (dbl (offset * KERN_RES)),
                        tx_status := [STA_PLL, STA_FLL], tx_freq := c_trunc (dbl (freq * 2 ^ 16))\<rparr>
        in case read_clocks d (fe_bracket env) k of (sys_tv, rad_tv, vcount, k) \<Rightarrow>
             ([Ntp_adjtime tx, Adjtime (subtract_tv rad_tv sys_tv), Ntp_adjtime tx_zero], k))"

definition fb_slew :: "fb_env \<Rightarrow> radclock_handle \<Rightarrow> int \<Rightarrow> fb_statics \<Rightarrow> kcall list \<times> fb_statics" where
  "fb_slew env h n_stamps fs =
     (case read_clocks (RAD_DATA h) (fe_bracket env) 0 of (sys_tv, rad_tv, vcount, k) \<Rightarrow>
        let delta = subtract_tv rad_tv sys_tv;
            calls = [Adjtime delta, Ntp_adjtime tx_zero]
        in if rd_phat_err (RAD_DATA h) < dbl (5 / 10 ^ 7) \<and> \<bar>tv_offset delta\<bar> < dbl (1 / 10 ^ 3) then
             (case read_clocks (RAD_DATA h) (fe_bracket env) k of (sys_tv, rad_tv, vcount, k) \<Rightarrow>
                (calls @ [Ntp_adjtime tx_reset],
                 \<lparr>sys_init = vcount, sys_init_tv = sys_tv,
                  next_stamp = 60 div conf_poll_period (h_conf h) + 1 + n_stamps\<rparr>))
           else (calls, fs))"

text \<open>Calls made, return code, and the new handle and statics.\<close>

definition update_FBclock ::
    "fb_env \<Rightarrow> radclock_handle \<Rightarrow> fb_statics \<Rightarrow> kcall list \<times> int \<times> radclock_handle \<times> fb_statics" where
  "update_FBclock env h fs =
     (let n_stamps = out_n_stamps (h_output h ! h_pref_sID h)
      in if n_stamps < 8 then ([], 0, h, fs\<lparr>sys_init := 0\<rparr>)
         else if n_stamps = 8 then
           let rad_tv = UTCld_to_timeval (read_RADabs_UTC (RAD_DATA h) (fe_counter env) PLOCAL_ACTIVE)
           in ([Settimeofday rad_tv, Ntp_adjtime tx_reset], fe_ret env (Ntp_adjtime tx_reset), h, fs)
         else if sys_init fs = 0 then
           let (calls, fs) = fb_slew env h n_stamps fs
           in (calls, fe_ret env (last calls), h, fs)
         else if n_stamps < next_stamp fs then ([], 0, h, fs)
         else if n_stamps = next_stamp fs then
           let (calls, k) = fb_freq_end env (RAD_DATA h) fs;
               (call, h) = fb_pll env h (fe_query env) k
           in (calls @ [call], fe_ret env call, h, fs)
         else
           let (call, h) = fb_pll env h tx_zero 0
           in ([call], fe_ret env call, h, fs))"

section \<open>What the discipline does\<close>

lemma to_int32_exact:
  assumes "\<bar>c_trunc x\<bar> < 2 ^ 31"
  shows "to_int32 x = c_trunc x"
  using assms by (simp add: to_int32_def sint_small)

text \<open>Near an integer the conversion gives that integer or the one before it on the way to zero.\<close>

lemma c_trunc_near:
  assumes "\<bar>x - of_int n\<bar> < 1"
  shows "\<bar>c_trunc x\<bar> \<le> \<bar>n\<bar>" "\<bar>n\<bar> - 1 \<le> \<bar>c_trunc x\<bar>" "0 \<le> c_trunc x * n"
proof -
  have 1: "of_int n - 1 < x" "x < of_int n + 1" using assms by linarith+
  have "n = 0 \<Longrightarrow> c_trunc x = 0" using 1 by (simp add: c_trunc_def ceiling_eq_iff floor_eq_iff)
  moreover have "c_trunc x \<in> {n - 1, n}" if "0 < n"
  proof -
    have "0 \<le> x" using 1(1) that by linarith
    moreover have "n - 1 \<le> \<lfloor>x\<rfloor>" "\<lfloor>x\<rfloor> < n + 1" using 1 by linarith+
    ultimately show ?thesis by (auto simp: c_trunc_def)
  qed
  moreover have "c_trunc x \<in> {n, n + 1}" if "n < 0"
  proof -
    have "x < 0" using 1(2) that by linarith
    moreover have "n - 1 < \<lceil>x\<rceil>" "\<lceil>x\<rceil> \<le> n + 1" using 1 by linarith+
    ultimately show ?thesis by (auto simp: c_trunc_def)
  qed
  ultimately have "c_trunc x = n \<or> 0 < n \<and> c_trunc x = n - 1 \<or> n < 0 \<and> c_trunc x = n + 1" by (cases n "0 :: int" rule: linorder_cases) auto
  then show "\<bar>c_trunc x\<bar> \<le> \<bar>n\<bar>" "\<bar>n\<bar> - 1 \<le> \<bar>c_trunc x\<bar>" "0 \<le> c_trunc x * n"
    by (auto simp: zero_le_mult_iff)
qed

text \<open>The difference of two timestamps: whole microseconds, and their rounding to a \<^verbatim>\<open>double\<close> of seconds.\<close>

lemma tv_offset_error:
  assumes "d = tv_mus a - tv_mus b" "\<bar>d\<bar> < 2 * 10 ^ 6"
  shows "\<bar>tv_offset (subtract_tv a b) - of_int d / 10 ^ 6\<bar> \<le> 5 / 2 ^ 53"
proof -
  let ?tv = "subtract_tv a b"
  define u where "u = real_of_int (tv_usec ?tv) / 10 ^ 6"
  define s where "s = real_of_int (tv_sec ?tv)"
  have d: "d = tv_sec ?tv * 10 ^ 6 + tv_usec ?tv" using subtract_tv_exact(1) [of a b] assms(1) by (simp add: tv_mus_def)
  have "\<bar>tv_sec ?tv\<bar> \<le> 2" using d assms(2) subtract_tv_exact(2,3) [of a b] by simp
  then have s: "dbl s = s" "\<bar>s\<bar> \<le> 2"
    unfolding s_def by (auto intro!: fl_exact is_float_of_int simp flip: of_int_abs)
  have u: "0 \<le> u" "u \<le> 1" using subtract_tv_exact(2,3) [of a b] by (simp_all add: u_def)
  have du: "real_of_int d / 10 ^ 6 = s + u" by (simp add: d s_def u_def add_divide_distrib)
  have "\<bar>u\<bar> \<le> 1" using u by simp
  then have 1: "\<bar>dbl u - u\<bar> \<le> 1 / 2 ^ 53" by (rule fl_error_le)
  have "1 / 2 ^ 53 \<le> (1 :: real)" by simp
  then have "\<bar>s + dbl u\<bar> \<le> 4" using 1 s(2) u by linarith
  then have "\<bar>dbl (s + dbl u) - (s + dbl u)\<bar> \<le> 4 / 2 ^ 53" by (rule fl_error_le)
  then show ?thesis
    using 1 unfolding du tv_offset_def s_def [symmetric] u_def [symmetric] s(1) by linarith
qed

lemma offset_nanoseconds:
  assumes "d = tv_mus a - tv_mus b" "\<bar>d\<bar> < 2 * 10 ^ 6"
  shows "\<bar>to_int32 (dbl (tv_offset (subtract_tv a b) * KERN_RES))\<bar> \<le> 1000 * \<bar>d\<bar>"
    "1000 * \<bar>d\<bar> - 1 \<le> \<bar>to_int32 (dbl (tv_offset (subtract_tv a b) * KERN_RES))\<bar>"
    "0 \<le> to_int32 (dbl (tv_offset (subtract_tv a b) * KERN_RES)) * d"
proof -
  define x where "x = tv_offset (subtract_tv a b)"
  have e: "\<bar>x - of_int d / 10 ^ 6\<bar> \<le> 5 / 2 ^ 53" unfolding x_def by (rule tv_offset_error [OF assms])
  have "x * KERN_RES - of_int (1000 * d) = (x - of_int d / 10 ^ 6) * KERN_RES" by (simp add: field_simps)
  then have "\<bar>x * KERN_RES - of_int (1000 * d)\<bar> = \<bar>x - of_int d / 10 ^ 6\<bar> * KERN_RES"
    by (simp only: abs_mult) simp
  also have "\<dots> \<le> 5 / 2 ^ 53 * KERN_RES" using e by (rule mult_right_mono) simp
  also have "\<dots> \<le> 1 / 1000" by simp
  finally have 1: "\<bar>x * KERN_RES - of_int (1000 * d)\<bar> \<le> 1 / 1000" .
  have "\<bar>real_of_int (1000 * d)\<bar> \<le> 2 * 10 ^ 9" using assms(2) by (simp flip: of_int_abs)
  moreover have "\<bar>x * KERN_RES\<bar> \<le> \<bar>x * KERN_RES - of_int (1000 * d)\<bar> + \<bar>real_of_int (1000 * d)\<bar>" by linarith
  ultimately have "\<bar>x * KERN_RES\<bar> \<le> 3 * 10 ^ 9" using 1 by simp
  then have "\<bar>dbl (x * KERN_RES) - x * KERN_RES\<bar> \<le> 3 * 10 ^ 9 / 2 ^ 53" by (rule fl_error_le)
  also have "\<dots> \<le> 1 / 1000" by simp
  finally have "\<bar>dbl (x * KERN_RES) - of_int (1000 * d)\<bar> < 1" using 1 by linarith
  note t = c_trunc_near [OF this]
  have "\<bar>c_trunc (dbl (x * KERN_RES))\<bar> < 2 ^ 31" using t(1) assms(2) by simp
  note to_int32_exact [OF this]
  then show "\<bar>to_int32 (dbl (tv_offset (subtract_tv a b) * KERN_RES))\<bar> \<le> 1000 * \<bar>d\<bar>"
    "1000 * \<bar>d\<bar> - 1 \<le> \<bar>to_int32 (dbl (tv_offset (subtract_tv a b) * KERN_RES))\<bar>"
    "0 \<le> to_int32 (dbl (tv_offset (subtract_tv a b) * KERN_RES)) * d"
    using t unfolding x_def [symmetric] by (simp_all add: zero_le_mult_iff abs_mult)
qed

text \<open>A threshold of whole microseconds is decided right except at the threshold itself.\<close>

lemma offset_threshold:
  assumes "d = tv_mus a - tv_mus b" "\<bar>d\<bar> < 2 * 10 ^ 6" "0 \<le> c" "c \<le> 10 ^ 6"
  shows "c < \<bar>d\<bar> \<Longrightarrow> \<bar>tv_offset (subtract_tv a b)\<bar> > dbl (of_int c / 10 ^ 6)"
    "\<bar>d\<bar> < c \<Longrightarrow> \<not> \<bar>tv_offset (subtract_tv a b)\<bar> > dbl (of_int c / 10 ^ 6)"
proof -
  have e: "\<bar>tv_offset (subtract_tv a b) - of_int d / 10 ^ 6\<bar> \<le> 5 / 2 ^ 53" by (rule tv_offset_error [OF assms(1,2)])
  have "\<bar>real_of_int c / 10 ^ 6\<bar> \<le> 1" using assms(3,4) by simp
  then have f: "\<bar>dbl (of_int c / 10 ^ 6) - of_int c / 10 ^ 6\<bar> \<le> 1 / 2 ^ 53" by (rule fl_error_le)
  have s: "6 / 2 ^ 53 < 1 / (10 ^ 6 :: real)" by simp
  have ab: "\<bar>real_of_int d / 10 ^ 6\<bar> = of_int \<bar>d\<bar> / 10 ^ 6" by simp
  show "\<bar>tv_offset (subtract_tv a b)\<bar> > dbl (of_int c / 10 ^ 6)" if "c < \<bar>d\<bar>"
  proof -
    have "real_of_int (c + 1) / 10 ^ 6 \<le> of_int \<bar>d\<bar> / 10 ^ 6" using that by (simp add: divide_right_mono del: of_int_add)
    then have "of_int c / 10 ^ 6 + 1 / 10 ^ 6 \<le> \<bar>real_of_int d / 10 ^ 6\<bar>" unfolding ab by (simp add: add_divide_distrib)
    then show ?thesis using e f s by linarith
  qed
  show "\<not> \<bar>tv_offset (subtract_tv a b)\<bar> > dbl (of_int c / 10 ^ 6)" if "\<bar>d\<bar> < c"
  proof -
    have "real_of_int (\<bar>d\<bar> + 1) / 10 ^ 6 \<le> of_int c / 10 ^ 6" using that by (simp add: divide_right_mono del: of_int_add)
    then have "\<bar>real_of_int d / 10 ^ 6\<bar> + 1 / 10 ^ 6 \<le> of_int c / 10 ^ 6" unfolding ab by (simp add: add_divide_distrib)
    then show ?thesis using e f s by linarith
  qed
qed

text \<open>The clock is stepped at the eighth stamp and at no other.\<close>

lemma FBclock_step_once:
  assumes "update_FBclock env h fs = (calls, ret, h', fs')"
  shows "(\<exists>tv. Settimeofday tv \<in> set calls) \<longleftrightarrow> out_n_stamps (h_output h ! h_pref_sID h) = 8"
  using assms
  by (auto simp: update_FBclock_def fb_slew_def fb_freq_end_def fb_pll_def Let_def split: if_splits prod.splits)

text \<open>
  C38: In normal operation one call hands the kernel the difference of the two clock readings to
  within a nanosecond. Past the frequency estimation, with the clocks less than two seconds
  apart, the run makes a single adjustment in phase-locked mode; its offset in nanoseconds has
  the sign of the difference of the RADclock and system timestamps and is that difference or,
  when the product rounds below it, one nanosecond less, never more. The time constant is the
  shorter the larger the offset, and the clock is flagged as disciplined when the offset is below
  100 microseconds and not when it is above. Nothing else of the handle and the statics changes.
\<close>

theorem FBclock_pll_offset:
  assumes "handle_ok h" "update_FBclock env h fs = (calls, ret, h', fs')"
    and "8 < out_n_stamps (h_output h ! h_pref_sID h)" "sys_init fs \<noteq> 0"
    and "next_stamp fs < out_n_stamps (h_output h ! h_pref_sID h)"
    and "read_clocks (RAD_DATA h) (fe_bracket env) 0 = (sys_tv, rad_tv, vcount, k)"
    and "d = tv_mus rad_tv - tv_mus sys_tv" "\<bar>d\<bar> < 2 * 10 ^ 6"
  shows "(\<exists>tx. calls = [Ntp_adjtime tx]
            \<and> (\<bar>tx_offset tx\<bar> = 1000 * \<bar>d\<bar> \<or> \<bar>tx_offset tx\<bar> = 1000 * \<bar>d\<bar> - 1) \<and> 0 \<le> tx_offset tx * d
            \<and> tx_status tx = [STA_PLL]
            \<and> (\<bar>d\<bar> > 100 \<longrightarrow> tx_constant tx = 4) \<and> (40 < \<bar>d\<bar> \<and> \<bar>d\<bar> < 100 \<longrightarrow> tx_constant tx = 5)
            \<and> (\<bar>d\<bar> < 40 \<longrightarrow> tx_constant tx = 6)
            \<and> MOD_FREQUENCY \<notin> set (tx_modes tx))
     \<and> (\<bar>d\<bar> < 100 \<longrightarrow> HAS_STATUS (RAD_DATA h') STARAD_SYSCLOCK)
     \<and> (\<bar>d\<bar> > 100 \<longrightarrow> \<not> HAS_STATUS (RAD_DATA h') STARAD_SYSCLOCK)
     \<and> fs' = fs \<and> h' = h\<lparr>h_rad_data := h_rad_data h'\<rparr>"
proof -
  define x where "x = tv_offset (subtract_tv rad_tv sys_tv)"
  define ns where "ns = to_int32 (dbl (x * KERN_RES))"
  have ns: "\<bar>ns\<bar> \<le> 1000 * \<bar>d\<bar>" "1000 * \<bar>d\<bar> - 1 \<le> \<bar>ns\<bar>" "0 \<le> ns * d"
    unfolding ns_def x_def using offset_nanoseconds [OF assms(7,8)] by simp_all
  note cmp = offset_threshold [OF assms(7,8), folded x_def]
  have big: "100 < \<bar>d\<bar> \<Longrightarrow> \<bar>x\<bar> > dbl (100 / 10 ^ 6)" "\<bar>d\<bar> < 100 \<Longrightarrow> \<not> \<bar>x\<bar> > dbl (100 / 10 ^ 6)"
    "40 < \<bar>d\<bar> \<Longrightarrow> \<bar>x\<bar> > dbl (40 / 10 ^ 6)" "\<bar>d\<bar> < 40 \<Longrightarrow> \<not> \<bar>x\<bar> > dbl (40 / 10 ^ 6)"
    using cmp [of 100] cmp [of 40] by simp_all
  have pref: "h_pref_sID h < length (h_rad_data h)" using assms(1) by (simp add: handle_ok_def)
  have upd: "update_FBclock env h fs =
      (let (call, h) = fb_pll env h tx_zero 0 in ([call], fe_ret env call, h, fs))"
    using assms(3-5) by (simp add: update_FBclock_def Let_def)
  have status: "RAD_DATA (set_status f h) = f (RAD_DATA h)" for f
    using pref by (simp add: RAD_DATA_def set_status_def)
  have frame: "set_status f h = h\<lparr>h_rad_data := h_rad_data (set_status f h)\<rparr>" for f
    by (simp add: set_status_def)
  define tx where "tx = tx_zero\<lparr>tx_modes := TX_MODES @ [MOD_MAXERROR, MOD_ESTERROR, MOD_TIMECONST],
      tx_offset := ns, tx_status := [STA_PLL],
      tx_maxerror := c_trunc (dbl (dbl (dbl (nsv_rootdelay (NTP_SERVER h) / 2) + nsv_rootdispersion (NTP_SERVER h)) * 10 ^ 6)),
      tx_esterror := c_trunc (dbl (rd_phat (RAD_DATA h) * 10 ^ 6))\<rparr>"
  have tx: "tx_offset tx = ns" "tx_status tx = [STA_PLL]" "MOD_FREQUENCY \<notin> set (tx_modes tx)" by (simp_all add: tx_def)
  have pll: "fb_pll env h tx_zero 0 = (if \<bar>x\<bar> > dbl (100 / 10 ^ 6)
      then (Ntp_adjtime (tx\<lparr>tx_constant := 4\<rparr>), set_status (\<lambda>d. DEL_STATUS d STARAD_SYSCLOCK) h)
      else (Ntp_adjtime (tx\<lparr>tx_constant := (if \<bar>x\<bar> > dbl (40 / 10 ^ 6) then 5 else 6)\<rparr>),
            set_status (\<lambda>d. ADD_STATUS d STARAD_SYSCLOCK) h))"
    unfolding fb_pll_def assms(6) prod.case Let_def x_def [symmetric] ns_def [symmetric] tx_def by simp
  have "calls = [fst (fb_pll env h tx_zero 0)]" "h' = snd (fb_pll env h tx_zero 0)" "fs' = fs"
    using assms(2) unfolding upd by (auto simp: Let_def split: prod.splits)
  then show ?thesis
    using ns tx big frame unfolding pll by (auto simp: status split: if_splits)
qed

definition demo_env :: "vcounter_t \<Rightarrow> fb_env" where
  "demo_env c = \<lparr>fe_counter = c, fe_bracket = (\<lambda>_. (c, \<lparr>tv_sec = 100, tv_usec = 50\<rparr>, c)),
     fe_query = tx_zero, fe_ret = (\<lambda>_. 0)\<rparr>"

definition demo_fb :: "fb_statics" where
  "demo_fb = \<lparr>sys_init = 5, sys_init_tv = \<lparr>tv_sec = 0, tv_usec = 0\<rparr>, next_stamp = 12\<rparr>"

definition demo_fb_handle :: radclock_handle where
  "demo_fb_handle = (demo_handle 0)\<lparr>h_output := [null_output\<lparr>out_n_stamps := 31\<rparr>, null_output]\<rparr>"

theorem FBclock_pll_offset_witness:
  "\<exists>calls ret h' fs' tx. update_FBclock (demo_env 100) demo_fb_handle demo_fb = (calls, ret, h', fs')
     \<and> calls = [Ntp_adjtime tx] \<and> - 50000 \<le> tx_offset tx \<and> tx_offset tx \<le> - 49999 \<and> HAS_STATUS (RAD_DATA h') STARAD_SYSCLOCK"
proof -
  let ?h = demo_fb_handle
  obtain calls ret h' fs' where u: "update_FBclock (demo_env 100) ?h demo_fb = (calls, ret, h', fs')"
    by (metis surj_pair)
  have ok: "handle_ok ?h" using demo_handle_fields(10) [of 0] by (simp add: demo_fb_handle_def handle_ok_def demo_handle_def)
  have data: "RAD_DATA ?h = null_data\<lparr>rd_phat := 1, rd_phat_local := 1, rd_last_changed := 100000\<rparr>"
    by (simp add: demo_fb_handle_def RAD_DATA_def demo_handle_fields)
  have n: "out_n_stamps (h_output ?h ! h_pref_sID ?h) = 31"
    by (simp add: demo_fb_handle_def demo_handle_fields)
  have utc: "read_RADabs_UTC (RAD_DATA ?h) 100 PLOCAL_ACTIVE = 100"
    by (simp add: data read_RADabs_UTC_def read_RADabs_native_def leap_correction_def null_data_def PLOCAL_ACTIVE_def)
  have br: "read_bracket (rd_phat (RAD_DATA ?h)) (fe_bracket (demo_env 100)) 4 0
      = ((100, \<lparr>tv_sec = 100, tv_usec = 50\<rparr>, 100), 1)"
    using read_bracket.simps(2) [of 1 "fe_bracket (demo_env 100)" 3 0] fl_pos [of "dbl (5 / 10 ^ 6)" 53] fl_pos [of "5 / 10 ^ 6" 53]
    by (simp add: data demo_env_def)
  have tv: "UTCld_to_timeval 100 = \<lparr>tv_sec = 100, tv_usec = 0\<rparr>"
    by (simp add: UTCld_to_timeval_def real_to_word_def Let_def)
  have rc: "read_clocks (RAD_DATA ?h) (fe_bracket (demo_env 100)) 0
      = (\<lparr>tv_sec = 100, tv_usec = 50\<rparr>, \<lparr>tv_sec = 100, tv_usec = 0\<rparr>, 100, 1)"
    using utc by (simp add: read_clocks_def br tv Let_def)
  show ?thesis
    using FBclock_pll_offset [OF ok u _ _ _ rc refl] u n by (auto simp: demo_fb_def tv_mus_def)
qed

end
