(* ===== verification/Algo_RTT.thy ===== *)
theory Algo_RTT
  imports Algo_State
begin

text \<open>
  The path estimators of \<^verbatim>\<open>radclock/sync_bidir.c\<close>: tracking of the minimal round trip time
  (RTT) and of the minimal one-way delays (OWD) with their sliding shift windows, upward
  shift detection, and the asymmetry estimate. The raw RTT of the current stamp is already
  in \<open>s_RTT_hist\<close> when these routines run.
\<close>

section \<open>The code\<close>

definition init_RTTOWDAsym_full :: "bidir_algostate \<Rightarrow> bidir_stamp \<Rightarrow> bidir_algostate option" where
  "init_RTTOWDAsym_full state stamp =
     (let si = s_stamp_i state;
          end0 = (if si > s_shift_win state then si - (s_shift_win state - 1) else 0);
          hend = c_MAX end0 (history_old (s_RTT_hist state))
      in do {
        kf \<leftarrow> history_min_dbl (s_Df_hist state) hend si;
        Df \<leftarrow> history_find (s_Df_hist state) kf;
        kb \<leftarrow> history_min_dbl (s_Db_hist state) hend si;
        Db \<leftarrow> history_find (s_Db_hist state) kb;
        kr \<leftarrow> history_min (s_RTT_hist state) hend si;
        R \<leftarrow> history_find (s_RTT_hist state) kr;
        Some (state\<lparr>
          s_next_RTThat := s_RTThat state,
          s_next_Dfhat := s_Dfhat state,
          s_next_Dbhat := s_Dbhat state,
          s_shift_end := hend,
          s_shift_end_OWD := hend,
          s_Dfhat_shift := Df,
          s_Dbhat_shift := Db,
          s_RTThat_shift := R,
          s_RTThat_hist := fold (\<lambda>j h. history_add h (of_nat j) (s_RTThat state))
             [0..<Suc (unat si)] (s_RTThat_hist state),
          s_prevRTThat := s_RTThat state\<rparr>)
      })"

definition process_RTT_warmup :: "bidir_algostate \<Rightarrow> vcounter_t \<Rightarrow> bidir_algostate" where
  "process_RTT_warmup state RTT =
     (if RTT < s_RTThat state then state\<lparr>s_RTThat := RTT, s_pstamp_i := s_stamp_i state\<rparr> else state)"

subsection \<open>One-way delays and asymmetry\<close>

text \<open>Raw one-way delays of a stamp as the absolute clock sees them.\<close>

definition raw_Df :: "bidir_algostate \<Rightarrow> bidir_stamp \<Rightarrow> real" where
  "raw_Df state stamp =
     (let TS = (Tb stamp + Te stamp) / 2
      in - (s_phat state * vc_real (Ta stamp) + s_K state - s_thetahat state - TS))"

definition raw_Db :: "bidir_algostate \<Rightarrow> bidir_stamp \<Rightarrow> real" where
  "raw_Db state stamp =
     (let TS = (Tb stamp + Te stamp) / 2
      in s_phat state * vc_real (Tf stamp) + s_K state - s_thetahat state - TS)"

text \<open>The warmup update of one minimum (the same code for each direction).\<close>

definition OWD_globalmin :: real where
  "OWD_globalmin = 1 / 5"

definition OWD_warmup_min :: "index_t \<Rightarrow> real \<Rightarrow> real \<Rightarrow> real" where
  "OWD_warmup_min si Dhat D =
     (if si < 20 then c_MIN OWD_globalmin (c_MAX 0 D)
      else if Dhat = 0 \<and> D > 0 then D
      else if D < Dhat \<and> D > 0 then D
      else Dhat)"

definition process_OWDAsym_warmup :: "bidir_algostate \<Rightarrow> bidir_stamp \<Rightarrow> bidir_algostate" where
  "process_OWDAsym_warmup state stamp =
     (let si = s_stamp_i state;
          Df = raw_Df state stamp;
          Db = raw_Db state stamp;
          Dfhat = OWD_warmup_min si (s_Dfhat state) Df;
          Dbhat = OWD_warmup_min si (s_Dbhat state) Db;
          crazy = (Dfhat = OWD_globalmin \<or> Dfhat = 0 \<or> Dbhat = OWD_globalmin \<or> Dbhat = 0)
      in state\<lparr>
          s_Df_hist := history_add (s_Df_hist state) si Df,
          s_Db_hist := history_add (s_Db_hist state) si Db,
          s_Dfhat := Dfhat,
          s_Dbhat := Dbhat,
          s_Asymhat := (if crazy then 0 else Dfhat - Dbhat)\<rparr>)"

text \<open>The shift window minimum of one direction: growing after a window change, else sliding.\<close>

definition process_OWDAsym_full :: "bidir_algostate \<Rightarrow> bidir_stamp \<Rightarrow> bidir_algostate option" where
  "process_OWDAsym_full state stamp =
     (let si = s_stamp_i state;
          Df = raw_Df state stamp;
          Db = raw_Db state stamp;
          Df_hist = history_add (s_Df_hist state) si Df;
          Db_hist = history_add (s_Db_hist state) si Db;
          Dfhat = (if Df < s_Dfhat state \<and> Df > 0 then Df else s_Dfhat state);
          Dbhat = (if Db < s_Dbhat state \<and> Db > 0 then Db else s_Dbhat state);
          next_Dfhat = (if Df < s_next_Dfhat state \<and> Df > 0 then Df else s_next_Dfhat state);
          next_Dbhat = (if Db < s_next_Dbhat state \<and> Db > 0 then Db else s_next_Dbhat state);
          growing = si < (s_shift_win state - 1) + s_shift_end_OWD state
      in do {
        Df_shift \<leftarrow> (if growing then Some (c_MIN (s_Dfhat_shift state) Df)
                    else history_min_slide_value_dbl Df_hist (s_Dfhat_shift state) (s_shift_end_OWD state) (si - 1));
        Db_shift \<leftarrow> (if growing then Some (c_MIN (s_Dbhat_shift state) Db)
                    else history_min_slide_value_dbl Db_hist (s_Dbhat_shift state) (s_shift_end_OWD state) (si - 1));
        let fup = Df_shift > Dfhat + s_Dfhat_shift_thres state;
        let bup = Db_shift > Dbhat + s_Dbhat_shift_thres state;
        let Dfhat' = (if fup then Df_shift else Dfhat);
        let Dbhat' = (if bup then Db_shift else Dbhat);
        Some (state\<lparr>
          s_Df_hist := Df_hist,
          s_Db_hist := Db_hist,
          s_Dfhat := Dfhat',
          s_Dbhat := Dbhat',
          s_next_Dfhat := (if fup then Df_shift else next_Dfhat),
          s_next_Dbhat := (if bup then Db_shift else next_Dbhat),
          s_Dfhat_shift := Df_shift,
          s_Dbhat_shift := Db_shift,
          s_shift_end_OWD := (if growing then s_shift_end_OWD state else s_shift_end_OWD state + 1),
          s_Dfhat_hist := history_add (s_Dfhat_hist state) si Dfhat',
          s_Dbhat_hist := history_add (s_Dbhat_hist state) si Dbhat',
          s_Asymhat := Dfhat' - Dbhat',
          s_Asymhat_hist := history_add (s_Asymhat_hist state) si (Dfhat' - Dbhat')\<rparr>)
      })"

subsection \<open>Round trip time\<close>

text \<open>Update of the on-line minima and of the shift window: the part that runs on every stamp.\<close>

definition RTT_full_minima :: "bidir_algostate \<Rightarrow> vcounter_t \<Rightarrow> bidir_algostate option" where
  "RTT_full_minima state RTT =
     (let si = s_stamp_i state;
          RTThat = c_MIN (s_RTThat state) RTT;
          st1 = state\<lparr>
            s_prevRTThat := s_RTThat state,
            s_RTThat := RTThat,
            s_RTThat_hist := history_add (s_RTThat_hist state) si RTThat,
            s_next_RTThat := c_MIN (s_next_RTThat state) RTT\<rparr>
      in if si < (s_shift_win st1 - 1) + s_shift_end st1
         then Some (st1\<lparr>s_RTThat_shift := c_MIN (s_RTThat_shift st1) RTT\<rparr>)
         else do {
           v \<leftarrow> history_min_slide_value (s_RTT_hist st1) (s_RTThat_shift st1) (s_shift_end st1) (si - 1);
           Some (st1\<lparr>s_RTThat_shift := v, s_shift_end := s_shift_end st1 + 1\<rparr>)
         })"

text \<open>Reaction to a detected upward shift, back to its first stamp \<open>lastshift\<close>.\<close>

definition RTT_full_upshift :: "bidir_algostate \<Rightarrow> bidir_algostate option" where
  "RTT_full_upshift st =
     (let si = s_stamp_i st;
          lastshift = si - s_shift_win st + 1;
          st1 = st\<lparr>s_RTThat := s_RTThat_shift st, s_next_RTThat := s_RTThat_shift st\<rparr>;
          st2 = (if s_next_pstamp_i st1 \<ge> lastshift
                 then let next_RTT = Tf (s_next_pstamp st1) - Ta (s_next_pstamp st1)
                      in st1\<lparr>s_next_pstamp_perr := s_phat st1 * (vc_real next_RTT - vc_real (s_RTThat st1)),
                             s_next_pstamp_RTThat := s_RTThat st1\<rparr>
                 else st1);
          jmin0 = (if si > s_offset_win st2 - 1 then si - (s_offset_win st2 - 1) else 0);
          jmin = c_MAX lastshift jmin0
      in do {
        h \<leftarrow> down_loop (\<lambda>j h. history_store h j (s_RTThat st2)) si jmin (s_RTThat_hist st2);
        Some (st2\<lparr>s_RTThat_hist := h\<rparr>)
      })"

definition process_RTT_full :: "bidir_algostate \<Rightarrow> radclock_data \<Rightarrow> vcounter_t \<Rightarrow>
    (bidir_algostate \<times> radclock_data) option" where
  "process_RTT_full state rad_data RTT = do {
     st \<leftarrow> RTT_full_minima state RTT;
     if s_RTThat_shift st > s_RTThat st + s_RTThat_shift_thres st
     then do {
       st' \<leftarrow> RTT_full_upshift st;
       Some (st', ADD_STATUS rad_data STARAD_RTT_UPSHIFT)
     }
     else Some (st, DEL_STATUS rad_data STARAD_RTT_UPSHIFT)
   }"


section \<open>The shift window of the round trip times\<close>

text \<open>
  \<open>rtt_window st xs n\<close>: \<open>s_RTT_hist\<close> holds the series \<open>xs\<close> of round trip times, the shift window is
  \<open>[shift_end, n)\<close>, at most \<open>shift_win\<close> wide and still held, \<open>RTThat_shift\<close> is its minimum,
  and \<open>RTThat\<close> does not exceed it.
\<close>

definition rtt_window :: "bidir_algostate \<Rightarrow> vcounter_t list \<Rightarrow> nat \<Rightarrow> bool" where
  "rtt_window st xs n \<longleftrightarrow> hist_repr (s_RTT_hist st) xs
     \<and> hist_low (s_RTT_hist st) \<le> unat (s_shift_end st)
     \<and> unat (s_shift_end st) < n \<and> n \<le> length xs
     \<and> n \<le> unat (s_shift_end st) + unat (s_shift_win st)
     \<and> unat (s_shift_end st) + unat (s_shift_win st) < 2 ^ 64
     \<and> s_RTThat_shift st = Min ((!) xs ` {unat (s_shift_end st)..<n})
     \<and> s_RTThat st \<le> s_RTThat_shift st"

lemma Min_window_le:
  fixes v :: "nat \<Rightarrow> 'a::linorder"
  assumes "a' < Suc n" "a \<le> a'" "x \<le> Min (v ` {a..<n})" "a < n"
  shows "min x (v n) \<le> Min (v ` {a'..<Suc n})"
proof (rule Min.boundedI)
  fix y assume "y \<in> v ` {a'..<Suc n}"
  then obtain k where k: "y = v k" "a' \<le> k" "k < Suc n" by auto
  show "min x (v n) \<le> y"
  proof (cases "k = n")
    case False
    then have "Min (v ` {a..<n}) \<le> v k" using k assms by (intro Min_le) auto
    then show ?thesis using order_trans [OF assms(3)] k by (auto simp: min_le_iff_disj)
  qed (use k in simp)
qed (use assms in auto)

lemma RTT_full_minima_window:
  assumes w: "rtt_window st xs n" and si: "s_stamp_i st = of_nat n" and len: "length xs = Suc n"
    and RTT: "RTT = xs ! n" and pos: "0 < unat (s_shift_win st)"
  shows "\<exists>st'. RTT_full_minima st RTT = Some st' \<and> rtt_window st' xs (Suc n)
    \<and> s_RTThat st' = min (s_RTThat st) RTT \<and> s_RTThat_shift st' \<le> RTT
    \<and> s_RTThat_hist st' = history_add (s_RTThat_hist st) (of_nat n) (min (s_RTThat st) RTT)
    \<and> s_stamp_i st' = s_stamp_i st \<and> s_shift_win st' = s_shift_win st \<and> s_offset_win st' = s_offset_win st
    \<and> s_RTThat_shift_thres st' = s_RTThat_shift_thres st"
proof -
  let ?e = "unat (s_shift_end st)" and ?W = "unat (s_shift_win st)"
  have h: "hist_repr (s_RTT_hist st) xs" "hist_low (s_RTT_hist st) \<le> ?e" "?e < n" "n \<le> ?e + ?W"
      "?e + ?W < 2 ^ 64" "s_RTThat_shift st = Min ((!) xs ` {?e..<n})" "s_RTThat st \<le> s_RTThat_shift st"
    using w by (auto simp: rtt_window_def)
  have n64: "Suc n < 2 ^ 64 - 1" using h(1) len by (auto simp: hist_repr_def)
  let ?b = "s_shift_win st - 1 + s_shift_end st"
  have "unat (s_shift_win st - 1) = ?W - 1" using pos by (simp add: unat_minus_one unat_gt_0)
  then have b: "unat ?b = ?W - 1 + ?e" using h(5) by (simp add: unat_word_ariths)
  have grow: "s_stamp_i st < ?b \<longleftrightarrow> n < ?W - 1 + ?e"
    unfolding word_less_nat_alt b si using n64 by (simp add: unat_of_nat64)
  let ?st1 = "st\<lparr>s_prevRTThat := s_RTThat st, s_RTThat := min (s_RTThat st) RTT,
      s_RTThat_hist := history_add (s_RTThat_hist st) (s_stamp_i st) (min (s_RTThat st) RTT),
      s_next_RTThat := min (s_next_RTThat st) RTT\<rparr>"
  have min_le: "min (s_RTThat st) RTT \<le> Min ((!) xs ` {e'..<Suc n})" if "e' < Suc n" "?e \<le> e'" for e'
    unfolding RTT using h(3,6,7) that by (intro Min_window_le) auto
  have new_le: "Min ((!) xs ` {e'..<Suc n}) \<le> RTT" if "e' < Suc n" for e'
    unfolding RTT using that by (intro Min_le) auto
  show ?thesis
  proof (cases "n < ?W - 1 + ?e")
    case True
    let ?st' = "?st1\<lparr>s_RTThat_shift := min (s_RTThat_shift st) RTT\<rparr>"
    have st': "RTT_full_minima st RTT = Some ?st'"
      using grow True by (simp add: RTT_full_minima_def Let_def)
    have "{?e..<Suc n} = insert n {?e..<n}" using h(3) by auto
    then have "Min ((!) xs ` {?e..<Suc n}) = min (s_RTThat_shift st) RTT"
      using h(3,6) RTT by (simp add: min.commute)
    moreover have "Suc n \<le> ?e + ?W" using True by simp
    ultimately have "rtt_window ?st' xs (Suc n)"
      using h len min_le [of ?e] by (simp add: rtt_window_def)
    then show ?thesis using st' si by auto
  next
    case False
    have idx: "s_stamp_i st - 1 = of_nat (n - 1)" using h(3) si by (simp add: of_nat_diff)
    have "(of_nat ?e :: index_t) = s_shift_end st" by (simp add: of_nat_unat)
    moreover have "{?e..n - 1} = {?e..<n}" "{Suc ?e..Suc (n - 1)} = {Suc ?e..<Suc n}" using h(3) by auto
    ultimately have slide: "history_min_slide_value (s_RTT_hist st) (s_RTThat_shift st) (s_shift_end st) (s_stamp_i st - 1)
        = Some (Min ((!) xs ` {Suc ?e..<Suc n}))"
      using min_slide_value_correct [OF h(1,2), of "n - 1" "history_min (s_RTT_hist st)"] h(3,6) len idx
      by (simp add: history_min_slide_value_def history_min_def)
    let ?st' = "?st1\<lparr>s_RTThat_shift := Min ((!) xs ` {Suc ?e..<Suc n}), s_shift_end := s_shift_end st + 1\<rparr>"
    have st': "RTT_full_minima st RTT = Some ?st'"
      using grow False slide by (simp add: RTT_full_minima_def Let_def)
    have "unat (s_shift_end st + 1) = Suc ?e"
      using unat_add_of_nat [of "s_shift_end st" 1] h(3) n64 by simp
    moreover have "Suc ?e + ?W < 2 ^ 64" using False n64 pos by simp
    ultimately have "rtt_window ?st' xs (Suc n)"
      using h(1-4) len min_le [of "Suc ?e"] by (simp add: rtt_window_def)
    then show ?thesis using st' si new_le [of "Suc ?e"] h(3) by auto
  qed
qed

text \<open>Rewriting the recent end of a history, as the reaction to an upward shift does.\<close>

lemma store_down_loop:
  assumes "hist_repr h xs" "hist_low h \<le> unat jmin" "jmin \<noteq> 0" "unat j < length xs"
  shows "\<exists>h'. down_loop (\<lambda>j h. history_store h j v) j jmin h = Some h'
    \<and> (\<exists>xs'. hist_repr h' xs' \<and> length xs' = length xs
      \<and> (\<forall>k < length xs. xs' ! k = (if unat jmin \<le> k \<and> k \<le> unat j then v else xs ! k)))
    \<and> hist_low h' = hist_low h \<and> hist_size h' = hist_size h"
  using assms
proof (induction "unat j" arbitrary: j h xs rule: less_induct)
  case less
  show ?case
  proof (cases "j < jmin")
    case True
    then have "\<And>k. \<not> (unat jmin \<le> k \<and> k \<le> unat j)" by (simp add: word_less_nat_alt)
    then show ?thesis
      using less.prems True by (auto simp: down_loop_stop intro!: exI [of _ xs])
  next
    case False
    then have j: "jmin \<le> j" "unat jmin \<le> unat j" by (simp_all add: word_le_nat_alt word_less_nat_alt)
    have "j \<noteq> 0" using j less.prems(3) by (auto simp: word_neq_0_conv)
    then have j1: "unat (j - 1) = unat j - 1" "0 < unat j" by (simp_all add: unat_minus_one unat_gt_0)
    obtain h1 where h1: "history_store h (of_nat (unat j)) v = Some h1" "hist_repr h1 (xs[unat j := v])"
        "hist_low h1 = hist_low h" "hist_size h1 = hist_size h"
      using history_store_repr [OF less.prems(1), of "unat j" v] less.prems(2,4) j(2) by auto
    obtain h' xs' where h': "down_loop (\<lambda>j h. history_store h j v) (j - 1) jmin h1 = Some h'"
        "hist_repr h' xs'" "length xs' = length (xs[unat j := v])"
        "\<forall>k < length (xs[unat j := v]). xs' ! k = (if unat jmin \<le> k \<and> k \<le> unat (j - 1) then v else xs[unat j := v] ! k)"
        "hist_low h' = hist_low h1" "hist_size h' = hist_size h1"
    proof -
      have "unat (j - 1) < unat j" "unat (j - 1) < length (xs[unat j := v])" using j1 less.prems(4) by auto
      then show thesis using less.hyps [of "j - 1" h1 "xs[unat j := v]"] h1(2,3) less.prems(2,3) that by metis
    qed
    have "\<forall>k < length xs. xs' ! k = (if unat jmin \<le> k \<and> k \<le> unat j then v else xs ! k)"
      using h'(4) j j1 less.prems(4) by (auto simp: nth_list_update)
    moreover have "down_loop (\<lambda>j h. history_store h j v) j jmin h = Some h'"
      using down_loop_step [OF less.prems(3) j(1), of "\<lambda>j h. history_store h j v" h] h1(1) h'(1)
      by (simp add: of_nat_unat)
    ultimately show ?thesis using h' h1 by auto
  qed
qed

lemma RTT_full_upshift_returns:
  assumes "down_loop (\<lambda>j h. history_store h j (s_RTThat_shift st)) (s_stamp_i st)
      (max (s_stamp_i st - s_shift_win st + 1)
        (if s_stamp_i st > s_offset_win st - 1 then s_stamp_i st - (s_offset_win st - 1) else 0))
      (s_RTThat_hist st) = Some h'"
  shows "\<exists>st'. RTT_full_upshift st = Some st' \<and> s_RTThat st' = s_RTThat_shift st
    \<and> s_RTThat_shift st' = s_RTThat_shift st \<and> s_RTT_hist st' = s_RTT_hist st
    \<and> s_shift_end st' = s_shift_end st \<and> s_shift_win st' = s_shift_win st"
  using assms
  by (cases "s_next_pstamp_i st \<ge> s_stamp_i st - s_shift_win st + 1")
    (auto simp: RTT_full_upshift_def Let_def split: if_splits)

text \<open>
  C13: Round trip time tracking in the full algorithm. If the shift window invariant holds when
  stamp \<open>n\<close> arrives, the RTThat history covers the offset window, and the algorithm has seen
  more stamps than the shift window is wide, then \<open>process_RTT_full\<close> runs to completion and
  re-establishes the invariant: \<open>RTThat_shift\<close> is the exact minimum of the new window, never
  below \<open>RTThat\<close>; the new \<open>RTThat\<close> is the running minimum, replaced by the window minimum exactly when
  that exceeds it by the threshold, which is what the upshift status bit reports; and it never
  exceeds the current RTT, so point errors are not negative.
\<close>

theorem process_RTT_full_tracks:
  assumes w: "rtt_window st xs n" and si: "s_stamp_i st = of_nat n" and len: "length xs = Suc n"
    and win: "0 < unat (s_shift_win st)" "unat (s_shift_win st) \<le> n" "0 < unat (s_offset_win st)"
    and hat: "hist_repr (s_RTThat_hist st) ys" "length ys = n"
      "hist_covers (s_RTThat_hist st) ys (unat (s_offset_win st))"
      "unat (s_offset_win st) \<le> hist_size (s_RTThat_hist st)"
  shows "\<exists>st' rd'. process_RTT_full st rd (xs ! n) = Some (st', rd')
    \<and> rtt_window st' xs (Suc n)
    \<and> (let m = min (s_RTThat st) (xs ! n); up = s_RTThat_shift st' > m + s_RTThat_shift_thres st
       in s_RTThat st' = (if up then s_RTThat_shift st' else m) \<and> HAS_STATUS rd' STARAD_RTT_UPSHIFT = up)
    \<and> s_RTThat st' \<le> xs ! n"
proof -
  let ?m = "min (s_RTThat st) (xs ! n)"
  obtain st1 where st1: "RTT_full_minima st (xs ! n) = Some st1" "rtt_window st1 xs (Suc n)"
      "s_RTThat st1 = ?m" "s_RTThat_shift st1 \<le> xs ! n"
      "s_RTThat_hist st1 = history_add (s_RTThat_hist st) (of_nat n) ?m"
      "s_stamp_i st1 = of_nat n" "s_shift_win st1 = s_shift_win st" "s_offset_win st1 = s_offset_win st"
      "s_RTThat_shift_thres st1 = s_RTThat_shift_thres st"
    using RTT_full_minima_window [OF w si len refl win(1)] si by auto
  let ?up = "s_RTThat_shift st1 > ?m + s_RTThat_shift_thres st"
  show ?thesis
  proof (cases ?up)
    case False
    then show ?thesis using st1 by (auto simp: process_RTT_full_def)
  next
    case True
    have n64: "Suc n < 2 ^ 64 - 1" using w len by (auto simp: rtt_window_def hist_repr_def)
    then have un: "unat (of_nat n :: index_t) = n" by (simp add: unat_of_nat64)
    let ?lastshift = "of_nat n - s_shift_win st + 1 :: index_t"
    let ?bk = "if of_nat n > s_offset_win st - 1 then of_nat n - (s_offset_win st - 1) else (0 :: index_t)"
    have "unat (of_nat n - s_shift_win st) = n - unat (s_shift_win st)"
      using unat_sub_le [of "s_shift_win st" "of_nat n"] win(2) un by (simp add: word_le_nat_alt)
    then have lst: "unat ?lastshift = Suc n - unat (s_shift_win st)"
      using unat_add_of_nat [of "of_nat n - s_shift_win st" 1] n64 win by (simp add: Suc_diff_le)
    have ow: "unat (s_offset_win st - 1) = unat (s_offset_win st) - 1"
      using win(3) by (simp add: unat_minus_one unat_gt_0)
    have bk: "unat ?bk = Suc n - unat (s_offset_win st)"
    proof (cases "of_nat n > s_offset_win st - 1")
      case True
      then have "unat (of_nat n - (s_offset_win st - 1)) = n - (unat (s_offset_win st) - 1)"
        using unat_sub_le [of "s_offset_win st - 1" "of_nat n"] un ow by (simp add: less_imp_le)
      then show ?thesis using True win(3) by simp
    next
      case False
      then have "n \<le> unat (s_offset_win st) - 1"
        unfolding word_less_nat_alt un ow by simp
      then show ?thesis using False win(3) by auto
    qed
    let ?jmin = "max ?lastshift ?bk"
    have jmin: "unat ?jmin = max (unat ?lastshift) (unat ?bk)"
      by (simp add: max_def word_le_nat_alt)
    have jne: "?jmin \<noteq> 0" using lst win(2) jmin by (metis Suc_diff_le max.strict_coboundedI1 unat_0 zero_less_Suc less_irrefl)
    let ?h = "history_add (s_RTThat_hist st) (of_nat n) ?m"
    have r: "hist_repr ?h (ys @ [?m])" using hist_add_repr [OF hat(1)] hat(2) n64 by simp
    have "hist_covers ?h (ys @ [?m]) (unat (s_offset_win st))"
      using hist_covers_add [OF hat(1,3,4), of ?m] hat(2) by simp
    then have "hist_low ?h \<le> unat ?jmin" using jmin bk hat(2) by (simp add: hist_covers_def)
    then obtain h' where h': "down_loop (\<lambda>j h. history_store h j (s_RTThat_shift st1)) (of_nat n) ?jmin ?h = Some h'"
      using store_down_loop [OF r, of ?jmin "of_nat n"] jne un hat(2) by auto
    obtain st2 where st2: "RTT_full_upshift st1 = Some st2" "s_RTThat st2 = s_RTThat_shift st1"
        "s_RTThat_shift st2 = s_RTThat_shift st1" "s_RTT_hist st2 = s_RTT_hist st1"
        "s_shift_end st2 = s_shift_end st1" "s_shift_win st2 = s_shift_win st1"
      using RTT_full_upshift_returns [of st1 h', unfolded st1(5-8), OF h'] st1(7) by metis
    have "rtt_window st2 xs (Suc n)" using st1(2) st2 by (simp add: rtt_window_def)
    then show ?thesis using st1 st2 True by (auto simp: process_RTT_full_def)
  qed
qed

theorem process_RTT_full_tracks_witness:
  "\<exists>st st' rd'. s_RTThat st = 4 \<and> rtt_window st [4, 7, 6, 9] 3 \<and> process_RTT_full st null_data 9 = Some (st', rd')
    \<and> rtt_window st' [4, 7, 6, 9] (Suc 3) \<and> s_RTThat st' \<le> 9"
proof -
  let ?xs = "[4, 7, 6, 9] :: vcounter_t list" and ?ys = "[4, 4, 4] :: vcounter_t list"
  let ?i4 = "the (history_init True (0 :: vcounter_t) 4)"
  have i4: "history_init True (0 :: vcounter_t) 4 = Some ?i4" by (simp add: history_init_def)
  let ?st = "null_state\<lparr>s_stamp_i := 3, s_RTT_hist := history_feed ?xs ?i4, s_RTThat_hist := history_feed ?ys ?i4,
      s_shift_win := 3, s_shift_end := 0, s_offset_win := 2, s_RTThat := 4, s_RTThat_shift := 4,
      s_RTThat_shift_thres := 1\<rparr>"
  have w0: "{0..<3::nat} = {0, 1, 2}" by auto
  have w: "rtt_window ?st ?xs 3"
    using feed_repr [OF i4, of ?xs] feed_low [OF i4, of ?xs] by (simp add: rtt_window_def w0)
  then obtain st' rd' where "process_RTT_full ?st null_data (?xs ! 3) = Some (st', rd')"
      "rtt_window st' ?xs (Suc 3)" "s_RTThat st' \<le> ?xs ! 3"
    using process_RTT_full_tracks [of ?st ?xs 3 ?ys null_data] feed_repr [OF i4, of ?ys] feed_low [OF i4, of ?ys]
      feed_size [of ?ys ?i4]
    by (auto simp: hist_covers_def hist_size_def history_init_def)
  then show ?thesis
    using w by (intro exI [of _ ?st] exI [of _ st'] exI [of _ rd'] conjI) simp_all
qed

end
