(* ===== verification/Algo_Phat.thy ===== *)
theory Algo_Phat
  imports Algo_State
begin

text \<open>
  Period estimation of \<^verbatim>\<open>radclock/sync_bidir.c\<close>: the long term period \<open>phat\<close> (warmup and full
  algorithm, with the tracking of the stamp it is measured against) and the local period
  \<open>plocal\<close>. Whenever \<open>phat\<close> changes, the clock constant \<open>K\<close> is corrected so that the
  uncorrected clock \<open>C(T) = phat * T + K\<close> does not jump at the last stamp.
\<close>

section \<open>The code\<close>

subsection \<open>The long term period\<close>

text \<open>
  The counter differences are unsigned, so the tests \<^verbatim>\<open>DelTa <= 0\<close> and \<^verbatim>\<open>DelTf <= 0\<close> hold for
  zero only.
\<close>

definition compute_phat :: "bidir_stamp \<Rightarrow> bidir_stamp \<Rightarrow> real" where
  "compute_phat far near =
     (let DelTa = Ta near - Ta far;
          DelTb = Tb near - Tb far;
          DelTe = Te near - Te far;
          DelTf = Tf near - Tf far
      in if DelTa \<le> 0 \<or> DelTb \<le> 0 \<or> DelTe \<le> 0 \<or> DelTf \<le> 0 then 0
         else (DelTb / vc_real DelTa + DelTe / vc_real DelTf) / 2)"

definition init_phat_full :: "bidir_algostate \<Rightarrow> bidir_stamp \<Rightarrow> bidir_algostate option" where
  "init_phat_full state stamp = do {
     ps \<leftarrow> history_find (s_stamp_hist state) (s_pstamp_i state);
     near \<leftarrow> history_find (s_stamp_hist state) (s_near_i state);
     far \<leftarrow> history_find (s_stamp_hist state) (s_far_i state);
     RTT_near \<leftarrow> history_find (s_RTT_hist state) (s_near_i state);
     RTT_far \<leftarrow> history_find (s_RTT_hist state) (s_far_i state);
     Some (state\<lparr>
       s_pstamp := ps,
       s_pstamp_perr := 0,
       s_pstamp_RTThat := s_RTThat state,
       s_perr := (vc_real (RTT_far + RTT_near) - vc_real (2 * s_RTThat state))
                   * s_phat state / (Tb near - Tb far),
       s_phat_sanity_count := 0\<rparr>)
   }"

text \<open>Choice of the stamp pair in warmup: slide the near window, or widen both windows.\<close>

definition phat_warmup_select :: "bidir_algostate \<Rightarrow> vcounter_t \<Rightarrow> uint32 \<Rightarrow> bidir_algostate option" where
  "phat_warmup_select state RTT warmup_winratio =
     (let si = s_stamp_i state
      in if si mod ucast warmup_winratio \<noteq> 0
         then do {
           n \<leftarrow> history_min_slide (s_RTT_hist state) (s_near_i state) (si - s_wwidth state) (si - 1);
           Some (state\<lparr>s_near_i := n\<rparr>)
         }
         else do {
           RTT_tmp \<leftarrow> history_find (s_RTT_hist state) (s_wwidth state);
           RTT_near \<leftarrow> history_find (s_RTT_hist state) (s_near_i state);
           RTT_far \<leftarrow> history_find (s_RTT_hist state) (s_far_i state);
           Some (state\<lparr>
             s_far_i := (if RTT_tmp < RTT_far then s_wwidth state else s_far_i state),
             s_near_i := (if RTT < RTT_near then si else s_near_i state),
             s_wwidth := s_wwidth state + 1\<rparr>)
         })"

definition process_phat_warmup :: "bidir_algostate \<Rightarrow> vcounter_t \<Rightarrow> uint32 \<Rightarrow>
    (int \<times> bidir_algostate) option" where
  "process_phat_warmup state RTT warmup_winratio = do {
     st \<leftarrow> phat_warmup_select state RTT warmup_winratio;
     near \<leftarrow> history_find (s_stamp_hist st) (s_near_i st);
     far \<leftarrow> history_find (s_stamp_hist st) (s_far_i st);
     let phat = compute_phat far near;
     if phat = 0 then Some (1, st)
     else if s_near_i state \<noteq> s_near_i st \<or> s_far_i state \<noteq> s_far_i st
     then do {
       RTT_far \<leftarrow> history_find (s_RTT_hist st) (s_far_i st);
       RTT_near \<leftarrow> history_find (s_RTT_hist st) (s_near_i st);
       let DelTb = Tb near - Tb far;
       Some (0, st\<lparr>
         s_K := s_K st + vc_real (Ta (s_stamp st)) * (s_phat st - phat),
         s_phat := phat,
         s_perr := phat * (vc_real (RTT_far + RTT_near) - vc_real (2 * s_RTThat st)) / DelTb\<rparr>)
     }
     else Some (0, st)
   }"

definition update_next_pstamp :: "bidir_algostate \<Rightarrow> bidir_stamp \<Rightarrow> vcounter_t \<Rightarrow> bidir_algostate" where
  "update_next_pstamp state stamp RTT =
     (if s_jcount state \<le> s_jsearch_win state
      then let st1 = state\<lparr>s_jcount := s_jcount state + 1\<rparr>;
               next_pstamp_RTT = Tf (s_next_pstamp st1) - Ta (s_next_pstamp st1)
           in if RTT < next_pstamp_RTT
              then st1\<lparr>s_next_pstamp_i := s_stamp_i st1,
                       s_next_pstamp_RTThat := s_RTThat st1,
                       s_next_pstamp_perr := s_phat st1 * vc_real (RTT - s_RTThat st1),
                       s_next_pstamp := stamp\<rparr>
              else st1
      else state)"

text \<open>The total error of the pair (pstamp, current stamp), relative to the period.\<close>

definition phat_perr_ij :: "bidir_algostate \<Rightarrow> bidir_stamp \<Rightarrow> vcounter_t \<Rightarrow> real" where
  "phat_perr_ij state stamp RTT =
     (let perr_i = s_phat state * (vc_real RTT - vc_real (s_RTThat state));
          DelTb = Tb stamp - Tb (s_pstamp state);
          baseerr = (if s_RTThat state > s_pstamp_RTThat state
                     then s_phat state * vc_real (s_RTThat state - s_pstamp_RTThat state)
                     else s_phat state * vc_real (s_pstamp_RTThat state - s_RTThat state))
      in (\<bar>perr_i\<bar> + \<bar>s_pstamp_perr state\<bar> + baseerr) / DelTb)"

definition process_phat_full :: "bidir_algostate \<Rightarrow> bidir_stamp \<Rightarrow> radclock_data \<Rightarrow> vcounter_t \<Rightarrow> int \<Rightarrow>
    int \<times> bidir_algostate \<times> radclock_data" where
  "process_phat_full state stamp rad_data RTT qual_warning =
     (let rd1 = DEL_STATUS rad_data STARAD_PHAT_UPDATED;
          perr_i = s_phat state * (vc_real RTT - vc_real (s_RTThat state))
      in if perr_i \<ge> s_Ep state then (0, state, rd1)
         else let perr_ij = phat_perr_ij state stamp RTT
         in if perr_ij \<ge> s_perr state \<and> perr_ij \<ge> s_Ep_qual state then (0, state, rd1)
         else let phat = compute_phat (s_pstamp state) stamp
         in if \<bar>s_phat state - phat\<bar> / s_phat state > s_Ep_sanity state \<or> qual_warning \<noteq> 0
            then (uint STARAD_PLOCAL_SANITY,
                  state\<lparr>s_phat_sanity_count := s_phat_sanity_count state + 1\<rparr>,
                  ADD_STATUS rd1 STARAD_PHAT_SANITY)
            else (0,
                  state\<lparr>s_K := s_K state + vc_real (Ta (s_stamp state)) * (s_phat state - phat),
                        s_phat := phat,
                        s_perr := perr_ij\<rparr>,
                  DEL_STATUS (ADD_STATUS rd1 STARAD_PHAT_UPDATED) STARAD_PHAT_SANITY))"

subsection \<open>The local period\<close>

definition reset_plocal :: "bidir_algostate \<Rightarrow> uint32 \<Rightarrow> index_t \<Rightarrow> bidir_algostate option" where
  "reset_plocal state plocal_winratio i =
     (let w = c_MAX 4 (s_plocal_win state div ucast plocal_winratio)
      in do {
        far \<leftarrow> history_min (s_RTT_hist state) (i - s_plocal_win state + 1 - w div 2)
                 (i - s_plocal_win state + w - w div 2);
        near \<leftarrow> history_min (s_RTT_hist state) (i - w + 1) i;
        Some (state\<lparr>s_wwidth := w, s_far_i := far, s_near_i := near, s_plocal_problem := 0\<rparr>)
      })"

text \<open>The oldest stamp the two windows of the local period need.\<close>

definition plocal_first :: "bidir_algostate \<Rightarrow> index_t" where
  "plocal_first state =
     s_stamp_i state - s_plocal_win state + 1 - s_wwidth state - s_wwidth state div 2"

definition plocal_avail :: "bidir_algostate \<Rightarrow> index_t" where
  "plocal_avail state =
     c_MAX (s_poll_changed_i state)
       (c_MAX (history_old (s_stamp_hist state)) (history_old (s_RTT_hist state)))"

definition init_plocal_full :: "bidir_algostate \<Rightarrow> bidir_stamp \<Rightarrow> uint32 \<Rightarrow> bidir_algostate option" where
  "init_plocal_full state stamp plocal_winratio =
     (let st1 = state\<lparr>s_plocal_end := plocal_first state\<rparr>
      in do {
        st2 \<leftarrow> (if s_plocal_end st1 \<ge> plocal_avail st1
               then reset_plocal st1 plocal_winratio (s_stamp_i st1)
               else Some (st1\<lparr>s_plocal_problem := 1\<rparr>));
        Some (st2\<lparr>s_plocal_sanity_count := 0\<rparr>)
      })"

text \<open>Acceptance of a local period candidate: first quality, then sanity.\<close>

definition plocal_accept :: "bidir_algostate \<Rightarrow> radclock_data \<Rightarrow> real \<Rightarrow> real \<Rightarrow> int \<Rightarrow>
    bidir_algostate \<times> radclock_data" where
  "plocal_accept st rad_data plocal plocalerr qual_warning =
     (if \<bar>plocalerr\<bar> \<ge> s_Eplocal_qual st
      then (st, DEL_STATUS (ADD_STATUS rad_data STARAD_PLOCAL_QUALITY) STARAD_PLOCAL_SANITY)
      else let rd1 = DEL_STATUS rad_data STARAD_PLOCAL_QUALITY
           in if \<bar>s_plocal st - plocal\<bar> / s_plocal st > s_Eplocal_sanity st \<or> qual_warning \<noteq> 0
              then (st\<lparr>s_plocal_sanity_count := s_plocal_sanity_count st + 1\<rparr>,
                    ADD_STATUS rd1 STARAD_PLOCAL_SANITY)
              else (st\<lparr>s_plocal := plocal, s_plocalerr := plocalerr\<rparr>,
                    DEL_STATUS rd1 STARAD_PLOCAL_SANITY))"

definition process_plocal_full :: "bidir_algostate \<Rightarrow> radclock_data \<Rightarrow> uint32 \<Rightarrow> int \<Rightarrow> int \<Rightarrow>
    bidir_algooutput \<Rightarrow> (int \<times> bidir_algostate \<times> radclock_data \<times> bidir_algooutput) option" where
  "process_plocal_full state rad_data plocal_winratio p_insane qual_warning output =
     (let si = s_stamp_i state;
          st1 = state\<lparr>s_plocal_end := plocal_first state\<rparr>
      in if s_plocal_end st1 < plocal_avail st1
         then Some (0, st1\<lparr>s_plocal := s_phat st1, s_plocal_problem := 1\<rparr>, rad_data, output)
         else do {
           st2 \<leftarrow> (if s_plocal_problem st1 \<noteq> 0 then reset_plocal st1 plocal_winratio si else Some st1);
           let w = s_wwidth st2;
           far_i \<leftarrow> history_min_slide (s_RTT_hist st2) (s_far_i st2)
              (si - w - s_plocal_win st2 - w div 2) (si - 1 - s_plocal_win st2 - w div 2);
           near_i \<leftarrow> history_min_slide (s_RTT_hist st2) (s_near_i st2) (si - w) (si - 1);
           let st3 = st2\<lparr>s_far_i := far_i, s_near_i := near_i\<rparr>;
           near \<leftarrow> history_find (s_stamp_hist st3) near_i;
           far \<leftarrow> history_find (s_stamp_hist st3) far_i;
           let plocal = compute_phat far near;
           if plocal = 0 then Some (1, st3, rad_data, output)
           else do {
             RTT_far \<leftarrow> history_find (s_RTT_hist st3) far_i;
             RTT_near \<leftarrow> history_find (s_RTT_hist st3) near_i;
             let plocalerr = s_phat st3 * (vc_real (RTT_far + RTT_near) - vc_real (2 * s_RTThat st3))
                               / (Tb near - Tb far);
             let (st4, rd) = plocal_accept st3 rad_data plocal plocalerr qual_warning;
             Some (0, st4, rd, output\<lparr>out_plocalerr := plocalerr\<rparr>)
           }
         })"


section \<open>The uncorrected clock and its continuity\<close>

text \<open>\<open>C(T) = phat * T + K\<close>, read at the counter value \<open>T\<close>.\<close>

definition uncorrected_clock :: "bidir_algostate \<Rightarrow> vcounter_t \<Rightarrow> real" where
  "uncorrected_clock st T = s_phat st * vc_real T + s_K st"

lemma K_correction:
  "(p' :: real) * t + (K + t * (p - p')) = p * t + K"
  by (simp add: algebra_simps)

lemma process_phat_full_cases:
  obtains (keep) "process_phat_full st stamp rd RTT q = (0, st, DEL_STATUS rd STARAD_PHAT_UPDATED)"
  | (insane) "process_phat_full st stamp rd RTT q =
      (uint STARAD_PLOCAL_SANITY, st\<lparr>s_phat_sanity_count := s_phat_sanity_count st + 1\<rparr>,
       ADD_STATUS (DEL_STATUS rd STARAD_PHAT_UPDATED) STARAD_PHAT_SANITY)"
      "\<bar>s_phat st - compute_phat (s_pstamp st) stamp\<bar> / s_phat st > s_Ep_sanity st \<or> q \<noteq> 0"
  | (update) "process_phat_full st stamp rd RTT q =
      (0, st\<lparr>s_K := s_K st + vc_real (Ta (s_stamp st)) * (s_phat st - compute_phat (s_pstamp st) stamp),
             s_phat := compute_phat (s_pstamp st) stamp, s_perr := phat_perr_ij st stamp RTT\<rparr>,
       DEL_STATUS (ADD_STATUS (DEL_STATUS rd STARAD_PHAT_UPDATED) STARAD_PHAT_UPDATED) STARAD_PHAT_SANITY)"
      "\<bar>s_phat st - compute_phat (s_pstamp st) stamp\<bar> / s_phat st \<le> s_Ep_sanity st" "q = 0"
      "s_phat st * (vc_real RTT - vc_real (s_RTThat st)) < s_Ep st"
      "phat_perr_ij st stamp RTT < s_perr st \<or> phat_perr_ij st stamp RTT < s_Ep_qual st"
proof -
  let ?keep = "s_phat st * (vc_real RTT - vc_real (s_RTThat st)) \<ge> s_Ep st
    \<or> phat_perr_ij st stamp RTT \<ge> s_perr st \<and> phat_perr_ij st stamp RTT \<ge> s_Ep_qual st"
  let ?insane = "\<bar>s_phat st - compute_phat (s_pstamp st) stamp\<bar> / s_phat st > s_Ep_sanity st \<or> q \<noteq> 0"
  show thesis
  proof (cases ?keep)
    case True
    then have "process_phat_full st stamp rd RTT q = (0, st, DEL_STATUS rd STARAD_PHAT_UPDATED)"
      unfolding process_phat_full_def Let_def by (elim disjE) (simp_all only: if_True if_cancel simp_thms)
    then show thesis by (rule keep)
  next
    case False
    then have nk: "\<not> s_Ep st \<le> s_phat st * (vc_real RTT - vc_real (s_RTThat st))"
        "\<not> (s_perr st \<le> phat_perr_ij st stamp RTT \<and> s_Ep_qual st \<le> phat_perr_ij st stamp RTT)"
      by blast+
    show thesis
    proof (cases ?insane)
      case True
      show thesis
        by (rule insane [OF _ True])
          (simp only: process_phat_full_def Let_def nk True if_True if_False)
    next
      case ok: False
      have "process_phat_full st stamp rd RTT q =
      (0, st\<lparr>s_K := s_K st + vc_real (Ta (s_stamp st)) * (s_phat st - compute_phat (s_pstamp st) stamp),
             s_phat := compute_phat (s_pstamp st) stamp, s_perr := phat_perr_ij st stamp RTT\<rparr>,
       DEL_STATUS (ADD_STATUS (DEL_STATUS rd STARAD_PHAT_UPDATED) STARAD_PHAT_UPDATED) STARAD_PHAT_SANITY)"
        by (simp only: process_phat_full_def Let_def nk ok if_True if_False)
      then show thesis using ok nk by (intro update) (simp_all only: not_le not_less de_Morgan_disj de_Morgan_conj not_not)
    qed
  qed
qed

lemma process_phat_full_clock:
  assumes "process_phat_full st stamp rd RTT q = (ret, st', rd')"
  shows "uncorrected_clock st' (Ta (s_stamp st)) = uncorrected_clock st (Ta (s_stamp st))"
    and "s_stamp st' = s_stamp st" "s_thetahat st' = s_thetahat st"
  by (cases rule: process_phat_full_cases [of st stamp rd RTT q],
      use assms in \<open>auto simp: uncorrected_clock_def K_correction\<close>)+

lemma phat_warmup_select_frame:
  assumes "phat_warmup_select st RTT r = Some st'"
  shows "s_K st' = s_K st \<and> s_phat st' = s_phat st \<and> s_stamp st' = s_stamp st
    \<and> s_stamp_i st' = s_stamp_i st \<and> s_thetahat st' = s_thetahat st"
  using assms by (auto simp: phat_warmup_select_def Let_def split: if_splits bind_splits)

lemma process_phat_warmup_clock:
  assumes "process_phat_warmup st RTT r = Some (ret, st')"
  shows "uncorrected_clock st' (Ta (s_stamp st)) = uncorrected_clock st (Ta (s_stamp st))"
    and "s_stamp st' = s_stamp st" "s_thetahat st' = s_thetahat st"
proof -
  obtain st1 where st1: "phat_warmup_select st RTT r = Some st1"
    using assms by (auto simp: process_phat_warmup_def split: bind_splits)
  note fr = phat_warmup_select_frame [OF st1]
  have "st' = st1 \<or> (\<exists>p e. st' = st1\<lparr>s_K := s_K st1 + vc_real (Ta (s_stamp st1)) * (s_phat st1 - p),
      s_phat := p, s_perr := e\<rparr>)"
    using assms st1 by (auto simp: process_phat_warmup_def Let_def split: if_splits bind_splits)
  then show "uncorrected_clock st' (Ta (s_stamp st)) = uncorrected_clock st (Ta (s_stamp st))"
      "s_stamp st' = s_stamp st" "s_thetahat st' = s_thetahat st"
    using fr by (auto simp: uncorrected_clock_def K_correction)
qed

lemma reset_plocal_frame:
  assumes "reset_plocal st r i = Some st'"
  shows "s_K st' = s_K st \<and> s_phat st' = s_phat st \<and> s_stamp st' = s_stamp st
    \<and> s_plocal st' = s_plocal st \<and> s_Eplocal_sanity st' = s_Eplocal_sanity st
    \<and> s_thetahat st' = s_thetahat st"
  using assms by (auto simp: reset_plocal_def Let_def split: bind_splits)

lemma plocal_accept_frame:
  "s_K (fst (plocal_accept st rd p e q)) = s_K st \<and> s_phat (fst (plocal_accept st rd p e q)) = s_phat st
    \<and> s_stamp (fst (plocal_accept st rd p e q)) = s_stamp st
    \<and> s_thetahat (fst (plocal_accept st rd p e q)) = s_thetahat st"
  by (simp add: plocal_accept_def Let_def)

lemma plocal_accept_bound:
  "s_plocal (fst (plocal_accept st rd p e q)) = s_plocal st
    \<or> q = 0 \<and> \<bar>s_plocal st - s_plocal (fst (plocal_accept st rd p e q))\<bar> / s_plocal st \<le> s_Eplocal_sanity st"
  by (auto simp: plocal_accept_def Let_def)

lemma process_plocal_full_cases:
  assumes "process_plocal_full st rd r pin q out = Some (ret, st', rd', out')"
  obtains (problem) "s_plocal st' = s_phat st" "s_K st' = s_K st" "s_phat st' = s_phat st"
      "s_stamp st' = s_stamp st" "s_thetahat st' = s_thetahat st" "s_plocal_problem st' = 1"
  | (work) "s_K st' = s_K st" "s_phat st' = s_phat st" "s_stamp st' = s_stamp st"
      "s_thetahat st' = s_thetahat st"
      "s_plocal st' = s_plocal st
       \<or> q = 0 \<and> \<bar>s_plocal st - s_plocal st'\<bar> / s_plocal st \<le> s_Eplocal_sanity st"
proof (cases "plocal_first st < plocal_avail (st\<lparr>s_plocal_end := plocal_first st\<rparr>)")
  case True
  then show thesis using assms by (intro problem) (auto simp: process_plocal_full_def Let_def)
next
  case False
  let ?st1 = "st\<lparr>s_plocal_end := plocal_first st\<rparr>"
  obtain st2 where st2: "(if s_plocal_problem ?st1 \<noteq> 0 then reset_plocal ?st1 r (s_stamp_i st) else Some ?st1) = Some st2"
    using assms False by (auto simp: process_plocal_full_def Let_def split: bind_splits if_splits)
  then have fr: "s_K st2 = s_K st \<and> s_phat st2 = s_phat st \<and> s_stamp st2 = s_stamp st
      \<and> s_plocal st2 = s_plocal st \<and> s_Eplocal_sanity st2 = s_Eplocal_sanity st \<and> s_thetahat st2 = s_thetahat st"
    using reset_plocal_frame [of ?st1] by (auto split: if_splits)
  obtain f n p e where "st' = st2\<lparr>s_far_i := f, s_near_i := n\<rparr>
      \<or> st' = fst (plocal_accept (st2\<lparr>s_far_i := f, s_near_i := n\<rparr>) rd p e q)"
    using assms False st2
    by (auto simp: process_plocal_full_def Let_def split: bind_splits if_splits prod.splits)
       (metis fst_conv)+
  then show thesis
  proof
    assume "st' = st2\<lparr>s_far_i := f, s_near_i := n\<rparr>"
    then show thesis using fr by (intro work) auto
  next
    let ?st3 = "st2\<lparr>s_far_i := f, s_near_i := n\<rparr>"
    assume "st' = fst (plocal_accept ?st3 rd p e q)"
    then show thesis
      using fr plocal_accept_frame [of ?st3 rd p e q] plocal_accept_bound [of ?st3 rd p e q]
      by (intro work) auto
  qed
qed


section \<open>Properties\<close>

text \<open>
  Accuracy of the two-stamp period estimate. If over the interval between two stamps the
  server's forward and backward time differences agree with an oscillator of period \<open>p\<close> up to
  \<open>e\<close> seconds (queueing and timestamping noise), the estimate is off by at most the average of
  \<open>e\<close> over the two counter intervals. Counter differences are taken modulo \<open>2 ^ 64\<close>, so a
  wrap-around of the counter between the stamps does no harm.
\<close>

lemma compute_phat_accuracy:
  assumes "0 < Ta near - Ta far" "0 < Tf near - Tf far" "Tb far < Tb near" "Te far < Te near"
    and "\<bar>Tb near - Tb far - p * vc_real (Ta near - Ta far)\<bar> \<le> e"
    and "\<bar>Te near - Te far - p * vc_real (Tf near - Tf far)\<bar> \<le> e"
  shows "\<bar>compute_phat far near - p\<bar>
    \<le> (e / vc_real (Ta near - Ta far) + e / vc_real (Tf near - Tf far)) / 2"
proof -
  let ?a = "vc_real (Ta near - Ta far)" and ?f = "vc_real (Tf near - Tf far)"
  have pos: "0 < ?a" "0 < ?f" using assms(1,2) by (simp_all add: word_less_nat_alt)
  have go: "\<not> (Ta near - Ta far \<le> 0 \<or> Tb near - Tb far \<le> 0 \<or> Te near - Te far \<le> 0 \<or> Tf near - Tf far \<le> 0)"
    using assms(1-4) by (auto simp only: not_le diff_le_0_iff_le)
  have cp: "compute_phat far near = ((Tb near - Tb far) / ?a + (Te near - Te far) / ?f) / 2"
    by (simp only: compute_phat_def Let_def go if_False)
  have bound: "\<bar>D / w - p\<bar> \<le> e / w" if "0 < w" "\<bar>D - p * w\<bar> \<le> e" for D w :: real
  proof -
    have "D / w - p = (D - p * w) / w" using that(1) by (simp add: field_simps)
    then show ?thesis using that by (simp add: divide_right_mono)
  qed
  have mean: "\<bar>(x + y) / 2 - p\<bar> \<le> (a + b) / 2" if "\<bar>x - p\<bar> \<le> a" "\<bar>y - p\<bar> \<le> b" for x y a b :: real
    using that by (simp add: abs_le_iff field_simps)
  show ?thesis
    unfolding cp by (rule mean [OF bound [OF pos(1) assms(5)] bound [OF pos(2) assms(6)]])
qed

text \<open>
  C19: Sanity of the long term period. Whatever the stamp, one run of the full period algorithm
  moves \<open>phat\<close> by at most the relative sanity bound, keeps it positive if the bound is below 1, does
  not move it at all under a quality warning, changes it only for a stamp whose point error is
  below \<open>Ep\<close>, and reports a new value through the status bit.
\<close>

theorem phat_full_sane:
  assumes "process_phat_full st stamp rd RTT q = (ret, st', rd')" "0 < s_phat st" "0 \<le> s_Ep_sanity st"
  shows "\<bar>s_phat st' - s_phat st\<bar> \<le> s_Ep_sanity st * s_phat st
    \<and> (s_Ep_sanity st < 1 \<longrightarrow> 0 < s_phat st')
    \<and> (q \<noteq> 0 \<longrightarrow> s_phat st' = s_phat st)
    \<and> (s_phat st' \<noteq> s_phat st \<longrightarrow> s_phat st * (vc_real RTT - vc_real (s_RTThat st)) < s_Ep st)
    \<and> (s_phat st' \<noteq> s_phat st \<longrightarrow> HAS_STATUS rd' STARAD_PHAT_UPDATED)"
proof -
  have jump: "0 < s_phat st'" if "\<bar>s_phat st' - s_phat st\<bar> \<le> s_Ep_sanity st * s_phat st" "s_Ep_sanity st < 1"
  proof -
    have "s_Ep_sanity st * s_phat st < s_phat st" using that(2) assms(2) by simp
    then show ?thesis using that(1) by linarith
  qed
  show ?thesis
  proof (cases rule: process_phat_full_cases [of st stamp rd RTT q])
    case update
    have "\<bar>s_phat st' - s_phat st\<bar> \<le> s_Ep_sanity st * s_phat st"
      using update(1,2) assms by (simp add: pos_divide_le_eq abs_minus_commute)
    moreover have "HAS_STATUS rd' STARAD_PHAT_UPDATED"
      using update(1) assms(1) by (auto simp: HAS_DEL_STATUS_other)
    ultimately show ?thesis using update(3,4) jump by simp
  qed (use assms jump in auto)
qed

theorem phat_full_sane_witness:
  "\<exists>ret st' rd'. process_phat_full (null_state\<lparr>s_phat := 1, s_Ep_sanity := 1 / 2\<rparr>) zero_stamp null_data 0 1 = (ret, st', rd')
    \<and> \<bar>s_phat st' - 1\<bar> \<le> 1 / 2"
proof -
  obtain ret st' rd' where
    r: "process_phat_full (null_state\<lparr>s_phat := 1, s_Ep_sanity := 1 / 2\<rparr>) zero_stamp null_data 0 1 = (ret, st', rd')"
    by (metis prod_cases3)
  then show ?thesis using phat_full_sane [OF r] by auto
qed

text \<open>
  Sanity of the local period. A run of the full local period algorithm that does not fall
  back to \<open>phat\<close> (history not yet available after a window change, flagged in \<open>plocal_problem\<close>)
  moves \<open>plocal\<close> by at most the relative sanity bound, and not at all under a quality warning;
  \<open>phat\<close>, \<open>K\<close> and the offset are never touched.
\<close>

lemma plocal_full_sane:
  assumes "process_plocal_full st rd r pin q out = Some (ret, st', rd', out')"
    and "0 < s_plocal st" "0 \<le> s_Eplocal_sanity st"
  shows "(s_plocal st' = s_phat st \<and> s_plocal_problem st' = 1
      \<or> \<bar>s_plocal st' - s_plocal st\<bar> \<le> s_Eplocal_sanity st * s_plocal st
        \<and> (q \<noteq> 0 \<longrightarrow> s_plocal st' = s_plocal st))
    \<and> s_phat st' = s_phat st \<and> s_K st' = s_K st \<and> s_thetahat st' = s_thetahat st"
proof (cases rule: process_plocal_full_cases [OF assms(1)])
  case 2
  then show ?thesis
    using assms(2,3) by (auto simp: pos_divide_le_eq abs_minus_commute)
qed simp

end
