(* ===== verification/Algo_Theta.thy ===== *)
theory Algo_Theta
  imports Algo_State
begin

text \<open>
  Offset estimation of \<^verbatim>\<open>radclock/sync_bidir.c\<close>: the drift correction \<open>thetahat\<close> as a weighted
  average of naive offsets over a window, with quality and sanity control, and the path
  penalty metric by which servers are compared. Monitoring output (\<^verbatim>\<open>verbose\<close>) has no effect
  on the state and is left out.
\<close>

section \<open>The code\<close>

definition init_thetahat_full :: "bidir_algostate \<Rightarrow> bidir_stamp \<Rightarrow> bidir_algostate" where
  "init_thetahat_full state stamp =
     state\<lparr>s_offset_sanity_count := 0, s_offset_quality_count := 0, s_thetastamp := stamp\<rparr>"

definition parameters_calibration :: "bidir_algostate \<Rightarrow> bidir_algostate" where
  "parameters_calibration state =
     (let st1 = (if vc_real (s_RTThat state) < (3 / 10 ^ 3) / s_phat state
                 then state\<lparr>s_RTThat_shift_thres := real_to_u64 (of_int \<lceil>s_Eshift state / s_phat state\<rceil>),
                            s_Eoffset_qual := 3 * s_Eoffset state\<rparr>
                 else state\<lparr>s_RTThat_shift_thres := real_to_u64 (of_int \<lceil>3 * s_Eshift state / s_phat state\<rceil>),
                            s_Eoffset_qual := 6 * s_Eoffset state,
                            s_Eplocal_qual := 2 * s_Eplocal_qual state\<rparr>);
          thres = vc_real (s_RTThat_shift_thres st1) * s_phat st1
      in st1\<lparr>s_Dfhat_shift_thres := thres, s_Dbhat_shift_thres := thres\<rparr>)"

definition theta_naive :: "bidir_algostate \<Rightarrow> bidir_stamp \<Rightarrow> real" where
  "theta_naive state stamp =
     (s_phat state * (vc_real (Ta stamp) + vc_real (Tf stamp))
       + (2 * s_K state - (Tb stamp + Te stamp))) / 2"

text \<open>
  The old end of the offset window. \<open>lo\<close> is the bound the code enforces during a poll period
  transition (1 in warmup, 2 in the full algorithm). Returns the bound and the remaining
  length of the transition.
\<close>

definition theta_jmin :: "bidir_algostate \<Rightarrow> index_t \<Rightarrow> index_t \<times> index_t" where
  "theta_jmin state lo =
     (let si = s_stamp_i state;
          back = (\<lambda>win. if si > win - 1 then si - (win - 1) else 0)
      in if s_poll_transition_th state > 0
         then let adj_win = real_to_u64 (vc_real (s_offset_win state - s_poll_transition_th state)
                     + of_int \<lceil>vc_real (s_poll_transition_th state) * s_poll_ratio state\<rceil>)
              in (c_MAX lo (back adj_win), s_poll_transition_th state - 1)
         else (c_MAX 1 (back (s_offset_win state)), s_poll_transition_th state))"

text \<open>
  Error of the stamp \<open>j\<close> of the window as seen from the current stamp: its point error
  relative to the minimum \<open>base\<close>, aged at a pessimistic rate.
\<close>

definition theta_ET :: "bidir_metaparam \<Rightarrow> bidir_algostate \<Rightarrow> bidir_stamp \<Rightarrow> vcounter_t \<Rightarrow> vcounter_t \<Rightarrow>
    bidir_stamp \<Rightarrow> real" where
  "theta_ET mp state stamp base RTT_j stamp_j =
     s_phat state * (vc_real RTT_j - vc_real base)
       + s_phat state * vc_real (Tf stamp - Tf stamp_j) * mp_BestSKMrate mp"

definition theta_weight :: "bidir_algostate \<Rightarrow> real \<Rightarrow> real" where
  "theta_weight state ET = exp (- ET * ET / s_Eoffset state / s_Eoffset state)"

text \<open>The variables the window loop updates.\<close>

record theta_acc =
  a_gap :: real
  a_minET :: real
  a_jbest :: index_t
  a_Ebound_min :: real
  a_wsum :: real
  a_theta :: real

subsection \<open>Warmup\<close>

definition theta_warmup_body :: "bidir_metaparam \<Rightarrow> bidir_algostate \<Rightarrow> bidir_stamp \<Rightarrow> index_t \<Rightarrow>
    theta_acc \<Rightarrow> theta_acc option" where
  "theta_warmup_body mp st stamp j acc = do {
     RTT_j \<leftarrow> history_find (s_RTT_hist st) j;
     stamp_j \<leftarrow> history_find (s_stamp_hist st) j;
     let ET = theta_ET mp st stamp (s_RTThat st) RTT_j stamp_j;
     let acc1 = (if j = s_stamp_i st \<or> ET < a_minET acc
                 then acc\<lparr>a_minET := ET, a_jbest := j\<rparr> else acc);
     let wj = theta_weight st ET;
     th_j \<leftarrow> history_find (s_thnaive_hist st) j;
     Some (acc1\<lparr>a_wsum := a_wsum acc1 + wj, a_theta := a_theta acc1 + wj * th_j\<rparr>)
   }"

text \<open>The second loop, which both forms of the algorithm share.\<close>

definition theta_Ebound_body :: "bidir_metaparam \<Rightarrow> bidir_algostate \<Rightarrow> bidir_stamp \<Rightarrow> index_t \<Rightarrow>
    index_t \<Rightarrow> real \<Rightarrow> real option" where
  "theta_Ebound_body mp st stamp jbest j Ebound_min =
     (if j = jbest then Some Ebound_min
      else do {
        RTT_j \<leftarrow> history_find (s_RTT_hist st) j;
        stamp_j \<leftarrow> history_find (s_stamp_hist st) j;
        let ET = theta_ET mp st stamp (s_RTThat st) RTT_j stamp_j;
        if j = s_stamp_i st \<or> jbest = 1 \<and> j = s_stamp_i st - 1 then Some ET
        else if ET < Ebound_min then Some ET
        else Some Ebound_min
      })"

definition theta_causality :: "bidir_algostate \<Rightarrow> bidir_stamp \<Rightarrow> bidir_algooutput \<Rightarrow> bidir_algooutput" where
  "theta_causality st stamp output = output\<lparr>
     out_pDf := Tb stamp - (vc_real (Ta stamp) * s_phat st + s_K st) + s_thetahat st,
     out_pDb := vc_real (Tf stamp) * s_phat st + s_K st - Te stamp - s_thetahat st\<rparr>"

text \<open>Decision on the window result in warmup: sanity only warns.\<close>

definition theta_warmup_accept :: "bidir_algostate \<Rightarrow> bidir_stamp \<Rightarrow> radclock_data \<Rightarrow> theta_acc \<Rightarrow> real \<Rightarrow>
    bidir_algostate \<times> radclock_data" where
  "theta_warmup_accept st stamp rad_data acc Ebound_min =
     (let gapsize = s_phat st * vc_real (Tf stamp - Tf (s_stamp st))
      in if a_minET acc < s_Eoffset_qual st
         then let rd1 = DEL_STATUS rad_data STARAD_OFFSET_QUALITY;
                  thetahat = (if a_wsum acc = 0 then s_thetahat st else a_theta acc / a_wsum acc);
                  st1 = (if a_wsum acc = 0 then st
                         else st\<lparr>s_minET := a_minET acc,
                                 s_algo_err := (s_algo_err st)\<lparr>e_Ebound_min_last := Ebound_min\<rparr>,
                                 s_thetastamp := stamp\<rparr>)
              in if \<bar>s_thetahat st1 - thetahat\<bar> > s_Eoffset_sanity_min st1 + s_Eoffset_sanity_rate st1 * gapsize
                 then (st1\<lparr>s_offset_sanity_count := s_offset_sanity_count st1 + 1, s_thetahat := thetahat\<rparr>,
                       ADD_STATUS rd1 STARAD_OFFSET_SANITY)
                 else (st1\<lparr>s_thetahat := thetahat\<rparr>, DEL_STATUS rd1 STARAD_OFFSET_SANITY)
         else (st, ADD_STATUS rad_data STARAD_OFFSET_QUALITY))"

definition process_thetahat_warmup :: "bidir_metaparam \<Rightarrow> bidir_algostate \<Rightarrow> bidir_stamp \<Rightarrow>
    radclock_data \<Rightarrow> vcounter_t \<Rightarrow> bidir_algooutput \<Rightarrow>
    (bidir_algostate \<times> radclock_data \<times> bidir_algooutput) option" where
  "process_thetahat_warmup mp state stamp rad_data RTT output =
     (let si = s_stamp_i state;
          th_naive = theta_naive state stamp;
          (jm, pth) = theta_jmin state 1;
          st = state\<lparr>s_thnaive_hist := history_add (s_thnaive_hist state) si th_naive,
                     s_poll_transition_th := pth\<rparr>;
          jmin = c_MAX jm (c_MAX (history_old (s_RTT_hist st)) (history_old (s_thnaive_hist st)))
      in do {
        acc \<leftarrow> down_loop (theta_warmup_body mp st stamp) si jmin
                 \<lparr>a_gap = 0, a_minET = 0, a_jbest = 0, a_Ebound_min = 0, a_wsum = 0, a_theta = 0\<rparr>;
        Ebound_min \<leftarrow> down_loop (theta_Ebound_body mp st stamp (a_jbest acc)) si jmin (a_Ebound_min acc);
        let (st1, rd) = theta_warmup_accept st stamp rad_data acc Ebound_min;
        best \<leftarrow> history_find (s_stamp_hist st1) (a_jbest acc);
        Some (st1, rd, (theta_causality st1 stamp output)\<lparr>
          out_th_naive := th_naive, out_minET := a_minET acc, out_wsum := a_wsum acc,
          out_best_Tf := Tf best\<rparr>)
      })"

subsection \<open>Full algorithm\<close>

text \<open>\<open>junk\<close> is the indeterminate value of the variable \<^verbatim>\<open>Ebound\<close>, which is never assigned.\<close>

definition theta_full_body :: "real \<Rightarrow> bidir_metaparam \<Rightarrow> bidir_algostate \<Rightarrow> bidir_stamp \<Rightarrow> index_t \<Rightarrow>
    theta_acc \<Rightarrow> theta_acc option" where
  "theta_full_body junk mp st stamp j acc = do {
     gap \<leftarrow> (if j < s_stamp_i st - 1
            then do {
              s1 \<leftarrow> history_find (s_stamp_hist st) j;
              s2 \<leftarrow> history_find (s_stamp_hist st) (j + 1);
              Some (c_MAX (a_gap acc) (s_phat st * vc_real (Tf s2 - Tf s1)))
            }
            else Some (a_gap acc));
     RTT_j \<leftarrow> history_find (s_RTT_hist st) j;
     RTThat_j \<leftarrow> history_find (s_RTThat_hist st) j;
     stamp_j \<leftarrow> history_find (s_stamp_hist st) j;
     let ET = theta_ET mp st stamp RTThat_j RTT_j stamp_j;
     let acc1 = (if j = s_stamp_i st
                 then acc\<lparr>a_minET := ET, a_jbest := j, a_Ebound_min := junk\<rparr>
                 else if ET < a_minET acc then acc\<lparr>a_minET := ET, a_jbest := j\<rparr>
                 else acc);
     let wj = theta_weight st ET;
     th_j \<leftarrow> history_find (s_thnaive_hist st) j;
     let contrib = (if s_plocal_problem st \<noteq> 0 then th_j
                    else th_j - (s_plocal st / s_phat st - 1) * s_phat st * vc_real (Tf stamp - Tf stamp_j));
     Some (acc1\<lparr>a_gap := gap, a_wsum := a_wsum acc1 + wj, a_theta := a_theta acc1 + wj * contrib\<rparr>)
   }"

text \<open>The candidate for the new offset: the weighted average if the window has quality.\<close>

definition theta_full_candidate :: "bidir_algostate \<Rightarrow> theta_acc \<Rightarrow> real" where
  "theta_full_candidate st acc =
     (if a_minET acc < s_Eoffset_qual st
      then if a_wsum acc = 0 then s_thetahat st else a_theta acc / a_wsum acc
      else s_thetahat st)"

definition theta_full_accept :: "bidir_algostate \<Rightarrow> bidir_stamp \<Rightarrow> radclock_data \<Rightarrow> theta_acc \<Rightarrow> real \<Rightarrow> int \<Rightarrow>
    bidir_algostate \<times> radclock_data" where
  "theta_full_accept st stamp rad_data acc Ebound_min qual_warning =
     (let good = a_minET acc < s_Eoffset_qual st;
          thetahat = theta_full_candidate st acc;
          st1 = (if good then st else st\<lparr>s_offset_quality_count := s_offset_quality_count st + 1\<rparr>);
          rd1 = (if good then DEL_STATUS rad_data STARAD_OFFSET_QUALITY
                 else ADD_STATUS rad_data STARAD_OFFSET_QUALITY);
          gapsize = c_MAX (a_gap acc) (s_phat st * vc_real (Tf stamp - Tf (s_thetastamp st)))
      in if \<bar>s_thetahat st1 - thetahat\<bar> > s_Eoffset_sanity_min st1 + s_Eoffset_sanity_rate st1 * gapsize
            \<or> qual_warning \<noteq> 0
         then (st1\<lparr>s_offset_sanity_count := s_offset_sanity_count st1 + 1\<rparr>,
               ADD_STATUS rd1 STARAD_OFFSET_SANITY)
         else let st2 = st1\<lparr>s_thetahat := thetahat\<rparr>;
                  st3 = (if good \<and> a_wsum acc \<noteq> 0
                         then st2\<lparr>s_minET := a_minET acc, s_thetastamp := stamp,
                                  s_algo_err := (s_algo_err st2)\<lparr>e_Ebound_min_last := Ebound_min\<rparr>\<rparr>
                         else st2)
              in (st3, DEL_STATUS rd1 STARAD_OFFSET_SANITY))"

text \<open>The window never reaches back past the oldest item of any history it uses.\<close>

definition theta_full_start :: "bidir_algostate \<Rightarrow> index_t \<Rightarrow> index_t" where
  "theta_full_start st jmin =
     c_MAX jmin (c_MAX (history_old (s_stamp_hist st)) (c_MAX (history_old (s_RTT_hist st))
       (c_MAX (history_old (s_RTThat_hist st)) (history_old (s_thnaive_hist st)))))"

definition process_thetahat_full :: "real \<Rightarrow> bidir_metaparam \<Rightarrow> bidir_algostate \<Rightarrow> bidir_stamp \<Rightarrow>
    radclock_data \<Rightarrow> vcounter_t \<Rightarrow> int \<Rightarrow> bidir_algooutput \<Rightarrow>
    (bidir_algostate \<times> radclock_data \<times> bidir_algooutput) option" where
  "process_thetahat_full junk mp state stamp rad_data RTT qual_warning output =
     (let si = s_stamp_i state;
          th_naive = theta_naive state stamp;
          (jm, pth) = theta_jmin state 2;
          st = state\<lparr>s_thnaive_hist := history_add (s_thnaive_hist state) si th_naive,
                     s_poll_transition_th := pth\<rparr>;
          jmin = theta_full_start st jm
      in do {
        acc \<leftarrow> down_loop (theta_full_body junk mp st stamp) si jmin
                 \<lparr>a_gap = s_phat st * vc_real (Tf stamp - Tf (s_stamp st)), a_minET = 0, a_jbest = 0,
                  a_Ebound_min = 0, a_wsum = 0, a_theta = 0\<rparr>;
        Ebound_min \<leftarrow> down_loop (theta_Ebound_body mp st stamp (a_jbest acc)) si jmin (a_Ebound_min acc);
        let (st1, rd) = theta_full_accept st stamp rad_data acc Ebound_min qual_warning;
        best \<leftarrow> history_find (s_stamp_hist st1) (a_jbest acc);
        Some (st1, rd, (theta_causality st1 stamp output)\<lparr>
          out_th_naive := th_naive, out_minET := a_minET acc, out_wsum := a_wsum acc,
          out_best_Tf := Tf best\<rparr>)
      })"

section \<open>Path penalty\<close>

text \<open>One sample of the exponentially weighted average of the drift error.\<close>

definition pquality_sample :: "real \<Rightarrow> real \<Rightarrow> real \<times> real \<Rightarrow> real \<times> real" where
  "pquality_sample alpha driftpersample = (\<lambda>(Err, P).
     let Err' = Err + driftpersample in (Err', P * (1 - alpha) + alpha * Err'))"

definition update_pathpenalty_full :: "bidir_metaparam \<Rightarrow> bidir_algostate \<Rightarrow> bidir_stamp \<Rightarrow>
    bidir_algooutput \<Rightarrow> bidir_algostate \<times> bidir_algooutput" where
  "update_pathpenalty_full mp state stamp output =
     (let alpha = 1 - exp (- of_int (s_poll_period state) / mp_path_scale mp);
          Pbase = s_Pbase state * (1 - alpha)
                    + alpha * s_phat state * vc_real (s_RTThat state) * mp_relasym_bound_global mp;
          TV = (if s_RTThat state \<noteq> s_prevRTThat state
                then if s_RTThat state > s_prevRTThat state
                     then vc_real (s_RTThat state - s_prevRTThat state) * s_phat state / 2
                     else vc_real (s_prevRTThat state - s_RTThat state) * s_phat state / 2
                else 0);
          Pchange = s_Pchange state * sqrt (1 - alpha) + TV;
          stampgap = s_phat state * vc_real (Tf stamp - Tf (s_stamp state));
          driftpersample = of_int (s_poll_period state) * mp_RateErrBOUND mp;
          nsamples = nat (c_MAX 1 (round (stampgap / of_int (s_poll_period state))));
          (Err, Pquality) = (pquality_sample alpha driftpersample ^^ nsamples)
                              (s_Pquality_err state, s_Pquality state)
      in (state\<lparr>s_Pbase := Pbase, s_Pchange := Pchange, s_Pquality := Pquality,
                s_Pquality_err := (if s_thetastamp state = stamp then s_minET state else Err)\<rparr>,
          output\<lparr>out_pathpenalty := Pbase + Pchange + Pquality\<rparr>))"


section \<open>The window loops return\<close>

lemma history_find_held: "h_oldest_i h \<le> i \<Longrightarrow> \<exists>x. history_find h i = Some x"
  by (simp add: history_find_def not_less)

lemma history_old_held: "h_item_count h \<noteq> 0 \<Longrightarrow> history_old h = h_oldest_i h"
  by (simp add: history_old_def)

lemma theta_jmin_pos: "lo \<noteq> 0 \<Longrightarrow> fst (theta_jmin st lo) \<noteq> 0"
  by (auto simp: theta_jmin_def Let_def max_def split: if_splits)

lemma theta_jmin_le:
  assumes "0 < s_stamp_i st" "lo \<le> s_stamp_i st"
  shows "fst (theta_jmin st lo) \<le> s_stamp_i st"
proof -
  let ?si = "s_stamp_i st"
  have b: "(if ?si > w - 1 then ?si - (w - 1) else 0) \<le> ?si" for w :: index_t
    by (auto intro: word_sub_le less_imp_le)
  have "1 \<le> ?si" using assms(1) by (simp add: word_le_nat_alt word_less_nat_alt)
  then show ?thesis using b assms(2) by (auto simp: theta_jmin_def Let_def)
qed

lemma word_le_max_iff: "max (a :: index_t) b \<noteq> 0 \<longleftrightarrow> a \<noteq> 0 \<or> b \<noteq> 0"
  by (auto simp: max_def)

text \<open>
  What the window loop maintains once it has handled its first stamp: a positive total
  weight, a weighted sum between the same multiples of the bounds, a best stamp in range, and
  a gap that only grows.
\<close>

definition theta_acc_ok :: "real \<Rightarrow> real \<Rightarrow> index_t \<Rightarrow> index_t \<Rightarrow> real \<Rightarrow> theta_acc \<Rightarrow> bool" where
  "theta_acc_ok lo hi jmin si gap acc \<longleftrightarrow> 0 < a_wsum acc
     \<and> lo * a_wsum acc \<le> a_theta acc \<and> a_theta acc \<le> hi * a_wsum acc
     \<and> jmin \<le> a_jbest acc \<and> a_jbest acc \<le> si \<and> gap \<le> a_gap acc"

lemma weighted_step:
  fixes lo hi :: real
  assumes "lo * W \<le> T" "T \<le> hi * W" "lo \<le> c" "c \<le> hi" "0 < w"
  shows "lo * (W + w) \<le> T + w * c" "T + w * c \<le> hi * (W + w)"
proof -
  have "lo * w \<le> w * c" "w * c \<le> hi * w"
    using assms(3-5) by (simp_all add: mult.commute [of lo] mult.commute [of hi])
  then show "lo * (W + w) \<le> T + w * c" "T + w * c \<le> hi * (W + w)"
    using assms(1,2) by (simp_all add: distrib_left)
qed

lemma weighted_average:
  fixes lo hi :: real
  shows "0 < W \<Longrightarrow> lo * W \<le> T \<Longrightarrow> T \<le> hi * W \<Longrightarrow> lo \<le> T / W \<and> T / W \<le> hi"
  by (simp add: pos_le_divide_eq pos_divide_le_eq)

text \<open>The contribution of stamp \<open>j\<close> to the weighted sum of the full algorithm.\<close>

definition theta_contrib :: "bidir_algostate \<Rightarrow> bidir_stamp \<Rightarrow> index_t \<Rightarrow> real option" where
  "theta_contrib st stamp j = do {
     stamp_j \<leftarrow> history_find (s_stamp_hist st) j;
     th_j \<leftarrow> history_find (s_thnaive_hist st) j;
     Some (if s_plocal_problem st \<noteq> 0 then th_j
           else th_j - (s_plocal st / s_phat st - 1) * s_phat st * vc_real (Tf stamp - Tf stamp_j))
   }"

definition theta_held :: "bidir_algostate \<Rightarrow> index_t \<Rightarrow> bool" where
  "theta_held st j \<longleftrightarrow> h_oldest_i (s_stamp_hist st) \<le> j \<and> h_oldest_i (s_RTT_hist st) \<le> j
     \<and> h_oldest_i (s_RTThat_hist st) \<le> j \<and> h_oldest_i (s_thnaive_hist st) \<le> j"

lemma theta_full_body_step:
  assumes "theta_held st j" "theta_contrib st stamp j = Some c" "lo \<le> c" "c \<le> hi"
    and "j + 1 \<noteq> 0" "0 \<le> a_wsum acc" "lo * a_wsum acc \<le> a_theta acc" "a_theta acc \<le> hi * a_wsum acc"
    and "jmin \<le> j" "j \<le> s_stamp_i st" "j = s_stamp_i st \<or> jmin \<le> a_jbest acc \<and> a_jbest acc \<le> s_stamp_i st"
    and "gap \<le> a_gap acc"
  shows "\<exists>acc'. theta_full_body junk mp st stamp j acc = Some acc' \<and> theta_acc_ok lo hi jmin (s_stamp_i st) gap acc'"
proof -
  obtain R H S where f: "history_find (s_RTT_hist st) j = Some R" "history_find (s_RTThat_hist st) j = Some H"
      "history_find (s_stamp_hist st) j = Some S"
    using assms(1) history_find_held unfolding theta_held_def by metis
  obtain th where th: "history_find (s_thnaive_hist st) j = Some th"
    using assms(1) history_find_held unfolding theta_held_def by metis
  have "j \<le> j + 1" using word_less_plus_one [OF assms(5)] by simp
  then obtain S1 where S1: "history_find (s_stamp_hist st) (j + 1) = Some S1"
    using assms(1) history_find_held [of "s_stamp_hist st" "j + 1"] unfolding theta_held_def by (meson order_trans)
  let ?ET = "theta_ET mp st stamp H R S"
  let ?w = "theta_weight st ?ET"
  have c: "c = (if s_plocal_problem st \<noteq> 0 then th
      else th - (s_plocal st / s_phat st - 1) * s_phat st * vc_real (Tf stamp - Tf S))"
    using assms(2) f th by (simp add: theta_contrib_def split: if_splits)
  have w: "0 < ?w" by (simp add: theta_weight_def)
  note ws = weighted_step [OF assms(7,8,3,4) w]
  obtain acc' where acc': "theta_full_body junk mp st stamp j acc = Some acc'"
      "a_wsum acc' = a_wsum acc + ?w" "a_theta acc' = a_theta acc + ?w * c"
      "a_jbest acc' = j \<or> j \<noteq> s_stamp_i st \<and> a_jbest acc' = a_jbest acc" "a_gap acc \<le> a_gap acc'"
  proof -
    have "\<exists>g. (if j < s_stamp_i st - 1
        then do {s1 \<leftarrow> history_find (s_stamp_hist st) j; s2 \<leftarrow> history_find (s_stamp_hist st) (j + 1);
                 Some (c_MAX (a_gap acc) (s_phat st * vc_real (Tf s2 - Tf s1)))}
        else Some (a_gap acc)) = Some g \<and> a_gap acc \<le> g"
      by (simp add: f S1)
    then obtain g where "(if j < s_stamp_i st - 1
        then do {s1 \<leftarrow> history_find (s_stamp_hist st) j; s2 \<leftarrow> history_find (s_stamp_hist st) (j + 1);
                 Some (c_MAX (a_gap acc) (s_phat st * vc_real (Tf s2 - Tf s1)))}
        else Some (a_gap acc)) = Some g" "a_gap acc \<le> g" by blast
    then show thesis
      by (intro that) (simp_all only: theta_full_body_def Let_def c f th S1 Option.bind.bind_lunit,
          simp_all split: if_splits)
  qed
  then have "theta_acc_ok lo hi jmin (s_stamp_i st) gap acc'"
    using ws w assms(6,9-12) by (auto simp: theta_acc_ok_def)
  then show ?thesis using acc'(1) by blast
qed

lemma theta_held_mono: "theta_held st i \<Longrightarrow> i \<le> j \<Longrightarrow> theta_held st j"
  by (auto simp: theta_held_def)

lemma index_succ_ne_0:
  fixes j si :: index_t
  assumes "j \<le> si" "si + 1 \<noteq> 0"
  shows "j + 1 \<noteq> 0"
proof
  assume "j + 1 = 0"
  then have "j = -1" by (simp add: eq_neg_iff_add_eq_0)
  then have "si = -1" using assms(1) by (simp add: word_order.extremum_unique)
  then show False using assms(2) by simp
qed

lemma theta_full_loop:
  assumes "jmin \<noteq> 0" "jmin \<le> s_stamp_i st" "s_stamp_i st + 1 \<noteq> 0" "theta_held st jmin"
    and contrib: "\<And>j c. jmin \<le> j \<Longrightarrow> j \<le> s_stamp_i st \<Longrightarrow> theta_contrib st stamp j = Some c \<Longrightarrow> lo \<le> c \<and> c \<le> hi"
    and "a_wsum accz = 0" "a_theta accz = 0"
  shows "\<exists>acc. down_loop (theta_full_body junk mp st stamp) (s_stamp_i st) jmin accz = Some acc
    \<and> theta_acc_ok lo hi jmin (s_stamp_i st) (a_gap accz) acc"
proof -
  let ?si = "s_stamp_i st" and ?P = "theta_acc_ok lo hi jmin (s_stamp_i st) (a_gap accz)"
  have found: "\<exists>c. theta_contrib st stamp j = Some c \<and> lo \<le> c \<and> c \<le> hi \<and> theta_held st j \<and> j + 1 \<noteq> 0"
    if j: "jmin \<le> j" "j \<le> ?si" for j
  proof -
    have held: "theta_held st j" using theta_held_mono [OF assms(4)] j by blast
    then obtain S th where "history_find (s_stamp_hist st) j = Some S" "history_find (s_thnaive_hist st) j = Some th"
      using history_find_held unfolding theta_held_def by metis
    then obtain c where "theta_contrib st stamp j = Some c" by (simp add: theta_contrib_def)
    then show ?thesis using contrib [OF j] held index_succ_ne_0 [OF j(2) assms(3)] by blast
  qed
  obtain acc1 where acc1: "theta_full_body junk mp st stamp ?si accz = Some acc1" "?P acc1"
  proof -
    obtain c where c: "theta_held st ?si" "theta_contrib st stamp ?si = Some c" "lo \<le> c" "c \<le> hi" "?si + 1 \<noteq> 0"
      using found [OF assms(2) order_refl] by blast
    then show thesis
      using theta_full_body_step [OF c(1-5), of accz jmin "a_gap accz"] assms(2,6,7) that by auto
  qed
  have "\<exists>acc. down_loop (theta_full_body junk mp st stamp) (?si - 1) jmin acc1 = Some acc \<and> ?P acc"
  proof (rule down_loop_total [where P = ?P, OF assms(1) acc1(2)])
    fix j acc assume j: "jmin \<le> j" "j \<le> ?si - 1" and P: "?P acc"
    have "?si \<noteq> 0" using assms(1,2) by (auto simp: word_neq_0_conv)
    then have le: "j \<le> ?si" using j(2) word_minus_one_less [of ?si] by (meson less_imp_le order_trans)
    show "\<exists>acc'. theta_full_body junk mp st stamp j acc = Some acc' \<and> ?P acc'"
    proof -
      obtain c where c: "theta_held st j" "theta_contrib st stamp j = Some c" "lo \<le> c" "c \<le> hi" "j + 1 \<noteq> 0"
        using found [OF j(1) le] by blast
      then show ?thesis
        using theta_full_body_step [OF c(1-5), of acc jmin "a_gap accz"] P j(1) le by (auto simp: theta_acc_ok_def)
    qed
  qed
  then show ?thesis
    using down_loop_step [OF assms(1,2), of "theta_full_body junk mp st stamp" accz] acc1(1) by simp
qed

lemma theta_Ebound_loop:
  assumes "jmin \<noteq> 0" "theta_held st jmin"
  shows "\<exists>e'. down_loop (theta_Ebound_body mp st stamp jbest) si jmin e = Some e'"
proof -
  have "\<exists>e'. theta_Ebound_body mp st stamp jbest j e = Some e' \<and> True" if j: "jmin \<le> j" for j e
  proof -
    have "theta_held st j" using theta_held_mono [OF assms(2) j] .
    then obtain R S where "history_find (s_RTT_hist st) j = Some R" "history_find (s_stamp_hist st) j = Some S"
      using history_find_held unfolding theta_held_def by metis
    then show ?thesis by (auto simp: theta_Ebound_body_def Let_def)
  qed
  then show ?thesis
    using down_loop_total [OF assms(1), of "\<lambda>_. True" e si "theta_Ebound_body mp st stamp jbest"] by simp
qed

lemma theta_full_accept_frame:
  "s_K (fst (theta_full_accept st stamp rd acc e q)) = s_K st
    \<and> s_phat (fst (theta_full_accept st stamp rd acc e q)) = s_phat st
    \<and> s_stamp (fst (theta_full_accept st stamp rd acc e q)) = s_stamp st
    \<and> s_stamp_hist (fst (theta_full_accept st stamp rd acc e q)) = s_stamp_hist st
    \<and> s_stamp_i (fst (theta_full_accept st stamp rd acc e q)) = s_stamp_i st"
  by (simp add: theta_full_accept_def Let_def)

lemma theta_full_accept_value:
  "s_thetahat (fst (theta_full_accept st stamp rd acc e q)) = s_thetahat st
    \<or> q = 0 \<and> a_minET acc < s_Eoffset_qual st
      \<and> s_thetahat (fst (theta_full_accept st stamp rd acc e q)) = a_theta acc / a_wsum acc"
  by (auto simp: theta_full_accept_def theta_full_candidate_def Let_def)


text \<open>State after the naive offset has been stored, on which the window loops run.\<close>

definition theta_prepared :: "bidir_algostate \<Rightarrow> bidir_stamp \<Rightarrow> index_t \<Rightarrow> bidir_algostate" where
  "theta_prepared st stamp lo = st\<lparr>
     s_thnaive_hist := history_add (s_thnaive_hist st) (s_stamp_i st) (theta_naive st stamp),
     s_poll_transition_th := snd (theta_jmin st lo)\<rparr>"

definition theta_ready :: "bidir_algostate \<Rightarrow> bool" where
  "theta_ready st \<longleftrightarrow> h_item_count (s_stamp_hist st) \<noteq> 0 \<and> h_item_count (s_RTT_hist st) \<noteq> 0
     \<and> h_item_count (s_RTThat_hist st) \<noteq> 0 \<and> h_item_count (s_thnaive_hist st) \<noteq> 0
     \<and> theta_held st (s_stamp_i st)"

lemma theta_full_start_props:
  assumes "theta_ready st" "jm \<noteq> 0" "jm \<le> s_stamp_i st"
  shows "theta_full_start st jm \<noteq> 0" "theta_full_start st jm \<le> s_stamp_i st" "theta_held st (theta_full_start st jm)"
  using assms by (auto simp: theta_full_start_def theta_ready_def theta_held_def history_old_held word_le_max_iff le_max_iff_disj)

lemma process_thetahat_full_split:
  fixes st stamp
  defines "p \<equiv> theta_prepared st stamp 2"
  defines "jmin \<equiv> theta_full_start p (fst (theta_jmin st 2))"
  assumes "down_loop (theta_full_body junk mp p stamp) (s_stamp_i st) jmin
      \<lparr>a_gap = s_phat st * vc_real (Tf stamp - Tf (s_stamp st)), a_minET = 0, a_jbest = 0,
       a_Ebound_min = 0, a_wsum = 0, a_theta = 0\<rparr> = Some acc"
    and "down_loop (theta_Ebound_body mp p stamp (a_jbest acc)) (s_stamp_i st) jmin (a_Ebound_min acc) = Some e"
    and "history_find (s_stamp_hist p) (a_jbest acc) = Some best"
  shows "\<exists>out'. process_thetahat_full junk mp st stamp rd RTT q out =
    Some (fst (theta_full_accept p stamp rd acc e q), snd (theta_full_accept p stamp rd acc e q), out')"
proof -
  have eq: "process_thetahat_full junk mp st stamp rd RTT q out = do {
      acc \<leftarrow> down_loop (theta_full_body junk mp p stamp) (s_stamp_i st) jmin
        \<lparr>a_gap = s_phat st * vc_real (Tf stamp - Tf (s_stamp st)), a_minET = 0, a_jbest = 0,
         a_Ebound_min = 0, a_wsum = 0, a_theta = 0\<rparr>;
      e \<leftarrow> down_loop (theta_Ebound_body mp p stamp (a_jbest acc)) (s_stamp_i st) jmin (a_Ebound_min acc);
      let r = theta_full_accept p stamp rd acc e q;
      best \<leftarrow> history_find (s_stamp_hist (fst r)) (a_jbest acc);
      Some (fst r, snd r, (theta_causality (fst r) stamp out)\<lparr>
        out_th_naive := theta_naive st stamp, out_minET := a_minET acc, out_wsum := a_wsum acc,
        out_best_Tf := Tf best\<rparr>)}"
    unfolding p_def jmin_def theta_prepared_def process_thetahat_full_def
    by (cases "theta_jmin st 2") (simp add: Let_def split_def)
  have "s_stamp_hist (fst (theta_full_accept p stamp rd acc e q)) = s_stamp_hist p"
    using theta_full_accept_frame by blast
  then show ?thesis unfolding eq Let_def assms(3) Option.bind.bind_lunit assms(4) by (simp add: assms(5))
qed

text \<open>
  C14: The offset estimate of the full algorithm is a weighted average. For a stamp index of at
  least 2 and histories that hold the current stamp, \<open>process_thetahat_full\<close> runs to completion
  (no lookup fails and both window loops end); if the naive offsets of the window, each
  corrected by the local period, lie between \<open>lo\<close> and \<open>hi\<close>, the new estimate lies between them
  too, unless the old one is kept; under a quality warning it is always kept; period, \<open>K\<close> and
  stamp index do not change.
\<close>

theorem thetahat_full_average:
  assumes ready: "theta_ready (theta_prepared st stamp 2)" and si: "2 \<le> s_stamp_i st" "s_stamp_i st + 1 \<noteq> 0"
    and contrib: "\<And>j c. theta_full_start (theta_prepared st stamp 2) (fst (theta_jmin st 2)) \<le> j \<Longrightarrow>
      j \<le> s_stamp_i st \<Longrightarrow> theta_contrib (theta_prepared st stamp 2) stamp j = Some c \<Longrightarrow> lo \<le> c \<and> c \<le> hi"
  shows "\<exists>st' rd' out'. process_thetahat_full junk mp st stamp rd RTT q out = Some (st', rd', out')
    \<and> (s_thetahat st' = s_thetahat st \<or> q = 0 \<and> lo \<le> s_thetahat st' \<and> s_thetahat st' \<le> hi)
    \<and> s_phat st' = s_phat st \<and> s_K st' = s_K st \<and> s_stamp_i st' = s_stamp_i st"
proof -
  let ?p = "theta_prepared st stamp 2"
  let ?jmin = "theta_full_start ?p (fst (theta_jmin st 2))"
  have fr: "s_stamp_i ?p = s_stamp_i st" "s_thetahat ?p = s_thetahat st" "s_phat ?p = s_phat st" "s_K ?p = s_K st"
    by (simp_all add: theta_prepared_def)
  have "0 < s_stamp_i st" using si(1) by (auto simp: word_le_nat_alt word_less_nat_alt)
  then have jm: "fst (theta_jmin st 2) \<noteq> 0" "fst (theta_jmin st 2) \<le> s_stamp_i ?p"
    using theta_jmin_pos [of 2 st] theta_jmin_le [of st 2] si(1) fr by auto
  note start = theta_full_start_props [OF ready jm]
  let ?acc0 = "\<lparr>a_gap = s_phat st * vc_real (Tf stamp - Tf (s_stamp st)), a_minET = 0, a_jbest = 0,
      a_Ebound_min = 0, a_wsum = 0, a_theta = 0\<rparr>"
  obtain acc where acc: "down_loop (theta_full_body junk mp ?p stamp) (s_stamp_i st) ?jmin ?acc0 = Some acc"
      "theta_acc_ok lo hi ?jmin (s_stamp_i st) (a_gap ?acc0) acc"
    using theta_full_loop [OF start(1,2) _ start(3), where stamp = stamp and lo = lo and hi = hi and accz = ?acc0 and junk = junk and mp = mp]
      contrib si(2) fr by auto
  obtain e where e: "down_loop (theta_Ebound_body mp ?p stamp (a_jbest acc)) (s_stamp_i st) ?jmin (a_Ebound_min acc) = Some e"
    using theta_Ebound_loop [OF start(1,3)] by blast
  have "theta_held ?p (a_jbest acc)" using acc(2) theta_held_mono [OF start(3)] by (simp add: theta_acc_ok_def)
  then obtain best where best: "history_find (s_stamp_hist ?p) (a_jbest acc) = Some best"
    using history_find_held unfolding theta_held_def by metis
  have avg: "lo \<le> a_theta acc / a_wsum acc \<and> a_theta acc / a_wsum acc \<le> hi"
    using acc(2) weighted_average [of "a_wsum acc" lo "a_theta acc" hi] by (simp add: theta_acc_ok_def)
  obtain out' where "process_thetahat_full junk mp st stamp rd RTT q out =
      Some (fst (theta_full_accept ?p stamp rd acc e q), snd (theta_full_accept ?p stamp rd acc e q), out')"
    using process_thetahat_full_split [OF acc(1) e best] by blast
  then show ?thesis
    using theta_full_accept_value [of ?p stamp rd acc e q] theta_full_accept_frame [of ?p stamp rd acc e q] avg fr by auto
qed

lemma replicate_update_same: "(replicate n x)[i := x] = replicate n x"
  by (cases "i < n") (simp_all add: list_update_same_conv list_update_beyond not_less)

theorem thetahat_full_average_witness:
  "\<exists>st st' rd' out'. s_stamp_i st = 2 \<and> process_thetahat_full 0 excel_metaparam st zero_stamp null_data 0 0 null_output = Some (st', rd', out')
    \<and> s_thetahat st' = 0"
proof -
  let ?i = "the (history_init True (0 :: real) 4)" and ?v = "the (history_init True (0 :: vcounter_t) 4)"
  let ?s = "the (history_init True zero_stamp 4)"
  define st where "st = null_state\<lparr>s_stamp_i := 2, s_offset_win := 2, s_plocal_problem := 1,
      s_stamp_hist := history_feed [zero_stamp, zero_stamp, zero_stamp] ?s,
      s_RTT_hist := history_feed [0, 0, 0] ?v, s_RTThat_hist := history_feed [0, 0, 0] ?v,
      s_thnaive_hist := history_feed [0, 0] ?i\<rparr>"
  let ?p = "theta_prepared st zero_stamp 2"
  note ev = st_def theta_prepared_def theta_naive_def null_state_def zero_stamp_def history_feed_def
    history_add_def history_init_def history_slot_def Let_def
  have ready: "theta_ready ?p" by (simp add: theta_ready_def theta_held_def ev)
  have buf: "h_buffer (s_thnaive_hist ?p) = replicate 4 0" "h_buffer_sz (s_thnaive_hist ?p) = 4"
      "h_oldest_i (s_thnaive_hist ?p) = 0"
    by (simp_all add: ev replicate_update_same)
  have zero: "0 \<le> c \<and> c \<le> 0" if c: "theta_contrib ?p zero_stamp j = Some c" for j c
  proof -
    have "unat (j mod 4) < 4" by (simp add: unat_mod)
    then have "history_find (s_thnaive_hist ?p) j = Some 0"
      unfolding history_find_def buf history_slot_def by simp
    moreover have "s_plocal_problem ?p = 1" by (simp add: theta_prepared_def st_def)
    ultimately show ?thesis using c by (auto simp: theta_contrib_def split: bind_splits)
  qed
  have pre: "2 \<le> s_stamp_i st" "s_stamp_i st + 1 \<noteq> 0" by (simp_all add: st_def)
  have "\<exists>st' rd' out'. process_thetahat_full 0 excel_metaparam st zero_stamp null_data 0 0 null_output = Some (st', rd', out')
      \<and> (s_thetahat st' = s_thetahat st \<or> (0::int) = 0 \<and> 0 \<le> s_thetahat st' \<and> s_thetahat st' \<le> 0)
      \<and> s_phat st' = s_phat st \<and> s_K st' = s_K st \<and> s_stamp_i st' = s_stamp_i st"
    by (rule thetahat_full_average [OF ready pre]) (rule zero)
  then obtain st' rd' out' where "process_thetahat_full 0 excel_metaparam st zero_stamp null_data 0 0 null_output = Some (st', rd', out')"
      "s_thetahat st' = s_thetahat st \<or> (0::int) = 0 \<and> 0 \<le> s_thetahat st' \<and> s_thetahat st' \<le> 0"
    by blast
  moreover have "s_stamp_i st = 2" "s_thetahat st = 0" by (simp_all add: st_def null_state_def)
  ultimately show ?thesis by (metis order_antisym)
qed

text \<open>
  C20: Sanity of the offset. The decision step of the full offset algorithm moves \<open>thetahat\<close> by at
  most the sanity bound for the widest gap seen (in the window or since the last accepted
  update); it keeps the old value under a quality warning or if no stamp of the window has quality,
  and it records the current stamp as the last update only when the quality was good.
\<close>

theorem thetahat_full_sane:
  assumes "theta_full_accept st stamp rd acc e q = (st', rd')"
    and "0 \<le> s_Eoffset_sanity_min st" "0 \<le> s_Eoffset_sanity_rate st" "0 \<le> a_gap acc"
  shows "\<bar>s_thetahat st' - s_thetahat st\<bar> \<le> s_Eoffset_sanity_min st + s_Eoffset_sanity_rate st
      * max (a_gap acc) (s_phat st * vc_real (Tf stamp - Tf (s_thetastamp st)))
    \<and> (q \<noteq> 0 \<or> a_minET acc \<ge> s_Eoffset_qual st \<longrightarrow> s_thetahat st' = s_thetahat st \<and> s_thetastamp st' = s_thetastamp st)
    \<and> HAS_STATUS rd' STARAD_OFFSET_QUALITY = (a_minET acc \<ge> s_Eoffset_qual st)"
proof -
  let ?g = "max (a_gap acc) (s_phat st * vc_real (Tf stamp - Tf (s_thetastamp st)))"
  let ?b = "s_Eoffset_sanity_min st + s_Eoffset_sanity_rate st * ?g"
  have b: "0 \<le> ?b" using assms(2-4) by (intro add_nonneg_nonneg mult_nonneg_nonneg) auto
  have st': "st' = fst (theta_full_accept st stamp rd acc e q)" "rd' = snd (theta_full_accept st stamp rd acc e q)"
    using assms(1) by simp_all
  have "\<bar>s_thetahat st' - s_thetahat st\<bar> \<le> ?b"
    using b unfolding st' by (auto simp: theta_full_accept_def Let_def abs_minus_commute not_less)
  moreover have "q \<noteq> 0 \<or> a_minET acc \<ge> s_Eoffset_qual st \<longrightarrow> s_thetahat st' = s_thetahat st \<and> s_thetastamp st' = s_thetastamp st"
    unfolding st' by (auto simp: theta_full_accept_def theta_full_candidate_def Let_def)
  moreover have "HAS_STATUS rd' STARAD_OFFSET_QUALITY = (a_minET acc \<ge> s_Eoffset_qual st)"
    unfolding st' by (auto simp: theta_full_accept_def Let_def HAS_ADD_STATUS_other HAS_DEL_STATUS_other)
  ultimately show ?thesis by blast
qed

theorem thetahat_full_sane_witness:
  "\<exists>st' rd'. theta_full_accept (null_state\<lparr>s_Eoffset_qual := 1\<rparr>) zero_stamp null_data
      \<lparr>a_gap = 0, a_minET = 0, a_jbest = 0, a_Ebound_min = 0, a_wsum = 1, a_theta = 5\<rparr> 0 0 = (st', rd')
    \<and> \<bar>s_thetahat st'\<bar> \<le> 0"
proof -
  let ?st = "null_state\<lparr>s_Eoffset_qual := 1\<rparr>"
  let ?acc = "\<lparr>a_gap = 0, a_minET = 0, a_jbest = 0, a_Ebound_min = 0, a_wsum = 1, a_theta = 5\<rparr>"
  obtain st' rd' where r: "theta_full_accept ?st zero_stamp null_data ?acc 0 0 = (st', rd')" by (metis surj_pair)
  then show ?thesis using thetahat_full_sane [OF r] by (auto simp: null_state_def)
qed

text \<open>
  The error bound recorded with an offset is not the second best error of the window that the
  comment announces: when the current stamp itself is the best one, the second loop only
  lowers the value it started from, which is 0 in warmup (and indeterminate in the full
  algorithm). With non-negative errors the recorded bound is that starting value.
\<close>

lemma Ebound_not_second_best:
  assumes "jmin \<noteq> 0" "theta_held st jmin" "s_stamp_i st \<noteq> 1"
    and "\<And>j R S. jmin \<le> j \<Longrightarrow> history_find (s_RTT_hist st) j = Some R \<Longrightarrow>
      history_find (s_stamp_hist st) j = Some S \<Longrightarrow> e0 \<le> theta_ET mp st stamp (s_RTThat st) R S"
  shows "down_loop (theta_Ebound_body mp st stamp (s_stamp_i st)) (s_stamp_i st) jmin e0 = Some e0"
proof -
  have "\<exists>e'. theta_Ebound_body mp st stamp (s_stamp_i st) j e = Some e' \<and> e' = e0"
    if j: "jmin \<le> j" "e = e0" for j e
  proof -
    have "theta_held st j" using theta_held_mono [OF assms(2) j(1)] .
    then obtain R S where f: "history_find (s_RTT_hist st) j = Some R" "history_find (s_stamp_hist st) j = Some S"
      using history_find_held unfolding theta_held_def by metis
    then show ?thesis using assms(3) assms(4) [OF j(1) f] j(2) by (auto simp: theta_Ebound_body_def Let_def)
  qed
  then show ?thesis
    using down_loop_total [OF assms(1), of "\<lambda>e. e = e0" e0 "s_stamp_i st" "theta_Ebound_body mp st stamp (s_stamp_i st)"]
    by blast
qed

section \<open>Properties of the path penalty\<close>

lemma pquality_samples:
  assumes "0 \<le> a" "a \<le> 1" "0 \<le> d" "0 \<le> E" "0 \<le> P"
  shows "case (pquality_sample a d ^^ n) (E, P) of (E', P') \<Rightarrow>
    E' = E + real n * d \<and> 0 \<le> P' \<and> P' \<le> max P (E + real n * d)"
proof (induction n)
  case 0
  then show ?case using assms by simp
next
  case (Suc n)
  obtain E1 P1 where s: "(pquality_sample a d ^^ n) (E, P) = (E1, P1)" by (cases "(pquality_sample a d ^^ n) (E, P)")
  then have IH: "E1 = E + real n * d" "0 \<le> P1" "P1 \<le> max P (E + real n * d)" using Suc by simp_all
  let ?E = "E + real (Suc n) * d" and ?M = "max P (E + real (Suc n) * d)"
  have E: "E1 + d = ?E" "0 \<le> ?E" "P1 \<le> ?M" "?E \<le> ?M"
    using IH assms by (auto simp: algebra_simps max_def split: if_splits)
  have "P1 * (1 - a) \<le> ?M * (1 - a)" "a * ?E \<le> a * ?M"
    using E assms by (auto intro: mult_right_mono mult_left_mono)
  moreover have "?M * (1 - a) + a * ?M = ?M" by (simp add: algebra_simps)
  moreover have "0 \<le> P1 * (1 - a) + a * ?E" using IH(2) E(2) assms by simp
  ultimately have "0 \<le> P1 * (1 - a) + a * ?E" "P1 * (1 - a) + a * ?E \<le> ?M" by linarith+
  moreover have "(pquality_sample a d ^^ Suc n) (E, P) = (?E, P1 * (1 - a) + a * ?E)"
    using s E(1) by (simp add: pquality_sample_def Let_def)
  ultimately show ?case by simp
qed

text \<open>
  Path penalty. For non-negative inputs every component of the penalty stays non-negative
  and the penalty is their sum; the baseline component stays below the larger of its old value
  and the current baseline; the change component shrinks (by the square root of the smoothing
  factor) whenever the baseline RTT does not move; the quality component stays below the
  larger of its old value and the drift error accumulated over the gap, however long.
\<close>

lemma pathpenalty_bounds:
  assumes r: "update_pathpenalty_full mp st stamp out = (st', out')"
    and pp: "0 < s_poll_period st" "0 < mp_path_scale mp"
    and nn: "0 \<le> s_phat st" "0 \<le> mp_relasym_bound_global mp" "0 \<le> mp_RateErrBOUND mp"
      "0 \<le> s_Pbase st" "0 \<le> s_Pchange st" "0 \<le> s_Pquality st" "0 \<le> s_Pquality_err st"
  shows "0 \<le> s_Pbase st' \<and> 0 \<le> s_Pchange st' \<and> 0 \<le> s_Pquality st'
    \<and> out_pathpenalty out' = s_Pbase st' + s_Pchange st' + s_Pquality st'
    \<and> s_Pbase st' \<le> max (s_Pbase st) (s_phat st * vc_real (s_RTThat st) * mp_relasym_bound_global mp)
    \<and> (s_RTThat st = s_prevRTThat st \<longrightarrow>
        s_Pchange st' = s_Pchange st * exp (- (of_int (s_poll_period st) / mp_path_scale mp) / 2))
    \<and> s_Pquality st' \<le> max (s_Pquality st) (s_Pquality_err st
        + max 1 (round (s_phat st * vc_real (Tf stamp - Tf (s_stamp st)) / of_int (s_poll_period st)))
          * (of_int (s_poll_period st) * mp_RateErrBOUND mp))"
proof -
  define x where "x = real_of_int (s_poll_period st) / mp_path_scale mp"
  define a where "a = 1 - exp (- x)"
  define d where "d = real_of_int (s_poll_period st) * mp_RateErrBOUND mp"
  define n where "n = nat (max 1 (round (s_phat st * vc_real (Tf stamp - Tf (s_stamp st)) / of_int (s_poll_period st))))"
  define B where "B = s_phat st * vc_real (s_RTThat st) * mp_relasym_bound_global mp"
  have "0 < x" using pp by (simp add: x_def)
  then have a: "0 \<le> a" "a \<le> 1" by (simp_all add: a_def)
  obtain E' P' where EP: "(pquality_sample a d ^^ n) (s_Pquality_err st, s_Pquality st) = (E', P')"
    by (cases "(pquality_sample a d ^^ n) (s_Pquality_err st, s_Pquality st)")
  have P': "0 \<le> P'" "P' \<le> max (s_Pquality st) (s_Pquality_err st + real n * d)"
    using pquality_samples [OF a, of d "s_Pquality_err st" "s_Pquality st" n] EP nn pp by (auto simp: d_def)
  have f: "s_Pbase st' = s_Pbase st * (1 - a) + a * B" "s_Pquality st' = P'"
      "s_Pchange st' = s_Pchange st * sqrt (1 - a) +
        (if s_RTThat st \<noteq> s_prevRTThat st
         then if s_RTThat st > s_prevRTThat st then vc_real (s_RTThat st - s_prevRTThat st) * s_phat st / 2
              else vc_real (s_prevRTThat st - s_RTThat st) * s_phat st / 2 else 0)"
      "out_pathpenalty out' = s_Pbase st' + s_Pchange st' + s_Pquality st'"
    using r EP by (auto simp: update_pathpenalty_full_def Let_def a_def x_def d_def n_def B_def mult.assoc split: prod.splits)
  have B: "0 \<le> B" using nn by (simp add: B_def)
  let ?M = "max (s_Pbase st) B"
  have "s_Pbase st * (1 - a) \<le> ?M * (1 - a)" "a * B \<le> a * ?M"
    using a by (auto intro: mult_right_mono mult_left_mono)
  moreover have "?M * (1 - a) + a * ?M = ?M" by (simp add: algebra_simps)
  ultimately have "s_Pbase st' \<le> ?M" using f(1) by linarith
  moreover have "0 \<le> s_Pbase st'" "0 \<le> s_Pchange st'" using f(1,3) nn a B by auto
  moreover have "sqrt (1 - a) = exp (- x / 2)"
  proof -
    have "(exp (- x / 2))\<^sup>2 = exp (- x)" by (simp flip: exp_double)
    then show ?thesis by (simp add: a_def real_sqrt_unique)
  qed
  moreover have "real n = max 1 (round (s_phat st * vc_real (Tf stamp - Tf (s_stamp st)) / of_int (s_poll_period st)))"
    by (simp add: n_def)
  ultimately show ?thesis using f P' by (simp add: x_def d_def B_def)
qed

end
