(* ===== verification/Algo_Bidir.thy ===== *)
theory Algo_Bidir
  imports Algo_RTT Algo_Phat Algo_Theta
begin

text \<open>
  The whole bidirectional synchronisation algorithm, \<^verbatim>\<open>RADalgo_bidir\<close> of
  \<^verbatim>\<open>radclock/sync_bidir.c\<close>: initialisation on the first stamp, the warmup and full phases as
  sequences of the sub-algorithms, and the error statistics and output of each stamp.
\<close>

section \<open>The code\<close>

definition init_algos :: "radclock_config \<Rightarrow> bidir_algostate \<Rightarrow> bidir_stamp \<Rightarrow> vcounter_t \<Rightarrow>
    bidir_algooutput \<Rightarrow> bidir_algostate \<times> bidir_algooutput" where
  "init_algos conf state stamp RTT output =
     (let si = s_stamp_i state;
          phat = (if conf_phat_init conf = DEFAULT_PHAT_INIT then conf_phat_init conf
                  else conf_phat_init conf);
          Asym = (1 / 10 ^ 6) * (conf_asym_host conf + conf_asym_net conf);
          Df = (vc_real RTT * phat + Asym) / 2;
          Db = Df - Asym;
          th_naive = 0
      in (state\<lparr>
            s_RTThat := RTT,
            s_phat := phat,
            s_wwidth := 1,
            s_Dfhat := Df,
            s_Dbhat := Db,
            s_Asymhat := Asym,
            s_Df_hist := history_add (s_Df_hist state) si Df,
            s_Db_hist := history_add (s_Db_hist state) si Db,
            s_plocal := phat,
            s_K := Tb stamp - vc_real (Ta stamp) * phat,
            s_thetahat := th_naive,
            s_thnaive_hist := history_add (s_thnaive_hist state) si th_naive,
            s_thetastamp := stamp\<rparr>,
          output\<lparr>out_best_Tf := Tf stamp, out_pathpenalty := vc_real RTT * phat\<rparr>))"

text \<open>
  Set-up on stamp 0. A history whose buffer cannot be allocated is left with size 0, and the
  next insertion divides by it: that is \<open>None\<close>.
\<close>

definition RADalgo_setup :: "(nat \<Rightarrow> bool) \<Rightarrow> radclock_config \<Rightarrow> uint32 \<Rightarrow> bidir_algostate \<Rightarrow>
    bidir_algostate option" where
  "RADalgo_setup mem conf plocal_winratio state =
     (let mp = conf_metaparam conf;
          st1 = (set_err_thresholds mp state)\<lparr>s_poll_period := conf_poll_period conf, s_poll_ratio := 1\<rparr>;
          st2 = (set_algo_windows mp st1)\<lparr>s_warmup_win := 100\<rparr>;
          st3 = adjust_warmup_win (s_stamp_i st2) st2 plocal_winratio;
          sz = ucast (s_warmup_win st3) :: uint32
      in do {
        stamp_hist \<leftarrow> history_init (mem 0) zero_stamp sz;
        Df_hist \<leftarrow> history_init (mem 1) 0 sz;
        Db_hist \<leftarrow> history_init (mem 2) 0 sz;
        Dfhat_hist \<leftarrow> history_init (mem 3) 0 sz;
        Dbhat_hist \<leftarrow> history_init (mem 4) 0 sz;
        Asymhat_hist \<leftarrow> history_init (mem 5) 0 sz;
        RTT_hist \<leftarrow> history_init (mem 6) 0 sz;
        RTThat_hist \<leftarrow> history_init (mem 7) 0 sz;
        thnaive_hist \<leftarrow> history_init (mem 8) 0 sz;
        Some (st3\<lparr>s_stamp_hist := stamp_hist, s_Df_hist := Df_hist, s_Db_hist := Db_hist,
          s_Dfhat_hist := Dfhat_hist, s_Dbhat_hist := Dbhat_hist, s_Asymhat_hist := Asymhat_hist,
          s_RTT_hist := RTT_hist, s_RTThat_hist := RTThat_hist, s_thnaive_hist := thnaive_hist\<rparr>)
      })"

definition RADalgo_init_full :: "uint32 \<Rightarrow> bidir_algostate \<Rightarrow> bidir_stamp \<Rightarrow> radclock_data \<Rightarrow>
    bidir_algooutput \<Rightarrow> (bidir_algostate \<times> radclock_data) option" where
  "RADalgo_init_full plocal_winratio state stamp rad_data output = do {
     st1 \<leftarrow> init_RTTOWDAsym_full (state\<lparr>s_history_end := s_h_win state - 1\<rparr>) stamp;
     st2 \<leftarrow> init_phat_full st1 stamp;
     st3 \<leftarrow> init_plocal_full st2 stamp plocal_winratio;
     let st4 = (init_thetahat_full st3 stamp)\<lparr>s_Pbase := out_pathpenalty output\<rparr>;
     Some (parameters_calibration st4, DEL_STATUS rad_data STARAD_WARMUP)
   }"

definition RADalgo_warmup :: "radclock_config \<Rightarrow> uint32 \<Rightarrow> uint32 \<Rightarrow> bidir_algostate \<Rightarrow> bidir_stamp \<Rightarrow>
    vcounter_t \<Rightarrow> radclock_data \<Rightarrow> bidir_algooutput \<Rightarrow>
    (bidir_algostate \<times> radclock_data \<times> bidir_algooutput) option" where
  "RADalgo_warmup conf warmup_winratio plocal_winratio state stamp RTT rad_data output =
     (let mp = conf_metaparam conf;
          st1 = process_RTT_warmup state RTT;
          st2 = process_OWDAsym_warmup st1 stamp
      in do {
        (ret, st3) \<leftarrow> process_phat_warmup st2 RTT warmup_winratio;
        (st4, rd1, out1) \<leftarrow>
          process_thetahat_warmup mp (st3\<lparr>s_plocal := s_phat st3\<rparr>) stamp rad_data RTT output;
        let out2 = out1\<lparr>out_pathpenalty := vc_real (s_RTThat st4) * s_phat st4 * mp_relasym_bound_global mp\<rparr>;
        let rd2 = (if s_stamp_i st4 \<ge> NTP_BURST then DEL_STATUS rd1 STARAD_UNSYNC else rd1);
        if s_stamp_i st4 = s_warmup_win st4 - 1
        then do {
          (st5, rd3) \<leftarrow> RADalgo_init_full plocal_winratio st4 stamp rd2 out2;
          Some (st5, rd3, out2)
        }
        else Some (st4, rd2, out2)
      })"

definition RADalgo_full :: "real \<Rightarrow> radclock_config \<Rightarrow> uint32 \<Rightarrow> bidir_algostate \<Rightarrow> bidir_stamp \<Rightarrow>
    vcounter_t \<Rightarrow> int \<Rightarrow> radclock_data \<Rightarrow> bidir_algooutput \<Rightarrow>
    (bidir_algostate \<times> radclock_data \<times> bidir_algooutput) option" where
  "RADalgo_full junk conf plocal_winratio state stamp RTT qual_warning rad_data output =
     (let mp = conf_metaparam conf
      in do {
        st1 \<leftarrow> manage_historywin state stamp RTT;
        (st2, rd1) \<leftarrow> process_RTT_full st1 rad_data RTT;
        st3 \<leftarrow> process_OWDAsym_full st2 stamp;
        let st4 = update_next_pstamp st3 stamp RTT;
        let (p_insane, st5, rd2) = process_phat_full st4 stamp rd1 RTT qual_warning;
        (ret, st6, rd3, out1) \<leftarrow> process_plocal_full st5 rd2 plocal_winratio p_insane qual_warning output;
        (st7, rd4, out2) \<leftarrow> process_thetahat_full junk mp st6 stamp rd3 RTT qual_warning out1;
        let (st8, out3) = update_pathpenalty_full mp st7 stamp out2;
        Some (st8, rd4, out3)
      })"

text \<open>Error statistics: the bound of the last accepted offset, aged to the current stamp.\<close>

definition RADalgo_errors :: "bidir_metaparam \<Rightarrow> bidir_algostate \<Rightarrow> bidir_stamp \<Rightarrow> bidir_algostate" where
  "RADalgo_errors mp state stamp =
     (if s_stamp_i state > 0
      then let e = s_algo_err state;
               error_bound = e_Ebound_min_last e
                 + s_phat state * vc_real (Tf stamp - Tf (s_thetastamp state)) * mp_RateErrBOUND mp
           in state\<lparr>s_algo_err := e\<lparr>
                e_cumsum_hwin := e_cumsum_hwin e + error_bound,
                e_sq_cumsum_hwin := e_sq_cumsum_hwin e + error_bound * error_bound,
                e_nerror_hwin := e_nerror_hwin e + 1,
                e_error_bound := error_bound,
                e_cumsum := e_cumsum e + error_bound,
                e_sq_cumsum := e_sq_cumsum e + error_bound * error_bound,
                e_nerror := e_nerror e + 1\<rparr>\<rparr>
      else state)"

definition RADalgo_output :: "bidir_algostate \<Rightarrow> radclock_data \<Rightarrow> vcounter_t \<Rightarrow> bidir_algooutput \<Rightarrow>
    bidir_algooutput" where
  "RADalgo_output state rad_data RTT output = output\<lparr>
     out_n_stamps := sint (1 + s_stamp_i state),
     out_RTT := RTT,
     out_RTThat := s_RTThat state,
     out_RTThat_new := s_next_RTThat state,
     out_RTThat_shift := s_RTThat_shift state,
     out_phat := s_phat state,
     out_perr := s_perr state,
     out_plocal := s_plocal state,
     out_K := s_K state,
     out_thetahat := s_thetahat state,
     out_minET_last := s_minET state,
     out_status := rd_status rad_data,
     out_Pchange := s_Pchange state,
     out_Pquality := s_Pquality state\<rparr>"

text \<open>The part of the algorithm that runs once the state is set up for stamp \<open>stamp_i\<close>.\<close>

definition RADalgo_sync :: "real \<Rightarrow> radclock_config \<Rightarrow> bidir_algostate \<Rightarrow> bidir_stamp \<Rightarrow> int \<Rightarrow>
    radclock_data \<Rightarrow> bidir_algooutput \<Rightarrow> (bidir_algostate \<times> radclock_data \<times> bidir_algooutput) option" where
  "RADalgo_sync junk conf state stamp qual_warning rad_data output =
     (let warmup_winratio = 4;
          plocal_winratio = 5;
          si = s_stamp_i state;
          RTT = Tf stamp - Ta stamp;
          st1 = state\<lparr>s_RTT_hist := history_add (s_RTT_hist state) si RTT,
                      s_stamp_hist := history_add (s_stamp_hist state) si stamp\<rparr>
      in do {
        (st2, rd, out1) \<leftarrow>
          (if si = 0
           then let (st, out) = init_algos conf st1 stamp RTT output
                in Some (st, ADD_STATUS (ADD_STATUS rad_data STARAD_WARMUP) STARAD_UNSYNC, out)
           else if si < s_warmup_win st1
           then RADalgo_warmup conf warmup_winratio plocal_winratio st1 stamp RTT rad_data output
           else RADalgo_full junk conf plocal_winratio st1 stamp RTT qual_warning rad_data output);
        let st3 = print_stats_state (collect_stats_state (st2\<lparr>s_stamp := stamp\<rparr>) stamp);
        let st4 = RADalgo_errors (conf_metaparam conf) st3 stamp;
        Some (st4, rd, RADalgo_output st4 rd RTT out1)
      })"

definition RADalgo_bidir :: "(nat \<Rightarrow> bool) \<Rightarrow> (nat \<Rightarrow> bool) \<Rightarrow> real \<Rightarrow> radclock_config \<Rightarrow> bidir_algostate \<Rightarrow>
    bidir_stamp \<Rightarrow> int \<Rightarrow> radclock_data \<Rightarrow> bidir_algooutput \<Rightarrow>
    (bidir_algostate \<times> radclock_data \<times> bidir_algooutput) option" where
  "RADalgo_bidir mem rmem junk conf state stamp qual_warning rad_data output =
     (let plocal_winratio = 5;
          st0 = state\<lparr>s_stamp_i := s_stamp_i state + 1\<rparr>
      in do {
        st1 \<leftarrow> (if s_stamp_i st0 = 0 then RADalgo_setup mem conf plocal_winratio st0 else Some st0);
        st2 \<leftarrow> (if HAS_UPDATE (conf_mask conf) UPDMASK_POLLPERIOD
                  \<or> HAS_UPDATE (conf_mask conf) UPDMASK_TEMPQUALITY
               then update_state rmem (conf_metaparam conf) st1 plocal_winratio (conf_poll_period conf)
               else Some st1);
        RADalgo_sync junk conf st2 stamp qual_warning rad_data output
      })"


section \<open>Frame: what moves the uncorrected clock\<close>

text \<open>Only the period algorithms touch \<open>phat\<close> and \<open>K\<close>; the last stamp is replaced at the very end.\<close>

definition clock_of :: "bidir_algostate \<Rightarrow> real \<times> real \<times> bidir_stamp" where
  "clock_of st = (s_K st, s_phat st, s_stamp st)"

lemma clock_of_eq:
  "clock_of st' = clock_of st \<longleftrightarrow> s_K st' = s_K st \<and> s_phat st' = s_phat st \<and> s_stamp st' = s_stamp st"
  by (simp add: clock_of_def)

lemma frame_RTT_warmup: "clock_of (process_RTT_warmup st RTT) = clock_of st"
  by (simp add: process_RTT_warmup_def clock_of_def)

lemma frame_OWDAsym_warmup: "clock_of (process_OWDAsym_warmup st stamp) = clock_of st"
  by (simp add: process_OWDAsym_warmup_def clock_of_def Let_def)

lemma frame_next_pstamp: "clock_of (update_next_pstamp st stamp RTT) = clock_of st"
  by (simp add: update_next_pstamp_def clock_of_def Let_def)

lemma frame_calibration: "clock_of (parameters_calibration st) = clock_of st"
  by (simp add: parameters_calibration_def clock_of_def Let_def)

lemma frame_stats:
  "clock_of (print_stats_state st) = clock_of st" "clock_of (collect_stats_state st stamp) = clock_of st"
  by (simp_all add: print_stats_state_def collect_stats_state_def clock_of_def Let_def)

lemma frame_errors: "clock_of (RADalgo_errors mp st stamp) = clock_of st"
  by (simp add: RADalgo_errors_def clock_of_def Let_def)

lemma frame_pathpenalty: "clock_of (fst (update_pathpenalty_full mp st stamp out)) = clock_of st"
  by (simp add: update_pathpenalty_full_def clock_of_def Let_def split_def)

lemma frame_theta_warmup_accept: "clock_of (fst (theta_warmup_accept st stamp rd acc e)) = clock_of st"
  by (simp add: theta_warmup_accept_def clock_of_def Let_def)

lemma frame_theta_full_accept: "clock_of (fst (theta_full_accept st stamp rd acc e q)) = clock_of st"
  by (simp add: theta_full_accept_def clock_of_def Let_def)

lemma frame_init_RTTOWDAsym_full: "init_RTTOWDAsym_full st stamp = Some st' \<Longrightarrow> clock_of st' = clock_of st"
  by (auto simp: init_RTTOWDAsym_full_def clock_of_def Let_def split: bind_splits)

lemma frame_init_phat_full: "init_phat_full st stamp = Some st' \<Longrightarrow> clock_of st' = clock_of st"
  by (auto simp: init_phat_full_def clock_of_def split: bind_splits)

lemma frame_reset_plocal: "reset_plocal st r i = Some st' \<Longrightarrow> clock_of st' = clock_of st"
  using reset_plocal_frame by (auto simp: clock_of_def)

lemma frame_init_plocal_full: "init_plocal_full st stamp r = Some st' \<Longrightarrow> clock_of st' = clock_of st"
  by (auto simp: init_plocal_full_def Let_def clock_of_eq split: bind_splits if_splits dest!: reset_plocal_frame)

lemma frame_historywin_half: "clock_of (historywin_half st stamp RTT) = clock_of st"
  by (simp add: historywin_half_def clock_of_def)

lemma frame_historywin_full:
  assumes "historywin_full st stamp RTT = Some st'"
  shows "clock_of st' = clock_of st"
proof -
  obtain Df Db where "history_find (s_Df_hist st) (s_stamp_i st - 1) = Some Df"
      "history_find (s_Db_hist st) (s_stamp_i st - 1) = Some Db"
    using assms by (auto simp: historywin_full_def bind_eq_Some_conv)
  then show ?thesis using assms by (simp add: historywin_full_def clock_of_def) (elim subst, simp)
qed

lemma frame_historywin:
  assumes "manage_historywin st stamp RTT = Some st'"
  shows "clock_of st' = clock_of st"
proof -
  let ?st1 = "if s_stamp_i st = s_h_win st div 2 then historywin_half st stamp RTT else st"
  have "clock_of ?st1 = clock_of st" using frame_historywin_half by simp
  moreover have "clock_of st' = clock_of ?st1"
  proof (cases "s_stamp_i st = s_history_end ?st1")
    case True
    then have "historywin_full ?st1 stamp RTT = Some st'"
      using assms by (simp only: manage_historywin_def Let_def refl if_True)
    then show ?thesis by (rule frame_historywin_full)
  next
    case False
    then show ?thesis using assms by (simp only: manage_historywin_def Let_def if_False option.inject)
  qed
  ultimately show ?thesis by simp
qed

lemma frame_RTT_minima: "RTT_full_minima st RTT = Some st' \<Longrightarrow> clock_of st' = clock_of st"
  by (auto simp: RTT_full_minima_def Let_def clock_of_def split: bind_splits if_splits)

lemma frame_RTT_upshift: "RTT_full_upshift st = Some st' \<Longrightarrow> clock_of st' = clock_of st"
  by (cases "s_next_pstamp_i st \<ge> s_stamp_i st - s_shift_win st + 1")
    (auto simp: RTT_full_upshift_def Let_def clock_of_def split: bind_splits)

lemma frame_RTT_full:
  assumes "process_RTT_full st rd RTT = Some (st', rd')"
  shows "clock_of st' = clock_of st"
  using assms frame_RTT_minima frame_RTT_upshift
  by (auto simp: process_RTT_full_def split: bind_splits if_splits)

lemma frame_OWDAsym_full: "process_OWDAsym_full st stamp = Some st' \<Longrightarrow> clock_of st' = clock_of st"
  by (auto simp: process_OWDAsym_full_def Let_def clock_of_def split: bind_splits)

lemma frame_plocal_full:
  "process_plocal_full st rd r pin q out = Some (ret, st', rd', out') \<Longrightarrow> clock_of st' = clock_of st"
  by (erule process_plocal_full_cases) (simp_all add: clock_of_def)

lemma frame_thetahat_warmup:
  assumes "process_thetahat_warmup mp st stamp rd RTT out = Some (st', rd', out')"
  shows "clock_of st' = clock_of st"
proof -
  obtain acc e h pth where
    "st' = fst (theta_warmup_accept (st\<lparr>s_thnaive_hist := h, s_poll_transition_th := pth\<rparr>) stamp rd acc e)"
    using assms
    by (auto simp: process_thetahat_warmup_def Let_def split_def split: bind_splits)
  then show ?thesis using frame_theta_warmup_accept by (simp add: clock_of_def)
qed

lemma frame_thetahat_full:
  assumes "process_thetahat_full junk mp st stamp rd RTT q out = Some (st', rd', out')"
  shows "clock_of st' = clock_of st"
proof -
  obtain acc e h pth where
    "st' = fst (theta_full_accept (st\<lparr>s_thnaive_hist := h, s_poll_transition_th := pth\<rparr>) stamp rd acc e q)"
    using assms
    by (auto simp: process_thetahat_full_def Let_def split_def split: bind_splits)
  then show ?thesis using frame_theta_full_accept by (simp add: clock_of_def)
qed


lemma frame_windows:
  "clock_of (set_err_thresholds mp st) = clock_of st" "clock_of (set_algo_windows mp st) = clock_of st"
  "clock_of (adjust_warmup_win i st r) = clock_of st"
  by (simp_all add: set_err_thresholds_def set_algo_windows_def adjust_warmup_win_def clock_of_def Let_def)

lemma frame_update_windows:
  assumes "update_state_windows mp st r pp = Some st'"
  shows "clock_of st' = clock_of st"
proof -
  let ?st1 = "set_err_thresholds mp st"
  let ?st2 = "if pp \<noteq> s_poll_period ?st1
      then ?st1\<lparr>s_poll_transition_th := s_offset_win ?st1,
               s_poll_ratio := of_int pp / of_int (s_poll_period ?st1),
               s_poll_period := pp, s_poll_changed_i := s_stamp_i st\<rparr> else ?st1"
  let ?st3 = "set_algo_windows mp ?st2"
  have "clock_of ?st2 = clock_of ?st1" by (simp add: clock_of_def)
  then have st3: "clock_of ?st3 = clock_of st" by (simp only: frame_windows)
  show ?thesis
  proof (cases "s_stamp_i st < s_warmup_win ?st3")
    case True
    then have "st' = adjust_warmup_win (s_stamp_i st) ?st3 r"
      using assms by (simp only: update_state_windows_def Let_def if_True option.inject)
    then show ?thesis using frame_windows(3) [of "s_stamp_i st" ?st3 r] st3 by (simp only:)
  next
    case False
    then obtain e v where "st' = ?st3\<lparr>s_shift_end := e, s_RTThat_shift := v\<rparr>"
      using assms unfolding update_state_windows_def Let_def by (simp only: if_False bind_eq_Some_conv) blast
    then show ?thesis using st3 by (simp add: clock_of_def)
  qed
qed

lemma frame_update_state:
  assumes "update_state mem mp st r pp = Some st'"
  shows "clock_of st' = clock_of st"
proof -
  obtain st1 where st1: "update_state_windows mp st r pp = Some st1"
    using assms by (auto simp: update_state_def bind_eq_Some_conv)
  then have "clock_of st' = clock_of st1"
    using assms by (auto simp: update_state_def clock_of_def Let_def split_def)
  then show ?thesis using frame_update_windows [OF st1] by simp
qed

lemma update_windows_index:
  assumes "update_state_windows mp st r pp = Some st'"
  shows "s_stamp_i st' = s_stamp_i st"
proof -
  have e: "s_stamp_i (set_err_thresholds mp st) = s_stamp_i st" "s_stamp_i (set_algo_windows mp st) = s_stamp_i st"
      "s_stamp_i (adjust_warmup_win i st r) = s_stamp_i st" for st i
    by (simp_all add: set_err_thresholds_def set_algo_windows_def adjust_warmup_win_def Let_def)
  show ?thesis using assms unfolding update_state_windows_def Let_def
    by (auto simp: e bind_eq_Some_conv split: if_splits)
qed

lemma update_state_index:
  assumes "update_state mem mp st r pp = Some st'"
  shows "s_stamp_i st' = s_stamp_i st"
  using assms update_windows_index by (auto simp: update_state_def Let_def split_def bind_eq_Some_conv)

section \<open>Continuity of the uncorrected clock\<close>

lemma uncorrected_clock_frame: "clock_of st' = clock_of st \<Longrightarrow> uncorrected_clock st' T = uncorrected_clock st T"
  by (simp add: clock_of_def uncorrected_clock_def)

lemma init_full_frame:
  assumes "RADalgo_init_full r st stamp rd out = Some (st', rd')"
  shows "clock_of st' = clock_of st"
proof -
  obtain st1 st2 st3 where s: "init_RTTOWDAsym_full (st\<lparr>s_history_end := s_h_win st - 1\<rparr>) stamp = Some st1"
      "init_phat_full st1 stamp = Some st2" "init_plocal_full st2 stamp r = Some st3"
      "st' = parameters_calibration ((init_thetahat_full st3 stamp)\<lparr>s_Pbase := out_pathpenalty out\<rparr>)"
    using assms by (auto simp: RADalgo_init_full_def bind_eq_Some_conv Let_def)
  have "clock_of st' = clock_of st3"
    unfolding s(4) frame_calibration by (simp add: init_thetahat_full_def clock_of_def)
  also have "\<dots> = clock_of (st\<lparr>s_history_end := s_h_win st - 1\<rparr>)"
    using frame_init_plocal_full [OF s(3)] frame_init_phat_full [OF s(2)] frame_init_RTTOWDAsym_full [OF s(1)] by simp
  finally show ?thesis by (simp add: clock_of_def)
qed

lemma warmup_continuous:
  assumes "RADalgo_warmup conf w r st stamp RTT rd out = Some (st', rd', out')"
  shows "uncorrected_clock st' (Ta (s_stamp st)) = uncorrected_clock st (Ta (s_stamp st))"
proof -
  let ?st2 = "process_OWDAsym_warmup (process_RTT_warmup st RTT) stamp"
  obtain ret st3 st4 rd1 out1 where s: "process_phat_warmup ?st2 RTT w = Some (ret, st3)"
      "process_thetahat_warmup (conf_metaparam conf) (st3\<lparr>s_plocal := s_phat st3\<rparr>) stamp rd RTT out = Some (st4, rd1, out1)"
      "st' = st4 \<or> (\<exists>rd2 out2 rd3. RADalgo_init_full r st4 stamp rd2 out2 = Some (st', rd3))"
    using assms unfolding RADalgo_warmup_def Let_def
    by (fastforce simp: bind_eq_Some_conv split_def split: if_splits)
  have c2: "clock_of ?st2 = clock_of st" by (simp only: frame_OWDAsym_warmup frame_RTT_warmup)
  then have stamp2: "s_stamp ?st2 = s_stamp st" by (simp add: clock_of_def)
  have "clock_of st' = clock_of st4" using s(3) init_full_frame by blast
  also have "clock_of st4 = clock_of st3" using frame_thetahat_warmup [OF s(2)] by (simp add: clock_of_def)
  finally show ?thesis
    using uncorrected_clock_frame [of st' st3] uncorrected_clock_frame [OF c2] process_phat_warmup_clock(1) [OF s(1)] stamp2
    by simp
qed

lemma full_continuous:
  assumes "RADalgo_full junk conf r st stamp RTT q rd out = Some (st', rd', out')"
  shows "uncorrected_clock st' (Ta (s_stamp st)) = uncorrected_clock st (Ta (s_stamp st))"
proof -
  obtain st1 st2 rd1 st3 where s: "manage_historywin st stamp RTT = Some st1"
      "process_RTT_full st1 rd RTT = Some (st2, rd1)" "process_OWDAsym_full st2 stamp = Some st3"
    using assms unfolding RADalgo_full_def Let_def by (auto simp: bind_eq_Some_conv)
  let ?st4 = "update_next_pstamp st3 stamp RTT"
  obtain pin st5 rd2 where p: "process_phat_full ?st4 stamp rd1 RTT q = (pin, st5, rd2)" by (metis prod_cases3)
  obtain ret st6 rd3 out1 st7 rd4 out2 where t: "process_plocal_full st5 rd2 r pin q out = Some (ret, st6, rd3, out1)"
      "process_thetahat_full junk (conf_metaparam conf) st6 stamp rd3 RTT q out1 = Some (st7, rd4, out2)"
      "st' = fst (update_pathpenalty_full (conf_metaparam conf) st7 stamp out2)"
    using assms s p unfolding RADalgo_full_def Let_def by (auto simp: bind_eq_Some_conv split_def)
  have c4: "clock_of ?st4 = clock_of st"
    using frame_historywin [OF s(1)] frame_RTT_full [OF s(2)] frame_OWDAsym_full [OF s(3)] by (simp only: frame_next_pstamp)
  then have stamp4: "s_stamp ?st4 = s_stamp st" by (simp add: clock_of_def)
  have "clock_of st' = clock_of st5"
    using frame_plocal_full [OF t(1)] frame_thetahat_full [OF t(2)] unfolding t(3) by (simp only: frame_pathpenalty)
  then show ?thesis
    using uncorrected_clock_frame [of st' st5] uncorrected_clock_frame [OF c4] process_phat_full_clock(1) [OF p] stamp4 by simp
qed

lemma sync_continuous:
  assumes "RADalgo_sync junk conf st stamp q rd out = Some (st', rd', out')" "s_stamp_i st \<noteq> 0"
  shows "uncorrected_clock st' (Ta (s_stamp st)) = uncorrected_clock st (Ta (s_stamp st)) \<and> s_stamp st' = stamp"
proof -
  let ?st1 = "st\<lparr>s_RTT_hist := history_add (s_RTT_hist st) (s_stamp_i st) (Tf stamp - Ta stamp),
      s_stamp_hist := history_add (s_stamp_hist st) (s_stamp_i st) stamp\<rparr>"
  have c1: "clock_of ?st1 = clock_of st" by (simp add: clock_of_def)
  obtain st2 rd2 out1 where s: "RADalgo_warmup conf 4 5 ?st1 stamp (Tf stamp - Ta stamp) rd out = Some (st2, rd2, out1)
      \<or> RADalgo_full junk conf 5 ?st1 stamp (Tf stamp - Ta stamp) q rd out = Some (st2, rd2, out1)"
      "st' = RADalgo_errors (conf_metaparam conf)
        (print_stats_state (collect_stats_state (st2\<lparr>s_stamp := stamp\<rparr>) stamp)) stamp"
    using assms unfolding RADalgo_sync_def Let_def by (auto simp: bind_eq_Some_conv split: if_splits)
  have "uncorrected_clock st2 (Ta (s_stamp ?st1)) = uncorrected_clock ?st1 (Ta (s_stamp ?st1))"
    using s(1) by (elim disjE) (erule warmup_continuous, erule full_continuous)
  moreover have "clock_of st' = clock_of (st2\<lparr>s_stamp := stamp\<rparr>)"
    unfolding s(2) by (simp only: frame_errors frame_stats)
  ultimately show ?thesis by (simp add: clock_of_def uncorrected_clock_def)
qed


lemma bidir_continuous:
  assumes "RADalgo_bidir mem rmem junk conf st stamp q rd out = Some (st', rd', out')" "s_stamp_i st \<noteq> -1"
  shows "uncorrected_clock st' (Ta (s_stamp st)) = uncorrected_clock st (Ta (s_stamp st)) \<and> s_stamp st' = stamp"
proof -
  let ?st0 = "st\<lparr>s_stamp_i := s_stamp_i st + 1\<rparr>"
  have si: "s_stamp_i ?st0 \<noteq> 0" using assms(2) by (simp add: eq_neg_iff_add_eq_0)
  let ?upd = "HAS_UPDATE (conf_mask conf) UPDMASK_POLLPERIOD \<or> HAS_UPDATE (conf_mask conf) UPDMASK_TEMPQUALITY"
  obtain st2 where s: "(if ?upd then update_state rmem (conf_metaparam conf) ?st0 5 (conf_poll_period conf) else Some ?st0) = Some st2"
      "RADalgo_sync junk conf st2 stamp q rd out = Some (st', rd', out')"
    using assms(1) si unfolding RADalgo_bidir_def Let_def by (auto simp: bind_eq_Some_conv)
  have "clock_of st2 = clock_of ?st0 \<and> s_stamp_i st2 = s_stamp_i ?st0"
    using s(1) frame_update_state update_state_index by (metis option.inject)
  then have "clock_of st2 = clock_of st" "s_stamp_i st2 \<noteq> 0" using si by (auto simp: clock_of_def)
  then show ?thesis
    using sync_continuous [OF s(2)] uncorrected_clock_frame [of st2 st] by (simp add: clock_of_def)
qed

text \<open>
  C1: Continuity of the uncorrected clock \<open>C(T) = phat * T + K\<close>. After the first stamp, whatever
  the configuration changes, the phase of the algorithm and the stamp, one run of the
  algorithm may change the period estimate, but it never makes the clock jump: old and new clock
  agree at the send time \<open>Ta\<close> of the previous stamp. The new stamp becomes the last one.
\<close>

theorem RADalgo_bidir_continuous:
  assumes "RADalgo_bidir mem rmem junk conf st stamp q rd out = Some (st', rd', out')" "s_stamp_i st \<noteq> -1"
  shows "uncorrected_clock st' (Ta (s_stamp st)) = uncorrected_clock st (Ta (s_stamp st)) \<and> s_stamp st' = stamp"
  using assms by (rule bidir_continuous)

text \<open>
  The raw one-way delays and the naive offset are consistent. For a stamp whose counter
  values are in order, the two delays add up to the round trip time as the period estimate sees
  it, their difference is twice the distance of the offset from the naive offset, and a clock
  corrected by the naive offset sees equal delays.
\<close>

lemma raw_OWD_identities:
  assumes "Ta stamp \<le> Tf stamp"
  shows "raw_Df st stamp + raw_Db st stamp = s_phat st * vc_real (Tf stamp - Ta stamp)
    \<and> raw_Df st stamp - raw_Db st stamp = 2 * (s_thetahat st - theta_naive st stamp)
    \<and> raw_Df (st\<lparr>s_thetahat := theta_naive st stamp\<rparr>) stamp = raw_Db (st\<lparr>s_thetahat := theta_naive st stamp\<rparr>) stamp"
proof -
  have d: "vc_real (Tf stamp - Ta stamp) = vc_real (Tf stamp) - vc_real (Ta stamp)"
    using assms by (simp add: unat_sub_le word_le_nat_alt of_nat_diff)
  show ?thesis unfolding d by (simp add: raw_Df_def raw_Db_def theta_naive_def Let_def field_simps)
qed

end
