(* ===== verification/Algo_Warmup.thy ===== *)
theory Algo_Warmup
  imports Algo_Bidir
begin

text \<open>
  The warmup phase runs to completion. From the zeroed state, feeding any stamps up to the end of the
  warmup window, including the initialisation of the full algorithms on its last stamp, no
  history lookup fails and every loop ends. The state then holds exactly the stamps fed, and
  the minimal round trip time with the first index that attained it.
\<close>

section \<open>Searches on histories that have not wrapped\<close>

definition fresh :: "'a history \<Rightarrow> bool" where
  "fresh h \<longleftrightarrow> h_oldest_i h = 0"

lemma fresh_find: "fresh h \<Longrightarrow> \<exists>x. history_find h i = Some x"
  by (simp add: fresh_def history_find_def)

lemma argmin_loop_returns:
  assumes "\<And>i. \<exists>x. f i = Some x"
  shows "\<exists>k. argmin_loop f j i (Some m) c = Some k"
proof (induction "unat i - unat j" arbitrary: j m c rule: less_induct)
  case less
  show ?case
  proof (cases "j < i")
    case False
    then show ?thesis by (subst argmin_loop.simps) simp
  next
    case True
    obtain x where x: "f (j + 1) = Some x" using assms by blast
    have "unat i - unat (j + 1) < unat i - unat j"
      using True by (simp add: unat_plus_one_less word_less_nat_alt)
    then show ?thesis using less.hyps [of "j + 1"] True x by (subst argmin_loop.simps) simp
  qed
qed

lemma fresh_argmin:
  assumes "fresh h"
  shows "\<exists>k. hist_argmin h j i = Some k"
proof -
  obtain x where "history_find h j = Some x" using fresh_find [OF assms] by blast
  then show ?thesis
    using argmin_loop_returns [of "history_find h" j i x j] fresh_find [OF assms] by (simp add: hist_argmin_def)
qed

lemma fresh_min: "fresh h \<Longrightarrow> \<exists>k x. history_min h j i = Some k \<and> history_find h k = Some x"
  using fresh_argmin fresh_find unfolding history_min_def by metis

lemma fresh_min_dbl: "fresh h \<Longrightarrow> \<exists>k x. history_min_dbl h j i = Some k \<and> history_find h k = Some x"
  using fresh_argmin fresh_find unfolding history_min_dbl_def by metis

lemma fresh_min_slide: "fresh h \<Longrightarrow> \<exists>k. history_min_slide h c j i = Some k"
proof -
  assume f: "fresh h"
  obtain x y where "history_find h (i + 1) = Some x" "history_find h c = Some y" using fresh_find [OF f] by metis
  then show ?thesis
    using fresh_min [OF f, of "j + 1" "i + 1"] by (auto simp: history_min_slide_def min_slide_def)
qed

section \<open>The sub-algorithms return in warmup\<close>

definition all_fresh :: "bidir_algostate \<Rightarrow> bool" where
  "all_fresh st \<longleftrightarrow> fresh (s_RTT_hist st) \<and> fresh (s_stamp_hist st) \<and> fresh (s_thnaive_hist st)
     \<and> fresh (s_Df_hist st) \<and> fresh (s_Db_hist st)"

text \<open>The parts of the state that the sub-algorithms leave alone in warmup.\<close>

definition warm_core :: "bidir_algostate \<Rightarrow> index_t \<times> index_t \<times> vcounter_t history \<times> bidir_stamp history
    \<times> real history \<times> real history \<times> vcounter_t \<times> index_t" where
  "warm_core st = (s_stamp_i st, s_warmup_win st, s_RTT_hist st, s_stamp_hist st, s_Df_hist st, s_Db_hist st,
     s_RTThat st, s_pstamp_i st)"

lemma phat_warmup_returns:
  assumes "all_fresh st"
  shows "\<exists>ret st'. process_phat_warmup st RTT r = Some (ret, st') \<and> warm_core st' = warm_core st
    \<and> s_thnaive_hist st' = s_thnaive_hist st \<and> s_RTThat_hist st' = s_RTThat_hist st"
proof -
  have f: "fresh (s_RTT_hist st)" "fresh (s_stamp_hist st)" using assms by (auto simp: all_fresh_def)
  have sel: "\<exists>n fa w. phat_warmup_select st RTT r = Some (st\<lparr>s_near_i := n, s_far_i := fa, s_wwidth := w\<rparr>)"
  proof (cases "s_stamp_i st mod ucast r \<noteq> 0")
    case True
    obtain k where k: "history_min_slide (s_RTT_hist st) (s_near_i st) (s_stamp_i st - s_wwidth st) (s_stamp_i st - 1) = Some k"
      using fresh_min_slide [OF f(1)] by blast
    show ?thesis
      by (intro exI [of _ k] exI [of _ "s_far_i st"] exI [of _ "s_wwidth st"])
        (simp add: phat_warmup_select_def Let_def True k)
  next
    case False
    obtain x y z where xyz: "history_find (s_RTT_hist st) (s_wwidth st) = Some x"
        "history_find (s_RTT_hist st) (s_near_i st) = Some y" "history_find (s_RTT_hist st) (s_far_i st) = Some z"
      using fresh_find [OF f(1)] by metis
    show ?thesis
      by (intro exI [of _ "if RTT < y then s_stamp_i st else s_near_i st"]
          exI [of _ "if x < z then s_wwidth st else s_far_i st"] exI [of _ "s_wwidth st + 1"])
        (use False in \<open>simp add: phat_warmup_select_def Let_def xyz\<close>)
  qed
  then obtain st1 n fa w where st1: "phat_warmup_select st RTT r = Some st1" "st1 = st\<lparr>s_near_i := n, s_far_i := fa, s_wwidth := w\<rparr>"
    by blast
  obtain N F RN RF where finds: "history_find (s_stamp_hist st1) (s_near_i st1) = Some N"
      "history_find (s_stamp_hist st1) (s_far_i st1) = Some F"
      "history_find (s_RTT_hist st1) (s_near_i st1) = Some RN" "history_find (s_RTT_hist st1) (s_far_i st1) = Some RF"
  proof -
    have "fresh (s_stamp_hist st1)" "fresh (s_RTT_hist st1)" by (simp_all add: st1(2) f)
    then show thesis using fresh_find that by metis
  qed
  have core: "warm_core st1 = warm_core st" "s_thnaive_hist st1 = s_thnaive_hist st" "s_RTThat_hist st1 = s_RTThat_hist st"
    by (simp_all add: st1(2) warm_core_def)
  have "\<exists>ret st'. process_phat_warmup st RTT r = Some (ret, st') \<and> warm_core st' = warm_core st1
    \<and> s_thnaive_hist st' = s_thnaive_hist st1 \<and> s_RTThat_hist st' = s_RTThat_hist st1"
    by (cases "compute_phat F N = 0"; cases "s_near_i st \<noteq> s_near_i st1 \<or> s_far_i st \<noteq> s_far_i st1")
      (simp_all add: process_phat_warmup_def st1(1) finds Let_def warm_core_def)
  then show ?thesis unfolding core .
qed

lemma theta_ET_loop_returns:
  assumes "all_fresh st" "jmin \<noteq> 0"
  shows "\<exists>acc'. down_loop (theta_warmup_body mp st stamp) j jmin acc = Some acc'"
    and "\<exists>e'. down_loop (theta_Ebound_body mp st stamp jb) j jmin e = Some e'"
proof -
  have f: "\<exists>x. history_find (s_RTT_hist st) j = Some x" "\<exists>x. history_find (s_stamp_hist st) j = Some x"
      "\<exists>x. history_find (s_thnaive_hist st) j = Some x" for j
    using assms(1) fresh_find unfolding all_fresh_def by blast+
  have "\<exists>acc'. theta_warmup_body mp st stamp j acc = Some acc' \<and> True" for j acc
    using f [of j] by (auto simp: theta_warmup_body_def Let_def)
  then show "\<exists>acc'. down_loop (theta_warmup_body mp st stamp) j jmin acc = Some acc'"
    using down_loop_total [OF assms(2), of "\<lambda>_. True" acc j "theta_warmup_body mp st stamp"] by simp
  have "\<exists>e'. theta_Ebound_body mp st stamp jb j e = Some e' \<and> True" for j e
    using f [of j] by (auto simp: theta_Ebound_body_def Let_def)
  then show "\<exists>e'. down_loop (theta_Ebound_body mp st stamp jb) j jmin e = Some e'"
    using down_loop_total [OF assms(2), of "\<lambda>_. True" e j "theta_Ebound_body mp st stamp jb"] by simp
qed

lemma theta_warmup_accept_core:
  "warm_core (fst (theta_warmup_accept st stamp rd acc e)) = warm_core st
    \<and> s_thnaive_hist (fst (theta_warmup_accept st stamp rd acc e)) = s_thnaive_hist st
    \<and> s_RTThat_hist (fst (theta_warmup_accept st stamp rd acc e)) = s_RTThat_hist st"
  by (simp add: theta_warmup_accept_def warm_core_def Let_def)

lemma thetahat_warmup_returns:
  assumes "all_fresh st" "fresh (history_add (s_thnaive_hist st) (s_stamp_i st) (theta_naive st stamp))"
  shows "\<exists>st' rd' out'. process_thetahat_warmup mp st stamp rd RTT out = Some (st', rd', out')
    \<and> warm_core st' = warm_core st \<and> s_RTThat_hist st' = s_RTThat_hist st
    \<and> s_thnaive_hist st' = history_add (s_thnaive_hist st) (s_stamp_i st) (theta_naive st stamp)"
proof -
  obtain jm pth where tj: "theta_jmin st 1 = (jm, pth)" by (cases "theta_jmin st 1")
  define p where "p = st\<lparr>s_thnaive_hist := history_add (s_thnaive_hist st) (s_stamp_i st) (theta_naive st stamp),
      s_poll_transition_th := pth\<rparr>"
  define jmin where "jmin = max jm (max (history_old (s_RTT_hist p)) (history_old (s_thnaive_hist p)))"
  have af: "all_fresh p" using assms by (simp add: all_fresh_def p_def)
  have "jm \<noteq> 0" using theta_jmin_pos [of 1 st] tj by simp
  then have j0: "jmin \<noteq> 0" by (auto simp: jmin_def word_le_max_iff)
  let ?acc0 = "\<lparr>a_gap = 0, a_minET = 0, a_jbest = 0, a_Ebound_min = 0, a_wsum = 0, a_theta = 0\<rparr>"
  obtain acc where acc: "down_loop (theta_warmup_body mp p stamp) (s_stamp_i st) jmin ?acc0 = Some acc"
    using theta_ET_loop_returns(1) [OF af j0] by blast
  obtain e where e: "down_loop (theta_Ebound_body mp p stamp (a_jbest acc)) (s_stamp_i st) jmin (a_Ebound_min acc) = Some e"
    using theta_ET_loop_returns(2) [OF af j0] by blast
  let ?r = "theta_warmup_accept p stamp rd acc e"
  have core: "warm_core (fst ?r) = warm_core p" "s_thnaive_hist (fst ?r) = s_thnaive_hist p"
      "s_RTThat_hist (fst ?r) = s_RTThat_hist p"
    using theta_warmup_accept_core by blast+
  then have "fresh (s_stamp_hist (fst ?r))" using af by (simp add: warm_core_def all_fresh_def)
  then obtain best where best: "history_find (s_stamp_hist (fst ?r)) (a_jbest acc) = Some best" using fresh_find by blast
  have eq: "process_thetahat_warmup mp st stamp rd RTT out = do {
      acc \<leftarrow> down_loop (theta_warmup_body mp p stamp) (s_stamp_i st) jmin ?acc0;
      e \<leftarrow> down_loop (theta_Ebound_body mp p stamp (a_jbest acc)) (s_stamp_i st) jmin (a_Ebound_min acc);
      let r = theta_warmup_accept p stamp rd acc e;
      best \<leftarrow> history_find (s_stamp_hist (fst r)) (a_jbest acc);
      Some (fst r, snd r, (theta_causality (fst r) stamp out)\<lparr>
        out_th_naive := theta_naive st stamp, out_minET := a_minET acc, out_wsum := a_wsum acc,
        out_best_Tf := Tf best\<rparr>)}"
    unfolding process_thetahat_warmup_def p_def jmin_def tj by (simp add: Let_def split_def)
  have "warm_core p = warm_core st" "s_RTThat_hist p = s_RTThat_hist st"
      "s_thnaive_hist p = history_add (s_thnaive_hist st) (s_stamp_i st) (theta_naive st stamp)"
    by (simp_all add: p_def warm_core_def)
  then show ?thesis unfolding eq acc Option.bind.bind_lunit e Let_def using core best by simp
qed

lemma init_RTTOWDAsym_returns:
  assumes "all_fresh st"
  shows "\<exists>st'. init_RTTOWDAsym_full st stamp = Some st' \<and> warm_core st' = warm_core st
    \<and> s_thnaive_hist st' = s_thnaive_hist st
    \<and> s_RTThat_hist st' = fold (\<lambda>j h. history_add h (of_nat j) (s_RTThat st)) [0..<Suc (unat (s_stamp_i st))] (s_RTThat_hist st)"
proof -
  have f: "\<exists>k x. history_min_dbl (s_Df_hist st) j i = Some k \<and> history_find (s_Df_hist st) k = Some x"
      "\<exists>k x. history_min_dbl (s_Db_hist st) j i = Some k \<and> history_find (s_Db_hist st) k = Some x"
      "\<exists>k x. history_min (s_RTT_hist st) j i = Some k \<and> history_find (s_RTT_hist st) k = Some x" for j i
    using assms fresh_min fresh_min_dbl unfolding all_fresh_def by blast+
  let ?e = "c_MAX (if s_stamp_i st > s_shift_win st then s_stamp_i st - (s_shift_win st - 1) else 0) (history_old (s_RTT_hist st))"
  obtain k1 x1 where 1: "history_min_dbl (s_Df_hist st) ?e (s_stamp_i st) = Some k1" "history_find (s_Df_hist st) k1 = Some x1"
    using f(1) by blast
  obtain k2 x2 where 2: "history_min_dbl (s_Db_hist st) ?e (s_stamp_i st) = Some k2" "history_find (s_Db_hist st) k2 = Some x2"
    using f(2) by blast
  obtain k3 x3 where 3: "history_min (s_RTT_hist st) ?e (s_stamp_i st) = Some k3" "history_find (s_RTT_hist st) k3 = Some x3"
    using f(3) by blast
  show ?thesis
    unfolding init_RTTOWDAsym_full_def Let_def 1 2 3 Option.bind.bind_lunit
    by (simp add: warm_core_def del: upt_Suc)
qed

lemma init_phat_returns:
  assumes "all_fresh st"
  shows "\<exists>st'. init_phat_full st stamp = Some st' \<and> warm_core st' = warm_core st
    \<and> s_thnaive_hist st' = s_thnaive_hist st \<and> s_RTThat_hist st' = s_RTThat_hist st"
proof -
  have "\<exists>x. history_find (s_stamp_hist st) i = Some x" "\<exists>x. history_find (s_RTT_hist st) i = Some x" for i
    using assms fresh_find unfolding all_fresh_def by blast+
  then obtain a b c d e where "history_find (s_stamp_hist st) (s_pstamp_i st) = Some a"
      "history_find (s_stamp_hist st) (s_near_i st) = Some b" "history_find (s_stamp_hist st) (s_far_i st) = Some c"
      "history_find (s_RTT_hist st) (s_near_i st) = Some d" "history_find (s_RTT_hist st) (s_far_i st) = Some e"
    by metis
  then show ?thesis by (simp add: init_phat_full_def warm_core_def)
qed

lemma init_plocal_returns:
  assumes "all_fresh st"
  shows "\<exists>st'. init_plocal_full st stamp r = Some st' \<and> warm_core st' = warm_core st
    \<and> s_thnaive_hist st' = s_thnaive_hist st \<and> s_RTThat_hist st' = s_RTThat_hist st"
proof -
  let ?st1 = "st\<lparr>s_plocal_end := plocal_first st\<rparr>"
  show ?thesis
  proof (cases "plocal_first st \<ge> plocal_avail ?st1")
    case True
    have "fresh (s_RTT_hist ?st1)" using assms by (simp add: all_fresh_def)
    then have "\<exists>k. history_min (s_RTT_hist ?st1) j i = Some k" for j i using fresh_min by blast
    then obtain k1 k2 where k:
        "history_min (s_RTT_hist ?st1) (s_stamp_i ?st1 - s_plocal_win ?st1 + 1 - c_MAX 4 (s_plocal_win ?st1 div ucast r) div 2)
           (s_stamp_i ?st1 - s_plocal_win ?st1 + c_MAX 4 (s_plocal_win ?st1 div ucast r) - c_MAX 4 (s_plocal_win ?st1 div ucast r) div 2) = Some k1"
        "history_min (s_RTT_hist ?st1) (s_stamp_i ?st1 - c_MAX 4 (s_plocal_win ?st1 div ucast r) + 1) (s_stamp_i ?st1) = Some k2"
      by metis
    obtain st2 where "reset_plocal ?st1 r (s_stamp_i ?st1) = Some st2" "warm_core st2 = warm_core st"
        "s_thnaive_hist st2 = s_thnaive_hist st" "s_RTThat_hist st2 = s_RTThat_hist st"
      unfolding reset_plocal_def Let_def k Option.bind.bind_lunit by (auto simp: warm_core_def)
    then show ?thesis using True by (simp add: init_plocal_full_def Let_def warm_core_def)
  next
    case False
    then show ?thesis by (simp add: init_plocal_full_def Let_def warm_core_def)
  qed
qed

lemma all_fresh_core:
  "warm_core st' = warm_core st \<Longrightarrow> s_thnaive_hist st' = s_thnaive_hist st \<Longrightarrow> all_fresh st \<Longrightarrow> all_fresh st'"
  by (simp add: warm_core_def all_fresh_def)

lemma init_full_returns:
  assumes "all_fresh st"
  shows "\<exists>st' rd'. RADalgo_init_full r st stamp rd out = Some (st', rd') \<and> warm_core st' = warm_core st
    \<and> s_thnaive_hist st' = s_thnaive_hist st
    \<and> s_RTThat_hist st' = fold (\<lambda>j h. history_add h (of_nat j) (s_RTThat st)) [0..<Suc (unat (s_stamp_i st))] (s_RTThat_hist st)"
proof -
  let ?st0 = "st\<lparr>s_history_end := s_h_win st - 1\<rparr>"
  let ?H = "fold (\<lambda>j h. history_add h (of_nat j) (s_RTThat st)) [0..<Suc (unat (s_stamp_i st))] (s_RTThat_hist st)"
  have z: "all_fresh ?st0" "warm_core ?st0 = warm_core st" "s_thnaive_hist ?st0 = s_thnaive_hist st"
    using assms by (simp_all add: all_fresh_def warm_core_def)
  obtain st1 where 1: "init_RTTOWDAsym_full ?st0 stamp = Some st1" "warm_core st1 = warm_core ?st0"
      "s_thnaive_hist st1 = s_thnaive_hist ?st0" "s_RTThat_hist st1 = ?H"
    using init_RTTOWDAsym_returns [OF z(1), of stamp] by auto
  obtain st2 where 2: "init_phat_full st1 stamp = Some st2" "warm_core st2 = warm_core st1"
      "s_thnaive_hist st2 = s_thnaive_hist st1" "s_RTThat_hist st2 = s_RTThat_hist st1"
    using init_phat_returns [OF all_fresh_core [OF 1(2,3) z(1)]] by blast
  obtain st3 where 3: "init_plocal_full st2 stamp r = Some st3" "warm_core st3 = warm_core st2"
      "s_thnaive_hist st3 = s_thnaive_hist st2" "s_RTThat_hist st3 = s_RTThat_hist st2"
    using init_plocal_returns [OF all_fresh_core [OF 2(2,3) all_fresh_core [OF 1(2,3) z(1)]]] by blast
  let ?st4 = "(init_thetahat_full st3 stamp)\<lparr>s_Pbase := out_pathpenalty out\<rparr>"
  have "warm_core (parameters_calibration ?st4) = warm_core st3"
      "s_thnaive_hist (parameters_calibration ?st4) = s_thnaive_hist st3"
      "s_RTThat_hist (parameters_calibration ?st4) = s_RTThat_hist st3"
    by (simp_all add: parameters_calibration_def init_thetahat_full_def warm_core_def Let_def)
  then show ?thesis
    using 1 2 3 z by (simp add: RADalgo_init_full_def Let_def del: upt_Suc)
qed


section \<open>One stamp in warmup\<close>

text \<open>The history holds the whole series \<open>xs\<close>, in a buffer of size \<open>W\<close>.\<close>

definition holds :: "'a history \<Rightarrow> 'a list \<Rightarrow> nat \<Rightarrow> bool" where
  "holds h xs W \<longleftrightarrow> hist_repr h xs \<and> hist_low h = 0 \<and> hist_size h = W"

lemma holds_fresh: "holds h xs W \<Longrightarrow> fresh h"
  by (simp add: holds_def fresh_def hist_low_def unat_eq_zero)

lemma holds_add:
  assumes "holds h xs W" "length xs < W" "W < 2 ^ 32"
  shows "holds (history_add h (of_nat (length xs)) x) (xs @ [x]) W"
  using assms hist_add_repr [of h xs x] hist_add_low [of h xs x]
  by (simp add: holds_def hist_size_add)

definition rtt :: "bidir_stamp \<Rightarrow> vcounter_t" where
  "rtt s = Tf s - Ta s"

text \<open>Invariant of the warmup after the stamps \<open>ss\<close>, with a warmup window of \<open>W\<close> stamps.\<close>

definition warm_inv :: "nat \<Rightarrow> bidir_stamp list \<Rightarrow> bidir_algostate \<Rightarrow> bool" where
  "warm_inv W ss st \<longleftrightarrow> ss \<noteq> [] \<and> length ss \<le> W \<and> W < 2 ^ 32
     \<and> s_stamp_i st = of_nat (length ss - 1) \<and> s_warmup_win st = of_nat W
     \<and> holds (s_RTT_hist st) (map rtt ss) W \<and> holds (s_stamp_hist st) ss W
     \<and> (\<exists>ths. length ths = length ss \<and> holds (s_thnaive_hist st) ths W)
     \<and> (\<exists>ds. length ds = length ss \<and> holds (s_Df_hist st) ds W)
     \<and> (\<exists>ds. length ds = length ss \<and> holds (s_Db_hist st) ds W)
     \<and> s_RTThat st = map rtt ss ! unat (s_pstamp_i st)
     \<and> first_min ((!) (map rtt ss)) 0 (length ss - 1) (unat (s_pstamp_i st))
     \<and> s_stamp st = last ss"

lemma first_min_cong:
  assumes "\<And>l. j \<le> l \<Longrightarrow> l \<le> i \<Longrightarrow> v l = w l"
  shows "first_min v j i k = first_min w j i k"
  using assms by (auto simp: first_min_def)

lemma first_min_append:
  assumes "k < length xs"
  shows "first_min ((!) (xs @ ys)) 0 (length xs - 1) k = first_min ((!) xs) 0 (length xs - 1) k"
  using assms by (intro first_min_cong) (auto simp: nth_append)

lemma RTT_warmup_min:
  fixes s :: bidir_stamp and st1 :: bidir_algostate
  assumes inv: "warm_inv W ss st" and n: "length ss < W" and si: "s_stamp_i st1 = of_nat (length ss)"
    and hat: "s_RTThat st1 = s_RTThat st" "s_pstamp_i st1 = s_pstamp_i st"
  defines "st' \<equiv> process_RTT_warmup st1 (rtt s)"
  shows "s_RTThat st' = map rtt (ss @ [s]) ! unat (s_pstamp_i st')"
    and "first_min ((!) (map rtt (ss @ [s]))) 0 (length ss) (unat (s_pstamp_i st'))"
proof -
  let ?xs = "map rtt ss" and ?k = "unat (s_pstamp_i st)"
  have i: "ss \<noteq> []" "s_RTThat st = ?xs ! ?k" "first_min ((!) ?xs) 0 (length ?xs - 1) ?k" "W < 2 ^ 32"
    using inv by (auto simp: warm_inv_def)
  have k: "?k < length ?xs" using i by (auto simp: first_min_def) (metis One_nat_def Suc_pred le_imp_less_Suc length_greater_0_conv)
  have "first_min ((!) (?xs @ [rtt s])) 0 (length ?xs - 1) ?k" using first_min_append [OF k] i(3) by blast
  note old = this
  have fm: "first_min ((!) (?xs @ [rtt s])) 0 (length ss) (if rtt s < ?xs ! ?k then length ss else ?k)"
  proof -
    have "Suc (length ?xs - 1) = length ss" using i(1) by simp
    then show ?thesis
      using first_min_extend [of "(!) (?xs @ [rtt s])" 0 "length ?xs - 1" ?k] k old by (auto simp: nth_append)
  qed
  have n64: "unat (of_nat (length ss) :: index_t) = length ss" using n i(4) by (intro unat_of_nat64) simp
  show "s_RTThat st' = map rtt (ss @ [s]) ! unat (s_pstamp_i st')"
      "first_min ((!) (map rtt (ss @ [s]))) 0 (length ss) (unat (s_pstamp_i st'))"
    using fm i(2) hat si n64 k by (auto simp: st'_def process_RTT_warmup_def nth_append split: if_splits)
qed

definition no_update :: "radclock_config \<Rightarrow> bool" where
  "no_update conf \<longleftrightarrow> \<not> HAS_UPDATE (conf_mask conf) UPDMASK_POLLPERIOD
     \<and> \<not> HAS_UPDATE (conf_mask conf) UPDMASK_TEMPQUALITY"

text \<open>What the end of a run of the algorithm leaves alone.\<close>

lemma sync_tail_core:
  defines "tail \<equiv> \<lambda>mp st stamp. RADalgo_errors mp (print_stats_state (collect_stats_state (st\<lparr>s_stamp := stamp\<rparr>) stamp)) stamp"
  shows "warm_core (tail mp st stamp) = warm_core st" "s_thnaive_hist (tail mp st stamp) = s_thnaive_hist st"
    "s_stamp (tail mp st stamp) = stamp"
  by (simp_all add: tail_def RADalgo_errors_def print_stats_state_def collect_stats_state_def warm_core_def Let_def)

lemma OWDAsym_warmup_core:
  "s_stamp_i (process_OWDAsym_warmup st s) = s_stamp_i st" "s_warmup_win (process_OWDAsym_warmup st s) = s_warmup_win st"
  "s_RTT_hist (process_OWDAsym_warmup st s) = s_RTT_hist st" "s_stamp_hist (process_OWDAsym_warmup st s) = s_stamp_hist st"
  "s_thnaive_hist (process_OWDAsym_warmup st s) = s_thnaive_hist st"
  "s_RTThat (process_OWDAsym_warmup st s) = s_RTThat st" "s_pstamp_i (process_OWDAsym_warmup st s) = s_pstamp_i st"
  "s_Df_hist (process_OWDAsym_warmup st s) = history_add (s_Df_hist st) (s_stamp_i st) (raw_Df st s)"
  "s_Db_hist (process_OWDAsym_warmup st s) = history_add (s_Db_hist st) (s_stamp_i st) (raw_Db st s)"
  by (simp_all add: process_OWDAsym_warmup_def Let_def)

lemma RTT_warmup_core:
  "s_stamp_i (process_RTT_warmup st R) = s_stamp_i st" "s_warmup_win (process_RTT_warmup st R) = s_warmup_win st"
  "s_RTT_hist (process_RTT_warmup st R) = s_RTT_hist st" "s_stamp_hist (process_RTT_warmup st R) = s_stamp_hist st"
  "s_thnaive_hist (process_RTT_warmup st R) = s_thnaive_hist st"
  "s_Df_hist (process_RTT_warmup st R) = s_Df_hist st" "s_Db_hist (process_RTT_warmup st R) = s_Db_hist st"
  by (simp_all add: process_RTT_warmup_def)

lemma warmup_returns:
  assumes "all_fresh st2" and st2: "st2 = process_OWDAsym_warmup (process_RTT_warmup st RTT) stamp"
    and "\<And>x. fresh (history_add (s_thnaive_hist st2) (s_stamp_i st2) x)"
  shows "\<exists>st' rd' out' x. RADalgo_warmup conf w r st stamp RTT rd out = Some (st', rd', out')
    \<and> warm_core st' = warm_core st2
    \<and> s_thnaive_hist st' = history_add (s_thnaive_hist st2) (s_stamp_i st2) x"
proof -
  obtain ret st3 where 3: "process_phat_warmup st2 RTT w = Some (ret, st3)" "warm_core st3 = warm_core st2"
      "s_thnaive_hist st3 = s_thnaive_hist st2"
    using phat_warmup_returns [OF assms(1)] by blast
  let ?st3 = "st3\<lparr>s_plocal := s_phat st3\<rparr>"
  have c3: "warm_core ?st3 = warm_core st2" "s_thnaive_hist ?st3 = s_thnaive_hist st2" "s_stamp_i ?st3 = s_stamp_i st2"
    using 3 by (simp_all add: warm_core_def)
  have f3: "all_fresh ?st3" using all_fresh_core [OF c3(1,2) assms(1)] .
  let ?x = "theta_naive ?st3 stamp"
  obtain st4 rd1 out1 where 4: "process_thetahat_warmup (conf_metaparam conf) ?st3 stamp rd RTT out = Some (st4, rd1, out1)"
      "warm_core st4 = warm_core ?st3" "s_thnaive_hist st4 = history_add (s_thnaive_hist st2) (s_stamp_i st2) ?x"
    using thetahat_warmup_returns [OF f3] assms(3) c3 by metis
  have f4: "all_fresh st4"
    using f3 4(2) assms(3) [of ?x] unfolding all_fresh_def 4(3) warm_core_def by simp
  define out2 where "out2 = out1\<lparr>out_pathpenalty := vc_real (s_RTThat st4) * s_phat st4
      * mp_relasym_bound_global (conf_metaparam conf)\<rparr>"
  define rd2 where "rd2 = (if s_stamp_i st4 \<ge> NTP_BURST then DEL_STATUS rd1 STARAD_UNSYNC else rd1)"
  have eq: "RADalgo_warmup conf w r st stamp RTT rd out =
      (if s_stamp_i st4 = s_warmup_win st4 - 1
       then do {(st5, rd3) \<leftarrow> RADalgo_init_full r st4 stamp rd2 out2; Some (st5, rd3, out2)}
       else Some (st4, rd2, out2))"
    unfolding RADalgo_warmup_def Let_def st2 [symmetric] 3(1) Option.bind.bind_lunit prod.case 4(1) out2_def rd2_def ..
  obtain st5 rd3 where 5: "RADalgo_init_full r st4 stamp rd2 out2 = Some (st5, rd3)" "warm_core st5 = warm_core st4"
      "s_thnaive_hist st5 = s_thnaive_hist st4"
    using init_full_returns [OF f4] by blast
  show ?thesis unfolding eq 5(1) using 5(2,3) 4(2,3) c3(1) by auto
qed

lemma warm_step:
  assumes inv: "warm_inv W ss st" and n: "length ss < W" and conf: "no_update conf"
  shows "\<exists>st' rd' out'. RADalgo_bidir mem rmem junk conf st s q rd out = Some (st', rd', out')
    \<and> warm_inv W (ss @ [s]) st'"
proof -
  let ?n = "length ss"
  have W: "ss \<noteq> []" "W < 2 ^ 32" "s_stamp_i st = of_nat (?n - 1)" "s_warmup_win st = of_nat W" using inv by (auto simp: warm_inv_def)
  have si: "s_stamp_i st + 1 = of_nat ?n" using W by (simp add: of_nat_diff Suc_le_eq)
  have n64: "unat (of_nat ?n :: index_t) = ?n" "unat (of_nat W :: index_t) = W"
    using n W(2) by (simp_all add: unat_of_nat64)
  then have idx: "(of_nat ?n :: index_t) \<noteq> 0" "(of_nat ?n :: index_t) < of_nat W"
    using W(1) n by (auto simp: word_less_nat_alt unat_eq_zero [symmetric])
  define st0 where "st0 = st\<lparr>s_stamp_i := of_nat ?n\<rparr>"
  define st1 where "st1 = st0\<lparr>s_RTT_hist := history_add (s_RTT_hist st0) (of_nat ?n) (rtt s),
      s_stamp_hist := history_add (s_stamp_hist st0) (of_nat ?n) s\<rparr>"
  define st2 where "st2 = process_OWDAsym_warmup (process_RTT_warmup st1 (rtt s)) s"
  obtain ths dfs dbs where h: "holds (s_RTT_hist st) (map rtt ss) W" "holds (s_stamp_hist st) ss W"
      "length ths = ?n" "holds (s_thnaive_hist st) ths W" "length dfs = ?n" "holds (s_Df_hist st) dfs W"
      "length dbs = ?n" "holds (s_Db_hist st) dbs W"
    using inv by (auto simp: warm_inv_def)
  have b: "s_stamp_i st1 = of_nat ?n" "s_RTThat st1 = s_RTThat st" "s_pstamp_i st1 = s_pstamp_i st"
      "s_warmup_win st1 = of_nat W"
    using W(4) by (simp_all add: st1_def st0_def)
  note core = OWDAsym_warmup_core RTT_warmup_core
  have h2: "holds (s_RTT_hist st2) (map rtt (ss @ [s])) W" "holds (s_stamp_hist st2) (ss @ [s]) W"
      "\<exists>d. holds (s_Df_hist st2) (dfs @ [d]) W" "\<exists>d. holds (s_Db_hist st2) (dbs @ [d]) W"
      "s_thnaive_hist st2 = s_thnaive_hist st" "s_stamp_i st2 = of_nat ?n" "s_warmup_win st2 = of_nat W"
    using holds_add [OF h(1), of "rtt s"] holds_add [OF h(2), of s] holds_add [OF h(6)] holds_add [OF h(8)] h(3,5,7) n W(2) b
    by (auto simp: st2_def core) (auto simp: st1_def st0_def)
  have th2: "holds (history_add (s_thnaive_hist st2) (s_stamp_i st2) x) (ths @ [x]) W" for x
    using holds_add [OF h(4), of x] h(3) n W(2) h2(5,6) by simp
  have fresh2: "all_fresh st2"
    using h2(1-4) h(4) by (auto simp: all_fresh_def h2(5) dest: holds_fresh)
  have fr: "fresh (history_add (s_thnaive_hist st2) (s_stamp_i st2) x)" for x using holds_fresh th2 by blast
  obtain st3 rd3 out3 x where 3: "RADalgo_warmup conf 4 5 st1 s (rtt s) rd out = Some (st3, rd3, out3)"
      "warm_core st3 = warm_core st2" "s_thnaive_hist st3 = history_add (s_thnaive_hist st2) (s_stamp_i st2) x"
    using warmup_returns [OF fresh2 st2_def fr] by blast
  let ?st4 = "RADalgo_errors (conf_metaparam conf) (print_stats_state (collect_stats_state (st3\<lparr>s_stamp := s\<rparr>) s)) s"
  have "RADalgo_sync junk conf st0 s q rd out = Some (?st4, rd3, RADalgo_output ?st4 rd3 (rtt s) out3)"
  proof -
    have "s_stamp_i st0 = of_nat ?n" "s_warmup_win st1 = of_nat W" using b by (simp_all add: st0_def)
    then show ?thesis
      using 3(1) idx unfolding RADalgo_sync_def Let_def rtt_def [symmetric] st1_def by simp
  qed
  then have run: "RADalgo_bidir mem rmem junk conf st s q rd out = Some (?st4, rd3, RADalgo_output ?st4 rd3 (rtt s) out3)"
    using conf idx(1) si by (simp add: RADalgo_bidir_def no_update_def st0_def)
  have c4: "warm_core ?st4 = warm_core st2" "s_thnaive_hist ?st4 = s_thnaive_hist st3" "s_stamp ?st4 = s"
    unfolding 3(2) [symmetric] by (rule sync_tail_core)+
  have "s_RTThat st2 = map rtt (ss @ [s]) ! unat (s_pstamp_i st2)"
      "first_min ((!) (map rtt (ss @ [s]))) 0 ?n (unat (s_pstamp_i st2))"
    using RTT_warmup_min [OF inv n b(1-3), of s] by (simp_all add: st2_def core)
  moreover have "length (ths @ [x]) = length (ss @ [s])" "length (dfs @ [d]) = length (ss @ [s])"
      "length (dbs @ [d]) = length (ss @ [s])" for d using h by simp_all
  ultimately have "warm_inv W (ss @ [s]) ?st4"
    using c4 3(3) th2 [of x] h2 n W(2) unfolding warm_inv_def warm_core_def
    by (simp only: prod.inject) (metis append_is_Nil_conv last_snoc length_append_singleton diff_Suc_1 Suc_leI not_Cons_self2)
  then show ?thesis using run by blast
qed

section \<open>From the first stamp to the end of warmup\<close>

text \<open>The warmup window the first stamp sets up.\<close>

definition first_warmup_win :: "radclock_config \<Rightarrow> nat" where
  "first_warmup_win conf =
     (case RADalgo_setup (\<lambda>_. True) conf 5 (null_state\<lparr>s_stamp_i := 0\<rparr>) of
        None \<Rightarrow> 0 | Some st \<Rightarrow> unat (s_warmup_win st))"

lemma warmup_win_pos: "100 \<le> s_warmup_win (adjust_warmup_win 0 (p\<lparr>s_warmup_win := 100\<rparr>) r)"
  by (auto simp: adjust_warmup_win_def Let_def)

lemma holds_init:
  assumes "0 < W" "W < 2 ^ 32" "history_init True z (ucast (of_nat W :: index_t)) = Some h"
  shows "holds h [] W"
proof -
  have "unat (ucast (of_nat W :: index_t) :: uint32) = W"
    using assms(2) by (simp add: unsigned_ucast_eq unat_of_nat take_bit_eq_mod)
  then have "hist_repr h [] \<and> hist_size h = W"
    using hist_init_repr [OF assms(3)] assms(1) by (simp add: word_less_nat_alt)
  moreover have "hist_low h = 0" using assms(3) by (auto simp: history_init_def hist_low_def)
  ultimately show ?thesis by (simp add: holds_def)
qed

lemma setup_holds:
  assumes "first_warmup_win conf < 2 ^ 32"
  defines "W \<equiv> first_warmup_win conf"
  shows "\<exists>st. RADalgo_setup (\<lambda>_. True) conf 5 (null_state\<lparr>s_stamp_i := 0\<rparr>) = Some st
    \<and> 0 < W \<and> s_warmup_win st = of_nat W \<and> s_stamp_i st = 0 \<and> s_pstamp_i st = 0
    \<and> holds (s_RTT_hist st) [] W \<and> holds (s_stamp_hist st) [] W \<and> holds (s_thnaive_hist st) [] W
    \<and> holds (s_Df_hist st) [] W \<and> holds (s_Db_hist st) [] W"
proof -
  let ?st1 = "(set_err_thresholds (conf_metaparam conf) (null_state\<lparr>s_stamp_i := 0\<rparr>))
      \<lparr>s_poll_period := conf_poll_period conf, s_poll_ratio := 1\<rparr>"
  let ?st2 = "(set_algo_windows (conf_metaparam conf) ?st1)\<lparr>s_warmup_win := 100\<rparr>"
  let ?st3 = "adjust_warmup_win 0 ?st2 5"
  have i: "s_stamp_i ?st2 = 0" "s_pstamp_i ?st3 = 0" "s_stamp_i ?st3 = 0"
    by (simp_all add: set_algo_windows_def set_err_thresholds_def adjust_warmup_win_def null_state_def Let_def)
  define w where "w = s_warmup_win ?st3"
  obtain h where h: "history_init True (0 :: real) (ucast w) = Some h" by (simp add: history_init_def)
  obtain hs where hs: "history_init True zero_stamp (ucast w) = Some hs" by (simp add: history_init_def)
  obtain hv where hv: "history_init True (0 :: vcounter_t) (ucast w) = Some hv" by (simp add: history_init_def)
  let ?st = "?st3\<lparr>s_stamp_hist := hs, s_Df_hist := h, s_Db_hist := h, s_Dfhat_hist := h, s_Dbhat_hist := h,
      s_Asymhat_hist := h, s_RTT_hist := hv, s_RTThat_hist := hv, s_thnaive_hist := h\<rparr>"
  have st: "RADalgo_setup (\<lambda>_. True) conf 5 (null_state\<lparr>s_stamp_i := 0\<rparr>) = Some ?st"
    unfolding RADalgo_setup_def Let_def i(1) using h hs hv unfolding w_def by simp
  then have W: "W = unat w" by (simp add: W_def first_warmup_win_def w_def)
  have "100 \<le> w" unfolding w_def by (rule warmup_win_pos)
  then have pos: "0 < W" unfolding W by (simp add: word_le_nat_alt)
  have wW: "w = of_nat W" by (simp add: W of_nat_unat)
  have "W < 2 ^ 32" using assms by simp
  note hi = holds_init [OF pos this, folded wW]
  have "s_warmup_win ?st = of_nat W" using wW by (simp add: w_def)
  then show ?thesis
    using st pos i(2,3) hi [OF h] hi [OF hs] hi [OF hv] by (intro exI [of _ ?st]) simp
qed

lemma warm_first:
  assumes "first_warmup_win conf < 2 ^ 32" "no_update conf"
  shows "\<exists>st' rd' out'. RADalgo_bidir (\<lambda>_. True) rmem junk conf null_state s q rd out = Some (st', rd', out')
    \<and> warm_inv (first_warmup_win conf) [s] st'"
proof -
  let ?W = "first_warmup_win conf"
  obtain st where st: "RADalgo_setup (\<lambda>_. True) conf 5 (null_state\<lparr>s_stamp_i := 0\<rparr>) = Some st" "0 < ?W"
      "s_warmup_win st = of_nat ?W" "s_stamp_i st = 0" "s_pstamp_i st = 0"
      "holds (s_RTT_hist st) [] ?W" "holds (s_stamp_hist st) [] ?W" "holds (s_thnaive_hist st) [] ?W"
      "holds (s_Df_hist st) [] ?W" "holds (s_Db_hist st) [] ?W"
    using setup_holds [OF assms(1)] by blast
  let ?st1 = "st\<lparr>s_RTT_hist := history_add (s_RTT_hist st) 0 (rtt s), s_stamp_hist := history_add (s_stamp_hist st) 0 s\<rparr>"
  let ?i = "init_algos conf ?st1 s (rtt s) out"
  let ?st4 = "RADalgo_errors (conf_metaparam conf) (print_stats_state (collect_stats_state ((fst ?i)\<lparr>s_stamp := s\<rparr>) s)) s"
  have run: "\<exists>rd' out'. RADalgo_bidir (\<lambda>_. True) rmem junk conf null_state s q rd out = Some (?st4, rd', out')"
    using assms(2) st(1,4) unfolding RADalgo_bidir_def RADalgo_sync_def Let_def no_update_def rtt_def [symmetric]
    by (simp add: null_state_def [of] split_def)
  have add: "holds h [] ?W \<Longrightarrow> holds (history_add h 0 x) [x] ?W" for h :: "'z history" and x
    using holds_add [of h "[]" ?W x] st(2) assms(1) by simp
  have c: "warm_core ?st4 = warm_core (fst ?i)" "s_thnaive_hist ?st4 = s_thnaive_hist (fst ?i)" "s_stamp ?st4 = s"
    by (rule sync_tail_core)+
  have ths: "\<exists>x. s_thnaive_hist (fst ?i) = history_add (s_thnaive_hist st) 0 x"
      "\<exists>x. s_Df_hist (fst ?i) = history_add (s_Df_hist st) 0 x" "\<exists>x. s_Db_hist (fst ?i) = history_add (s_Db_hist st) 0 x"
      "s_RTT_hist (fst ?i) = s_RTT_hist ?st1" "s_stamp_hist (fst ?i) = s_stamp_hist ?st1" "s_stamp_i (fst ?i) = 0"
      "s_warmup_win (fst ?i) = of_nat ?W" "s_RTThat (fst ?i) = rtt s" "s_pstamp_i (fst ?i) = 0"
    using st(3-5) by (auto simp: init_algos_def Let_def)
  have "\<exists>ths. length ths = 1 \<and> holds (s_thnaive_hist (fst ?i)) ths ?W"
      "\<exists>ths. length ths = 1 \<and> holds (s_Df_hist (fst ?i)) ths ?W" "\<exists>ths. length ths = 1 \<and> holds (s_Db_hist (fst ?i)) ths ?W"
    using add [OF st(8)] add [OF st(9)] add [OF st(10)] ths(1-3) by (metis One_nat_def length_Cons list.size(3))+
  moreover have "holds (s_RTT_hist ?st1) [rtt s] ?W" "holds (s_stamp_hist ?st1) [s] ?W"
    using add [OF st(6)] add [OF st(7)] by simp_all
  ultimately have "warm_inv ?W [s] ?st4"
    using c ths(4-9) assms(1) st(2) unfolding warm_inv_def warm_core_def
    by (simp add: first_min_def)
  then show ?thesis using run by blast
qed

text \<open>Feeding stamps, each with its quality warning, from the zeroed state of a server.\<close>

definition algo_feed :: "(nat \<Rightarrow> bool) \<Rightarrow> real \<Rightarrow> radclock_config \<Rightarrow> radclock_data \<Rightarrow> bidir_algooutput \<Rightarrow>
    (bidir_stamp \<times> int) list \<Rightarrow> (bidir_algostate \<times> radclock_data \<times> bidir_algooutput) option" where
  "algo_feed rmem junk conf rd out sqs =
     foldl (\<lambda>r (s, q). Option.bind r (\<lambda>(st, rd, out). RADalgo_bidir (\<lambda>_. True) rmem junk conf st s q rd out))
       (Some (null_state, rd, out)) sqs"

lemma algo_feed_snoc:
  "algo_feed rmem junk conf rd out (sqs @ [(s, q)]) =
     Option.bind (algo_feed rmem junk conf rd out sqs)
       (\<lambda>(st, rd, out). RADalgo_bidir (\<lambda>_. True) rmem junk conf st s q rd out)"
  by (simp add: algo_feed_def)

lemma warm_feed:
  assumes "first_warmup_win conf < 2 ^ 32" "no_update conf"
    and "sqs \<noteq> []" "length sqs \<le> first_warmup_win conf"
  shows "\<exists>st rd' out'. algo_feed rmem junk conf rd out sqs = Some (st, rd', out')
    \<and> warm_inv (first_warmup_win conf) (map fst sqs) st"
  using assms(3,4)
proof (induction sqs rule: rev_induct)
  case (snoc sq sqs)
  obtain s q where sq: "sq = (s, q)" by (cases sq)
  show ?case
  proof (cases "sqs = []")
    case True
    then show ?thesis
      using warm_first [OF assms(1,2), of rmem junk s q rd out] by (simp add: algo_feed_def sq)
  next
    case False
    then obtain st rd1 out1 where f: "algo_feed rmem junk conf rd out sqs = Some (st, rd1, out1)"
        "warm_inv (first_warmup_win conf) (map fst sqs) st"
      using snoc by auto
    show ?thesis
      using warm_step [OF f(2) _ assms(2), of "\<lambda>_. True" rmem junk s q rd1 out1] snoc.prems(2) f(1)
      by (simp add: algo_feed_snoc sq)
  qed
qed simp

text \<open>
  C12: The warmup phase is safe and exact. Whatever the stamps and quality warnings, feeding
  between 1 and \<open>warmup_win\<close> of them to a zeroed state runs the whole algorithm to
  completion each time, including the initialisation of the full algorithms on the last
  one: no null pointer is dereferenced and every loop ends. The stamp and RTT histories
  then hold precisely the stamps fed under their indices, \<open>RTThat\<close> is the smallest
  RTT seen, and \<open>pstamp_i\<close> is the first index that attained it.
\<close>

theorem warmup_returns_exactly:
  assumes "first_warmup_win conf < 2 ^ 32" "no_update conf"
    and "sqs \<noteq> []" "length sqs \<le> first_warmup_win conf"
  shows "\<exists>st rd' out'. algo_feed rmem junk conf rd out sqs = Some (st, rd', out')
    \<and> s_stamp_i st = of_nat (length sqs - 1) \<and> s_stamp st = fst (last sqs)
    \<and> (\<forall>k < length sqs. history_find (s_stamp_hist st) (of_nat k) = Some (fst (sqs ! k))
         \<and> history_find (s_RTT_hist st) (of_nat k) = Some (rtt (fst (sqs ! k))))
    \<and> s_RTThat st = Min ((\<lambda>k. rtt (fst (sqs ! k))) ` {0..length sqs - 1})
    \<and> first_min (\<lambda>k. rtt (fst (sqs ! k))) 0 (length sqs - 1) (unat (s_pstamp_i st))"
proof -
  obtain st rd' out' where f: "algo_feed rmem junk conf rd out sqs = Some (st, rd', out')"
      "warm_inv (first_warmup_win conf) (map fst sqs) st"
    using warm_feed [OF assms] by blast
  let ?xs = "map rtt (map fst sqs)" and ?W = "first_warmup_win conf"
  have h: "holds (s_RTT_hist st) ?xs ?W" "holds (s_stamp_hist st) (map fst sqs) ?W"
      "s_RTThat st = ?xs ! unat (s_pstamp_i st)" "first_min ((!) ?xs) 0 (length sqs - 1) (unat (s_pstamp_i st))"
      "s_stamp_i st = of_nat (length sqs - 1)" "s_stamp st = fst (last sqs)"
    using f(2) assms(3) by (auto simp: warm_inv_def last_map)
  have "first_min (\<lambda>k. rtt (fst (sqs ! k))) 0 (length sqs - 1) (unat (s_pstamp_i st)) \<longleftrightarrow>
      first_min ((!) ?xs) 0 (length sqs - 1) (unat (s_pstamp_i st))"
    using assms(3) by (intro first_min_cong) (simp add: nth_map le_less_trans)
  then have fm: "first_min (\<lambda>k. rtt (fst (sqs ! k))) 0 (length sqs - 1) (unat (s_pstamp_i st))" using h(4) by simp
  have "unat (s_pstamp_i st) < length sqs"
    using fm assms(3) by (auto simp: first_min_def) (metis One_nat_def Suc_pred le_imp_less_Suc length_greater_0_conv)
  then have "s_RTThat st = rtt (fst (sqs ! unat (s_pstamp_i st)))" using h(3) by simp
  moreover have "history_find (s_stamp_hist st) (of_nat k) = Some (fst (sqs ! k))"
      "history_find (s_RTT_hist st) (of_nat k) = Some (rtt (fst (sqs ! k)))" if "k < length sqs" for k
    using h(1,2) that hist_find_present [of "s_stamp_hist st" "map fst sqs" k] hist_find_present [of "s_RTT_hist st" ?xs k]
    by (simp_all add: holds_def)
  ultimately show ?thesis using f(1) h(5,6) fm first_min_Min [OF fm] by auto
qed

section \<open>A concrete configuration\<close>

text \<open>The excellent environment of \<^verbatim>\<open>sync_algo.h\<close> with a poll period of 16 seconds.\<close>

definition excel_conf :: radclock_config where
  "excel_conf = \<lparr>conf_mask = 0, conf_poll_period = 16,
     conf_metaparam = excel_metaparam,
     conf_phat_init = DEFAULT_PHAT_INIT, conf_asym_host = 0, conf_asym_net = 0\<rparr>"

lemma excel_windows:
  assumes "s_poll_period p = 16"
  shows "set_algo_windows (conf_metaparam excel_conf) p =
    p\<lparr>s_h_win := 37800, s_shift_win := 100, s_offset_win := 64, s_plocal_win := 320\<rparr>"
proof -
  have "\<lceil>10 * (15 / 10 ^ 6) / (1 / 10 ^ 7) / 16 :: real\<rceil> = 94" by simp
  moreover have "(604800 :: index_t) div 16 = 37800" by simp
  ultimately show ?thesis
    by (simp add: set_algo_windows_def assms excel_conf_def excel_metaparam_def Let_def real_to_u64_def)
qed

lemma excel_warmup:
  "adjust_warmup_win 0 (p\<lparr>s_h_win := 37800, s_shift_win := 100, s_offset_win := 64, s_plocal_win := 320, s_warmup_win := 100\<rparr>) 5
    = p\<lparr>s_h_win := 37800, s_shift_win := 100, s_offset_win := 64, s_plocal_win := 320, s_warmup_win := 480\<rparr>"
  by (simp add: adjust_warmup_win_def Let_def)

lemma excel_conf_ok: "first_warmup_win excel_conf = 480" "no_update excel_conf"
proof -
  let ?st1 = "(set_err_thresholds (conf_metaparam excel_conf) (null_state\<lparr>s_stamp_i := 0\<rparr>))
      \<lparr>s_poll_period := conf_poll_period excel_conf, s_poll_ratio := 1\<rparr>"
  have "s_poll_period ?st1 = 16" by (simp add: excel_conf_def)
  then have "s_warmup_win (adjust_warmup_win 0 ((set_algo_windows (conf_metaparam excel_conf) ?st1)\<lparr>s_warmup_win := 100\<rparr>) 5) = 480"
    by (simp only: excel_windows) (simp only: excel_warmup, simp)
  moreover have "s_stamp_i ((set_algo_windows (conf_metaparam excel_conf) ?st1)\<lparr>s_warmup_win := 100\<rparr>) = 0"
    by (simp add: set_algo_windows_def set_err_thresholds_def Let_def)
  ultimately show "first_warmup_win excel_conf = 480"
    unfolding first_warmup_win_def RADalgo_setup_def Let_def by (simp add: history_init_def)
  show "no_update excel_conf" by (simp add: no_update_def HAS_UPDATE_def excel_conf_def)
qed

theorem warmup_returns_exactly_witness:
  "\<exists>st rd' out'. algo_feed (\<lambda>_. True) 0 excel_conf null_data null_output
      [(\<lparr>Ta = 10, Tb = 1, Te = 2, Tf = 19\<rparr>, 0), (\<lparr>Ta = 30, Tb = 3, Te = 4, Tf = 37\<rparr>, 1)] = Some (st, rd', out')
    \<and> history_find (s_RTT_hist st) (of_nat 1) = Some 7"
proof -
  let ?sqs = "[(\<lparr>Ta = 10, Tb = 1, Te = 2, Tf = 19\<rparr>, 0), (\<lparr>Ta = 30, Tb = 3, Te = 4, Tf = 37\<rparr>, 1)] :: (bidir_stamp \<times> int) list"
  have "first_warmup_win excel_conf < 2 ^ 32" "length ?sqs \<le> first_warmup_win excel_conf" by (simp_all add: excel_conf_ok)
  then obtain st rd' out' where "algo_feed (\<lambda>_. True) 0 excel_conf null_data null_output ?sqs = Some (st, rd', out')"
      "\<forall>k < length ?sqs. history_find (s_stamp_hist st) (of_nat k) = Some (fst (?sqs ! k))
         \<and> history_find (s_RTT_hist st) (of_nat k) = Some (rtt (fst (?sqs ! k)))"
    using warmup_returns_exactly [of excel_conf ?sqs "\<lambda>_. True" 0 null_data null_output] excel_conf_ok(2) by blast
  then show ?thesis by (auto simp: rtt_def dest: spec [of _ 1])
qed

text \<open>A second stamp, for which the clock is shown not to jump.\<close>

theorem RADalgo_bidir_continuous_witness:
  "\<exists>st st' rd' out'. RADalgo_bidir (\<lambda>_. True) (\<lambda>_. True) 0 excel_conf st \<lparr>Ta = 30, Tb = 3, Te = 4, Tf = 37\<rparr> 0 null_data null_output
      = Some (st', rd', out') \<and> s_stamp_i st = 0 \<and> Ta (s_stamp st) = 10
    \<and> uncorrected_clock st' 10 = uncorrected_clock st 10"
proof -
  let ?s = "\<lparr>Ta = 10, Tb = 1, Te = 2, Tf = 19\<rparr>" and ?t = "\<lparr>Ta = 30, Tb = 3, Te = 4, Tf = 37\<rparr>"
  obtain st where inv: "warm_inv 480 [?s] st"
    using warm_first [of excel_conf "\<lambda>_. True" 0 ?s 0 null_data null_output] excel_conf_ok by auto
  then have si: "s_stamp_i st = 0" "s_stamp st = ?s" by (simp_all add: warm_inv_def)
  obtain st' rd' out' where r: "RADalgo_bidir (\<lambda>_. True) (\<lambda>_. True) 0 excel_conf st ?t 0 null_data null_output = Some (st', rd', out')"
    using warm_step [OF inv _ excel_conf_ok(2), of "\<lambda>_. True" "\<lambda>_. True" 0 ?t 0 null_data null_output] by auto
  then show ?thesis
    using RADalgo_bidir_continuous [OF r] si
    by (intro exI [of _ st] exI [of _ st'] exI [of _ rd'] exI [of _ out']) simp
qed


section \<open>Windows\<close>

text \<open>
  The windows chosen on the first stamp fit each other. As long as the configured windows stay
  below \<open>2 ^ 32\<close> stamps, the warmup window is at least as wide as the offset window, the shift window
  and the span of the local period algorithm, and twice the warmup and shift windows together
  fit in the top level history window, so that the history is never forgotten during warmup.
\<close>

lemma warmup_window_consistent:
  assumes "unat (s_offset_win p) < 2 ^ 32" "unat (s_shift_win p) < 2 ^ 32" "unat (s_plocal_win p) < 2 ^ 32"
    "unat (s_warmup_win p) < 2 ^ 32"
  defines "p' \<equiv> adjust_warmup_win 0 p 5"
  shows "s_warmup_win p \<le> s_warmup_win p' \<and> s_offset_win p' \<le> s_warmup_win p' \<and> s_shift_win p' \<le> s_warmup_win p'
    \<and> unat (s_plocal_win p') + unat (s_plocal_win p') div 2 \<le> unat (s_warmup_win p')
    \<and> unat (s_warmup_win p') + unat (s_shift_win p') \<le> unat (s_h_win p') div 2"
proof -
  have two: "(ucast (5 div 2 :: uint32) :: index_t) = 2" by simp
  define P where "P = s_plocal_win p + s_plocal_win p div 2"
  have uP: "unat P = unat (s_plocal_win p) + unat (s_plocal_win p) div 2"
    using assms(3) by (simp add: P_def unat_word_ariths unat_div_distrib)
  define W where "W = max (s_warmup_win p) (max (s_offset_win p) (max (s_shift_win p) P))"
  have uW: "unat W = max (unat (s_warmup_win p)) (max (unat (s_offset_win p)) (max (unat (s_shift_win p)) (unat P)))"
    by (simp add: W_def max_def word_le_nat_alt)
  have W33: "unat W < 2 ^ 33" unfolding uW using assms(1-4) uP by simp
  have sum: "unat (W + s_shift_win p) = unat W + unat (s_shift_win p)"
    using W33 assms(2) by (simp add: unat_word_ariths)
  have three: "unat (3 * ((W + s_shift_win p) * 2 + 1)) = 3 * ((unat W + unat (s_shift_win p)) * 2 + 1)"
  proof -
    have "unat ((W + s_shift_win p) * 2) = (unat W + unat (s_shift_win p)) * 2"
      using W33 assms(2) sum by (simp add: unat_word_ariths)
    then have "unat ((W + s_shift_win p) * 2 + 1) = (unat W + unat (s_shift_win p)) * 2 + 1"
      using W33 assms(2) by (simp add: unat_word_ariths)
    then show ?thesis using W33 assms(2) by (simp add: unat_word_ariths)
  qed
  have p': "s_warmup_win p' = W" "s_offset_win p' = s_offset_win p" "s_shift_win p' = s_shift_win p"
      "s_plocal_win p' = s_plocal_win p"
      "s_h_win p' = (if W + s_shift_win p > s_h_win p div 2 then 3 * ((W + s_shift_win p) * 2 + 1) else s_h_win p)"
    by (auto simp: p'_def adjust_warmup_win_def Let_def W_def P_def two max_def)
  have "unat W + unat (s_shift_win p) \<le> unat (s_h_win p') div 2"
    unfolding p'(5) using three sum by (auto simp: word_less_nat_alt unat_div_distrib not_less)
  then show ?thesis unfolding p'(1-4) word_le_nat_alt uW using uP by (simp add: le_max_iff_disj)
qed

definition slow_poll_conf :: radclock_config where
  "slow_poll_conf = excel_conf\<lparr>conf_poll_period := 128\<rparr>"

text \<open>
  With the excellent meta-parameters and a poll period of 128 seconds the first stamp
  sets a warmup window of 100 stamps, and this is also the width of the shift window and the size
  of every history: the buffers have no spare slot for the entry that leaves the window.
\<close>

lemma slow_poll_no_spare_slot:
  "\<exists>st. RADalgo_setup (\<lambda>_. True) slow_poll_conf 5 (null_state\<lparr>s_stamp_i := 0\<rparr>) = Some st
    \<and> s_shift_win st = 100 \<and> h_buffer_sz (s_RTT_hist st) = 100 \<and> h_buffer_sz (s_Df_hist st) = 100"
proof -
  let ?st1 = "(set_err_thresholds (conf_metaparam slow_poll_conf) (null_state\<lparr>s_stamp_i := 0\<rparr>))
      \<lparr>s_poll_period := conf_poll_period slow_poll_conf, s_poll_ratio := 1\<rparr>"
  let ?st2 = "(set_algo_windows (conf_metaparam slow_poll_conf) ?st1)\<lparr>s_warmup_win := 100\<rparr>"
  have "\<lceil>10 * (15 / 10 ^ 6) / (1 / 10 ^ 7) / 128 :: real\<rceil> = 12" by simp
  then have w: "s_shift_win ?st2 = 100" "s_offset_win ?st2 = 8" "s_plocal_win ?st2 = 40" "s_stamp_i ?st2 = 0"
    by (simp_all add: set_algo_windows_def slow_poll_conf_def excel_conf_def excel_metaparam_def
        set_err_thresholds_def Let_def real_to_u64_def)
  then have "s_warmup_win (adjust_warmup_win (s_stamp_i ?st2) ?st2 5) = 100"
      "s_shift_win (adjust_warmup_win (s_stamp_i ?st2) ?st2 5) = 100"
    by (simp_all add: adjust_warmup_win_def Let_def)
  then show ?thesis unfolding RADalgo_setup_def Let_def by (simp add: history_init_def)
qed

end
