(* ===== verification/Fixed_Point.thy ===== *)
theory Fixed_Point
  imports Rad_Clock Algo_State "HOL-Library.Log_Nat"
begin

text \<open>
  Clock parameters for the old kernels: the fixed point data of \<^verbatim>\<open>radclock/fixedpoint.c\<close> and the
  functions that hand clock data to the kernel (\<^verbatim>\<open>libradclock/kclock-linux.c\<close>,
  \<^verbatim>\<open>libradclock/kclock-fbsd.c\<close>).

  A conversion or shift that C leaves undefined (the logarithm of zero as an integer, a shift by
  63 or more) is \<open>None\<close>. The logarithm is the real one, so that \<^verbatim>\<open>bitcountll\<close> is exact.
\<close>

section \<open>Fixed point data\<close>

record radclock_fixedpoint =
  fp_phat_int :: uint64
  fp_time_int :: uint64
  fp_vcounter_ref :: vcounter_t
  fp_phat_shift :: uint8
  fp_time_shift :: uint8
  fp_countdiff_maxbits :: uint8

abbreviation COUNTERDIFF_MAX :: real where "COUNTERDIFF_MAX \<equiv> 30"

definition bitcountll :: "uint64 \<Rightarrow> uint8 option" where
  "bitcountll v = (if v = 0 then None else Some (of_nat (ceillog2 (unat v))))"

definition one_shifted :: "uint8 \<Rightarrow> real option" where
  "one_shifted k = (if unat k < 63 then Some (2 ^ unat k) else None)"

definition calculate_time_shift :: "real \<Rightarrow> uint8 option" where
  "calculate_time_shift time = map_option (\<lambda>b. 64 - (b + 1)) (bitcountll (real_to_u64 time))"

definition calculate_countdiff_maxbits :: "real \<Rightarrow> real \<Rightarrow> uint8 option" where
  "calculate_countdiff_maxbits phat delay = bitcountll (real_to_u64 (delay / phat))"

definition calculate_phat_shift :: "real \<Rightarrow> uint8 \<Rightarrow> uint8 option" where
  "calculate_phat_shift phat countdiff_maxbit =
     (let phat_int_bits = 64 - countdiff_maxbit - 1
      in Option.bind (one_shifted phat_int_bits) (\<lambda>p. bitcountll (real_to_u64 (p * (1 / phat)))))"

definition calculate_fixedpoint_data :: "vcounter_t \<Rightarrow> real \<Rightarrow> real \<Rightarrow> radclock_fixedpoint option" where
  "calculate_fixedpoint_data vcounter_ref time_ref phat =
     Option.bind (calculate_time_shift time_ref) (\<lambda>time_shift.
     Option.bind (one_shifted time_shift) (\<lambda>t2.
     Option.bind (calculate_countdiff_maxbits phat COUNTERDIFF_MAX) (\<lambda>countdiff_maxbits.
     Option.bind (calculate_phat_shift phat countdiff_maxbits) (\<lambda>phat_shift.
     Option.bind (one_shifted phat_shift) (\<lambda>p2.
       Some \<lparr>fp_phat_int = real_to_u64 (phat * p2), fp_time_int = real_to_u64 (time_ref * t2),
             fp_vcounter_ref = vcounter_ref, fp_phat_shift = phat_shift, fp_time_shift = time_shift,
             fp_countdiff_maxbits = countdiff_maxbits\<rparr>)))))"

section \<open>Handing clock data to the kernel\<close>

text \<open>
  \<open>call\<close> is the result of the netlink, ioctl or system call that reaches the kernel; the second
  component of a result tells whether such a call is made at all. The check of the Linux version
  that the data can be read back only logs.
\<close>

definition set_kernel_fixedpoint_linux :: "int \<Rightarrow> int \<Rightarrow> int \<times> bool" where
  "set_kernel_fixedpoint_linux kernel_version call =
     (if kernel_version = 0 \<or> kernel_version = 1 then (if call < 0 then 1 else 0, True) else (1, False))"

definition set_kernel_fixedpoint_fbsd :: "int \<Rightarrow> int \<Rightarrow> int \<times> bool" where
  "set_kernel_fixedpoint_fbsd kernel_version call =
     (if kernel_version = 0 \<or> kernel_version = 1 then (if call < 0 then 1 else 0, True) else (1, False))"

definition set_kernel_ffclock_linux :: "int \<Rightarrow> int \<Rightarrow> int \<times> bool" where
  "set_kernel_ffclock_linux kernel_version call =
     (if kernel_version = 0 \<or> kernel_version = 1 then (0, False)
      else if kernel_version = 2 then (if call < 0 then 1 else 0, True)
      else (1, False))"

definition set_kernel_ffclock_fbsd :: "int \<Rightarrow> int \<Rightarrow> int \<times> bool" where
  "set_kernel_ffclock_fbsd kernel_version call =
     (if kernel_version \<in> {0, 1, 2, 3} then (if call < 0 then 1 else 0, True) else (1, False))"

definition get_kernel_ffclock :: "int \<Rightarrow> int \<Rightarrow> int \<times> bool" where
  "get_kernel_ffclock kernel_version call =
     (if kernel_version < 2 then (1, False) else (if call < 0 then -1 else 0, True))"

text \<open>
  The search for a free bpf device of the FreeBSD version: \<open>dev_open d\<close> is what \<^verbatim>\<open>open\<close> returns for
  device \<open>d\<close>. The result of the search is the device number and the file descriptor it ends with.
\<close>

fun open_bpf :: "nat \<Rightarrow> (nat \<Rightarrow> int) \<Rightarrow> nat \<Rightarrow> int \<Rightarrow> nat \<times> int" where
  "open_bpf 0 dev_open devnum fd = (devnum, fd)"
| "open_bpf (Suc n) dev_open devnum fd =
     (if dev_open devnum \<noteq> -1 then (devnum, dev_open devnum) else open_bpf n dev_open (Suc devnum) (-1))"

definition init_kernel_clock_fbsd :: "int \<Rightarrow> (nat \<Rightarrow> int) \<Rightarrow> int \<times> int option" where
  "init_kernel_clock_fbsd kernel_version dev_open =
     (if kernel_version = 0 \<or> kernel_version = 1 then
        (case open_bpf 255 dev_open 0 (-1) of (devnum, fd) \<Rightarrow> if devnum = 254 then (1, None) else (0, Some fd))
      else if kernel_version = 2 \<or> kernel_version = 3 then (0, None)
      else (1, None))"

text \<open>The whole update of the fixed point data: the return code and the data sent.\<close>

definition update_kernel_fixed ::
    "int \<Rightarrow> int \<times> vcounter_t \<Rightarrow> radclock_data \<Rightarrow> int \<Rightarrow> int \<Rightarrow> (int \<times> radclock_fixedpoint option) option" where
  "update_kernel_fixed n_stamps vcounter d kernel_version call =
     (if n_stamps < int (unat NTP_BURST) then Some (0, None)
      else case vcounter of (err, vcount) \<Rightarrow>
        if err < 0 then Some (1, None)
        else map_option (\<lambda>fpdata. case set_kernel_fixedpoint_linux kernel_version call of (r, sent) \<Rightarrow>
                           (r, if sent then Some fpdata else None))
               (calculate_fixedpoint_data vcount (read_RADabs_UTC d vcount PLOCAL_ACTIVE) (rd_phat d)))"

section \<open>The fixed point data is accurate and does not overflow\<close>

lemma unat_real_to_u64:
  assumes "0 \<le> x" "x < 2 ^ 64"
  shows "unat (real_to_u64 x) = nat \<lfloor>x\<rfloor>"
proof -
  have "0 \<le> \<lfloor>x\<rfloor>" "\<lfloor>x\<rfloor> < 2 ^ 64" using assms by (simp_all add: floor_less_iff)
  then have "unat (word_of_int \<lfloor>x\<rfloor> :: uint64) = nat \<lfloor>x\<rfloor>"
    by (simp add: unsigned_of_int take_bit_eq_mod)
  then show ?thesis by (simp add: real_to_u64_def)
qed

lemma ceillog2_63: "1 \<le> n \<Longrightarrow> n < 2 ^ 63 \<Longrightarrow> ceillog2 n \<le> 63"
  by (subst ceillog2_le_iff) auto

text \<open>The bit count of a number between 1 and \<open>2 ^ 63\<close>.\<close>

lemma bitcount_bounds:
  assumes "1 \<le> x" "x < 2 ^ 63"
  obtains k where "bitcountll (real_to_u64 x) = Some (of_nat k)" "k \<le> 63"
    "real (nat \<lfloor>x\<rfloor>) \<le> 2 ^ k" "2 ^ k < 2 * real (nat \<lfloor>x\<rfloor>)"
proof -
  let ?n = "nat \<lfloor>x\<rfloor>"
  have n: "1 \<le> ?n" "?n < 2 ^ 63" using assms by (simp_all add: le_nat_iff nat_less_iff le_floor_iff floor_less_iff)
  have u: "unat (real_to_u64 x) = ?n" using assms by (intro unat_real_to_u64) auto
  then have "real_to_u64 x \<noteq> 0" using n(1) by auto
  then have 1: "bitcountll (real_to_u64 x) = Some (of_nat (ceillog2 ?n))" using u by (simp add: bitcountll_def)
  have 2: "ceillog2 ?n \<le> 63" by (rule ceillog2_63 [OF n])
  have "real ?n \<le> real (2 ^ ceillog2 ?n)" using le_two_power_ceillog2 [of ?n] by (simp only: of_nat_le_iff)
  moreover have "real (2 ^ ceillog2 ?n) < real (2 * ?n)" using two_power_ceillog2_gt [of ?n] n(1) by (simp only: of_nat_less_iff)
  ultimately show ?thesis using that [OF 1 2] by simp
qed

lemma one_shifted_of_nat: "k < 63 \<Longrightarrow> one_shifted (of_nat k) = Some (2 ^ k)"
  by (simp add: one_shifted_def unsigned_of_nat take_bit_eq_mod)

lemma u8_minus: "k \<le> 63 \<Longrightarrow> (64 - (of_nat k + 1) :: uint8) = of_nat (63 - k)" "k \<le> 63 \<Longrightarrow> (64 - of_nat k - 1 :: uint8) = of_nat (63 - k)"
  by (simp_all add: of_nat_diff)

lemma floor_half:
  fixes x :: real
  assumes "1 \<le> x"
  shows "real (nat \<lfloor>x\<rfloor>) \<le> x" "x < 2 * real (nat \<lfloor>x\<rfloor>)"
proof -
  have "1 \<le> \<lfloor>x\<rfloor>" using assms by (simp add: le_floor_iff)
  then have "real (nat \<lfloor>x\<rfloor>) = of_int \<lfloor>x\<rfloor>" "1 \<le> real_of_int \<lfloor>x\<rfloor>" by simp_all
  then show "real (nat \<lfloor>x\<rfloor>) \<le> x" "x < 2 * real (nat \<lfloor>x\<rfloor>)" using floor_correct [of x] by linarith+
qed

text \<open>The shift for the time.\<close>

lemma time_shift_ok:
  assumes "2 \<le> t" "t < 2 ^ 62"
  obtains k where "calculate_time_shift t = Some (of_nat k)" "one_shifted (of_nat k) = Some (2 ^ k)" "k < 63"
    "t * 2 ^ k < 2 ^ 64"
proof -
  obtain b where b: "bitcountll (real_to_u64 t) = Some (of_nat b)" "b \<le> 63" "real (nat \<lfloor>t\<rfloor>) \<le> 2 ^ b" "2 ^ b < 2 * real (nat \<lfloor>t\<rfloor>)"
    using assms by (auto intro: bitcount_bounds [of t])
  have f: "2 \<le> nat \<lfloor>t\<rfloor>" "t < real (nat \<lfloor>t\<rfloor>) + 1" "real (nat \<lfloor>t\<rfloor>) \<le> t"
    using assms(1) by (simp_all add: le_nat_iff le_floor_iff)
  have b1: "1 \<le> b" using f(1) b(3) by (cases b) auto
  have "t < 2 ^ b + 1" using f(2) b(3) by linarith
  then have "t * 2 ^ (63 - b) < (2 ^ b + 1) * 2 ^ (63 - b)" by (rule mult_strict_right_mono) simp
  also have "\<dots> = 2 ^ 63 + 2 ^ (63 - b)" using b(2) by (simp add: distrib_right flip: power_add)
  also have "\<dots> \<le> 2 ^ 63 + 2 ^ 63" by (intro add_left_mono power_increasing) auto
  finally have "t * 2 ^ (63 - b) < 2 ^ 64" by simp
  moreover have "calculate_time_shift t = Some (of_nat (63 - b))"
    using b(1) u8_minus(1) [OF b(2)] by (simp add: calculate_time_shift_def)
  ultimately show ?thesis using that [of "63 - b"] one_shifted_of_nat [of "63 - b"] b1 by simp
qed

text \<open>The number of bits for the counter difference.\<close>

lemma maxbits_ok:
  assumes p: "0 < p" "p \<le> 1" "COUNTERDIFF_MAX / p < 2 ^ 61"
  obtains m where "calculate_countdiff_maxbits p COUNTERDIFF_MAX = Some (of_nat m)" "1 \<le> m" "m < 63"
    "real (nat \<lfloor>COUNTERDIFF_MAX / p\<rfloor>) \<le> 2 ^ m" "1 / p < (2 ^ m + 1) / COUNTERDIFF_MAX"
proof -
  let ?n = "real (nat \<lfloor>COUNTERDIFF_MAX / p\<rfloor>)"
  have q: "COUNTERDIFF_MAX \<le> COUNTERDIFF_MAX / p" using p by (simp add: le_divide_eq)
  obtain m where m: "bitcountll (real_to_u64 (COUNTERDIFF_MAX / p)) = Some (of_nat m)" "m \<le> 63"
    "?n \<le> 2 ^ m" "2 ^ m < 2 * ?n"
    using bitcount_bounds [of "COUNTERDIFF_MAX / p"] q p(3) by auto
  have n: "COUNTERDIFF_MAX / p < ?n + 1" "?n \<le> COUNTERDIFF_MAX / p" using q by linarith+
  have "(2 :: real) ^ m < 2 ^ 63" using m(4) n(2) p(3) by simp
  then have "m < 63" by (rule power_less_imp_less_exp [rotated]) simp
  moreover have "1 \<le> m" using m(3) n(1) q by (cases m) auto
  moreover have "COUNTERDIFF_MAX / p < 2 ^ m + 1" using n(1) m(3) by linarith
  then have "1 / p < (2 ^ m + 1) / COUNTERDIFF_MAX" by (simp add: field_simps)
  ultimately show ?thesis using that [of m] m(1,3) by (simp add: calculate_countdiff_maxbits_def)
qed

text \<open>The shift for the period, with \<open>m\<close> bits for the counter difference.\<close>

lemma phat_shift_ok:
  assumes p: "0 < p" "p \<le> 1" and m: "1 \<le> m" "m < 63" "1 / p < (2 ^ m + 1) / COUNTERDIFF_MAX"
  obtains k where "calculate_phat_shift p (of_nat m) = Some (of_nat k)" "one_shifted (of_nat k) = Some (2 ^ k)" "k < 63"
    "p * 2 ^ k < 2 ^ (64 - m)" "2 ^ (63 - m) \<le> 2 * p * 2 ^ k"
proof -
  let ?x = "2 ^ (63 - m) * (1 / p)"
  have e: "2 ^ (63 - m) * 2 ^ m = (2 :: real) ^ 63" "2 * 2 ^ (63 - m) = (2 :: real) ^ (64 - m)"
    using m(2) by (simp_all flip: power_add power_Suc add: Suc_diff_le)
  have "?x < 2 ^ (63 - m) * ((2 ^ m + 1) / COUNTERDIFF_MAX)" using m(3) by (intro mult_strict_left_mono) auto
  also have "\<dots> = (2 ^ 63 + 2 ^ (63 - m)) / COUNTERDIFF_MAX" using e(1) by (simp add: distrib_left)
  also have "\<dots> \<le> (2 ^ 63 + 2 ^ 63) / COUNTERDIFF_MAX"
    by (intro divide_right_mono add_left_mono power_increasing) auto
  also have "\<dots> \<le> 2 ^ 60" by simp
  finally have x: "?x < 2 ^ 60" .
  have "1 * 1 \<le> ?x" using p by (intro mult_mono) (auto simp: le_divide_eq)
  then have x1: "1 \<le> ?x" by simp
  obtain k where k: "bitcountll (real_to_u64 ?x) = Some (of_nat k)" "real (nat \<lfloor>?x\<rfloor>) \<le> 2 ^ k" "2 ^ k < 2 * real (nat \<lfloor>?x\<rfloor>)"
    using bitcount_bounds [OF x1] x by auto
  note fx = floor_half [OF x1]
  have "(2 :: real) ^ k < 2 ^ 63" using k(3) fx(1) x by simp
  then have k63: "k < 63" by (rule power_less_imp_less_exp [rotated]) simp
  have shift: "calculate_phat_shift p (of_nat m) = Some (of_nat k)"
    using u8_minus(2) [of m] m(1,2) one_shifted_of_nat [of "63 - m"] k(1) by (simp add: calculate_phat_shift_def)
  have "2 ^ k < 2 * ?x" "?x \<le> 2 * 2 ^ k" using k(2,3) fx by linarith+
  note px = mult_strict_left_mono [OF this(1) p(1)] mult_left_mono [OF this(2) less_imp_le [OF p(1)]]
  have up: "p * 2 ^ k < 2 ^ (64 - m)" using px(1) p(1) e(2) by simp
  have "2 ^ (63 - m) \<le> 2 * p * 2 ^ k" using px(2) p(1) by simp
  then show ?thesis using that [OF shift one_shifted_of_nat [OF k63] k63 up] by blast
qed

text \<open>Truncating a scaled number.\<close>

lemma scaled_trunc:
  assumes "0 \<le> x" "x * 2 ^ k < 2 ^ 64"
  shows "0 \<le> x - real (unat (real_to_u64 (x * 2 ^ k))) / 2 ^ k" "x - real (unat (real_to_u64 (x * 2 ^ k))) / 2 ^ k < 1 / 2 ^ k"
proof -
  have "unat (real_to_u64 (x * 2 ^ k)) = nat \<lfloor>x * 2 ^ k\<rfloor>" using assms by (intro unat_real_to_u64) auto
  moreover have "0 \<le> x * 2 ^ k" using assms(1) by simp
  ultimately have r: "real (unat (real_to_u64 (x * 2 ^ k))) \<le> x * 2 ^ k" "x * 2 ^ k < real (unat (real_to_u64 (x * 2 ^ k))) + 1"
    by linarith+
  then show "0 \<le> x - real (unat (real_to_u64 (x * 2 ^ k))) / 2 ^ k" by (simp add: field_simps)
  have "x < (real (unat (real_to_u64 (x * 2 ^ k))) + 1) / 2 ^ k" using r(2) by (simp add: pos_less_divide_eq)
  then show "x - real (unat (real_to_u64 (x * 2 ^ k))) / 2 ^ k < 1 / 2 ^ k" by (simp add: add_divide_distrib)
qed

lemma elapsed_ok:
  assumes p: "0 < p" and m: "m < 63" "real (nat \<lfloor>COUNTERDIFF_MAX / p\<rfloor>) \<le> 2 ^ m"
    and k: "p * 2 ^ k < 2 ^ (64 - m)" "2 ^ (63 - m) \<le> 2 * p * 2 ^ k" and c: "real c * p \<le> COUNTERDIFF_MAX"
  shows "unat (real_to_u64 (p * 2 ^ k)) * c < 2 ^ 64"
    "0 \<le> real c * p - real (unat (real_to_u64 (p * 2 ^ k)) * c) / 2 ^ k"
    "real c * p - real (unat (real_to_u64 (p * 2 ^ k)) * c) / 2 ^ k \<le> 60 / 2 ^ (63 - m)"
proof -
  let ?u = "unat (real_to_u64 (p * 2 ^ k))"
  have "(2 :: real) ^ (64 - m) \<le> 2 ^ 64" by (intro power_increasing) auto
  then have b: "p * 2 ^ k < 2 ^ 64" using k(1) by simp
  have "?u = nat \<lfloor>p * 2 ^ k\<rfloor>" using p b by (intro unat_real_to_u64) auto
  then have "real ?u \<le> p * 2 ^ k" using p by simp
  then have u: "real ?u < 2 ^ (64 - m)" using k(1) by (rule order_le_less_trans)
  have cq: "real c \<le> COUNTERDIFF_MAX / p" using c p by (simp add: le_divide_eq)
  then have "c \<le> nat \<lfloor>COUNTERDIFF_MAX / p\<rfloor>" by (rule le_nat_floor)
  then have cm: "real c \<le> 2 ^ m" using m(2) by linarith
  have "real (?u * c) = real ?u * real c" by simp
  also have "\<dots> \<le> real ?u * 2 ^ m" using cm by (intro mult_left_mono) auto
  also have "\<dots> < 2 ^ (64 - m) * 2 ^ m" using u by (intro mult_strict_right_mono) auto
  also have "\<dots> = 2 ^ 64" using m(1) by (simp flip: power_add)
  finally have "real (?u * c) < real (2 ^ 64)" by simp
  then show "?u * c < 2 ^ 64" by (simp only: of_nat_less_iff)
  have d: "real c * p - real (?u * c) / 2 ^ k = real c * (p - real ?u / 2 ^ k)" by (simp add: algebra_simps)
  note t = scaled_trunc [of p k, OF less_imp_le [OF p] b]
  show "0 \<le> real c * p - real (?u * c) / 2 ^ k" unfolding d using t(1) by simp
  have "real c * (p - real ?u / 2 ^ k) \<le> (COUNTERDIFF_MAX / p) * (1 / 2 ^ k)"
    using cq t p by (intro mult_mono) auto
  also have "\<dots> \<le> (COUNTERDIFF_MAX / p) * (2 * p / 2 ^ (63 - m))"
    using k(2) p by (intro mult_left_mono) (auto simp: field_simps)
  finally show "real c * p - real (?u * c) / 2 ^ k \<le> 60 / 2 ^ (63 - m)" unfolding d using p by simp
qed

text \<open>
  C35: The fixed point clock data for the old kernels is always computed, and works for counter
  differences of up to 30 seconds: multiplying the difference with the integer period does not
  overflow 64 bits and gives the elapsed time to within \<open>60 / 2 ^ (63 - m)\<close> seconds from below,
  where \<open>m\<close> is the number of bits reserved for the difference; the reference time is kept to
  within its last bit.
\<close>

theorem fixedpoint_no_overflow:
  assumes p: "0 < p" "p \<le> 1" "COUNTERDIFF_MAX / p < 2 ^ 61" and t: "2 \<le> t" "t < 2 ^ 62"
  shows "\<exists>fp. calculate_fixedpoint_data v t p = Some fp \<and> fp_vcounter_ref fp = v
    \<and> (\<forall>c. real c * p \<le> COUNTERDIFF_MAX \<longrightarrow>
          unat (fp_phat_int fp) * c < 2 ^ 64
          \<and> 0 \<le> real c * p - real (unat (fp_phat_int fp) * c) / 2 ^ unat (fp_phat_shift fp)
          \<and> real c * p - real (unat (fp_phat_int fp) * c) / 2 ^ unat (fp_phat_shift fp)
              \<le> 60 / 2 ^ (63 - unat (fp_countdiff_maxbits fp)))
    \<and> 0 \<le> t - real (unat (fp_time_int fp)) / 2 ^ unat (fp_time_shift fp)
    \<and> t - real (unat (fp_time_int fp)) / 2 ^ unat (fp_time_shift fp) < 1 / 2 ^ unat (fp_time_shift fp)"
proof -
  obtain j where j: "calculate_time_shift t = Some (of_nat j)" "one_shifted (of_nat j) = Some (2 ^ j)" "j < 63"
    "t * 2 ^ j < 2 ^ 64"
    using time_shift_ok [OF t] by blast
  obtain m where m: "calculate_countdiff_maxbits p COUNTERDIFF_MAX = Some (of_nat m)" "1 \<le> m" "m < 63"
    "real (nat \<lfloor>COUNTERDIFF_MAX / p\<rfloor>) \<le> 2 ^ m" "1 / p < (2 ^ m + 1) / COUNTERDIFF_MAX"
    using maxbits_ok [OF p] by blast
  obtain k where k: "calculate_phat_shift p (of_nat m) = Some (of_nat k)" "one_shifted (of_nat k) = Some (2 ^ k)" "k < 63"
    "p * 2 ^ k < 2 ^ (64 - m)" "2 ^ (63 - m) \<le> 2 * p * 2 ^ k"
    using phat_shift_ok [OF p(1,2) m(2,3,5)] by blast
  let ?fp = "\<lparr>fp_phat_int = real_to_u64 (p * 2 ^ k), fp_time_int = real_to_u64 (t * 2 ^ j), fp_vcounter_ref = v,
    fp_phat_shift = of_nat k, fp_time_shift = of_nat j, fp_countdiff_maxbits = of_nat m\<rparr>"
  have u: "unat (of_nat i :: uint8) = i" if "i < 63" for i
    using that by (simp add: unsigned_of_nat take_bit_eq_mod)
  have "calculate_fixedpoint_data v t p = Some ?fp"
    using j(1,2) m(1) k(1,2) by (simp add: calculate_fixedpoint_data_def)
  then show ?thesis
    using elapsed_ok [OF p(1) m(3,4) k(4,5)] scaled_trunc [of t j] j(4) t(1) u [OF j(3)] u [OF m(3)] u [OF k(3)]
    by (intro exI [of _ ?fp]) simp
qed

theorem fixedpoint_no_overflow_witness:
  "\<exists>fp. calculate_fixedpoint_data 5 1700000000 (1 / 10 ^ 9) = Some fp
    \<and> unat (fp_phat_int fp) * 30000000000 < 2 ^ 64"
  using fixedpoint_no_overflow [of "1 / 10 ^ 9" 1700000000 5] by (auto dest: spec [of _ 30000000000])

text \<open>The data that reaches an old kernel is exactly that; newer kernels refuse it.\<close>

lemma update_kernel_fixed_sends:
  assumes "update_kernel_fixed n (err, v) d kv call = Some (code, Some fp)"
  shows "(kv = 0 \<or> kv = 1) \<and> int (unat NTP_BURST) \<le> n \<and> 0 \<le> err
    \<and> calculate_fixedpoint_data v (read_RADabs_UTC d v PLOCAL_ACTIVE) (rd_phat d) = Some fp"
  using assms by (auto simp: update_kernel_fixed_def set_kernel_fixedpoint_linux_def split: if_splits)

text \<open>
  Which interface reaches the kernel: on Linux exactly one of the two for each known version; on
  FreeBSD the oldest kernels are sent the feed-forward data as well.
\<close>

lemma kernel_interfaces:
  assumes "kv \<in> {0, 1, 2}"
  shows "snd (set_kernel_ffclock_linux kv call) \<longleftrightarrow> \<not> snd (set_kernel_fixedpoint_linux kv call)"
    and "snd (set_kernel_ffclock_fbsd kv call)" "snd (set_kernel_fixedpoint_fbsd kv call) \<longleftrightarrow> kv < 2"
  using assms
  by (auto simp: set_kernel_ffclock_linux_def set_kernel_fixedpoint_linux_def set_kernel_ffclock_fbsd_def
      set_kernel_fixedpoint_fbsd_def)

text \<open>
  The search for a bpf device takes the last device it can open for a failure, and none at all
  for success.
\<close>

lemma open_bpf_first:
  "(\<And>d. k \<le> d \<Longrightarrow> d < k + n \<Longrightarrow> dev_open d = -1) \<Longrightarrow> open_bpf (n + m) dev_open k (-1) = open_bpf m dev_open (k + n) (-1)"
  by (induction n arbitrary: k) auto

lemma init_kernel_clock_off_by_one:
  assumes "\<And>d. d < 254 \<Longrightarrow> dev_open d = -1"
  shows "init_kernel_clock_fbsd 1 dev_open = (if dev_open 254 = -1 then (0, Some (-1)) else (1, None))"
proof -
  have "open_bpf 255 dev_open 0 (-1) = open_bpf 1 dev_open 254 (-1)"
    using open_bpf_first [of 0 254 dev_open 1] assms by simp
  then show ?thesis by (simp add: init_kernel_clock_fbsd_def)
qed

end
