(* ===== verification/Data_Proc.thy ===== *)
theory Data_Proc
  imports Fb_Clock Algo_Warmup Fixed_Point
begin

text \<open>
  The processing of one stamp (\<open>process_stamp\<close> of \<^verbatim>\<open>radclock/pthread_dataproc.c\<close>): the starvation
  test, the vetting of the stamp, the run of the synchronisation algorithm on it, the update
  of the server's clock parameters, the choice of the preferred clock and the publication of
  its parameters.

  The stamp, the readings of the counter and the answers of the kernel and of the virtual
  machine store come from the environment; what is handed to other processes and to the
  kernel is returned as a list of publications. \<open>None\<close> is a run that dereferences a null
  pointer inside the algorithm. Output files and log messages are left out.
\<close>

section \<open>State, environment and publications\<close>

record daemon =
  d_handle :: radclock_handle
  d_leap :: leap_statics
  d_fb :: fb_statics

record dp_env =
  dp_stamp :: "int + stamp_t"
  dp_now :: "int \<times> vcounter_t"
  dp_leap_now :: vcounter_t
  dp_mem :: "nat \<Rightarrow> bool"
  dp_rmem :: "nat \<Rightarrow> bool"
  dp_junk :: real
  dp_ntoa :: "uint32 \<Rightarrow> string"
  dp_aton :: "string \<Rightarrow> uint32 option"
  dp_kernel_version :: int
  dp_currentcounter :: int
  dp_vm :: int
  dp_fb :: fb_env

datatype publication =
    To_ipc radclock_data radclock_error
  | To_kernel_fixed radclock_data
  | To_ffclock ffclock_data
  | To_fbclock "kcall list"
  | To_vm radclock_data

section \<open>The steps\<close>

text \<open>Clocks whose last stamp is more than ten polling periods old are flagged.\<close>

definition starving :: "vcounter_t \<Rightarrow> radclock_data \<Rightarrow> bidir_algostate \<Rightarrow> bool" where
  "starving now rd st \<longleftrightarrow> vc_real (now - rd_last_changed rd) * rd_phat rd > of_int (10 * s_poll_period st)"

definition mark_starving :: "vcounter_t \<Rightarrow> radclock_handle \<Rightarrow> radclock_handle" where
  "mark_starving now h =
     h\<lparr>h_rad_data := map2 (\<lambda>rd st. if starving now rd st \<and> \<not> HAS_STATUS rd STARAD_STARVING
         then ADD_STATUS rd STARAD_STARVING else rd) (h_rad_data h) (h_state h)\<rparr>"

definition noleap_stamp :: "bidir_stamp \<Rightarrow> int \<Rightarrow> bidir_stamp" where
  "noleap_stamp b leapsec_total = b\<lparr>Tb := Tb b + of_int leapsec_total, Te := Te b + of_int leapsec_total\<rparr>"

definition new_rad_data :: "stamp_t \<Rightarrow> bidir_algostate \<Rightarrow> bidir_algooutput \<Rightarrow> radclock_data \<Rightarrow> radclock_data" where
  "new_rad_data stamp st output rd =
     rd\<lparr>rd_phat := s_phat st, rd_phat_err := s_perr st, rd_phat_local := s_plocal st,
        rd_phat_local_err := s_plocalerr st, rd_ca := s_K st - s_thetahat st,
        rd_ca_err := e_error_bound (s_algo_err st), rd_last_changed := Tf (BST stamp),
        rd_next_expected := Tf (BST stamp) + real_to_word (of_int (s_poll_period st) / s_phat st),
        rd_leapsec_total := out_leapsec_total output, rd_leapsec_next := out_leapsec_next output,
        rd_leapsec_expected := out_leapsec_expected output\<rparr>"

definition new_rad_error :: "radclock_data \<Rightarrow> bidir_algostate \<Rightarrow> radclock_error \<Rightarrow> radclock_error" where
  "new_rad_error rd st err =
     (let e = s_algo_err st;
          err = err\<lparr>re_error_bound := rd_ca_err rd\<rparr>;
          err = (if e_nerror e > 0 then
                   let err = err\<lparr>re_error_bound_avg := e_cumsum e / of_int (e_nerror e)\<rparr>
                   in if e_nerror e > 1
                      then err\<lparr>re_error_bound_std := sqrt ((e_sq_cumsum e - e_cumsum e * e_cumsum e / of_int (e_nerror e))
                             / of_int (e_nerror e - 1))\<rparr>
                      else err
                 else err)
      in err\<lparr>re_min_RTT := vc_real (s_RTThat st) * s_phat st\<rparr>)"

definition new_ntp_server :: "stamp_t \<Rightarrow> radclock_error \<Rightarrow> radclock_ntp_server \<Rightarrow> radclock_ntp_server" where
  "new_ntp_server stamp err sv =
     (let sv = (if st_stratum stamp > 0 \<and> st_stratum stamp < 16 \<and> st_LI stamp \<noteq> 3
                then sv\<lparr>nsv_stratum := word_of_int (st_stratum stamp), nsv_rootdelay := st_rootdelay stamp,
                        nsv_rootdispersion := st_rootdispersion stamp\<rparr>
                else sv)
      in sv\<lparr>nsv_refid := st_refid stamp, nsv_minRTT := re_min_RTT err\<rparr>)"

text \<open>A vetted stamp of server \<open>sID\<close> goes through the leap code and the algorithm into the server's data.\<close>

definition clear_starving :: "radclock_data \<Rightarrow> radclock_data" where
  "clear_starving rd = (if HAS_STATUS rd STARAD_STARVING then DEL_STATUS rd STARAD_STARVING else rd)"

definition run_server ::
    "dp_env \<Rightarrow> stamp_t \<Rightarrow> nat \<Rightarrow> int \<Rightarrow> radclock_handle \<Rightarrow> leap_statics
      \<Rightarrow> (radclock_handle \<times> leap_statics) option" where
  "run_server env stamp sID qual_warning h ls0 =
     (let rd1 = clear_starving (h_rad_data h ! sID);
          (out1, ls) = manage_leapseconds (h_run_mode h) (dp_leap_now env) stamp rd1 (h_output h ! sID) ls0
      in case RADalgo_bidir (dp_mem env) (dp_rmem env) (dp_junk env) (radclock_config.truncate (h_conf h))
                (h_state h ! sID) (noleap_stamp (BST stamp) (out_leapsec_total out1)) qual_warning rd1 out1 of
           None \<Rightarrow> None
         | Some (st, rd2, out2) \<Rightarrow>
             let rd = new_rad_data stamp st out2 rd2;
                 err = new_rad_error rd st (h_rad_error h ! sID)
             in Some
               (h\<lparr>h_laststamp := (h_laststamp h)[sID := stamp],
                  h_state := (h_state h)[sID := st], h_output := (h_output h)[sID := out2],
                  h_rad_data := (h_rad_data h)[sID := rd], h_rad_error := (h_rad_error h)[sID := err],
                  h_ntp_server := (h_ntp_server h)[sID := new_ntp_server stamp err (h_ntp_server h ! sID)]\<rparr>, ls))"

text \<open>The preferred clock; the flag tells whether it has new parameters.\<close>

definition update_pref :: "stamp_t \<Rightarrow> nat \<Rightarrow> radclock_handle \<Rightarrow> bool \<times> radclock_handle" where
  "update_pref stamp sID h =
     (if h_nservers h > 1 then
        let (pref_new, h) = preferred_RADclock h (Tf (BST stamp))
        in if pref_new \<noteq> h_pref_sID h then
             (True, (set_status (\<lambda>d. DEL_STATUS d STARAD_SYSCLOCK) h)
                      \<lparr>h_pref_sID := pref_new, h_pref_date := Tf (BST stamp)\<rparr>)
           else (sID = h_pref_sID h, h)
      else (True, h))"

definition VM_MASTER :: "daemon_config \<Rightarrow> bool" where
  "VM_MASTER conf \<longleftrightarrow> conf_server_vm_udp conf \<or> conf_server_xen conf \<or> conf_server_vmware conf"

text \<open>
  Publication of the preferred clock: the publications made, the code of an early return if
  there is one, and the handle and statics, which disciplining the system clock changes.
\<close>

definition publish_synced ::
    "dp_env \<Rightarrow> radclock_handle \<Rightarrow> fb_statics
      \<Rightarrow> publication list \<times> int option \<times> radclock_handle \<times> fb_statics" where
  "publish_synced env h fs =
     (if dp_kernel_version env \<ge> 2 \<and> dp_currentcounter env = 1 then ([], Some (-1), h, fs)
      else
        let pubs = (if dp_kernel_version env < 2 then [To_kernel_fixed (RAD_DATA h)]
                    else if conf_adjust_FFclock (h_conf h) then [To_ffclock (fill_ffclock_data (RAD_DATA h))]
                    else [])
        in if conf_adjust_FBclock (h_conf h) then
             let (calls, _, h, fs) = update_FBclock (dp_fb env) h fs
             in (pubs @ [To_fbclock calls], None, h, fs)
           else (pubs, None, h, fs))"

definition publish ::
    "dp_env \<Rightarrow> radclock_handle \<Rightarrow> fb_statics
      \<Rightarrow> publication list \<times> int option \<times> radclock_handle \<times> fb_statics" where
  "publish env h fs =
     (let unsync = HAS_STATUS (RAD_DATA h) STARAD_UNSYNC;
          ipc = (if conf_server_ipc (h_conf h) \<and> \<not> unsync then [To_ipc (RAD_DATA h) (RAD_ERROR h)] else []);
          (pubs, code, h, fs) = (if unsync then ([], None, h, fs) else publish_synced env h fs)
      in if code \<noteq> None then (ipc @ pubs, code, h, fs)
         else if VM_MASTER (h_conf h) then
           (ipc @ pubs @ [To_vm (RAD_DATA h)], if dp_vm env < 0 then Some 1 else None, h, fs)
         else (ipc @ pubs, None, h, fs))"

text \<open>
  A turn of the fixed point thread (\<^verbatim>\<open>pthread_mgr.c\<close>), which refreshes the data of kernels older
  than version 2 beside the processing of stamps.
\<close>

definition thread_fixedpoint_turn ::
    "int \<Rightarrow> int \<times> vcounter_t \<Rightarrow> int \<Rightarrow> radclock_handle \<Rightarrow> (int \<times> radclock_fixedpoint option) option" where
  "thread_fixedpoint_turn kernel_version vcounter call h =
     update_kernel_fixed (out_n_stamps (h_output h ! h_pref_sID h)) vcounter (RAD_DATA h) kernel_version call"

definition clear_mask :: "radclock_handle \<Rightarrow> radclock_handle" where
  "clear_mask h = h\<lparr>h_conf := (h_conf h)\<lparr>conf_mask := 0\<rparr>\<rparr>"

section \<open>Processing a stamp\<close>

text \<open>A stamp that is vetted against the one before; the first one of a server is not.\<close>

definition stamp_rejected :: "radclock_handle \<Rightarrow> nat \<Rightarrow> stamp_t \<Rightarrow> bool" where
  "stamp_rejected h sID stamp \<longleftrightarrow>
     out_n_stamps (h_output h ! sID) > 0
     \<and> (insane_bidir_stamp stamp (h_laststamp h ! sID)
        \<or> \<not> trusted (h_servertrust h) sID \<and> out_n_stamps (h_output h ! sID) > 8)"

definition stamp_warning :: "radclock_handle \<Rightarrow> nat \<Rightarrow> stamp_t \<Rightarrow> int" where
  "stamp_warning h sID stamp =
     (if out_n_stamps (h_output h ! sID) > 0 then flag_serverchange (h_laststamp h ! sID) stamp 0 else 0)"

definition process_server_stamp ::
    "dp_env \<Rightarrow> stamp_t \<Rightarrow> nat \<Rightarrow> daemon \<Rightarrow> (int \<times> daemon \<times> publication list) option" where
  "process_server_stamp env stamp sID d =
     (let h = d_handle d
      in if stamp_rejected h sID stamp
         then Some (0, d\<lparr>d_handle := h\<lparr>h_laststamp := (h_laststamp h)[sID := stamp]\<rparr>\<rparr>, [])
         else case run_server env stamp sID (stamp_warning h sID stamp) h (d_leap d) of
             None \<Rightarrow> None
           | Some (h, ls) \<Rightarrow>
               let (pref_updated, h) = update_pref stamp sID h;
                   (pubs, code, h, fs) =
                     (if h_run_mode h = RADCLOCK_SYNC_LIVE \<and> pref_updated then publish env h (d_fb d)
                      else ([], None, h, d_fb d))
               in case code of
                    Some c \<Rightarrow> Some (c, \<lparr>d_handle = h, d_leap = ls, d_fb = fs\<rparr>, pubs)
                  | None \<Rightarrow> Some (0, \<lparr>d_handle = clear_mask h, d_leap = ls, d_fb = fs\<rparr>, pubs))"

text \<open>The stamp, if there is one, is handed to its server.\<close>

definition dispatch_stamp :: "dp_env \<Rightarrow> daemon \<Rightarrow> radclock_handle \<Rightarrow> (int \<times> daemon \<times> publication list) option" where
  "dispatch_stamp env d h =
     (case dp_stamp env of
        Inl _ \<Rightarrow> Some (1, d\<lparr>d_handle := h\<rparr>, [])
      | Inr stamp \<Rightarrow>
          (case serverIPtoID (dp_ntoa env) (dp_aton env) h (st_server_ipaddr stamp) of
             (None, h) \<Rightarrow> Some (1, d\<lparr>d_handle := h\<rparr>, [])
           | (Some sID, h) \<Rightarrow> process_server_stamp env stamp sID (d\<lparr>d_handle := h\<rparr>)))"

definition process_stamp :: "dp_env \<Rightarrow> daemon \<Rightarrow> (int \<times> daemon \<times> publication list) option" where
  "process_stamp env d =
     (let h = d_handle d
      in if dp_stamp env = Inl (-1) then Some (-1, d, [])
         else if h_run_mode h = RADCLOCK_SYNC_LIVE then
           if fst (dp_now env) < 0 then Some (-1, d, [])
           else dispatch_stamp env d (mark_starving (snd (dp_now env)) h)
         else dispatch_stamp env d h)"

section \<open>Frame and invariant\<close>

text \<open>Parameters that agree up to the status word.\<close>

definition same_clock :: "radclock_data \<Rightarrow> radclock_data \<Rightarrow> bool" where
  "same_clock a b \<longleftrightarrow> (\<exists>s. b = a\<lparr>rd_status := s\<rparr>)"

lemma same_clock_refl [simp]: "same_clock a a"
  unfolding same_clock_def by (rule exI [of _ "rd_status a"]) simp

lemma same_clock_trans: "same_clock a b \<Longrightarrow> same_clock b c \<Longrightarrow> same_clock a c"
  by (auto simp: same_clock_def)

lemma same_clock_status [simp]: "same_clock a (ADD_STATUS a y)" "same_clock a (DEL_STATUS a y)"
  by (auto simp: same_clock_def ADD_STATUS_def DEL_STATUS_def)

lemma same_clock_fields:
  assumes "same_clock a b"
  shows "rd_phat b = rd_phat a" "rd_ca b = rd_ca a" "rd_last_changed b = rd_last_changed a"
    "read_RADabs_native b v u = read_RADabs_native a v u" "read_RADabs_UTC b v u = read_RADabs_UTC a v u"
  using assms
  by (auto simp: same_clock_def read_RADabs_native_def read_RADabs_UTC_def leap_correction_def Let_def)

text \<open>
  Two handles that differ only in status words, stamp gaps, the preferred server, its date and
  the update mask: what is left after a step that does not run the algorithm.
\<close>

definition quiet :: "radclock_handle \<Rightarrow> radclock_handle \<Rightarrow> bool" where
  "quiet h h' \<longleftrightarrow>
     h_nservers h' = h_nservers h \<and> h_run_mode h' = h_run_mode h \<and> h_servertrust h' = h_servertrust h
     \<and> length (h_s_to h') = length (h_s_to h) \<and> h_ntp_server h' = h_ntp_server h
     \<and> h_rad_error h' = h_rad_error h \<and> h_laststamp h' = h_laststamp h \<and> h_output h' = h_output h
     \<and> (\<exists>m. h_conf h' = (h_conf h)\<lparr>conf_mask := m\<rparr>)
     \<and> list_all2 same_clock (h_rad_data h) (h_rad_data h')
     \<and> list_all2 (\<lambda>a b. \<exists>g. b = a\<lparr>s_rawstampgap := g\<rparr>) (h_state h) (h_state h')"

lemma quiet_state_refl:
  "list_all2 (\<lambda>a b. \<exists>g. b = a\<lparr>s_rawstampgap := g\<rparr>) (sts :: bidir_algostate list) sts"
  by (rule list_all2_refl) (rule same_gap)

lemma quiet_conf_refl: "\<exists>m. (c :: daemon_config) = c\<lparr>conf_mask := m\<rparr>"
  by (rule exI [of _ "conf_mask c"]) simp

lemma quiet_refl [simp]: "quiet h h"
  by (simp add: quiet_def quiet_state_refl quiet_conf_refl list_all2_refl)

lemma quiet_trans:
  assumes "quiet a b" "quiet b c"
  shows "quiet a c"
proof -
  have "\<exists>m. h_conf c = (h_conf a)\<lparr>conf_mask := m\<rparr>"
    using assms unfolding quiet_def by fastforce
  moreover have "list_all2 same_clock (h_rad_data a) (h_rad_data b)" "list_all2 same_clock (h_rad_data b) (h_rad_data c)"
    using assms by (simp_all add: quiet_def)
  then have "list_all2 same_clock (h_rad_data a) (h_rad_data c)"
    by (rule list_all2_trans [rotated]) (rule same_clock_trans)
  moreover have "list_all2 (\<lambda>a b. \<exists>g. b = a\<lparr>s_rawstampgap := g\<rparr>) (h_state a) (h_state b)"
    "list_all2 (\<lambda>a b. \<exists>g. b = a\<lparr>s_rawstampgap := g\<rparr>) (h_state b) (h_state c)"
    using assms unfolding quiet_def by blast+
  then have "list_all2 (\<lambda>a b. \<exists>g. b = a\<lparr>s_rawstampgap := g\<rparr>) (h_state a) (h_state c)"
    by (rule list_all2_trans [rotated]) auto
  ultimately show ?thesis using assms unfolding quiet_def by simp
qed

lemma quiet_mark_starving:
  assumes "handle_ok h"
  shows "quiet h (mark_starving now h)"
proof -
  have "list_all2 same_clock (h_rad_data h) (h_rad_data (mark_starving now h))"
    using assms by (auto simp: list_all2_conv_all_nth mark_starving_def handle_ok_def)
  then show ?thesis by (simp add: quiet_def mark_starving_def quiet_state_refl quiet_conf_refl)
qed

lemma quiet_serverIPtoID:
  assumes "serverIPtoID ntoa aton h ip = (r, h')"
  shows "quiet h h'" "h_pref_sID h' = h_pref_sID h" "\<And>i. r = Some i \<Longrightarrow> i < length (h_s_to h)"
proof -
  obtain as where as: "serverIPtoID_loop ntoa aton (h_run_mode h) ip 0 (h_s_to h) = (r, as)" "h' = h\<lparr>h_s_to := as\<rparr>"
    using assms by (auto simp: serverIPtoID_def split: prod.splits)
  note * = serverIPtoID_loop_ok [OF as(1)]
  then show "quiet h h'" "h_pref_sID h' = h_pref_sID h"
    using as(2) by (simp_all add: quiet_def quiet_state_refl quiet_conf_refl list_all2_refl)
  show "i < length (h_s_to h)" if "r = Some i" for i using * that by simp
qed

lemma quiet_set_status:
  assumes "\<And>d. same_clock d (f d)" "h_pref_sID h < length (h_rad_data h)"
  shows "quiet h (set_status f h)" "h_pref_sID (set_status f h) = h_pref_sID h"
proof -
  have "list_all2 same_clock (h_rad_data h) (h_rad_data (set_status f h))"
    using assms by (auto simp: list_all2_conv_all_nth set_status_def nth_list_update RAD_DATA_def)
  then show "quiet h (set_status f h)" "h_pref_sID (set_status f h) = h_pref_sID h"
    by (simp_all add: quiet_def set_status_def quiet_state_refl quiet_conf_refl)
qed

lemma quiet_preferred:
  assumes "preferred_RADclock h now = (s, h')" "handle_ok h"
  shows "quiet h h'" "h_pref_sID h' = h_pref_sID h" "s < h_nservers h"
proof -
  have h': "h' = h\<lparr>h_state := h_state h'\<rparr>" by (rule preferred_frame(1) [OF assms(1)])
  have "list_all2 (\<lambda>a b. \<exists>g. b = a\<lparr>s_rawstampgap := g\<rparr>) (h_state h) (h_state h')"
    unfolding list_all2_conv_all_nth using preferred_frame(2,3) [OF assms(1)] by simp
  then show "quiet h h'" "h_pref_sID h' = h_pref_sID h"
    by (subst h', simp add: quiet_def quiet_conf_refl list_all2_refl)+
  show "s < h_nservers h" using preferred_in_range [OF assms(1)] assms(2) by (simp add: handle_ok_def)
qed

lemma quiet_ok: "quiet h h' \<Longrightarrow> handle_ok h \<Longrightarrow> h_pref_sID h' < h_nservers h' \<Longrightarrow> handle_ok h'"
  by (auto simp: quiet_def handle_ok_def dest: list_all2_lengthD)

lemma quiet_same_pref: "quiet h h' \<Longrightarrow> handle_ok h \<Longrightarrow> h_pref_sID h' = h_pref_sID h \<Longrightarrow> handle_ok h'"
  by (rule quiet_ok) (simp_all add: quiet_def handle_ok_def)

lemma quiet_FBclock:
  assumes "update_FBclock env h fs = (calls, ret, h', fs')" "handle_ok h"
  shows "quiet h h'" "h_pref_sID h' = h_pref_sID h"
proof -
  have "h_pref_sID h < length (h_rad_data h)" using assms(2) by (simp add: handle_ok_def)
  then have "quiet h h' \<and> h_pref_sID h' = h_pref_sID h"
    using assms(1) quiet_set_status [OF same_clock_status(1), of h] quiet_set_status [OF same_clock_status(2), of h]
    by (auto simp: update_FBclock_def fb_pll_def Let_def split: if_splits prod.splits)
  then show "quiet h h'" "h_pref_sID h' = h_pref_sID h" by simp_all
qed

lemma quiet_update_pref:
  assumes "update_pref stamp sID h = (u, h')" "handle_ok h"
  shows "quiet h h'" "handle_ok h'"
proof -
  have "quiet h h' \<and> h_pref_sID h' < h_nservers h'"
  proof (cases "h_nservers h > 1")
    case False
    then show ?thesis using assms by (simp add: update_pref_def handle_ok_def)
  next
    case True
    obtain s h1 where p: "preferred_RADclock h (Tf (BST stamp)) = (s, h1)" by (metis surj_pair)
    note q = quiet_preferred [OF p assms(2)]
    have n: "h_nservers h1 = h_nservers h" using q(1) by (simp add: quiet_def)
    have ok: "h_pref_sID h1 < length (h_rad_data h1)"
      using q(1,2) assms(2) by (auto simp: quiet_def handle_ok_def dest: list_all2_lengthD)
    have qs: "quiet h1 ((set_status (\<lambda>d. DEL_STATUS d STARAD_SYSCLOCK) h1)\<lparr>h_pref_sID := a, h_pref_date := b\<rparr>)" for a b
      using quiet_set_status(1) [OF same_clock_status(2) ok] by (simp add: quiet_def)
    have "h_nservers (set_status f h1) = h_nservers h" for f by (simp add: set_status_def n)
    then show ?thesis
      using assms True p q n quiet_trans [OF q(1) qs]
      by (auto simp: update_pref_def Let_def handle_ok_def split: if_splits)
  qed
  then show "quiet h h'" "handle_ok h'" using quiet_ok assms(2) by blast+
qed

lemma quiet_publish:
  assumes "publish env h fs = (pubs, code, h', fs')" "handle_ok h"
  shows "quiet h h'" "handle_ok h'"
proof -
  obtain pubs1 code1 h1 fs1 where
    s: "(if HAS_STATUS (RAD_DATA h) STARAD_UNSYNC then ([], None, h, fs) else publish_synced env h fs)
      = (pubs1, code1, h1, fs1)" by (metis surj_pair)
  have "quiet h h1 \<and> h_pref_sID h1 = h_pref_sID h"
    using s quiet_FBclock [OF _ assms(2)] by (auto simp: publish_synced_def Let_def split: if_splits prod.splits)
  moreover have "h' = h1" using assms(1) s by (auto simp: publish_def Let_def split: if_splits)
  ultimately have "quiet h h' \<and> h_pref_sID h' < h_nservers h'"
    using assms(2) by (simp add: quiet_def handle_ok_def)
  then show "quiet h h'" "handle_ok h'" using quiet_ok assms(2) by blast+
qed

lemma quiet_clear_mask: "quiet h (clear_mask h)" "h_pref_sID (clear_mask h) = h_pref_sID h"
  by (auto simp: quiet_def clear_mask_def quiet_state_refl list_all2_refl)

text \<open>Everything a run does after the algorithm is quiet.\<close>

lemma process_server_cases:
  assumes "process_server_stamp env stamp sID d = Some (code, d', pubs)" "handle_ok (d_handle d)" "sID < h_nservers (d_handle d)"
  obtains (rejected) "stamp_rejected (d_handle d) sID stamp" "code = 0" "pubs = []"
      "d' = d\<lparr>d_handle := (d_handle d)\<lparr>h_laststamp := (h_laststamp (d_handle d))[sID := stamp]\<rparr>\<rparr>"
    | (processed) h1 ls where "\<not> stamp_rejected (d_handle d) sID stamp"
      "run_server env stamp sID (stamp_warning (d_handle d) sID stamp) (d_handle d) (d_leap d) = Some (h1, ls)"
      "handle_ok h1" "quiet h1 (d_handle d')" "handle_ok (d_handle d')" "d_leap d' = ls"
proof (cases "stamp_rejected (d_handle d) sID stamp")
  case True
  then show thesis using rejected assms(1) by (simp add: process_server_stamp_def Let_def)
next
  case False
  obtain h1 ls where run: "run_server env stamp sID (stamp_warning (d_handle d) sID stamp) (d_handle d) (d_leap d) = Some (h1, ls)"
    using assms(1) False by (auto simp: process_server_stamp_def Let_def split: option.splits)
  have ok1: "handle_ok h1"
    using run assms(2) by (auto simp: run_server_def Let_def handle_ok_def split: prod.splits option.splits)
  obtain u h2 where u: "update_pref stamp sID h1 = (u, h2)" by (metis surj_pair)
  note q2 = quiet_update_pref [OF u ok1]
  obtain pubs3 code3 h3 fs3 where
    p: "(if h_run_mode h2 = RADCLOCK_SYNC_LIVE \<and> u then publish env h2 (d_fb d) else ([], None, h2, d_fb d))
      = (pubs3, code3, h3, fs3)" by (metis surj_pair)
  have q3: "quiet h2 h3 \<and> handle_ok h3"
    using p quiet_publish [OF _ q2(2)] q2(2) by (auto split: if_splits)
  have d': "d_handle d' = h3 \<or> d_handle d' = clear_mask h3" "d_leap d' = ls"
    using assms(1) False run u p by (auto simp: process_server_stamp_def Let_def split: option.splits)
  have "quiet h3 (d_handle d')" using d'(1) quiet_clear_mask(1) by auto
  moreover have "h_pref_sID (d_handle d') = h_pref_sID h3" using d'(1) quiet_clear_mask(2) by auto
  ultimately have "handle_ok (d_handle d')"
    using q3 quiet_same_pref by blast
  moreover have "quiet h1 (d_handle d')"
    by (rule quiet_trans [OF quiet_trans [OF q2(1)]]) (use q3 \<open>quiet h3 (d_handle d')\<close> in auto)
  ultimately show thesis using processed False run ok1 d'(2) by blast
qed

text \<open>A stamp belongs to the server at whose address it was taken, as the daemon looks it up.\<close>

definition stamp_of_server :: "dp_env \<Rightarrow> radclock_handle \<Rightarrow> stamp_t \<Rightarrow> nat \<Rightarrow> bool" where
  "stamp_of_server env h stamp s \<longleftrightarrow>
     (case serverIPtoID (dp_ntoa env) (dp_aton env) h (st_server_ipaddr stamp) of (r, h') \<Rightarrow>
        r = Some s \<and> dp_ntoa env (h_s_to h' ! s) = st_server_ipaddr stamp)"

lemma stamp_of_serverI:
  assumes "serverIPtoID (dp_ntoa env) (dp_aton env) h0 (st_server_ipaddr stamp) = (Some s, h1)"
    and "h_s_to h0 = h_s_to h" "h_run_mode h0 = h_run_mode h"
  shows "stamp_of_server env h stamp s"
  using assms serverIPtoID_loop_ok [of "dp_ntoa env" "dp_aton env" "h_run_mode h" "st_server_ipaddr stamp" 0 "h_s_to h"]
  by (auto simp: stamp_of_server_def serverIPtoID_def split: prod.splits)

lemma process_stamp_split:
  assumes "process_stamp env d = Some (code, d', pubs)" "handle_ok (d_handle d)"
  obtains (early) "d' = d" "pubs = []"
    | (late) h where "dispatch_stamp env d h = Some (code, d', pubs)" "quiet (d_handle d) h" "handle_ok h"
      "h_pref_sID h = h_pref_sID (d_handle d)" "h_s_to h = h_s_to (d_handle d)"
proof -
  let ?m = "mark_starving (snd (dp_now env)) (d_handle d)"
  have q: "quiet (d_handle d) ?m" by (rule quiet_mark_starving [OF assms(2)])
  have pref: "h_pref_sID ?m = h_pref_sID (d_handle d)" "h_s_to ?m = h_s_to (d_handle d)" by (simp_all add: mark_starving_def)
  have ok: "handle_ok ?m" by (rule quiet_same_pref [OF q assms(2) pref(1)])
  show thesis
    using assms(1) early late [OF _ q ok pref] late [OF _ quiet_refl assms(2) refl refl]
    by (simp add: process_stamp_def Let_def split: if_splits)
qed

lemma process_stamp_cases:
  assumes "process_stamp env d = Some (code, d', pubs)" "handle_ok (d_handle d)"
  obtains (idle) "quiet (d_handle d) (d_handle d')" "handle_ok (d_handle d')" "pubs = []"
    | (stamp) stamp sID h where "dp_stamp env = Inr stamp" "quiet (d_handle d) h" "handle_ok h"
      "h_pref_sID h = h_pref_sID (d_handle d)" "sID < h_nservers h"
      "process_server_stamp env stamp sID (d\<lparr>d_handle := h\<rparr>) = Some (code, d', pubs)"
      "stamp_of_server env (d_handle d) stamp sID"
  using assms
proof (cases rule: process_stamp_split)
  case early
  then show thesis using idle assms(2) by simp
next
  case (late h0)
  show thesis
  proof (cases "dp_stamp env")
    case (Inl e)
    then show thesis using late idle by (auto simp: dispatch_stamp_def)
  next
    case (Inr st)
    obtain r h where s: "serverIPtoID (dp_ntoa env) (dp_aton env) h0 (st_server_ipaddr st) = (r, h)" by (metis surj_pair)
    note qs = quiet_serverIPtoID [OF s]
    have q2: "quiet (d_handle d) h" by (rule quiet_trans [OF late(2) qs(1)])
    have ok2: "handle_ok h" by (rule quiet_same_pref [OF qs(1) late(3) qs(2)])
    show thesis
    proof (cases r)
      case None
      then show thesis using late(1) Inr s q2 ok2 idle by (auto simp: dispatch_stamp_def)
    next
      case (Some sID)
      then have "sID < h_nservers h" using qs(3) [of sID] late(3) qs(1) by (simp add: handle_ok_def quiet_def)
      moreover have "stamp_of_server env (d_handle d) st sID"
        using stamp_of_serverI [of env h0 st sID h] s Some late(2,5) by (simp add: quiet_def)
      ultimately show thesis using late(1,4) Inr s Some q2 ok2 qs(2) stamp by (simp add: dispatch_stamp_def)
    qed
  qed
qed

section \<open>What a run of the daemon guarantees\<close>

text \<open>The published parameters of a server are those of its algorithm.\<close>

definition clock_in_step :: "bidir_algostate \<Rightarrow> radclock_data \<Rightarrow> bool" where
  "clock_in_step st rd \<longleftrightarrow> rd_phat rd = s_phat st \<and> rd_ca rd = s_K st - s_thetahat st"

definition daemon_ok :: "daemon \<Rightarrow> bool" where
  [rad_wf]: "daemon_ok d \<longleftrightarrow> handle_ok (d_handle d)
     \<and> (\<forall>s<h_nservers (d_handle d). s_stamp_i (h_state (d_handle d) ! s) \<noteq> -1 \<longrightarrow>
          clock_in_step (h_state (d_handle d) ! s) (h_rad_data (d_handle d) ! s))"

lemma clock_in_step_reading:
  "clock_in_step st rd \<Longrightarrow> read_RADabs_native rd v False = uncorrected_clock st v - s_thetahat st"
  by (simp add: clock_in_step_def read_RADabs_native_def uncorrected_clock_def Let_def algebra_simps)

lemma quiet_nth:
  assumes "quiet h h'" "handle_ok h" "s < h_nservers h"
  shows "same_clock (h_rad_data h ! s) (h_rad_data h' ! s)"
    "\<exists>g. h_state h' ! s = (h_state h ! s)\<lparr>s_rawstampgap := g\<rparr>"
proof -
  have "list_all2 same_clock (h_rad_data h) (h_rad_data h')"
    "list_all2 (\<lambda>a b. \<exists>g. b = a\<lparr>s_rawstampgap := g\<rparr>) (h_state h) (h_state h')"
    using assms(1) unfolding quiet_def by blast+
  then show "same_clock (h_rad_data h ! s) (h_rad_data h' ! s)"
    "\<exists>g. h_state h' ! s = (h_state h ! s)\<lparr>s_rawstampgap := g\<rparr>"
    using assms(2,3) by (auto simp: list_all2_conv_all_nth handle_ok_def)
qed

lemma quiet_in_step:
  assumes "quiet h h'" "handle_ok h" "s < h_nservers h"
  shows "clock_in_step (h_state h' ! s) (h_rad_data h' ! s) \<longleftrightarrow> clock_in_step (h_state h ! s) (h_rad_data h ! s)"
    "s_stamp_i (h_state h' ! s) = s_stamp_i (h_state h ! s)" "s_stamp (h_state h' ! s) = s_stamp (h_state h ! s)"
    "s_thetahat (h_state h' ! s) = s_thetahat (h_state h ! s)"
    "uncorrected_clock (h_state h' ! s) v = uncorrected_clock (h_state h ! s) v"
proof -
  obtain g where g: "h_state h' ! s = (h_state h ! s)\<lparr>s_rawstampgap := g\<rparr>" using quiet_nth(2) [OF assms] by blast
  note f = same_clock_fields(1,2) [OF quiet_nth(1) [OF assms]]
  show "clock_in_step (h_state h' ! s) (h_rad_data h' ! s) \<longleftrightarrow> clock_in_step (h_state h ! s) (h_rad_data h ! s)"
    by (simp add: clock_in_step_def f g)
  show "s_stamp_i (h_state h' ! s) = s_stamp_i (h_state h ! s)" "s_stamp (h_state h' ! s) = s_stamp (h_state h ! s)"
    "s_thetahat (h_state h' ! s) = s_thetahat (h_state h ! s)"
    "uncorrected_clock (h_state h' ! s) v = uncorrected_clock (h_state h ! s) v"
    by (simp_all add: g uncorrected_clock_def)
qed

lemma quiet_daemon_ok:
  assumes "quiet (d_handle d) (d_handle d')" "handle_ok (d_handle d')" "daemon_ok d"
  shows "daemon_ok d'"
proof -
  have "h_nservers (d_handle d') = h_nservers (d_handle d)" using assms(1) by (simp add: quiet_def)
  then show ?thesis using assms quiet_in_step [OF assms(1)] by (simp add: daemon_ok_def)
qed

text \<open>What the algorithm's run leaves: the other servers as they were, and this one in step with it.\<close>

lemma run_server_effect:
  assumes "run_server env stamp sID w h ls = Some (h', ls')" "handle_ok h" "sID < h_nservers h"
  obtains rd1 out1 st rd2 out2 where
    "RADalgo_bidir (dp_mem env) (dp_rmem env) (dp_junk env) (radclock_config.truncate (h_conf h))
       (h_state h ! sID) (noleap_stamp (BST stamp) (out_leapsec_total out1)) w rd1 out1 = Some (st, rd2, out2)"
    "h_state h' = (h_state h)[sID := st]" "h_rad_data h' = (h_rad_data h)[sID := new_rad_data stamp st out2 rd2]"
    "h_nservers h' = h_nservers h" "h_pref_sID h' = h_pref_sID h" "h_run_mode h' = h_run_mode h"
    "h_laststamp h' = (h_laststamp h)[sID := stamp]"
proof -
  let ?rd = "clear_starving (h_rad_data h ! sID)"
  obtain out1 ls1 where l: "manage_leapseconds (h_run_mode h) (dp_leap_now env) stamp ?rd (h_output h ! sID) ls = (out1, ls1)"
    by (metis surj_pair)
  show thesis
  proof (cases "RADalgo_bidir (dp_mem env) (dp_rmem env) (dp_junk env) (radclock_config.truncate (h_conf h))
       (h_state h ! sID) (noleap_stamp (BST stamp) (out_leapsec_total out1)) w ?rd out1")
    case None
    then show thesis using assms(1) l by (simp add: run_server_def Let_def)
  next
    case (Some x)
    obtain st rd2 out2 where x: "x = (st, rd2, out2)" by (metis surj_pair)
    show thesis
      by (rule that [of out1 ?rd st rd2 out2]) (use assms(1) l Some x in \<open>auto simp: run_server_def Let_def\<close>)
  qed
qed

lemma new_rad_data_in_step [simp]: "clock_in_step st (new_rad_data stamp st out rd)"
  by (simp add: clock_in_step_def new_rad_data_def)

lemma run_server_ok:
  assumes "run_server env stamp sID w h ls = Some (h', ls')" "handle_ok h" "sID < h_nservers h"
  shows "clock_in_step (h_state h' ! sID) (h_rad_data h' ! sID)" "rd_last_changed (h_rad_data h' ! sID) = Tf (BST stamp)"
    "t \<noteq> sID \<Longrightarrow> h_state h' ! t = h_state h ! t \<and> h_rad_data h' ! t = h_rad_data h ! t"
    "h_nservers h' = h_nservers h"
    "s_stamp_i (h_state h ! sID) \<noteq> -1 \<Longrightarrow>
       uncorrected_clock (h_state h' ! sID) (Ta (s_stamp (h_state h ! sID)))
         = uncorrected_clock (h_state h ! sID) (Ta (s_stamp (h_state h ! sID)))"
proof -
  obtain rd1 out1 st rd2 out2 where
    r: "RADalgo_bidir (dp_mem env) (dp_rmem env) (dp_junk env) (radclock_config.truncate (h_conf h))
       (h_state h ! sID) (noleap_stamp (BST stamp) (out_leapsec_total out1)) w rd1 out1 = Some (st, rd2, out2)"
    "h_state h' = (h_state h)[sID := st]" "h_rad_data h' = (h_rad_data h)[sID := new_rad_data stamp st out2 rd2]"
    "h_nservers h' = h_nservers h"
    by (rule run_server_effect [OF assms])
  have l: "sID < length (h_state h)" "sID < length (h_rad_data h)" using assms(2,3) by (simp_all add: handle_ok_def)
  show "clock_in_step (h_state h' ! sID) (h_rad_data h' ! sID)" "rd_last_changed (h_rad_data h' ! sID) = Tf (BST stamp)"
    "t \<noteq> sID \<Longrightarrow> h_state h' ! t = h_state h ! t \<and> h_rad_data h' ! t = h_rad_data h ! t"
    "h_nservers h' = h_nservers h"
    using l by (simp_all add: r(2-4)) (simp add: new_rad_data_def)
  show "uncorrected_clock (h_state h' ! sID) (Ta (s_stamp (h_state h ! sID)))
      = uncorrected_clock (h_state h ! sID) (Ta (s_stamp (h_state h ! sID)))" if "s_stamp_i (h_state h ! sID) \<noteq> -1"
    using bidir_continuous [OF r(1) that] l by (simp add: r(2))
qed

text \<open>
  C18: The state of the daemon stays consistent. Every array keeps one element per server, the
  preferred server is one of them, and the parameters a server publishes are those its
  algorithm computed, after any run of \<open>process_stamp\<close>, whatever arrives and whatever the
  kernel answers.
\<close>

theorem process_stamp_keeps_ok:
  assumes "daemon_ok d" "process_stamp env d = Some (code, d', pubs)"
  shows "daemon_ok d'"
proof -
  have ok: "handle_ok (d_handle d)" using assms(1) by (simp add: daemon_ok_def)
  from assms(2) ok show ?thesis
  proof (cases rule: process_stamp_cases)
    case idle
    then show ?thesis using quiet_daemon_ok assms(1) by blast
  next
    case (stamp stamp sID h)
    have d0: "daemon_ok (d\<lparr>d_handle := h\<rparr>)"
      by (rule quiet_daemon_ok [of d]) (use stamp assms(1) in simp_all)
    have "handle_ok (d_handle (d\<lparr>d_handle := h\<rparr>))" "sID < h_nservers (d_handle (d\<lparr>d_handle := h\<rparr>))"
      using stamp(3,5) by simp_all
    from stamp(6) this show ?thesis
    proof (cases rule: process_server_cases)
      case rejected
      show ?thesis using d0 unfolding rejected(4) by (simp add: daemon_ok_def handle_ok_def)
    next
      case (processed h1 ls)
      note run = run_server_ok [OF processed(2)]
      have "clock_in_step (h_state h1 ! t) (h_rad_data h1 ! t)"
        if "t < h_nservers h1" "s_stamp_i (h_state h1 ! t) \<noteq> -1" for t
        using that run d0 stamp(3,5) by (cases "t = sID") (auto simp: daemon_ok_def)
      then have "daemon_ok (d\<lparr>d_handle := h1\<rparr>)" using processed(3) by (simp add: daemon_ok_def)
      then show ?thesis using quiet_daemon_ok [of "d\<lparr>d_handle := h1\<rparr>" d'] processed(4,5) by simp
    qed
  qed
qed

text \<open>A stamp read from a file, for a daemon with one server that has none in its histories.\<close>

definition demo_daemon :: "int \<Rightarrow> daemon" where
  "demo_daemon n = \<lparr>d_handle = (init_mRADclocks 1 (create_handle demo_conf))
       \<lparr>h_run_mode := RADCLOCK_SYNC_DEAD, h_output := [null_output\<lparr>out_n_stamps := n\<rparr>], h_laststamp := [ntp_stamp 0]\<rparr>,
     d_leap = leap_statics_init, d_fb = demo_fb\<rparr>"

definition demo_dp_stamp :: stamp_t where
  "demo_dp_stamp = (ntp_stamp 3)\<lparr>st_server_ipaddr := ''x'', BST := \<lparr>Ta = 10, Tb = 1, Te = 2, Tf = 900\<rparr>\<rparr>"

definition demo_dp :: dp_env where
  "demo_dp = \<lparr>dp_stamp = Inr demo_dp_stamp, dp_now = (0, 0), dp_leap_now = 0, dp_mem = (\<lambda>_. True),
     dp_rmem = (\<lambda>_. True), dp_junk = 0, dp_ntoa = (\<lambda>_. ''x''), dp_aton = (\<lambda>_. Some 1),
     dp_kernel_version = 2, dp_currentcounter = 0, dp_vm = 0, dp_fb = demo_env 0\<rparr>"

lemma demo_daemon_ok: "daemon_ok (demo_daemon n)"
  by (simp add: daemon_ok_def handle_ok_def demo_daemon_def init_mRADclocks_def create_handle_def)

lemma demo_daemon_run:
  assumes "n \<le> 8"
  shows "\<exists>d'. process_stamp demo_dp (demo_daemon n) = Some (0, d', []) \<and> s_stamp_i (h_state (d_handle d') ! 0) = 0"
proof -
  let ?h = "(d_handle (demo_daemon n))\<lparr>h_s_to := [1]\<rparr>"
  have h: "h_state ?h = [null_state]" "h_output ?h = [null_output\<lparr>out_n_stamps := n\<rparr>]" "h_run_mode ?h = RADCLOCK_SYNC_DEAD"
    "radclock_config.truncate (h_conf ?h) = excel_conf" "h_nservers ?h = 1" "h_laststamp ?h = [ntp_stamp 0]"
    by (simp_all add: demo_daemon_def init_mRADclocks_def create_handle_def demo_conf_def excel_conf_def
        radclock_config.truncate_def null_state_def)
  have leap: "manage_leapseconds m v st rd out leap_statics_init = (out, leap_statics_init)" for m v st rd out
    by (rule leap_code_inactive) (simp_all add: leap_statics_init_def)
  have ls: "d_leap (demo_daemon n) = leap_statics_init" by (simp add: demo_daemon_def)
  have id: "serverIPtoID (dp_ntoa demo_dp) (dp_aton demo_dp) (d_handle (demo_daemon n)) ''x'' = (Some 0, ?h)"
    by (simp add: serverIPtoID_def demo_dp_def demo_daemon_def init_mRADclocks_def create_handle_def)
  let ?out = "null_output\<lparr>out_n_stamps := n\<rparr>"
  let ?b = "noleap_stamp (BST demo_dp_stamp) (out_leapsec_total ?out)" and ?rd = "clear_starving (h_rad_data ?h ! 0)"
  obtain st' rd' out' where
    a: "RADalgo_bidir (\<lambda>_. True) (\<lambda>_. True) 0 excel_conf null_state ?b 0 ?rd ?out = Some (st', rd', out')"
      "warm_inv 480 [?b] st'"
    using warm_first [of excel_conf "\<lambda>_. True" 0 ?b 0 ?rd ?out] excel_conf_ok by auto
  have dp: "dp_mem demo_dp = (\<lambda>_. True)" "dp_rmem demo_dp = (\<lambda>_. True)" "dp_junk demo_dp = 0" by (simp_all add: demo_dp_def)
  have st0: "h_state ?h ! 0 = null_state" "h_output ?h ! 0 = ?out" by (simp_all only: h(1,2) nth_Cons_0)
  have si: "s_stamp_i st' = 0" using a(2) by (simp add: warm_inv_def)
  have "\<exists>h1 ls1. run_server demo_dp demo_dp_stamp 0 0 ?h leap_statics_init = Some (h1, ls1)
      \<and> h_run_mode h1 = RADCLOCK_SYNC_DEAD \<and> h_nservers h1 = 1 \<and> h_state h1 = (h_state ?h)[0 := st']"
    unfolding run_server_def leap Let_def prod.case dp h(4) st0 a(1) option.case using h(3,5) by simp
  then obtain h1 ls1 where r: "run_server demo_dp demo_dp_stamp 0 0 ?h leap_statics_init = Some (h1, ls1)"
    and m: "h_run_mode h1 = RADCLOCK_SYNC_DEAD" "h_nservers h1 = 1" "h_state h1 ! 0 = st'" by (auto simp: h(1))
  have "\<not> insane_bidir_stamp demo_dp_stamp (ntp_stamp 0)"
    by (simp add: insane_bidir_stamp_def demo_dp_stamp_def ntp_stamp_def zero_stamp_def)
  then have "\<not> stamp_rejected ?h 0 demo_dp_stamp" "stamp_warning ?h 0 demo_dp_stamp = 0"
    using assms
    by (simp_all add: stamp_rejected_def stamp_warning_def h(2,6) flag_serverchange_def) (simp add: demo_dp_stamp_def ntp_stamp_def)
  then have "process_server_stamp demo_dp demo_dp_stamp 0 ((demo_daemon n)\<lparr>d_handle := ?h\<rparr>)
      = Some (0, \<lparr>d_handle = clear_mask h1, d_leap = ls1, d_fb = d_fb (demo_daemon n)\<rparr>, [])"
    using r m by (simp add: process_server_stamp_def Let_def ls update_pref_def)
  moreover have "s_stamp_i (h_state (clear_mask h1) ! 0) = 0" using m(3) si by (simp add: clear_mask_def)
  moreover have "dp_stamp demo_dp = Inr demo_dp_stamp" "st_server_ipaddr demo_dp_stamp = ''x''"
    by (simp_all add: demo_dp_def demo_dp_stamp_def)
  ultimately show ?thesis
    using id h(3) by (simp add: process_stamp_def Let_def dispatch_stamp_def)
qed

theorem process_stamp_keeps_ok_witness:
  "\<exists>d'. process_stamp demo_dp (demo_daemon 0) = Some (0, d', []) \<and> daemon_ok d'"
proof -
  obtain d' where d': "process_stamp demo_dp (demo_daemon 0) = Some (0, d', [])" using demo_daemon_run [of 0] by auto
  from process_stamp_keeps_ok [OF demo_daemon_ok d'] d' show ?thesis by blast
qed

section \<open>The clock a run publishes\<close>

text \<open>The effect of a run on one server: nothing but its status word, or a processed stamp.\<close>

lemma process_stamp_server:
  assumes "daemon_ok d" "process_stamp env d = Some (code, d', pubs)" "s < h_nservers (d_handle d)"
  obtains (kept) "same_clock (h_rad_data (d_handle d) ! s) (h_rad_data (d_handle d') ! s)"
      "s_stamp_i (h_state (d_handle d') ! s) = s_stamp_i (h_state (d_handle d) ! s)"
    | (run) stamp h h1 w ls ls' where "dp_stamp env = Inr stamp" "quiet (d_handle d) h" "handle_ok h"
      "\<not> stamp_rejected h s stamp" "run_server env stamp s w h ls = Some (h1, ls')" "handle_ok h1"
      "quiet h1 (d_handle d')" "stamp_of_server env (d_handle d) stamp s"
proof -
  have ok: "handle_ok (d_handle d)" using assms(1) by (simp add: daemon_ok_def)
  from assms(2) ok show thesis
  proof (cases rule: process_stamp_cases)
    case idle
    then show thesis using kept quiet_nth(1) [OF idle(1) ok assms(3)] quiet_in_step(2) [OF idle(1) ok assms(3)] by simp
  next
    case (stamp stamp sID h)
    have n: "h_nservers h = h_nservers (d_handle d)" using stamp(2) by (simp add: quiet_def)
    have "handle_ok (d_handle (d\<lparr>d_handle := h\<rparr>))" "sID < h_nservers (d_handle (d\<lparr>d_handle := h\<rparr>))"
      using stamp(3,5) by simp_all
    from stamp(6) this show thesis
    proof (cases rule: process_server_cases)
      case rejected
      show thesis
        by (rule kept) (use quiet_nth(1) [OF stamp(2) ok assms(3)] quiet_in_step(2) [OF stamp(2) ok assms(3)] in
            \<open>simp_all add: rejected(4)\<close>)
    next
      case (processed h1 ls)
      show thesis
      proof (cases "s = sID")
        case True
        then show thesis using run stamp(1-3,7) processed by simp
      next
        case False
        note r = run_server_ok(3,4) [OF processed(2)]
        have "same_clock (h_rad_data (d_handle d) ! s) (h_rad_data h1 ! s)"
          using quiet_nth(1) [OF stamp(2) ok assms(3)] r(1) [of s] False stamp(3,5) by simp
        moreover have "same_clock (h_rad_data h1 ! s) (h_rad_data (d_handle d') ! s)"
          by (rule quiet_nth(1) [OF processed(4,3)]) (use r(2) n stamp(3,5) assms(3) in simp)
        moreover have "s_stamp_i (h_state (d_handle d') ! s) = s_stamp_i (h_state h1 ! s)"
          by (rule quiet_in_step(2) [OF processed(4,3)]) (use r(2) n stamp(3,5) assms(3) in simp)
        moreover have "s_stamp_i (h_state h1 ! s) = s_stamp_i (h_state (d_handle d) ! s)"
          using quiet_in_step(2) [OF stamp(2) ok assms(3)] r(1) [of s] False stamp(3,5) by simp
        ultimately show thesis using kept same_clock_trans by metis
      qed
    qed
  qed
qed

text \<open>
  C2: A published clock never jumps except by the change of its offset estimate. After a run,
  each server's clock reads as before at every counter value, or the run processed a stamp
  of that very server, taken at the server's address: then the parameters are dated to its
  arrival, and if the server had an earlier one, then at the send time of that one the clock
  reads differently by exactly the change of the offset estimate, whatever happened to the
  period.
\<close>

theorem published_clock_step:
  assumes "daemon_ok d" "process_stamp env d = Some (code, d', pubs)" "s < h_nservers (d_handle d)"
  shows "(\<forall>v u. read_RADabs_UTC (h_rad_data (d_handle d') ! s) v u = read_RADabs_UTC (h_rad_data (d_handle d) ! s) v u)
     \<or> (\<exists>stamp. dp_stamp env = Inr stamp \<and> stamp_of_server env (d_handle d) stamp s
          \<and> rd_last_changed (h_rad_data (d_handle d') ! s) = Tf (BST stamp)
          \<and> (let st = h_state (d_handle d) ! s; st' = h_state (d_handle d') ! s; v = Ta (s_stamp st)
             in s_stamp_i st \<noteq> -1 \<longrightarrow>
                read_RADabs_native (h_rad_data (d_handle d') ! s) v False
                  - read_RADabs_native (h_rad_data (d_handle d) ! s) v False
                = s_thetahat st - s_thetahat st'))"
  using assms
proof (cases rule: process_stamp_server)
  case kept
  then show ?thesis using same_clock_fields(5) by blast
next
  case (run stamp h h1 w ls ls')
  let ?st = "h_state (d_handle d) ! s" and ?rd = "h_rad_data (d_handle d) ! s"
    and ?st' = "h_state (d_handle d') ! s" and ?rd' = "h_rad_data (d_handle d') ! s"
  have ok: "handle_ok (d_handle d)" using assms(1) by (simp add: daemon_ok_def)
  have n: "s < h_nservers h" using run(2) assms(3) by (simp add: quiet_def)
  note r = run_server_ok [OF run(5,3) n]
  have n1: "s < h_nservers h1" using r(4) n by simp
  note q = quiet_in_step [OF run(2) ok assms(3)] and q1 = quiet_in_step [OF run(7,6) n1]
  have last: "rd_last_changed ?rd' = Tf (BST stamp)"
    using r(2) same_clock_fields(3) [OF quiet_nth(1) [OF run(7,6) n1]] by simp
  have "read_RADabs_native ?rd' (Ta (s_stamp ?st)) False - read_RADabs_native ?rd (Ta (s_stamp ?st)) False
      = s_thetahat ?st - s_thetahat ?st'" if "s_stamp_i ?st \<noteq> -1"
  proof -
    have "clock_in_step ?st ?rd" using assms(1,3) that by (simp add: daemon_ok_def)
    moreover have "clock_in_step ?st' ?rd'" using q1(1) r(1) by simp
    moreover have "uncorrected_clock ?st' (Ta (s_stamp ?st)) = uncorrected_clock ?st (Ta (s_stamp ?st))"
      using r(5) that q q1(5) by simp
    ultimately show ?thesis by (simp add: clock_in_step_reading)
  qed
  then show ?thesis using run(1,8) last by (auto simp: Let_def)
qed

theorem published_clock_step_witness:
  "\<exists>d'. process_stamp demo_dp (demo_daemon 0) = Some (0, d', [])
     \<and> ((\<forall>v u. read_RADabs_UTC (h_rad_data (d_handle d') ! 0) v u = read_RADabs_UTC (h_rad_data (d_handle (demo_daemon 0)) ! 0) v u)
        \<or> stamp_of_server demo_dp (d_handle (demo_daemon 0)) demo_dp_stamp 0
           \<and> rd_last_changed (h_rad_data (d_handle d') ! 0) = 900)"
proof -
  obtain d' where d': "process_stamp demo_dp (demo_daemon 0) = Some (0, d', [])" using demo_daemon_run [of 0] by auto
  have "0 < h_nservers (d_handle (demo_daemon 0))" by (simp add: demo_daemon_def init_mRADclocks_def)
  from published_clock_step [OF demo_daemon_ok d' this] d' show ?thesis
    by (auto simp: demo_dp_def demo_dp_stamp_def)
qed

text \<open>
  C11: The algorithm is only fed with sane stamps. If a run advances the algorithm of a server
  that has processed stamps before, then the run brought a stamp of that server with four
  non-zero timestamps, causal on both sides and, if it is a stamp of NTP packets, with an RTT
  of at least 120 counts; it has the type of the last stamp recorded for the server and left
  later than that one; and the server was trusted or had at most eight stamps.
\<close>

theorem only_sane_stamps_processed:
  assumes "daemon_ok d" "process_stamp env d = Some (code, d', pubs)" "s < h_nservers (d_handle d)"
    and "s_stamp_i (h_state (d_handle d') ! s) \<noteq> s_stamp_i (h_state (d_handle d) ! s)"
    and "0 < out_n_stamps (h_output (d_handle d) ! s)"
  shows "\<exists>stamp. dp_stamp env = Inr stamp \<and> stamp_of_server env (d_handle d) stamp s \<and> sane_stamp stamp
     \<and> st_type stamp = st_type (h_laststamp (d_handle d) ! s)
     \<and> Ta (BST (h_laststamp (d_handle d) ! s)) < Ta (BST stamp)
     \<and> (trusted (h_servertrust (d_handle d)) s \<or> out_n_stamps (h_output (d_handle d) ! s) \<le> 8)"
  using assms(1-3)
proof (cases rule: process_stamp_server)
  case kept
  then show ?thesis using assms(4) by simp
next
  case (run stamp h h1 w ls ls')
  have h: "h_output h = h_output (d_handle d)" "h_laststamp h = h_laststamp (d_handle d)"
    "h_servertrust h = h_servertrust (d_handle d)"
    using run(2) by (simp_all add: quiet_def)
  have "\<not> insane_bidir_stamp stamp (h_laststamp h ! s)"
    "trusted (h_servertrust h) s \<or> out_n_stamps (h_output h ! s) \<le> 8"
    using run(4) assms(5) by (auto simp: stamp_rejected_def h)
  then show ?thesis using run(1,8) not_insane h by metis
qed

theorem only_sane_stamps_processed_witness:
  "\<exists>stamp. dp_stamp demo_dp = Inr stamp \<and> sane_stamp stamp \<and> st_type stamp = STAMP_NTP \<and> 0 < Ta (BST stamp)"
proof -
  obtain d' where d': "process_stamp demo_dp (demo_daemon 1) = Some (0, d', [])" "s_stamp_i (h_state (d_handle d') ! 0) = 0"
    using demo_daemon_run [of 1] by auto
  have h: "0 < h_nservers (d_handle (demo_daemon 1))" "s_stamp_i (h_state (d_handle (demo_daemon 1)) ! 0) = -1"
    "0 < out_n_stamps (h_output (d_handle (demo_daemon 1)) ! 0)" "Ta (BST (h_laststamp (d_handle (demo_daemon 1)) ! 0)) = 0"
    "st_type (h_laststamp (d_handle (demo_daemon 1)) ! 0) = STAMP_NTP"
    by (simp_all add: demo_daemon_def init_mRADclocks_def ntp_stamp_def zero_stamp_def)
  from only_sane_stamps_processed [OF demo_daemon_ok d'(1) h(1) _ h(3)] d'(2) h(2,4,5) show ?thesis by auto
qed

text \<open>
  The order is checked against the last stamp seen, not against the last one processed: a
  rejected stamp replaces the reference, and a later stamp that left before the last
  processed one is then accepted.
\<close>

lemma rejected_stamp_resets_order:
  "\<exists>a b c. insane_bidir_stamp b a \<and> \<not> insane_bidir_stamp c b \<and> Ta (BST c) < Ta (BST a)"
proof -
  let ?s = "\<lambda>ta. (ntp_stamp 0)\<lparr>BST := \<lparr>Ta = ta, Tb = 1, Te = 2, Tf = ta + 500\<rparr>\<rparr>"
  have "insane_bidir_stamp (?s 10) (?s 100)" "\<not> insane_bidir_stamp (?s 50) (?s 10)"
    by (simp_all add: insane_bidir_stamp_def ntp_stamp_def)
  moreover have "Ta (BST (?s 50)) < Ta (BST (?s 100))" by simp
  ultimately show ?thesis by blast
qed

section \<open>What leaves the daemon\<close>






text \<open>
  The fixed point thread does not look at the flag: with the eighth stamp it sends what the
  algorithm still calls unsynchronised, since the flag is cleared one stamp later.
\<close>

lemma fixedpoint_thread_ignores_unsync:
  "thread_fixedpoint_turn kv vcounter call (set_status (\<lambda>d. ADD_STATUS d STARAD_UNSYNC) h)
     = thread_fixedpoint_turn kv vcounter call h" if "handle_ok h"
proof -
  let ?h = "set_status (\<lambda>d. ADD_STATUS d STARAD_UNSYNC) h"
  have h: "RAD_DATA ?h = ADD_STATUS (RAD_DATA h) STARAD_UNSYNC" "h_output ?h = h_output h" "h_pref_sID ?h = h_pref_sID h"
    using that by (simp_all add: set_status_def RAD_DATA_def handle_ok_def)
  note c = same_clock_fields [OF same_clock_status(1) [of "RAD_DATA h" STARAD_UNSYNC]]
  show ?thesis unfolding thread_fixedpoint_turn_def update_kernel_fixed_def h c ..
qed

text \<open>Only a live daemon publishes, and only after a stamp went through the algorithm.\<close>

lemma publish_only_live:
  assumes "process_server_stamp env stamp sID d = Some (code, d', pubs)" "pubs \<noteq> []"
  shows "\<not> stamp_rejected (d_handle d) sID stamp
     \<and> (\<exists>h fs r. h_run_mode h = RADCLOCK_SYNC_LIVE \<and> publish env h fs = (pubs, r))"
  using assms by (auto simp: process_server_stamp_def Let_def split: if_splits option.splits prod.splits) blast+

end
