(* ===== verification/Kernel_Bintime.thy ===== *)
theory Kernel_Bintime
  imports Rad_Clock
begin

text \<open>
  The binary time format of the kernel's feed-forward clock: \<^verbatim>\<open>kernel/linux/6.1.27/CurrentSource/ffclock.h\<close>
  and \<^verbatim>\<open>ffclock_convert_delta\<close> of \<^verbatim>\<open>timekeeping.c\<close> beside it.

  A time is a signed 64 bit number of seconds and an unsigned fraction of 2^-64 s. The operations
  work on the two words with an explicit carry; the lemmas show that they are the operations of
  128 bit arithmetic on the whole number \<open>bt_val\<close>, wrap-around included, so that the tick code can
  be reasoned about as exact arithmetic.
\<close>

section \<open>The operations\<close>

record kbintime =
  kb_sec :: uint64
  kb_frac :: uint64

definition bintime_addx :: "kbintime \<Rightarrow> uint64 \<Rightarrow> kbintime" where
  "bintime_addx bt x =
     (let u = kb_frac bt; frac = kb_frac bt + x
      in \<lparr>kb_sec = (if u > frac then kb_sec bt + 1 else kb_sec bt), kb_frac = frac\<rparr>)"

definition bintime_add :: "kbintime \<Rightarrow> kbintime \<Rightarrow> kbintime" where
  "bintime_add bt bt2 =
     (let u = kb_frac bt; frac = kb_frac bt + kb_frac bt2;
          sec = (if u > frac then kb_sec bt + 1 else kb_sec bt)
      in \<lparr>kb_sec = sec + kb_sec bt2, kb_frac = frac\<rparr>)"

definition bintime_sub :: "kbintime \<Rightarrow> kbintime \<Rightarrow> kbintime" where
  "bintime_sub bt bt2 =
     (let u = kb_frac bt; frac = kb_frac bt - kb_frac bt2;
          sec = (if u < frac then kb_sec bt - 1 else kb_sec bt)
      in \<lparr>kb_sec = sec - kb_sec bt2, kb_frac = frac\<rparr>)"

definition bintime_mul :: "kbintime \<Rightarrow> uint32 \<Rightarrow> kbintime" where
  "bintime_mul bt x =
     (let p1 = (kb_frac bt AND 0xffffffff) * ucast x;
          p2 = drop_bit 32 (kb_frac bt) * ucast x + drop_bit 32 p1
      in \<lparr>kb_sec = kb_sec bt * ucast x + drop_bit 32 p2, kb_frac = push_bit 32 p2 OR (p1 AND 0xffffffff)\<rparr>)"

definition bintime_clear :: kbintime where
  "bintime_clear = \<lparr>kb_sec = 0, kb_frac = 0\<rparr>"

definition bintime_isset :: "kbintime \<Rightarrow> bool" where
  "bintime_isset a \<longleftrightarrow> kb_sec a \<noteq> 0 \<or> kb_frac a \<noteq> 0"

text \<open>\<^verbatim>\<open>bintime_cmp(a, b, >)\<close>, the only comparison the clock code uses.\<close>

definition bintime_gt :: "kbintime \<Rightarrow> kbintime \<Rightarrow> bool" where
  "bintime_gt a b \<longleftrightarrow> (if kb_sec a = kb_sec b then kb_frac a > kb_frac b else kb_sec b <s kb_sec a)"

abbreviation MS_AS_BINFRAC :: uint64 where "MS_AS_BINFRAC \<equiv> 18446744073709551"
abbreviation MUS_AS_BINFRAC :: uint64 where "MUS_AS_BINFRAC \<equiv> 18446744073709"
abbreviation NS_AS_BINFRAC :: uint64 where "NS_AS_BINFRAC \<equiv> 18446744073"
abbreviation PS_AS_BINFRAC :: uint64 where "PS_AS_BINFRAC \<equiv> 18446744"

text \<open>The conversion loop. Each round consumes at most \<^verbatim>\<open>delta_max\<close> counts.\<close>

abbreviation delta_max :: uint64 where "delta_max \<equiv> 0xffffffff"

definition delta_part :: "uint64 \<Rightarrow> uint64" where
  "delta_part ffdelta = (if ffdelta > delta_max then delta_max else ffdelta)"

lemma delta_part_le: "unat (delta_part d) \<le> unat d" "d \<noteq> 0 \<Longrightarrow> unat (delta_part d) \<noteq> 0"
  "unat (d - delta_part d) = unat d - unat (delta_part d)" "unat (delta_part d) < 2 ^ 32"
proof -
  have "delta_part d \<le> d" by (auto simp: delta_part_def)
  then show "unat (delta_part d) \<le> unat d" "unat (d - delta_part d) = unat d - unat (delta_part d)"
    by (simp_all add: word_le_nat_alt unat_sub_le)
  show "d \<noteq> 0 \<Longrightarrow> unat (delta_part d) \<noteq> 0" "unat (delta_part d) < 2 ^ 32"
    by (auto simp: delta_part_def unat_eq_zero word_less_nat_alt)
qed

function convert_loop :: "uint64 \<Rightarrow> uint64 \<Rightarrow> kbintime \<Rightarrow> kbintime" where
  "convert_loop ffdelta period bt =
     (let delta = delta_part ffdelta;
          bt2 = bintime_mul \<lparr>kb_sec = 0, kb_frac = period\<rparr> (ucast delta);
          bt = bintime_add bt bt2;
          ffdelta = ffdelta - delta
      in if ffdelta > 0 then convert_loop ffdelta period bt else bt)"
  by pat_completeness auto

termination
proof (relation "measure (\<lambda>(ffdelta, _, _). unat ffdelta)")
  fix ffdelta period :: uint64 and bt x xa xb xc
  assume "x = delta_part ffdelta" "xc = ffdelta - x" "xc > 0"
  then show "((xc, period, xb), ffdelta, period, bt) \<in> measure (\<lambda>(ffdelta, _, _). unat ffdelta)"
    using delta_part_le [of ffdelta] by (cases "ffdelta = 0") (auto simp: delta_part_def)
qed simp

declare convert_loop.simps [simp del]

definition ffclock_convert_delta :: "uint64 \<Rightarrow> uint64 \<Rightarrow> kbintime" where
  "ffclock_convert_delta ffdelta period = convert_loop ffdelta period bintime_clear"

section \<open>Exact arithmetic\<close>

lemma sint_u64: "sint (x :: uint64) = (if uint x < 2 ^ 63 then uint x else uint x - 2 ^ 64)"
proof -
  have b: "0 \<le> uint x" "uint x < 2 ^ 64" using uint_lt2p [of x] by auto
  have "sint x = (uint x + 2 ^ 63) mod 2 ^ 64 - 2 ^ 63"
    by (simp add: sint_uint signed_take_bit_eq_take_bit_shift take_bit_eq_mod)
  moreover have "(uint x + 2 ^ 63) mod 2 ^ 64 = uint x - 2 ^ 63" if "\<not> uint x < 2 ^ 63"
  proof -
    have "(uint x - 2 ^ 63) mod 2 ^ 64 = uint x - 2 ^ 63" using that b by simp
    then show ?thesis using mod_add_self2 [of "uint x - 2 ^ 63" "2 ^ 64"] by (simp add: add.commute)
  qed
  ultimately show ?thesis using b by simp
qed

lemma unat_u32_u64: "unat (ucast (d :: uint32) :: uint64) = unat d"
  using unsigned_less [of d, where ?'a = nat] by (simp add: unsigned_ucast_eq take_bit_eq_mod)

lemma unat_u64_u128: "unat (ucast (d :: uint64) :: 128 word) = unat d"
  using unsigned_less [of d, where ?'a = nat] by (simp add: unsigned_ucast_eq take_bit_eq_mod)

definition bt_val :: "kbintime \<Rightarrow> 128 word" where
  "bt_val b = word_of_int (uint (kb_sec b) * 2 ^ 64 + uint (kb_frac b))"

lemma word128_cong: "x mod 2 ^ 128 = y mod 2 ^ 128 \<Longrightarrow> (word_of_int x :: 128 word) = word_of_int y"
  by (simp add: word_of_int_eq_iff take_bit_eq_mod)

lemma bt_val_mk: "bt_val \<lparr>kb_sec = word_of_int s, kb_frac = f\<rparr> = word_of_int (s * 2 ^ 64 + uint f)"
proof -
  have "(s mod 2 ^ 64) * 2 ^ 64 = (s * 2 ^ 64) mod (2 ^ 128 :: int)"
    by (simp add: mult_mod_left)
  then have "((s mod 2 ^ 64) * 2 ^ 64 + uint f) mod 2 ^ 128 = (s * 2 ^ 64 + uint f) mod (2 ^ 128 :: int)"
    by (simp only: mod_add_left_eq)
  then show ?thesis
    unfolding bt_val_def kbintime.simps by (intro word128_cong) (simp add: uint_word_of_int)
qed

lemma uint_bt_val: "uint (bt_val x) = uint (kb_sec x) * 2 ^ 64 + uint (kb_frac x)"
proof -
  have "0 \<le> uint (kb_sec x) * 2 ^ 64 + uint (kb_frac x)" "uint (kb_sec x) * 2 ^ 64 + uint (kb_frac x) < 2 ^ 128"
    using uint_lt2p [of "kb_sec x"] uint_lt2p [of "kb_frac x"] by auto
  then show ?thesis unfolding bt_val_def by (simp only: uint_word_of_int, simp)
qed

lemma two_digits:
  fixes a b c d m :: int
  assumes "a * m + b = c * m + d" "0 \<le> b" "b < m" "0 \<le> d" "d < m"
  shows "a = c" "b = d"
proof -
  have "(a * m + b) div m = a" "(c * m + d) div m = c" using assms(2-5) by simp_all
  then show "a = c" using assms(1) by simp
  then show "b = d" using assms(1) by simp
qed

lemma bt_val_inj: "bt_val a = bt_val b \<longleftrightarrow> a = b"
proof
  assume "bt_val a = bt_val b"
  then have "uint (kb_sec a) * 2 ^ 64 + uint (kb_frac a) = uint (kb_sec b) * 2 ^ 64 + uint (kb_frac b)"
    by (metis uint_bt_val)
  then have "uint (kb_sec a) = uint (kb_sec b)" "uint (kb_frac a) = uint (kb_frac b)"
    using two_digits [of "uint (kb_sec a)" "2 ^ 64" "uint (kb_frac a)" "uint (kb_sec b)" "uint (kb_frac b)"]
      uint_lt2p [of "kb_frac a"] uint_lt2p [of "kb_frac b"] by simp_all
  then show "a = b" by (simp add: word_uint_eq_iff kbintime.equality)
qed simp

lemma word64_of_uint: "(x :: uint64) = word_of_int (uint x)" by simp

lemma carry_plus:
  fixes x y :: uint64
  shows "uint (x + y) = uint x + uint y - (if x > x + y then 2 ^ 64 else 0)"
  using uint_plus_if' [of x y] uint_lt2p [of x] uint_lt2p [of y] uint_ge_0 [of x] uint_ge_0 [of y]
  by (simp add: word_less_def split: if_splits)

lemma borrow_minus:
  fixes x y :: uint64
  shows "uint (x - y) = uint x - uint y + (if x < x - y then 2 ^ 64 else 0)"
  using uint_sub_if' [of x y] uint_lt2p [of x] uint_lt2p [of y] uint_ge_0 [of x] uint_ge_0 [of y]
  by (simp add: word_less_def split: if_splits)

lemma bt_val_add: "bt_val (bintime_add a b) = bt_val a + bt_val b"
proof -
  let ?f = "kb_frac a + kb_frac b" and ?c = "if kb_frac a > kb_frac a + kb_frac b then 1 else 0 :: int"
  have "bintime_add a b = \<lparr>kb_sec = word_of_int (uint (kb_sec a) + ?c + uint (kb_sec b)), kb_frac = ?f\<rparr>"
    by (simp add: bintime_add_def Let_def)
  then have "bt_val (bintime_add a b) = word_of_int ((uint (kb_sec a) + ?c + uint (kb_sec b)) * 2 ^ 64 + uint ?f)"
    by (simp only: bt_val_mk)
  also have "\<dots> = word_of_int (uint (kb_sec a) * 2 ^ 64 + uint (kb_frac a) + (uint (kb_sec b) * 2 ^ 64 + uint (kb_frac b)))"
    by (rule arg_cong [where f = word_of_int]) (simp only: carry_plus, simp add: algebra_simps)
  finally show ?thesis by (simp only: bt_val_def of_int_add)
qed

lemma bt_val_sub: "bt_val (bintime_sub a b) = bt_val a - bt_val b"
proof -
  let ?f = "kb_frac a - kb_frac b" and ?c = "if kb_frac a < kb_frac a - kb_frac b then 1 else 0 :: int"
  have "bintime_sub a b = \<lparr>kb_sec = word_of_int (uint (kb_sec a) - ?c - uint (kb_sec b)), kb_frac = ?f\<rparr>"
    by (simp add: bintime_sub_def Let_def)
  then have "bt_val (bintime_sub a b) = word_of_int ((uint (kb_sec a) - ?c - uint (kb_sec b)) * 2 ^ 64 + uint ?f)"
    by (simp only: bt_val_mk)
  also have "\<dots> = word_of_int (uint (kb_sec a) * 2 ^ 64 + uint (kb_frac a) - (uint (kb_sec b) * 2 ^ 64 + uint (kb_frac b)))"
    by (rule arg_cong [where f = word_of_int]) (simp only: borrow_minus, simp add: algebra_simps)
  finally show ?thesis by (simp only: bt_val_def of_int_diff)
qed

lemma bt_val_clear: "bt_val bintime_clear = 0"
  by (simp add: bt_val_def bintime_clear_def)

lemma bt_val_addx: "bt_val (bintime_addx a x) = bt_val a + ucast x"
proof -
  have "bintime_addx a x = bintime_add a \<lparr>kb_sec = 0, kb_frac = x\<rparr>"
    by (simp add: bintime_addx_def bintime_add_def Let_def)
  then show ?thesis by (simp add: bt_val_add) (simp add: bt_val_def)
qed

text \<open>The two partial products.\<close>

lemma mul_parts:
  fixes f s X M :: int
  assumes "p1 = f mod M * X" "p2 = f div M * X + p1 div M"
  shows "(s * X + p2 div M) * (M * M) + (p2 mod M * M + p1 mod M) = (s * (M * M) + f) * X"
proof -
  have "p2 div M * (M * M) + p2 mod M * M + p1 mod M = (p2 div M * M + p2 mod M) * M + p1 mod M"
    by (simp only: distrib_right mult.assoc)
  also have "\<dots> = (f div M * X + p1 div M) * M + p1 mod M" using assms(2) by (simp only: div_mult_mod_eq)
  also have "\<dots> = f div M * X * M + (p1 div M * M + p1 mod M)" by (simp add: algebra_simps del: div_mult_mod_eq)
  also have "\<dots> = f div M * X * M + f mod M * X" using assms(1) by (simp only: div_mult_mod_eq)
  also have "\<dots> = (f div M * M + f mod M) * X" by (simp only: distrib_right mult.assoc mult.commute [of X])
  also have "\<dots> = f * X" by (simp only: div_mult_mod_eq)
  finally show ?thesis by (simp add: algebra_simps)
qed

lemma low_half: "(w :: uint64) AND 0xffffffff = take_bit 32 w"
proof -
  have "(0xffffffff :: uint64) = mask 32" by (simp add: mask_eq_exp_minus_1)
  then show ?thesis by (simp add: take_bit_eq_mask)
qed

lemma uint_halves:
  fixes w :: uint64
  shows "uint (w AND 0xffffffff) = uint w mod 2 ^ 32" "uint (drop_bit 32 w) = uint w div 2 ^ 32"
proof -
  have "uint (take_bit 32 w) = take_bit 32 (uint w)" by (rule unsigned_take_bit_eq)
  then show "uint (w AND 0xffffffff) = uint w mod 2 ^ 32" by (simp only: low_half take_bit_int_def)
  show "uint (drop_bit 32 w) = uint w div 2 ^ 32"
    by (simp add: drop_bit_eq_div uint_div_distrib)
qed

lemma uint_join:
  fixes p1 p2 :: uint64
  shows "uint (push_bit 32 p2 OR (p1 AND 0xffffffff)) = uint p2 mod 2 ^ 32 * 2 ^ 32 + uint p1 mod 2 ^ 32"
proof -
  have "push_bit 32 p2 AND (p1 AND 0xffffffff) = 0"
    unfolding low_half by (rule bit_word_eqI) (auto simp: bit_simps)
  then have or: "push_bit 32 p2 OR (p1 AND 0xffffffff) = push_bit 32 p2 + (p1 AND 0xffffffff)"
    by (simp only: disjunctive_add_eq_or)
  have "uint (push_bit 32 p2) = uint p2 * 2 ^ 32 mod 2 ^ 64"
    by (simp add: push_bit_eq_mult uint_word_ariths)
  also have "\<dots> = uint p2 mod 2 ^ 32 * 2 ^ 32"
    using mult_mod_left [of "uint p2" "2 ^ 32" "2 ^ 32"] by simp
  finally have push: "uint (push_bit 32 p2) = uint p2 mod 2 ^ 32 * 2 ^ 32" .
  have "uint p2 mod 2 ^ 32 * 2 ^ 32 + uint p1 mod 2 ^ 32 < 2 ^ 64"
    using pos_mod_bound [of "2 ^ 32" "uint p2"] pos_mod_bound [of "2 ^ 32" "uint p1"] by simp
  then show ?thesis
    unfolding or using uint_plus_if' [of "push_bit 32 p2" "p1 AND 0xffffffff"] push uint_halves(1) [of p1] by simp
qed

lemma bt_val_mul: "bt_val (bintime_mul b x) = bt_val b * ucast x"
proof -
  let ?X = "ucast x :: uint64"
  have X: "uint ?X = uint x" "0 \<le> uint x" "uint x < 2 ^ 32"
    using uint_lt2p [of x] by (simp_all add: unsigned_ucast_eq take_bit_eq_mod)
  define p1 where "p1 = (kb_frac b AND 0xffffffff) * ?X"
  define p2 where "p2 = drop_bit 32 (kb_frac b) * ?X + drop_bit 32 p1"
  let ?f = "uint (kb_frac b)"
  have small: "i * uint x \<le> (2 ^ 32 - 1) * (2 ^ 32 - 1)" if "0 \<le> i" "i < 2 ^ 32" for i
    using that X by (intro mult_mono) auto
  have lo: "0 \<le> ?f mod 2 ^ 32" "?f mod 2 ^ 32 < 2 ^ 32" by simp_all
  have hi: "0 \<le> ?f div 2 ^ 32" "?f div 2 ^ 32 < 2 ^ 32"
    using uint_lt2p [of "kb_frac b"] by (simp_all add: pos_imp_zdiv_nonneg_iff)
  have 1: "uint p1 = ?f mod 2 ^ 32 * uint x"
    using small [OF lo] X lo unfolding p1_def uint_word_ariths uint_halves by simp
  have "0 \<le> uint p1 div 2 ^ 32" "uint p1 div 2 ^ 32 \<le> 2 ^ 32 - 1"
    using uint_lt2p [of p1] by (simp_all add: pos_imp_zdiv_nonneg_iff)
  moreover have "0 \<le> ?f div 2 ^ 32 * uint x" using hi X by simp
  ultimately have 2: "uint p2 = ?f div 2 ^ 32 * uint x + uint p1 div 2 ^ 32"
    using small [OF hi] X hi unfolding p2_def uint_word_ariths uint_halves by simp
  have "bintime_mul b x = \<lparr>kb_sec = word_of_int (uint (kb_sec b) * uint x + uint p2 div 2 ^ 32),
      kb_frac = push_bit 32 p2 OR (p1 AND 0xffffffff)\<rparr>"
    unfolding bintime_mul_def Let_def p1_def [symmetric] p2_def [symmetric]
    using word64_of_uint [of "drop_bit 32 p2", unfolded uint_halves] X(1) by simp
  then have "bt_val (bintime_mul b x) = word_of_int ((uint (kb_sec b) * 2 ^ 64 + ?f) * uint x)"
    using mul_parts [OF 1 2, of "uint (kb_sec b)"] by (simp only: bt_val_mk uint_join) simp
  then show ?thesis by (simp only: bt_val_def of_int_mult, simp)
qed

lemma convert_loop_val: "bt_val (convert_loop d p bt) = bt_val bt + ucast d * ucast p"
proof (induction d p bt rule: convert_loop.induct)
  case (1 d p bt)
  let ?e = "delta_part d" and ?b = "bintime_add bt (bintime_mul \<lparr>kb_sec = 0, kb_frac = p\<rparr> (ucast (delta_part d)))"
  define y where "y = (ucast ?e :: uint32)"
  have "unat y = unat ?e" using delta_part_le(4) [of d] by (simp add: y_def unsigned_ucast_eq take_bit_eq_mod)
  then have "unat (ucast y :: 128 word) = unat (ucast ?e :: 128 word)" by (simp add: unsigned_ucast_eq)
  then have "(ucast (ucast ?e :: uint32) :: 128 word) = ucast ?e" by (simp only: word_unat_eq_iff y_def)
  then have b: "bt_val ?b = bt_val bt + ucast ?e * ucast p"
    by (simp add: bt_val_add bt_val_mul) (simp add: bt_val_def mult.commute)
  have "unat (ucast d :: 128 word) = unat (ucast ?e + ucast (d - ?e) :: 128 word)"
    using delta_part_le [of d] unsigned_less [of d, where ?'a = nat]
    by (simp add: unat_word_ariths unsigned_ucast_eq take_bit_eq_mod)
  then have d: "(ucast d :: 128 word) = ucast ?e + ucast (d - ?e)" by (simp only: word_unat_eq_iff)
  show ?case
  proof (cases "d - ?e > 0")
    case True
    then have "bt_val (convert_loop d p bt) = bt_val ?b + ucast (d - ?e) * ucast p"
      using 1 by (subst convert_loop.simps) (simp add: Let_def)
    then show ?thesis unfolding b d by (simp add: algebra_simps)
  next
    case False
    then have "d - ?e = 0" by (simp only: word_gt_0 not_not)
    moreover have "bt_val (convert_loop d p bt) = bt_val ?b"
      using False by (subst convert_loop.simps) (simp add: Let_def)
    ultimately have "bt_val (convert_loop d p bt) = bt_val ?b" "d - ?e = 0" by simp_all
    then show ?thesis unfolding b d by simp
  qed
qed

lemma convert_delta_val: "bt_val (ffclock_convert_delta ffdelta period) = ucast ffdelta * ucast period"
  unfolding ffclock_convert_delta_def by (simp add: convert_loop_val bt_val_clear)

text \<open>
  C28: The conversion of a counter difference to time is exact for every difference and every
  period: the loop over 32 bit pieces, with its carries between the words, computes the product
  of the two 64 bit numbers to 128 bits.
\<close>

theorem convert_delta_exact: "bt_val (ffclock_convert_delta ffdelta period) = ucast ffdelta * ucast period"
  by (rule convert_delta_val)

end
