(* ===== verification/Kernel_FFclock.thy ===== *)
theory Kernel_FFclock
  imports Kernel_Bintime
begin

text \<open>
  The feed-forward clock of the patched Linux kernel: the ring of tick states kept by
  \<^verbatim>\<open>kernel/linux/6.1.27/CurrentSource/timekeeping.c\<close> and the data interface of \<^verbatim>\<open>ffclock.c\<close> beside it.

  Each tick the timekeeping code calls \<open>ffclock_windup\<close> with the counts since the last tick. It
  fills the next entry of the ring: the native clock follows the daemon's estimate, the difference
  clock follows its rate only, and the monotonic clock closes its gap to the native clock by a
  bounded change of rate. Special events call \<open>ffclock_reset\<close>.

  The pointers \<^verbatim>\<open>next\<close> are the successor modulo the ring size. \<open>None\<close> is a divide error. Messages
  to the log are left out; the lock and the readers that run at the same time are in \<open>Kernel_Read\<close>.
\<close>

section \<open>State\<close>

record ffclock_estimate =
  ce_update_time :: kbintime
  ce_update_ffcount :: uint64
  ce_leapsec_expected :: uint64
  ce_period :: uint64
  ce_errb_abs :: uint32
  ce_errb_rate :: uint32
  ce_status :: uint32
  ce_secs_to_nextupdate :: uint16
  ce_leapsec_total :: uint8
  ce_leapsec_next :: uint8

record fftimehands =
  fh_cest :: ffclock_estimate
  fh_tick_time :: kbintime
  fh_tick_time_lerp :: kbintime
  fh_tick_time_diff :: kbintime
  fh_tick_error :: kbintime
  fh_tick_ffcount :: uint64
  fh_period_lerp :: uint64
  fh_gen :: uint8

record ffclock =
  fc_ffth :: "fftimehands list"
  fc_cur :: nat
  fc_estimate :: ffclock_estimate
  fc_boottime :: kbintime
  fc_status :: uint32
  fc_updated :: int

abbreviation FFTH_SIZE :: nat where "FFTH_SIZE \<equiv> 10"
abbreviation FFCLOCK_STA_UNSYNC :: uint32 where "FFCLOCK_STA_UNSYNC \<equiv> 1"
abbreviation FFCLOCK_STA_WARMUP :: uint32 where "FFCLOCK_STA_WARMUP \<equiv> 2"
abbreviation FFCLOCK_SKM_SCALE :: int where "FFCLOCK_SKM_SCALE \<equiv> 1024"

definition zero_estimate :: ffclock_estimate where
  "zero_estimate =
     \<lparr>ce_update_time = bintime_clear, ce_update_ffcount = 0, ce_leapsec_expected = 0, ce_period = 0, ce_errb_abs = 0,
      ce_errb_rate = 0, ce_status = 0, ce_secs_to_nextupdate = 0, ce_leapsec_total = 0, ce_leapsec_next = 0\<rparr>"

definition zero_hands :: fftimehands where
  "zero_hands =
     \<lparr>fh_cest = zero_estimate, fh_tick_time = bintime_clear, fh_tick_time_lerp = bintime_clear,
      fh_tick_time_diff = bintime_clear, fh_tick_error = bintime_clear, fh_tick_ffcount = 0, fh_period_lerp = 0,
      fh_gen = 0\<rparr>"

definition ffclock_init :: ffclock where
  "ffclock_init =
     \<lparr>fc_ffth = replicate FFTH_SIZE zero_hands, fc_cur = 0, fc_estimate = zero_estimate, fc_boottime = bintime_clear,
      fc_status = FFCLOCK_STA_UNSYNC, fc_updated = 0\<rparr>"

definition cur_hands :: "ffclock \<Rightarrow> fftimehands" where
  "cur_hands s = fc_ffth s ! fc_cur s"

definition next_hands :: "nat \<Rightarrow> nat" where
  "next_hands k = (k + 1) mod FFTH_SIZE"

definition bump_gen :: "uint8 \<Rightarrow> uint8" where
  "bump_gen ogen = (if ogen + 1 = 0 then 1 else ogen + 1)"

text \<open>Publication of a filled entry: its generation, then the pointer.\<close>

definition publish_hands :: "fftimehands \<Rightarrow> ffclock \<Rightarrow> ffclock" where
  "publish_hands h s =
     (let k = next_hands (fc_cur s); ogen = fh_gen (fc_ffth s ! k)
      in s\<lparr>fc_ffth := (fc_ffth s)[k := h\<lparr>fh_gen := bump_gen ogen\<rparr>], fc_cur := k\<rparr>)"

section \<open>The netlink interface\<close>

text \<open>
  Setting and getting the estimate. \<open>attrs\<close> is \<open>None\<close> when the message has no attribute table, and
  otherwise the data attribute, if present, with its length.
\<close>

abbreviation SIZEOF_ffclock_estimate :: nat where "SIZEOF_ffclock_estimate \<equiv> 56"
abbreviation EINVAL :: int where "EINVAL \<equiv> 22"

definition ffclock_setattr :: "(nat \<times> ffclock_estimate) option option \<Rightarrow> ffclock \<Rightarrow> int \<times> ffclock" where
  "ffclock_setattr attrs s =
     (case attrs of
        None \<Rightarrow> (-1, s)
      | Some None \<Rightarrow> (0, s)
      | Some (Some (len, value)) \<Rightarrow>
          if len \<noteq> SIZEOF_ffclock_estimate then (- EINVAL, s)
          else (0, s\<lparr>fc_estimate := value, fc_updated := 1\<rparr>))"

definition ffclock_getattr :: "ffclock \<Rightarrow> ffclock_estimate" where
  "ffclock_getattr s = fc_estimate s"

section \<open>A tick\<close>

text \<open>An update that was computed before a reset of the clock.\<close>

definition stale_update :: "ffclock \<Rightarrow> bool" where
  "stale_update s \<longleftrightarrow>
     fc_updated s > 0 \<and> ce_secs_to_nextupdate (fh_cest (cur_hands s)) = 0
     \<and> bintime_gt (ce_update_time (fh_cest (cur_hands s))) (ce_update_time (fc_estimate s))"

definition skip_stale :: "ffclock \<Rightarrow> ffclock" where
  "skip_stale s = (if stale_update s then s\<lparr>fc_updated := 0\<rparr> else s)"

text \<open>
  Projection of the last tick. \<open>slot\<close> is the entry to be filled, whose old error value is added to;
  the error rate is multiplied as a 64 bit number and passed as a 32 bit one.
\<close>

definition error_rate :: "ffclock_estimate \<Rightarrow> uint32" where
  "error_rate cest = ucast (ucast (ce_errb_rate cest) * PS_AS_BINFRAC)"

definition project_hands :: "uint64 \<Rightarrow> fftimehands \<Rightarrow> fftimehands \<Rightarrow> fftimehands" where
  "project_hands ffdelta cur slot =
     (let cest = fh_cest cur;
          bt = ffclock_convert_delta ffdelta (ce_period cest);
          bt_lerp = ffclock_convert_delta ffdelta (fh_period_lerp cur)
      in slot\<lparr>fh_cest := cest, fh_tick_ffcount := fh_tick_ffcount cur + ffdelta,
              fh_tick_time := bintime_add (fh_tick_time cur) bt,
              fh_tick_time_diff := bintime_add (fh_tick_time_diff cur) bt,
              fh_tick_error := bintime_add (fh_tick_error slot) (bintime_mul bt (error_rate cest)),
              fh_period_lerp := fh_period_lerp cur,
              fh_tick_time_lerp := bintime_add (fh_tick_time_lerp cur) bt_lerp\<rparr>)"

definition unsync_status :: "ffclock \<Rightarrow> fftimehands \<Rightarrow> uint32" where
  "unsync_status s h =
     (let bt = bintime_sub (fh_tick_time h) (ce_update_time (fh_cest h))
      in if fc_updated s = 0 \<and> 3 * FFCLOCK_SKM_SCALE < sint (kb_sec bt)
            \<and> 3 * uint (ce_secs_to_nextupdate (fh_cest h)) < sint (kb_sec bt)
         then fc_status s OR FFCLOCK_STA_UNSYNC else fc_status s)"

text \<open>The new rate of the monotonic clock; \<open>None\<close> when a division has divisor 0.\<close>

definition u64_div :: "uint64 \<Rightarrow> uint64 \<Rightarrow> uint64 option" where
  "u64_div a b = (if b = 0 then None else Some (a div b))"

definition lerp_cap :: "uint16 \<Rightarrow> kbintime" where
  "lerp_cap secs = bintime_mul \<lparr>kb_sec = 0, kb_frac = 5000000 * NS_AS_BINFRAC\<rparr> (ucast secs)"

definition gap_per_cycle :: "uint64 \<Rightarrow> kbintime \<Rightarrow> uint64 option" where
  "gap_per_cycle ffdelta gap =
     Option.bind
       (if 0 <s kb_sec gap then Option.bind (u64_div ffdelta (kb_sec gap)) (u64_div (- 1)) else Some 0)
       (\<lambda>frac. map_option (\<lambda>x. frac + x) (u64_div (kb_frac gap) ffdelta))"

definition lerp_period :: "ffclock_estimate \<Rightarrow> bool \<Rightarrow> kbintime \<Rightarrow> uint64 option" where
  "lerp_period cest forward_jump gap =
     (let secs = ce_secs_to_nextupdate cest
      in if bintime_isset gap \<and> secs > 0 then
           let cap = lerp_cap secs; gap = (if bintime_gt gap cap then cap else gap)
           in Option.bind (u64_div (- 1) (ce_period cest)) (\<lambda>cycles.
              Option.bind (gap_per_cycle (cycles * ucast secs) gap) (\<lambda>frac.
                Some (if forward_jump then ce_period cest + frac else ce_period cest - frac)))
         else Some (ce_period cest))"

text \<open>
  A tick with an update. The second component of the result is the adjusted boot time.
\<close>

definition lerp_gap :: "kbintime \<Rightarrow> kbintime \<Rightarrow> bool \<times> kbintime" where
  "lerp_gap native lerp =
     (if bintime_gt native lerp then (True, bintime_sub native lerp) else (False, bintime_sub lerp native))"

definition regains_sync :: "ffclock \<Rightarrow> bool" where
  "regains_sync s \<longleftrightarrow>
     fc_status s AND FFCLOCK_STA_UNSYNC = FFCLOCK_STA_UNSYNC \<and> ce_status (fc_estimate s) AND FFCLOCK_STA_UNSYNC = 0"

definition update_hands :: "uint64 \<Rightarrow> ffclock \<Rightarrow> fftimehands \<Rightarrow> (fftimehands \<times> kbintime) option" where
  "update_hands ffdelta s slot =
     (let cur = cur_hands s; cest = fc_estimate s;
          ffcount = fh_tick_ffcount cur + ffdelta;
          bt = ffclock_convert_delta (ffcount - ce_update_ffcount cest) (ce_period cest);
          native = bintime_add (ce_update_time cest) bt;
          err = bintime_addx (bintime_mul bt (error_rate cest)) (ucast (ce_errb_abs cest) * NS_AS_BINFRAC);
          diff = bintime_add (fh_tick_time_diff cur) (ffclock_convert_delta ffdelta (ce_period cest));
          lerp = bintime_add (fh_tick_time_lerp cur) (ffclock_convert_delta ffdelta (fh_period_lerp cur));
          (forward_jump, gap) = lerp_gap native lerp;
          boottime = (if regains_sync s then
                        if forward_jump then bintime_add (fc_boottime s) gap else bintime_sub (fc_boottime s) gap
                      else fc_boottime s);
          lerp = (if regains_sync s then native else lerp);
          gap = (if regains_sync s then bintime_clear else gap)
      in map_option (\<lambda>period_lerp.
           (slot\<lparr>fh_cest := cest, fh_tick_ffcount := ffcount, fh_tick_time := native, fh_tick_error := err,
                 fh_tick_time_diff := diff, fh_tick_time_lerp := lerp, fh_period_lerp := period_lerp\<rparr>, boottime))
         (lerp_period cest forward_jump gap))"

definition project_tick :: "uint32 \<Rightarrow> ffclock \<Rightarrow> ffclock" where
  "project_tick delta s =
     (let h = project_hands (ucast delta) (cur_hands s) (fc_ffth s ! next_hands (fc_cur s))
      in publish_hands h (s\<lparr>fc_status := unsync_status s h\<rparr>))"

definition update_tick :: "uint32 \<Rightarrow> ffclock \<Rightarrow> ffclock option" where
  "update_tick delta s =
     map_option (\<lambda>(h, boottime).
        publish_hands h (s\<lparr>fc_boottime := boottime, fc_status := ce_status (fc_estimate s), fc_updated := 0\<rparr>))
       (update_hands (ucast delta) s (fc_ffth s ! next_hands (fc_cur s)))"

definition ffclock_windup :: "uint32 \<Rightarrow> bool \<Rightarrow> ffclock \<Rightarrow> ffclock option" where
  "ffclock_windup delta skip_update s =
     (let s = skip_stale s
      in if skip_update \<or> fc_updated s \<le> 0 then Some (project_tick delta s) else update_tick delta s)"

section \<open>Special events\<close>

text \<open>
  \<open>reset_UTC\<close> and \<open>delta_UTC\<close> are the pointer arguments, a time as seconds and nanoseconds;
  \<open>mult\<close> and \<open>shift\<close> describe the clock source.
\<close>

definition timespec_to_bin :: "int \<times> int \<Rightarrow> kbintime" where
  "timespec_to_bin ts = \<lparr>kb_sec = word_of_int (fst ts), kb_frac = word_of_int (snd ts) * NS_AS_BINFRAC\<rparr>"

definition reset_target :: "ffclock \<Rightarrow> (int \<times> int) option \<Rightarrow> (int \<times> int) option \<Rightarrow> kbintime option" where
  "reset_target s reset_UTC delta_UTC =
     (case reset_UTC of
        Some ts \<Rightarrow> Some (timespec_to_bin ts)
      | None \<Rightarrow> map_option (\<lambda>ts. bintime_add (timespec_to_bin ts) (fh_tick_time (cur_hands s))) delta_UTC)"

definition reset_boottime :: "ffclock \<Rightarrow> kbintime \<Rightarrow> kbintime" where
  "reset_boottime s reset_bin =
     (let lerp = fh_tick_time_lerp (cur_hands s)
      in if bintime_isset (fc_boottime s) then
           if bintime_gt reset_bin lerp then bintime_add (fc_boottime s) (bintime_sub reset_bin lerp)
           else bintime_sub (fc_boottime s) (bintime_sub lerp reset_bin)
         else reset_bin)"

definition nominal_period :: "uint32 \<Rightarrow> nat \<Rightarrow> uint64" where
  "nominal_period mult shift = drop_bit shift (NS_AS_BINFRAC * ucast mult)"

definition ffclock_reset ::
    "uint32 \<Rightarrow> nat \<Rightarrow> uint64 \<Rightarrow> (int \<times> int) option \<Rightarrow> (int \<times> int) option \<Rightarrow> ffclock \<Rightarrow> ffclock" where
  "ffclock_reset mult shift ncount reset_UTC delta_UTC s =
     (let cur = cur_hands s; slot = fc_ffth s ! next_hands (fc_cur s);
          ffcount = (if ncount > 0 then ncount else fh_tick_ffcount cur);
          (native, lerp, diff, boottime) =
            (case reset_target s reset_UTC delta_UTC of
               None \<Rightarrow> (fh_tick_time cur, fh_tick_time_lerp cur, fh_tick_time_diff cur, fc_boottime s)
             | Some reset_bin \<Rightarrow>
                 (reset_bin, reset_bin, if ncount > 0 then reset_bin else fh_tick_time_diff cur,
                  reset_boottime s reset_bin));
          cest = (fh_cest cur)\<lparr>ce_update_time := native, ce_update_ffcount := ffcount, ce_secs_to_nextupdate := 0\<rparr>;
          renew = (ce_period cest = 0 \<or> ncount > 0);
          cest = (if renew then cest\<lparr>ce_period := nominal_period mult shift, ce_errb_rate := 0, ce_errb_abs := 0,
                                     ce_status := FFCLOCK_STA_UNSYNC\<rparr> else cest)
      in publish_hands
           (slot\<lparr>fh_cest := cest, fh_tick_time := native, fh_tick_time_lerp := lerp, fh_tick_time_diff := diff,
                 fh_tick_ffcount := ffcount, fh_tick_error := fh_tick_error cur,
                 fh_period_lerp := (if renew then ce_period cest else fh_period_lerp cur)\<rparr>)
           (s\<lparr>fc_estimate := cest, fc_updated := (if ncount > 0 then -1 else 0), fc_boottime := boottime,
              fc_status := (if renew then FFCLOCK_STA_UNSYNC else fc_status s)\<rparr>))"

section \<open>The shape of the state\<close>

definition ffclock_ok :: "ffclock \<Rightarrow> bool" where
  "ffclock_ok s \<longleftrightarrow> length (fc_ffth s) = FFTH_SIZE \<and> fc_cur s < FFTH_SIZE"

lemma next_hands_less: "next_hands k < FFTH_SIZE"
  by (simp add: next_hands_def)

lemma publish_ok: "ffclock_ok s \<Longrightarrow> ffclock_ok (publish_hands h s)"
  by (simp add: ffclock_ok_def publish_hands_def Let_def next_hands_less)

lemma publish_cur: "ffclock_ok s \<Longrightarrow> cur_hands (publish_hands h s) = h\<lparr>fh_gen := fh_gen (cur_hands (publish_hands h s))\<rparr>"
  by (simp add: ffclock_ok_def publish_hands_def Let_def next_hands_less cur_hands_def)

lemma publish_cur_fields:
  assumes "ffclock_ok s"
  shows "fh_cest (cur_hands (publish_hands h s)) = fh_cest h"
    "fh_tick_time (cur_hands (publish_hands h s)) = fh_tick_time h"
    "fh_tick_time_lerp (cur_hands (publish_hands h s)) = fh_tick_time_lerp h"
    "fh_tick_time_diff (cur_hands (publish_hands h s)) = fh_tick_time_diff h"
    "fh_tick_ffcount (cur_hands (publish_hands h s)) = fh_tick_ffcount h"
    "fh_period_lerp (cur_hands (publish_hands h s)) = fh_period_lerp h"
  by (subst publish_cur [OF assms], simp)+

lemma publish_rest [simp]:
  "fc_estimate (publish_hands h s) = fc_estimate s" "fc_boottime (publish_hands h s) = fc_boottime s"
  "fc_status (publish_hands h s) = fc_status s" "fc_updated (publish_hands h s) = fc_updated s"
  by (simp_all add: publish_hands_def Let_def)

lemma ok_simps [simp]:
  "ffclock_ok (s\<lparr>fc_status := a\<rparr>) = ffclock_ok s" "ffclock_ok (s\<lparr>fc_boottime := b\<rparr>) = ffclock_ok s"
  "ffclock_ok (s\<lparr>fc_updated := c\<rparr>) = ffclock_ok s" "ffclock_ok (s\<lparr>fc_estimate := e\<rparr>) = ffclock_ok s"
  "cur_hands (s\<lparr>fc_status := a\<rparr>) = cur_hands s" "cur_hands (s\<lparr>fc_boottime := b\<rparr>) = cur_hands s"
  "cur_hands (s\<lparr>fc_updated := c\<rparr>) = cur_hands s" "cur_hands (s\<lparr>fc_estimate := e\<rparr>) = cur_hands s"
  by (simp_all add: ffclock_ok_def cur_hands_def)

lemma ffclock_init_ok: "ffclock_ok ffclock_init"
  by (simp add: ffclock_ok_def ffclock_init_def)

lemma skip_stale_simps [simp]:
  "ffclock_ok (skip_stale s) = ffclock_ok s" "cur_hands (skip_stale s) = cur_hands s"
  "fc_boottime (skip_stale s) = fc_boottime s" "fc_estimate (skip_stale s) = fc_estimate s"
  "fc_status (skip_stale s) = fc_status s"
  by (simp_all add: skip_stale_def)

section \<open>Clocks that advance linearly\<close>

text \<open>
  The contract of the three clocks between updates: a tick adds the product of the counts and the
  rate, exactly, and keeps the rate. Then any number of ticks leaves a reading at a given counter
  value unchanged, as long as the ticks do not pass it.
\<close>

locale linear_clock =
  fixes advance :: "uint32 \<Rightarrow> 's \<Rightarrow> 's"
    and ok :: "'s \<Rightarrow> bool"
    and time :: "'s \<Rightarrow> 128 word"
    and rate :: "'s \<Rightarrow> uint64"
    and count :: "'s \<Rightarrow> uint64"
  assumes advance_ok: "ok s \<Longrightarrow> ok (advance d s)"
    and advance_time: "ok s \<Longrightarrow> time (advance d s) = time s + ucast (ucast d :: uint64) * ucast (rate s)"
    and advance_rate: "ok s \<Longrightarrow> rate (advance d s) = rate s"
    and advance_count: "ok s \<Longrightarrow> count (advance d s) = count s + ucast d"
begin

definition reading :: "'s \<Rightarrow> uint64 \<Rightarrow> 128 word" where
  "reading s v = time s + ucast (v - count s) * ucast (rate s)"

lemma reading_step:
  assumes "ok s" "unat d \<le> unat (v - count s)"
  shows "reading (advance d s) v = reading s v" "unat (v - count (advance d s)) = unat (v - count s) - unat d"
proof -
  let ?x = "v - count s" and ?d = "ucast d :: uint64"
  note d = unat_u32_u64 [of d]
  have v: "v - count (advance d s) = ?x - ?d" by (simp add: advance_count [OF assms(1)] algebra_simps)
  have le: "?d \<le> ?x" using assms(2) d by (simp add: word_le_nat_alt)
  then show "unat (v - count (advance d s)) = unat ?x - unat d" unfolding v by (simp add: unat_sub_le d)
  have "unat (ucast ?x :: 128 word) = unat (ucast ?d + ucast (?x - ?d) :: 128 word)"
    using le unsigned_less [of ?x, where ?'a = nat]
    by (simp add: unat_word_ariths unsigned_ucast_eq take_bit_eq_mod unat_sub_le word_le_nat_alt)
  then have "(ucast ?x :: 128 word) = ucast ?d + ucast (?x - ?d)" by (simp only: word_unat_eq_iff)
  then show "reading (advance d s) v = reading s v"
    unfolding reading_def v advance_time [OF assms(1)] advance_rate [OF assms(1)] by (simp add: algebra_simps)
qed

lemma reading_run:
  assumes "ok s" "sum_list (map unat ds) \<le> unat (v - count s)"
  shows "reading (fold advance ds s) v = reading s v"
  using assms
proof (induction ds arbitrary: s)
  case (Cons d ds)
  have "reading (fold advance ds (advance d s)) v = reading (advance d s) v"
    using Cons.prems reading_step(2) [of s d v] by (intro Cons.IH advance_ok) auto
  then show ?case using reading_step(1) [of s d v] Cons.prems by simp
qed simp

lemma count_run:
  assumes "ok s" "count s \<le> v" "sum_list (map unat ds) \<le> unat (v - count s)"
  shows "count (fold advance ds s) \<le> v"
  using assms
proof (induction ds arbitrary: s)
  case (Cons d ds)
  have d: "unat d \<le> unat (v - count s)" using Cons.prems(3) by simp
  have "unat (count s + ucast d) = unat (count s) + unat d"
    using d Cons.prems(2) unat_u32_u64 [of d] unsigned_less [of v, where ?'a = nat]
    by (simp add: unat_word_ariths unat_sub_le word_le_nat_alt)
  then have "count (advance d s) \<le> v"
    using d Cons.prems(2) advance_count [OF Cons.prems(1), of d] by (simp add: word_le_nat_alt unat_sub_le)
  then show ?case
    using Cons.prems reading_step(2) [OF Cons.prems(1) d] by (simp add: Cons.IH advance_ok)
qed simp

lemma run_ok: "ok s \<Longrightarrow> ok (fold advance ds s) \<and> rate (fold advance ds s) = rate s"
  by (induction ds arbitrary: s) (simp_all add: advance_ok advance_rate)

end

lemma project_tick_fields:
  assumes "ffclock_ok s"
  shows "ffclock_ok (project_tick d s)"
    "bt_val (fh_tick_time (cur_hands (project_tick d s)))
       = bt_val (fh_tick_time (cur_hands s)) + ucast (ucast d :: uint64) * ucast (ce_period (fh_cest (cur_hands s)))"
    "bt_val (fh_tick_time_diff (cur_hands (project_tick d s)))
       = bt_val (fh_tick_time_diff (cur_hands s)) + ucast (ucast d :: uint64) * ucast (ce_period (fh_cest (cur_hands s)))"
    "bt_val (fh_tick_time_lerp (cur_hands (project_tick d s)))
       = bt_val (fh_tick_time_lerp (cur_hands s)) + ucast (ucast d :: uint64) * ucast (fh_period_lerp (cur_hands s))"
    "fh_cest (cur_hands (project_tick d s)) = fh_cest (cur_hands s)"
    "fh_period_lerp (cur_hands (project_tick d s)) = fh_period_lerp (cur_hands s)"
    "fh_tick_ffcount (cur_hands (project_tick d s)) = fh_tick_ffcount (cur_hands s) + ucast d"
    "fc_boottime (project_tick d s) = fc_boottime s"
  using assms unfolding project_tick_def Let_def
  by (simp_all add: publish_ok publish_cur_fields)
     (simp_all add: project_hands_def Let_def bt_val_add convert_delta_val)

interpretation native: linear_clock project_tick ffclock_ok "\<lambda>s. bt_val (fh_tick_time (cur_hands s))"
    "\<lambda>s. ce_period (fh_cest (cur_hands s))" "\<lambda>s. fh_tick_ffcount (cur_hands s)"
  by unfold_locales (simp_all add: project_tick_fields)

interpretation diffclock: linear_clock project_tick ffclock_ok "\<lambda>s. bt_val (fh_tick_time_diff (cur_hands s))"
    "\<lambda>s. ce_period (fh_cest (cur_hands s))" "\<lambda>s. fh_tick_ffcount (cur_hands s)"
  by unfold_locales (simp_all add: project_tick_fields)

interpretation monoclock: linear_clock project_tick ffclock_ok "\<lambda>s. bt_val (fh_tick_time_lerp (cur_hands s))"
    "\<lambda>s. fh_period_lerp (cur_hands s)" "\<lambda>s. fh_tick_ffcount (cur_hands s)"
  by unfold_locales (simp_all add: project_tick_fields)

section \<open>What a tick does to the clocks\<close>

definition uptime :: "ffclock \<Rightarrow> 128 word" where
  "uptime s = bt_val (fh_tick_time_lerp (cur_hands s)) - bt_val (fc_boottime s)"

definition takes_update :: "bool \<Rightarrow> ffclock \<Rightarrow> bool" where
  "takes_update skip_update s \<longleftrightarrow> \<not> skip_update \<and> fc_updated s > 0 \<and> \<not> stale_update s"

lemma windup_cases:
  "ffclock_windup delta skip_update s =
     (if takes_update skip_update s then update_tick delta s else Some (project_tick delta (skip_stale s)))"
  by (auto simp: ffclock_windup_def takes_update_def skip_stale_def Let_def)

text \<open>The values an update leads to: the native clock, the monotonic clock before a jump, and the gap.\<close>

lemma lerp_gap_val:
  "lerp_gap native lerp = (fwd, gap) \<Longrightarrow> bt_val native - bt_val lerp = (if fwd then bt_val gap else - bt_val gap)"
  by (auto simp: lerp_gap_def bt_val_sub split: if_splits)

lemma update_tick_fields:
  assumes "ffclock_ok s" "update_tick d s = Some s'"
  defines "cur \<equiv> cur_hands s" and "new \<equiv> cur_hands s'" and "est \<equiv> fc_estimate s"
  defines "lerp \<equiv> bt_val (fh_tick_time_lerp cur) + ucast (ucast d :: uint64) * ucast (fh_period_lerp cur)"
  shows "ffclock_ok s'" "fh_cest new = est" "fh_tick_ffcount new = fh_tick_ffcount cur + ucast d"
    "bt_val (fh_tick_time new)
       = bt_val (ce_update_time est) + ucast (fh_tick_ffcount new - ce_update_ffcount est) * ucast (ce_period est)"
    "bt_val (fh_tick_time_diff new) = bt_val (fh_tick_time_diff cur) + ucast (ucast d :: uint64) * ucast (ce_period est)"
    "bt_val (fh_tick_time_lerp new) = (if regains_sync s then bt_val (fh_tick_time new) else lerp)"
    "uptime s' = lerp - bt_val (fc_boottime s)"
    "fc_updated s' = 0" "fc_estimate s' = est" "fc_status s' = ce_status est"
proof -
  let ?slot = "fc_ffth s ! next_hands (fc_cur s)"
  obtain h boot where h: "update_hands (ucast d) s ?slot = Some (h, boot)"
    and s': "s' = publish_hands h (s\<lparr>fc_boottime := boot, fc_status := ce_status est, fc_updated := 0\<rparr>)"
    using assms(2) by (auto simp: update_tick_def est_def)
  define native where "native = bintime_add (ce_update_time est)
    (ffclock_convert_delta (fh_tick_ffcount cur + ucast d - ce_update_ffcount est) (ce_period est))"
  define before where "before = bintime_add (fh_tick_time_lerp cur) (ffclock_convert_delta (ucast d) (fh_period_lerp cur))"
  obtain fwd gap where g: "lerp_gap native before = (fwd, gap)" by fastforce
  have hf: "fh_cest h = est" "fh_tick_ffcount h = fh_tick_ffcount cur + ucast d" "fh_tick_time h = native"
    "fh_tick_time_diff h = bintime_add (fh_tick_time_diff cur) (ffclock_convert_delta (ucast d) (ce_period est))"
    "fh_tick_time_lerp h = (if regains_sync s then native else before)"
    "boot = (if regains_sync s then if fwd then bintime_add (fc_boottime s) gap else bintime_sub (fc_boottime s) gap
             else fc_boottime s)"
    using h g unfolding update_hands_def Let_def cur_def [symmetric] est_def [symmetric] native_def [symmetric]
      before_def [symmetric] by auto
  have nf: "fh_cest new = est" "fh_tick_ffcount new = fh_tick_ffcount cur + ucast d" "fh_tick_time new = native"
    "fh_tick_time_diff new = fh_tick_time_diff h" "fh_tick_time_lerp new = fh_tick_time_lerp h"
    unfolding new_def s' using assms(1) by (simp_all add: publish_cur_fields hf(1-3))
  have lerp: "bt_val before = lerp" by (simp add: before_def lerp_def bt_val_add convert_delta_val)
  show "ffclock_ok s'" unfolding s' using assms(1) by (simp add: publish_ok)
  show "fh_cest new = est" "fh_tick_ffcount new = fh_tick_ffcount cur + ucast d" by (simp_all add: nf)
  show "bt_val (fh_tick_time new)
       = bt_val (ce_update_time est) + ucast (fh_tick_ffcount new - ce_update_ffcount est) * ucast (ce_period est)"
    unfolding nf by (simp add: native_def bt_val_add convert_delta_val)
  show "bt_val (fh_tick_time_diff new) = bt_val (fh_tick_time_diff cur) + ucast (ucast d :: uint64) * ucast (ce_period est)"
    unfolding nf hf by (simp add: bt_val_add convert_delta_val)
  show "bt_val (fh_tick_time_lerp new) = (if regains_sync s then bt_val (fh_tick_time new) else lerp)"
    unfolding nf hf lerp [symmetric] by simp
  have "fc_boottime s' = boot" by (simp add: s')
  then show "uptime s' = lerp - bt_val (fc_boottime s)"
    using lerp_gap_val [OF g] unfolding uptime_def new_def [symmetric] nf hf lerp [symmetric]
    by (auto simp: bt_val_add bt_val_sub algebra_simps)
  show "fc_updated s' = 0" "fc_estimate s' = est" "fc_status s' = ce_status est" by (simp_all add: s' est_def)
qed

text \<open>
  C10: What a tick does to the clocks, exactly and in every case. The counter advances by the
  counts of the tick. The difference clock never jumps: it advances by these counts at the rate
  of the new tick. The time since boot advances at the rate of the monotonic clock, whatever
  happens. The monotonic clock does the same, unless the clock regains synchronisation, when it
  meets the native one. The native clock is the daemon's estimate projected to the tick when an
  update is taken, and advances linearly otherwise.
\<close>

theorem tick_continuity:
  assumes "ffclock_ok s" "ffclock_windup delta skip_update s = Some s'"
  defines "cur \<equiv> cur_hands s" and "new \<equiv> cur_hands s'" and "n \<equiv> ucast (ucast delta :: uint64) :: 128 word"
  shows "ffclock_ok s' \<and> fh_tick_ffcount new = fh_tick_ffcount cur + ucast delta
    \<and> bt_val (fh_tick_time_diff new) = bt_val (fh_tick_time_diff cur) + n * ucast (ce_period (fh_cest new))
    \<and> uptime s' = uptime s + n * ucast (fh_period_lerp cur)
    \<and> bt_val (fh_tick_time_lerp new)
        = (if takes_update skip_update s \<and> regains_sync s then bt_val (fh_tick_time new)
           else bt_val (fh_tick_time_lerp cur) + n * ucast (fh_period_lerp cur))
    \<and> bt_val (fh_tick_time new)
        = (if takes_update skip_update s then
             bt_val (ce_update_time (fc_estimate s))
               + ucast (fh_tick_ffcount new - ce_update_ffcount (fc_estimate s)) * ucast (ce_period (fc_estimate s))
           else bt_val (fh_tick_time cur) + n * ucast (ce_period (fh_cest cur)))"
proof (cases "takes_update skip_update s")
  case True
  then have u: "update_tick delta s = Some s'" using assms(2) by (simp add: windup_cases)
  note f = update_tick_fields [OF assms(1) u, folded cur_def new_def n_def]
  show ?thesis using True f(1-7) by (simp add: uptime_def cur_def)
next
  case False
  then have s': "s' = project_tick delta (skip_stale s)" using assms(2) by (simp add: windup_cases)
  have ok: "ffclock_ok (skip_stale s)" using assms(1) by simp
  note f = project_tick_fields [OF ok, of delta, folded s', folded new_def n_def, simplified, folded cur_def]
  show ?thesis using False f by (simp add: uptime_def cur_def new_def)
qed

text \<open>A synchronised clock with a period of 1 ns and an update that sets the native clock ahead.\<close>

definition demo_estimate :: ffclock_estimate where
  "demo_estimate = zero_estimate\<lparr>ce_period := NS_AS_BINFRAC, ce_update_time := \<lparr>kb_sec = 100, kb_frac = 0\<rparr>,
     ce_update_ffcount := 5000, ce_secs_to_nextupdate := 16\<rparr>"

definition demo_ffclock :: ffclock where
  "demo_ffclock =
     (let e = zero_estimate\<lparr>ce_period := NS_AS_BINFRAC, ce_secs_to_nextupdate := 16\<rparr>;
          h = zero_hands\<lparr>fh_cest := e, fh_tick_ffcount := 4000, fh_period_lerp := NS_AS_BINFRAC, fh_gen := 1,
                 fh_tick_time_lerp := \<lparr>kb_sec = 99, kb_frac = 0\<rparr>\<rparr>
      in ffclock_init\<lparr>fc_ffth := (replicate FFTH_SIZE zero_hands)[0 := h], fc_estimate := demo_estimate,
            fc_updated := 1, fc_status := 0\<rparr>)"

lemma demo_ffclock_facts:
  "ffclock_ok demo_ffclock" "takes_update False demo_ffclock" "\<not> regains_sync demo_ffclock"
  "fh_period_lerp (cur_hands demo_ffclock) = NS_AS_BINFRAC" "fc_estimate demo_ffclock = demo_estimate"
  "fh_tick_ffcount (cur_hands demo_ffclock) = 4000" "fh_tick_time_lerp (cur_hands demo_ffclock) = \<lparr>kb_sec = 99, kb_frac = 0\<rparr>"
  by (simp_all add: demo_ffclock_def Let_def ffclock_init_def ffclock_ok_def takes_update_def stale_update_def
      regains_sync_def cur_hands_def zero_estimate_def)

section \<open>The rate of the monotonic clock\<close>

definition bt_int :: "kbintime \<Rightarrow> int" where
  "bt_int b = sint (kb_sec b) * 2 ^ 64 + uint (kb_frac b)"

lemma bintime_gt_iff: "bintime_gt a b \<longleftrightarrow> bt_int b < bt_int a"
proof -
  have f: "0 \<le> uint (kb_frac x)" "uint (kb_frac x) < 2 ^ 64" for x using uint_lt2p [of "kb_frac x"] by auto
  have "sint (kb_sec b) < sint (kb_sec a) \<Longrightarrow> bt_int b < bt_int a" for a b
  proof -
    assume "sint (kb_sec b) < sint (kb_sec a)"
    then have "(sint (kb_sec b) + 1) * 2 ^ 64 \<le> sint (kb_sec a) * 2 ^ 64" by (intro mult_right_mono) auto
    moreover have "uint (kb_frac b) < 2 ^ 64 + uint (kb_frac a)" using f(1) [of a] f(2) [of b] by linarith
    ultimately show ?thesis unfolding bt_int_def by (simp add: algebra_simps)
  qed
  note less = this
  consider "kb_sec a = kb_sec b" | "sint (kb_sec b) < sint (kb_sec a)" | "sint (kb_sec a) < sint (kb_sec b)"
    using signed_word_eqI by (metis linorder_neqE)
  then show ?thesis
  proof cases
    case 2
    then show ?thesis using less [of b a] by (auto simp: bintime_gt_def word_sless_alt)
  next
    case 3
    then show ?thesis using less [of a b] by (auto simp: bintime_gt_def word_sless_alt)
  qed (simp add: bintime_gt_def bt_int_def word_less_def)
qed

lemma real_div_le: "0 < b \<Longrightarrow> real (a div b) \<le> real a / real b"
  by (rule of_nat_div_le_of_nat)

lemma gap_per_cycle_le:
  assumes D: "2 * unat (kb_sec gap) < unat ffdelta" and pos: "0 \<le> sint (kb_sec gap)"
    and B: "real (unat (kb_sec gap)) * 2 ^ 64 + real (unat (kb_frac gap)) \<le> B * (real (unat ffdelta) - real (unat (kb_sec gap)))"
      "B < 2 ^ 64"
  shows "\<exists>frac. gap_per_cycle ffdelta gap = Some frac \<and> real (unat frac) \<le> B"
proof -
  define g f D where "g = unat (kb_sec gap)" and "f = unat (kb_frac gap)" and "D = unat ffdelta"
  have Dg: "2 * g < D" using D by (simp add: g_def D_def)
  define m where "m = unat (- 1 :: uint64)"
  have "m < 2 ^ 64" unfolding m_def using unsigned_less [of "- 1 :: uint64", where ?'a = nat] by simp
  then have m: "real m \<le> 2 ^ 64" by simp
  define x where "x = (if g = 0 then 0 else m div (D div g))"
  have x: "real x \<le> 2 ^ 64 * real g / (real D - real g)"
  proof (cases "g = 0")
    case False
    have q: "(real D - real g) / real g < real (D div g)"
    proof -
      have "real D < real (g * (D div g) + g)"
        using False dividend_less_times_div [of g D] by (intro of_nat_less_iff [THEN iffD2]) (simp add: add.commute)
      then show ?thesis using False by (simp add: field_simps)
    qed
    moreover have "0 < (real D - real g) / real g" using Dg False by simp
    ultimately have "real m / real (D div g) \<le> 2 ^ 64 / ((real D - real g) / real g)"
      using m by (intro frac_le) auto
    then show ?thesis using False real_div_le [of "D div g" m] Dg by (simp add: x_def div_greater_zero_iff)
  qed (simp add: x_def)
  have y: "real (f div D) \<le> real f / (real D - real g)"
    using real_div_le [of D f] Dg frac_le [of "real f" "real f" "real D - real g" "real D"] by simp
  have pos': "0 < real D - real g" using Dg by simp
  have "real x + real (f div D) \<le> (real g * 2 ^ 64 + real f) / (real D - real g)"
    using x y by (simp add: add_divide_distrib mult.commute)
  also have "\<dots> \<le> B" using B(1) pos' by (simp add: pos_divide_le_eq g_def f_def D_def)
  finally have xy: "real (x + f div D) \<le> B" by simp
  then have lt: "x + f div D < 2 ^ 64" using B(2) by (metis of_nat_less_numeral_power_cancel_iff order_le_less_trans)
  have g0: "0 <s kb_sec gap \<longleftrightarrow> g \<noteq> 0"
    using pos uint_ge_0 [of "kb_sec gap"] uint_lt2p [of "kb_sec gap"]
    by (auto simp: word_sless_alt g_def sint_u64 unat_eq_zero word_uint_eq_iff order_less_le split: if_splits)
  have q0: "ffdelta div kb_sec gap \<noteq> 0" if "g \<noteq> 0"
    using that Dg by (simp add: word_unat_eq_iff unat_div_distrib g_def D_def div_eq_0_iff)
  have d0: "ffdelta \<noteq> 0" "g \<noteq> 0 \<Longrightarrow> kb_sec gap \<noteq> 0" using Dg by (auto simp: D_def g_def)
  define a where "a = (if g = 0 then 0 else (- 1) div (ffdelta div kb_sec gap))"
  have a: "unat a = x" by (simp add: a_def x_def unat_div_distrib m_def D_def g_def)
  have "gap_per_cycle ffdelta gap = Some (a + kb_frac gap div ffdelta)"
    using g0 q0 d0 by (simp add: gap_per_cycle_def u64_div_def a_def)
  moreover have "unat (a + kb_frac gap div ffdelta) = x + f div D"
    using lt a by (simp add: unat_word_ariths unat_div_distrib f_def D_def)
  ultimately show ?thesis using xy by simp
qed

lemma lerp_cap_val: "bt_int (lerp_cap secs) = 92233720365000000 * int (unat secs)" "0 \<le> sint (kb_sec (lerp_cap secs))"
proof -
  have u: "unat (ucast secs :: uint32) = unat secs"
    using unsigned_less [of secs, where ?'a = nat] by (simp add: unsigned_ucast_eq take_bit_eq_mod)
  define x where "x = (ucast secs :: uint32)"
  have "bt_val (lerp_cap secs) = word_of_int 92233720365000000 * ucast x"
    by (simp add: lerp_cap_def bt_val_mul x_def [symmetric]) (simp add: bt_val_def)
  moreover have "(ucast x :: 128 word) = word_of_int (int (unat x))" by (simp add: of_nat_unat)
  then have "(ucast x :: 128 word) = word_of_int (int (unat secs))" using u by (simp only: x_def)
  ultimately have "bt_val (lerp_cap secs) = word_of_int (92233720365000000 * int (unat secs))" by simp
  then have v: "uint (kb_sec (lerp_cap secs)) * 2 ^ 64 + uint (kb_frac (lerp_cap secs)) = 92233720365000000 * int (unat secs)"
    using unsigned_less [of secs, where ?'a = nat] uint_bt_val [of "lerp_cap secs"]
    by (simp only: uint_word_of_int) simp
  have "uint (kb_sec (lerp_cap secs)) < 2 ^ 63"
  proof -
    have n: "int (unat secs) \<le> 65535" using unsigned_less [of secs, where ?'a = nat] by simp
    have less: "x < 9223372036854775808"
      if "x * 18446744073709551616 + f = 92233720365000000 * n" "0 \<le> f" "n \<le> 65535" for x f n :: int
      using that by linarith
    show ?thesis using less [OF _ _ n] v by simp
  qed
  then have "sint (kb_sec (lerp_cap secs)) = uint (kb_sec (lerp_cap secs))"
    by (simp add: sint_u64)
  then show "bt_int (lerp_cap secs) = 92233720365000000 * int (unat secs)" "0 \<le> sint (kb_sec (lerp_cap secs))"
    using v by (simp_all add: bt_int_def)
qed

lemma lerp_arith:
  fixes P C n gs gf :: real
  assumes "0 \<le> n" "0 \<le> gs" "0 \<le> gf" "0 < P" "P * 10 ^ 6 \<le> 2 ^ 64" "2 ^ 64 - P \<le> C * P"
    and "gs * 2 ^ 64 + gf \<le> 92233720365000000 * n"
  shows "gs * 2 ^ 64 + gf \<le> 5001 / 10 ^ 6 * P * (C * n - gs)"
proof -
  have "gs * 2 ^ 64 \<le> 92233720365000000 * n" using assms(3,7) by simp
  then have "gs \<le> n / 100" using assms(1) by simp
  then have g: "P * gs \<le> P * (n / 100)" using assms(4) by (intro mult_left_mono) auto
  have "(2 ^ 64 - P) * n \<le> C * P * n" using assms(1,6) by (intro mult_right_mono) auto
  moreover have "(2 ^ 64 - 2 ^ 64 / 10 ^ 6 - 2 ^ 64 / 10 ^ 8) * n \<le> (2 ^ 64 - P - P / 100) * n"
    using assms(1,5) by (intro mult_right_mono) auto
  ultimately have "(2 ^ 64 - 2 ^ 64 / 10 ^ 6 - 2 ^ 64 / 10 ^ 8) * n \<le> C * P * n - P * gs"
    using g by (simp add: algebra_simps)
  moreover have "P * (C * n - gs) = C * P * n - P * gs" by (simp add: algebra_simps)
  ultimately have "92233720365000000 * n \<le> 5001 / 10 ^ 6 * (P * (C * n - gs))" using assms(1) by simp
  then show ?thesis using assms(7) by (simp only: mult.assoc)
qed

lemma cycles_bounds:
  assumes "0 < p" "p * 10 ^ 6 \<le> 2 ^ 64"
  shows "2 ^ 64 - p \<le> (2 ^ 64 - 1) div p * p" "10 ^ 6 - 1 \<le> (2 ^ 64 - 1 :: nat) div p"
proof -
  have d: "2 ^ 64 - 1 = (2 ^ 64 - 1) div p * p + (2 ^ 64 - 1 :: nat) mod p" by simp
  moreover have "(2 ^ 64 - 1 :: nat) mod p \<le> p - 1" using assms(1) by (simp add: less_Suc_eq_le [symmetric])
  ultimately show "2 ^ 64 - p \<le> (2 ^ 64 - 1) div p * p" using assms(1) by linarith
  have "(10 ^ 6 - 1) * p \<le> (2 ^ 64 - 1 :: nat)" using assms by (simp add: algebra_simps)
  then show "10 ^ 6 - 1 \<le> (2 ^ 64 - 1 :: nat) div p" using assms(1) by (simp add: less_eq_div_iff_mult_less_eq)
qed

lemma lerp_period_bound:
  assumes p: "2 ^ 16 \<le> unat (ce_period cest)" "unat (ce_period cest) * 10 ^ 6 \<le> 2 ^ 64"
    and gap: "0 \<le> sint (kb_sec gap)"
  shows "\<exists>q. lerp_period cest fwd gap = Some q \<and> 0 < unat q
    \<and> \<bar>vc_real q - vc_real (ce_period cest)\<bar> \<le> 5001 / 10 ^ 6 * vc_real (ce_period cest)"
proof (cases "bintime_isset gap \<and> ce_secs_to_nextupdate cest > 0")
  case False
  then show ?thesis using p(1) by (auto simp: lerp_period_def Let_def)
next
  case True
  define n P where "n = unat (ce_secs_to_nextupdate cest)" and "P = unat (ce_period cest)"
  define C where "C = (2 ^ 64 - 1 :: nat) div P"
  define g where "g = (if bintime_gt gap (lerp_cap (ce_secs_to_nextupdate cest)) then lerp_cap (ce_secs_to_nextupdate cest) else gap)"
  have n: "0 < n" "n < 2 ^ 16"
    using True unsigned_less [of "ce_secs_to_nextupdate cest", where ?'a = nat] by (simp_all add: n_def word_less_nat_alt)
  have P: "0 < P" "P * 10 ^ 6 \<le> 2 ^ 64" using p by (simp_all add: P_def)
  note C = cycles_bounds [OF P, folded C_def]
  have "C \<le> (2 ^ 64 - 1) div 2 ^ 16" unfolding C_def P_def using p(1) by (intro div_le_mono2) simp_all
  then have "C \<le> 2 ^ 48 - 1" by simp
  then have "C * n \<le> (2 ^ 48 - 1) * 2 ^ 16" using n(2) by (intro mult_le_mono) simp_all
  then have D: "C * n < 2 ^ 64" by simp
  have g0: "0 \<le> sint (kb_sec g)" using gap lerp_cap_val(2) by (simp add: g_def)
  have "bt_int g \<le> 92233720365000000 * int n" using lerp_cap_val(1) by (auto simp: g_def bintime_gt_iff n_def not_less)
  moreover have "sint (kb_sec g) = int (unat (kb_sec g))"
    using g0 uint_lt2p [of "kb_sec g"] by (auto simp: sint_u64 uint_nat split: if_splits)
  ultimately have "int (unat (kb_sec g)) * 2 ^ 64 + int (unat (kb_frac g)) \<le> 92233720365000000 * int n"
    by (simp add: bt_int_def uint_nat)
  then have G: "vc_real (kb_sec g) * 2 ^ 64 + vc_real (kb_frac g) \<le> 92233720365000000 * real n"
    using of_int_le_iff [of "int (unat (kb_sec g)) * 2 ^ 64 + int (unat (kb_frac g))" "92233720365000000 * int n", where ?'a = real]
    by simp
  have gs: "2 * unat (kb_sec g) < C * n"
  proof -
    have "vc_real (kb_sec g) * 2 ^ 64 \<le> 92233720365000000 * real n" using G by simp
    then have "unat (kb_sec g) * 100 \<le> n" by simp
    moreover have "1 * n \<le> C * n" using C(2) by (intro mult_le_mono1) simp
    ultimately show ?thesis using n(1) by linarith
  qed
  have m1: "unat (- 1 :: uint64) = 2 ^ 64 - 1" by (simp add: unsigned_minus_1_eq_mask mask_eq_exp_minus_1)
  let ?D = "(- 1) div ce_period cest * ucast (ce_secs_to_nextupdate cest) :: uint64"
  have un: "unat (ucast (ce_secs_to_nextupdate cest) :: uint64) = n"
    using n(2) by (simp add: n_def unsigned_ucast_eq take_bit_eq_mod)
  have uD: "unat ?D = C * n"
  proof -
    have "unat ((- 1) div ce_period cest) = C" by (simp add: unat_div_distrib m1 C_def P_def)
    then show ?thesis using D by (simp only: unat_word_ariths(2) un, simp)
  qed
  let ?B = "5001 / 10 ^ 6 * real P"
  have "2 ^ 64 \<le> C * P + P" using C(1) by linarith
  then have "real (2 ^ 64) \<le> real (C * P + P)" by (rule of_nat_mono)
  then have CP: "2 ^ 64 - real P \<le> real C * real P" by simp
  have "vc_real (kb_sec g) * 2 ^ 64 + vc_real (kb_frac g) \<le> ?B * (real C * real n - vc_real (kb_sec g))"
  proof (intro lerp_arith)
    show "real P * 10 ^ 6 \<le> 2 ^ 64" using P(2) of_nat_mono [OF P(2), where ?'a = real] by simp
  qed (use P(1) CP G in simp_all)
  moreover have B: "?B < 2 ^ 64" using P(2) by simp
  ultimately obtain frac where f: "gap_per_cycle ?D g = Some frac" "real (unat frac) \<le> ?B"
    using gap_per_cycle_le [of g ?D ?B] gs g0 uD by auto
  define q where "q = (if fwd then ce_period cest + frac else ce_period cest - frac)"
  have "ce_period cest \<noteq> 0" using P(1) by (auto simp: P_def)
  then have q: "lerp_period cest fwd gap = Some q"
    using True f(1) by (simp add: lerp_period_def Let_def g_def [symmetric] u64_div_def q_def)
  have le: "unat frac < P" using f(2) P(1) by simp
  then have "unat (ce_period cest - frac) = P - unat frac"
    by (simp add: P_def unat_sub_le word_le_nat_alt)
  moreover have "unat (ce_period cest + frac) = P + unat frac"
    using le P(2) by (simp add: unat_word_ariths P_def)
  ultimately have "0 < unat q" "\<bar>vc_real q - real P\<bar> = real (unat frac)"
    using le P(1) by (simp_all add: q_def of_nat_diff)
  then show ?thesis using q f(2) by (auto simp: P_def)
qed

text \<open>The gap between two clocks that have not passed the range of the seconds is not negative.\<close>

lemma sint_kb_sec: "sint (kb_sec b) = bt_int b div 2 ^ 64"
  using uint_lt2p [of "kb_frac b"] by (simp add: bt_int_def)

lemma range128:
  fixes s f :: int
  shows "- (2 ^ 63) \<le> s \<Longrightarrow> 0 \<le> f \<Longrightarrow> - (2 ^ 127) \<le> s * 2 ^ 64 + f"
    "s \<le> 2 ^ 63 - 1 \<Longrightarrow> f < 2 ^ 64 \<Longrightarrow> s * 2 ^ 64 + f < 2 ^ 127"
  by simp_all

lemma bt_int_eqI:
  assumes "bt_val b = word_of_int i" "- (2 ^ 127) \<le> i" "i < 2 ^ 127"
  shows "bt_int b = i"
proof -
  have "bt_val b = word_of_int (bt_int b)"
  proof (cases "uint (kb_sec b) < 2 ^ 63")
    case False
    have "bt_val b = word_of_int (uint (kb_sec b) * 2 ^ 64 + uint (kb_frac b) - 2 ^ 128)"
      unfolding bt_val_def by (rule word128_cong) simp
    then show ?thesis using False by (simp add: bt_int_def sint_u64 algebra_simps)
  qed (simp add: bt_int_def sint_u64 bt_val_def)
  then have "(word_of_int (bt_int b) :: 128 word) = word_of_int i" using assms(1) by simp
  then have "bt_int b mod 2 ^ 128 = i mod 2 ^ 128" by (simp add: word_of_int_eq_iff take_bit_int_def)
  then have eq: "(bt_int b + 2 ^ 127) mod 2 ^ 128 = (i + 2 ^ 127) mod 2 ^ 128" by (rule mod_add_cong) simp
  have "- (2 ^ 63) \<le> sint (kb_sec b)" "sint (kb_sec b) \<le> 2 ^ 63 - 1"
    using sint_greater_eq [of "kb_sec b"] sint_less [of "kb_sec b"] by simp_all
  then have "- (2 ^ 127) \<le> bt_int b" "bt_int b < 2 ^ 127"
    unfolding bt_int_def using range128 [of "sint (kb_sec b)" "uint (kb_frac b)"] uint_lt2p [of "kb_frac b"] by simp_all
  then show ?thesis using eq assms(2,3) by simp
qed

lemma gap_not_negative:
  assumes "0 \<le> sint (kb_sec native)" "0 \<le> sint (kb_sec lerp)" "lerp_gap native lerp = (fwd, gap)"
  shows "0 \<le> sint (kb_sec gap)"
proof -
  have val: "bt_val x = word_of_int (bt_int x)" "0 \<le> bt_int x" "bt_int x < 2 ^ 127" if "0 \<le> sint (kb_sec x)" for x
  proof -
    have s: "sint (kb_sec x) = uint (kb_sec x)" "uint (kb_sec x) < 2 ^ 63"
      using that uint_lt2p [of "kb_sec x"] by (auto simp: sint_u64 split: if_splits)
    then show "bt_val x = word_of_int (bt_int x)" by (simp add: bt_val_def bt_int_def)
    show "0 \<le> bt_int x" "bt_int x < 2 ^ 127"
      using s uint_lt2p [of "kb_frac x"] uint_ge_0 [of "kb_frac x"] that by (simp_all add: bt_int_def)
  qed
  have "bt_int (bintime_sub a b) = bt_int a - bt_int b" if "0 \<le> sint (kb_sec a)" "0 \<le> sint (kb_sec b)" for a b
    using val [OF that(1)] val [OF that(2)] by (intro bt_int_eqI) (simp_all add: bt_val_sub)
  then have "0 \<le> bt_int gap"
    using assms by (auto simp: lerp_gap_def bintime_gt_iff split: if_splits)
  then show ?thesis unfolding sint_kb_sec by simp
qed

lemma update_tick_lerp:
  assumes ok: "ffclock_ok s"
    and p: "2 ^ 16 \<le> unat (ce_period (fc_estimate s))" "unat (ce_period (fc_estimate s)) * 10 ^ 6 \<le> 2 ^ 64"
    and native: "native = bintime_add (ce_update_time (fc_estimate s))
       (ffclock_convert_delta (fh_tick_ffcount (cur_hands s) + ucast d - ce_update_ffcount (fc_estimate s)) (ce_period (fc_estimate s)))"
    and lerp: "lerp = bintime_add (fh_tick_time_lerp (cur_hands s)) (ffclock_convert_delta (ucast d) (fh_period_lerp (cur_hands s)))"
    and sane: "0 \<le> sint (kb_sec native)" "0 \<le> sint (kb_sec lerp)"
  shows "\<exists>s'. update_tick d s = Some s' \<and> 0 < unat (fh_period_lerp (cur_hands s'))
    \<and> \<bar>vc_real (fh_period_lerp (cur_hands s')) - vc_real (ce_period (fc_estimate s))\<bar>
        \<le> 5001 / 10 ^ 6 * vc_real (ce_period (fc_estimate s))"
proof -
  obtain fwd gap where g: "lerp_gap native lerp = (fwd, gap)" by fastforce
  define gap' where "gap' = (if regains_sync s then bintime_clear else gap)"
  have "0 \<le> sint (kb_sec gap')" using gap_not_negative [OF sane g] by (simp add: gap'_def bintime_clear_def)
  then obtain q where q: "lerp_period (fc_estimate s) fwd gap' = Some q" "0 < unat q"
    "\<bar>vc_real q - vc_real (ce_period (fc_estimate s))\<bar> \<le> 5001 / 10 ^ 6 * vc_real (ce_period (fc_estimate s))"
    using lerp_period_bound [OF p] by blast
  obtain h boot where h: "update_hands (ucast d) s (fc_ffth s ! next_hands (fc_cur s)) = Some (h, boot)" "fh_period_lerp h = q"
    using q(1) g unfolding update_hands_def Let_def native [symmetric] lerp [symmetric] gap'_def by simp
  show ?thesis
    using h q(2,3) ok by (simp add: update_tick_def publish_cur_fields)
qed

text \<open>
  C29: A tick that takes an update always completes for a counter between 1 MHz and 2^48 Hz, and the
  rate it gives to the monotonic clock stays within 5000 parts per million of the daemon's
  estimate (5001 with the rounding): the monotonic clock always advances, however large the gap
  it has to close. The two clocks are assumed not to lie before the origin of time.
\<close>

theorem lerp_rate_bounded:
  assumes "ffclock_ok s" "takes_update skip_update s"
    and "2 ^ 16 \<le> unat (ce_period (fc_estimate s))" "unat (ce_period (fc_estimate s)) * 10 ^ 6 \<le> 2 ^ 64"
    and "0 \<le> sint (kb_sec (bintime_add (ce_update_time (fc_estimate s))
           (ffclock_convert_delta (fh_tick_ffcount (cur_hands s) + ucast delta - ce_update_ffcount (fc_estimate s))
             (ce_period (fc_estimate s)))))"
    and "0 \<le> sint (kb_sec (bintime_add (fh_tick_time_lerp (cur_hands s))
           (ffclock_convert_delta (ucast delta) (fh_period_lerp (cur_hands s)))))"
  shows "\<exists>s'. ffclock_windup delta skip_update s = Some s' \<and> 0 < unat (fh_period_lerp (cur_hands s'))
    \<and> \<bar>vc_real (fh_period_lerp (cur_hands s')) - vc_real (ce_period (fc_estimate s))\<bar>
        \<le> 5001 / 10 ^ 6 * vc_real (ce_period (fc_estimate s))"
  using update_tick_lerp [OF assms(1,3,4) refl refl assms(5,6)] assms(2) by (simp add: windup_cases)

lemma demo_clocks:
  "bintime_add (ce_update_time demo_estimate)
     (ffclock_convert_delta (fh_tick_ffcount (cur_hands demo_ffclock) + ucast (1000 :: uint32) - ce_update_ffcount demo_estimate)
       (ce_period demo_estimate)) = \<lparr>kb_sec = 100, kb_frac = 0\<rparr>"
  "bintime_add (fh_tick_time_lerp (cur_hands demo_ffclock))
     (ffclock_convert_delta (ucast (1000 :: uint32)) (fh_period_lerp (cur_hands demo_ffclock)))
     = \<lparr>kb_sec = 99, kb_frac = 18446744073000\<rparr>"
  unfolding demo_ffclock_facts demo_estimate_def
  by (simp_all add: bt_val_inj [symmetric] bt_val_add convert_delta_val zero_estimate_def) (simp_all add: bt_val_def)

theorem lerp_rate_bounded_witness:
  "\<exists>s'. ffclock_windup 1000 False demo_ffclock = Some s' \<and> 0 < unat (fh_period_lerp (cur_hands s'))
    \<and> \<bar>vc_real (fh_period_lerp (cur_hands s')) - 18446744073\<bar> \<le> 5001 / 10 ^ 6 * 18446744073"
proof -
  have p: "ce_period demo_estimate = NS_AS_BINFRAC" by (simp add: demo_estimate_def)
  have "\<exists>s'. ffclock_windup 1000 False demo_ffclock = Some s' \<and> 0 < unat (fh_period_lerp (cur_hands s'))
    \<and> \<bar>vc_real (fh_period_lerp (cur_hands s')) - vc_real (ce_period (fc_estimate demo_ffclock))\<bar>
        \<le> 5001 / 10 ^ 6 * vc_real (ce_period (fc_estimate demo_ffclock))"
    using demo_clocks demo_ffclock_facts
    by (intro lerp_rate_bounded) (simp_all add: demo_ffclock_facts(5) p)
  then show ?thesis by (simp add: demo_ffclock_facts(5) p)
qed

theorem tick_continuity_witness:
  "\<exists>s'. ffclock_windup 1000 True demo_ffclock = Some s' \<and> fh_tick_ffcount (cur_hands s') = 5000
    \<and> uptime s' = uptime demo_ffclock + 1000 * 18446744073"
proof -
  obtain s' where s: "ffclock_windup 1000 True demo_ffclock = Some s'" by (simp add: windup_cases takes_update_def)
  show ?thesis using tick_continuity [OF demo_ffclock_facts(1) s] s by (simp add: demo_ffclock_facts)
qed

section \<open>A period of zero\<close>

text \<open>
  C39: An estimate with period 0 stops the kernel: the tick that takes it divides by the period as
  soon as the monotonic clock has a gap to close and the next update is announced. Nothing on the
  way of an estimate from the netlink message to the tick checks for it.
\<close>

theorem zero_period_divides:
  assumes "ffclock_setattr (Some (Some (SIZEOF_ffclock_estimate, est))) s0 = (code, s)"
    and "ce_period est = 0" "ce_secs_to_nextupdate est > 0" "\<not> regains_sync s" "\<not> stale_update s"
    and "ce_update_time est
      \<noteq> bintime_add (fh_tick_time_lerp (cur_hands s)) (ffclock_convert_delta (ucast delta) (fh_period_lerp (cur_hands s)))"
  shows "code = 0 \<and> ffclock_windup delta False s = None"
proof -
  have s: "code = 0" "fc_estimate s = est" "fc_updated s = 1" using assms(1) by (auto simp: ffclock_setattr_def)
  let ?lerp = "bintime_add (fh_tick_time_lerp (cur_hands s)) (ffclock_convert_delta (ucast delta) (fh_period_lerp (cur_hands s)))"
  have native: "bintime_add (ce_update_time est) (ffclock_convert_delta x 0) = ce_update_time est" for x
    by (simp add: bt_val_inj [symmetric] bt_val_add convert_delta_val)
  obtain fwd gap where g: "lerp_gap (ce_update_time est) ?lerp = (fwd, gap)" by fastforce
  have "bt_val (ce_update_time est) - bt_val ?lerp \<noteq> 0" using assms(6) by (simp add: bt_val_inj)
  then have "bt_val gap \<noteq> 0" using lerp_gap_val [OF g] by (simp split: if_splits)
  then have "bintime_isset gap" by (auto simp: bintime_isset_def bt_val_def)
  then have "lerp_period est fwd gap = None"
    using assms(2,3) by (simp add: lerp_period_def Let_def u64_div_def)
  then have "update_hands (ucast delta) s slot = None" for slot
    using g assms(2,4) s(2) unfolding update_hands_def Let_def by (simp add: native)
  then show ?thesis using s assms(5) by (simp add: windup_cases takes_update_def update_tick_def)
qed

theorem zero_period_divides_witness:
  "ffclock_windup 1000 False
     (snd (ffclock_setattr (Some (Some (SIZEOF_ffclock_estimate, demo_estimate\<lparr>ce_period := 0\<rparr>))) demo_ffclock)) = None"
proof -
  let ?e = "demo_estimate\<lparr>ce_period := 0\<rparr>" and ?s = "demo_ffclock\<lparr>fc_estimate := demo_estimate\<lparr>ce_period := 0\<rparr>, fc_updated := 1\<rparr>"
  have 1: "ffclock_setattr (Some (Some (SIZEOF_ffclock_estimate, ?e))) demo_ffclock = (0, ?s)"
    by (simp add: ffclock_setattr_def)
  have 2: "ce_period ?e = 0" "ce_secs_to_nextupdate ?e > 0" by (simp_all add: demo_estimate_def)
  have 3: "\<not> regains_sync ?s" "\<not> stale_update ?s"
    by (simp_all add: regains_sync_def stale_update_def demo_ffclock_def Let_def cur_hands_def ffclock_init_def
        zero_estimate_def)
  have 4: "ce_update_time ?e \<noteq> bintime_add (fh_tick_time_lerp (cur_hands ?s))
      (ffclock_convert_delta (ucast (1000 :: uint32)) (fh_period_lerp (cur_hands ?s)))"
    using demo_clocks(2) by (simp add: demo_estimate_def)
  show ?thesis using zero_period_divides [OF 1 2 3 4] 1 by simp
qed

section \<open>Resets\<close>

lemma reset_boottime_val:
  assumes "bintime_isset (fc_boottime s)"
  shows "bt_val (reset_boottime s b) = bt_val (fc_boottime s) + bt_val b - bt_val (fh_tick_time_lerp (cur_hands s))"
  using assms by (simp add: reset_boottime_def Let_def bt_val_add bt_val_sub)

lemma reset_fields:
  assumes "ffclock_ok s" and s'_def: "s' = ffclock_reset mult shift ncount reset_UTC delta_UTC s"
  shows "ffclock_ok s'"
    "fh_tick_ffcount (cur_hands s') = (if ncount > 0 then ncount else fh_tick_ffcount (cur_hands s))"
    "ce_update_time (fh_cest (cur_hands s')) = fh_tick_time (cur_hands s')"
    "ce_update_ffcount (fh_cest (cur_hands s')) = fh_tick_ffcount (cur_hands s')"
    "ce_secs_to_nextupdate (fh_cest (cur_hands s')) = 0"
    "fc_estimate s' = fh_cest (cur_hands s')"
    "fc_updated s' = (if ncount > 0 then -1 else 0)"
    "reset_target s reset_UTC delta_UTC = None \<Longrightarrow>
       fh_tick_time (cur_hands s') = fh_tick_time (cur_hands s) \<and> fh_tick_time_lerp (cur_hands s') = fh_tick_time_lerp (cur_hands s)
       \<and> fh_tick_time_diff (cur_hands s') = fh_tick_time_diff (cur_hands s) \<and> fc_boottime s' = fc_boottime s"
    "reset_target s reset_UTC delta_UTC = Some b \<Longrightarrow>
       fh_tick_time (cur_hands s') = b \<and> fh_tick_time_lerp (cur_hands s') = b
       \<and> fh_tick_time_diff (cur_hands s') = (if ncount > 0 then b else fh_tick_time_diff (cur_hands s))
       \<and> fc_boottime s' = reset_boottime s b"
    "ce_period (fh_cest (cur_hands s)) = 0 \<or> ncount > 0 \<Longrightarrow> ce_period (fh_cest (cur_hands s')) = nominal_period mult shift
       \<and> fh_period_lerp (cur_hands s') = nominal_period mult shift \<and> fc_status s' = FFCLOCK_STA_UNSYNC"
  unfolding s'_def ffclock_reset_def Let_def
  using assms(1) by (auto simp: publish_ok publish_cur_fields split: option.split)

text \<open>
  C30: Setting the time, shifting it and changing the counter never disturb the time since boot
  once the boot time is known. A time that is set becomes the time of the native and the
  monotonic clock, the difference clock only follows it when the counter changed, and the
  estimate left for the daemon describes the tick of the reset and announces no next update.
\<close>

theorem reset_preserves_uptime:
  assumes "ffclock_ok s" "bintime_isset (fc_boottime s)"
    and "s' = ffclock_reset mult shift ncount reset_UTC delta_UTC s"
  shows "ffclock_ok s' \<and> uptime s' = uptime s
    \<and> (case reset_target s reset_UTC delta_UTC of
         None \<Rightarrow> fh_tick_time (cur_hands s') = fh_tick_time (cur_hands s)
       | Some b \<Rightarrow> fh_tick_time (cur_hands s') = b \<and> fh_tick_time_lerp (cur_hands s') = b)
    \<and> (ncount = 0 \<longrightarrow> fh_tick_time_diff (cur_hands s') = fh_tick_time_diff (cur_hands s)
         \<and> fh_tick_ffcount (cur_hands s') = fh_tick_ffcount (cur_hands s))
    \<and> fc_estimate s' = fh_cest (cur_hands s') \<and> ce_update_time (fc_estimate s') = fh_tick_time (cur_hands s')
    \<and> ce_update_ffcount (fc_estimate s') = fh_tick_ffcount (cur_hands s') \<and> ce_secs_to_nextupdate (fc_estimate s') = 0"
proof -
  note f = reset_fields [OF assms(1,3)]
  have "uptime s' = uptime s"
  proof (cases "reset_target s reset_UTC delta_UTC")
    case None
    then show ?thesis using f(8) by (simp add: uptime_def)
  next
    case (Some b)
    then show ?thesis using f(9) reset_boottime_val [OF assms(2)] by (simp add: uptime_def)
  qed
  then show ?thesis using f(1-9) by (auto split: option.split)
qed

theorem reset_preserves_uptime_witness:
  "uptime (ffclock_reset 1 0 0 (Some (500, 7)) None (demo_ffclock\<lparr>fc_boottime := \<lparr>kb_sec = 9, kb_frac = 1\<rparr>\<rparr>))
     = uptime (demo_ffclock\<lparr>fc_boottime := \<lparr>kb_sec = 9, kb_frac = 1\<rparr>\<rparr>)"
  using reset_preserves_uptime [of "demo_ffclock\<lparr>fc_boottime := \<lparr>kb_sec = 9, kb_frac = 1\<rparr>\<rparr>" _ 1 0 0 "Some (500, 7)" None, OF _ _ refl]
  by (simp add: demo_ffclock_facts bintime_isset_def)

text \<open>
  After a change of the counter the next update of the daemon is meant to be ignored, by a flag
  of -1. Setting an estimate assigns 1 to the flag instead of adding 1, so that the next update is
  taken; only one with a time before the reset is still rejected.
\<close>

lemma counter_change_update_taken:
  assumes "ffclock_ok s" "ncount > 0"
    and "ffclock_setattr (Some (Some (SIZEOF_ffclock_estimate, est))) (ffclock_reset mult shift ncount r u s) = (code, s')"
  shows "takes_update False s' \<longleftrightarrow> \<not> bintime_gt (fh_tick_time (cur_hands s')) (ce_update_time est)"
proof -
  let ?r = "ffclock_reset mult shift ncount r u s"
  have s': "s' = ?r\<lparr>fc_estimate := est, fc_updated := 1\<rparr>" using assms(3) by (simp add: ffclock_setattr_def)
  show ?thesis
    using reset_fields(3,5) [OF assms(1) refl, of mult shift ncount r u]
    by (simp add: s' takes_update_def stale_update_def)
qed

section \<open>The counter\<close>

text \<open>
  The callers hand over a 64 bit difference, the parameter of \<open>ffclock_windup\<close> has 32 bits.
  \<open>forward_cycles\<close> and \<open>accumulate_cycles\<close> are \<^verbatim>\<open>timekeeping_forward_now\<close> and
  \<^verbatim>\<open>logarithmic_accumulation\<close> as far as they concern the counters: \<open>cycle_last\<close> is the counter value
  of the tick as the timekeeping code sees it, \<open>clocksource_delta\<close> its difference of two values.
\<close>

definition forward_cycles :: "(uint64 \<Rightarrow> uint64 \<Rightarrow> uint64) \<Rightarrow> uint64 \<Rightarrow> uint64 \<times> ffclock \<Rightarrow> (uint64 \<times> ffclock) option" where
  "forward_cycles clocksource_delta cycle_now st =
     (case st of (cycle_last, s) \<Rightarrow>
        map_option (\<lambda>s. (cycle_now, s)) (ffclock_windup (ucast (clocksource_delta cycle_now cycle_last)) True s))"

definition accumulate_cycles ::
    "uint64 \<Rightarrow> nat \<Rightarrow> uint64 \<Rightarrow> uint64 \<times> ffclock \<Rightarrow> (uint64 \<times> uint64 \<times> ffclock) option" where
  "accumulate_cycles cycle_interval shift offset st =
     (let interval = push_bit shift cycle_interval
      in if offset < interval then Some (offset, st)
         else case st of (cycle_last, s) \<Rightarrow>
           map_option (\<lambda>s. (offset - interval, cycle_last + interval, s)) (ffclock_windup (ucast interval) False s))"

definition counter_lag :: "uint64 \<times> ffclock \<Rightarrow> uint64" where
  "counter_lag st = fst st - fh_tick_ffcount (cur_hands (snd st))"

lemma windup_count:
  assumes "ffclock_ok s" "ffclock_windup d skip s = Some s'"
  shows "ffclock_ok s'" "fh_tick_ffcount (cur_hands s') = fh_tick_ffcount (cur_hands s) + ucast d"
proof -
  have "ffclock_ok s' \<and> fh_tick_ffcount (cur_hands s') = fh_tick_ffcount (cur_hands s) + ucast d"
  proof (cases "takes_update skip s")
    case True
    then show ?thesis using assms update_tick_fields(1,3) [OF assms(1)] by (simp add: windup_cases)
  next
    case False
    then show ?thesis using assms project_tick_fields(1,7) [of "skip_stale s" d] by (auto simp: windup_cases)
  qed
  then show "ffclock_ok s'" "fh_tick_ffcount (cur_hands s') = fh_tick_ffcount (cur_hands s) + ucast d" by simp_all
qed

text \<open>
  The feed-forward counter follows the hardware counter only as long as a tick is shorter than
  2^32 counts: an accumulation step of more counts, as after an idle period of seconds, leaves
  it behind by the multiple of 2^32 that the 32 bit argument loses.
\<close>

lemma long_tick_loses_counts:
  assumes "ffclock_ok s" "push_bit shift cycle_interval \<le> offset"
    and "accumulate_cycles cycle_interval shift offset (cycle_last, s) = Some (offset', st')"
  shows "ffclock_ok (snd st')
    \<and> counter_lag st' = counter_lag (cycle_last, s) + push_bit 32 (drop_bit 32 (push_bit shift cycle_interval))"
proof -
  let ?i = "push_bit shift cycle_interval"
  obtain s' where s': "ffclock_windup (ucast ?i) False s = Some s'" "st' = (cycle_last + ?i, s')"
    using assms(2,3) by (auto simp: accumulate_cycles_def Let_def not_less [symmetric])
  define lo where "lo = (ucast (ucast ?i :: uint32) :: uint64)"
  have "?i = push_bit 32 (drop_bit 32 ?i) + lo"
  proof -
    have "lo = take_bit 32 ?i" unfolding lo_def by (rule bit_word_eqI) (auto simp: bit_simps)
    then show ?thesis using bits_ident [of 32 ?i] by simp
  qed
  moreover note windup_count [OF assms(1) s'(1), folded lo_def]
  ultimately show ?thesis unfolding s'(2) counter_lag_def by (simp add: algebra_simps)
qed

section \<open>Reachable states\<close>

text \<open>
  The operations on the kernel's clock, in any order: a netlink message, a tick that does not fail,
  and a special event.
\<close>

inductive kernel_step :: "ffclock \<Rightarrow> ffclock \<Rightarrow> bool" where
  set: "ffclock_setattr attrs s = (code, s') \<Longrightarrow> kernel_step s s'"
| tick: "ffclock_windup delta skip_update s = Some s' \<Longrightarrow> kernel_step s s'"
| reset: "kernel_step s (ffclock_reset mult shift ncount reset_UTC delta_UTC s)"

inductive kernel_reachable :: "ffclock \<Rightarrow> bool" where
  init: "kernel_reachable ffclock_init"
| step: "kernel_reachable s \<Longrightarrow> kernel_step s s' \<Longrightarrow> kernel_reachable s'"

definition readable :: "ffclock \<Rightarrow> bool" where
  "readable s \<longleftrightarrow> fh_gen (cur_hands s) \<noteq> 0"

lemma publish_readable: "ffclock_ok s \<Longrightarrow> readable (publish_hands h s)"
  by (simp add: readable_def ffclock_ok_def publish_hands_def Let_def next_hands_less cur_hands_def bump_gen_def)

lemma windup_publishes:
  assumes "ffclock_windup d skip_update s = Some s'"
  shows "\<exists>h t. s' = publish_hands h t \<and> (ffclock_ok s \<longrightarrow> ffclock_ok t)
    \<and> (fc_updated t = fc_updated s \<or> fc_updated t = 0)"
proof (cases "takes_update skip_update s")
  case True
  then obtain h boot where "s' = publish_hands h (s\<lparr>fc_boottime := boot, fc_status := ce_status (fc_estimate s), fc_updated := 0\<rparr>)"
    using assms by (auto simp: windup_cases update_tick_def)
  then show ?thesis by (intro exI conjI) auto
next
  case False
  then have "s' = project_tick d (skip_stale s)" using assms by (simp add: windup_cases)
  then show ?thesis unfolding project_tick_def Let_def by (intro exI conjI) (auto simp: skip_stale_def)
qed

text \<open>
  In every state the kernel's clock can reach by messages, ticks and events the ring has its ten
  entries, the current one is among them and, except before the very first tick, has the nonzero
  generation that readers wait for; the update flag is -1, 0 or 1.
\<close>

lemma kernel_state_wf:
  assumes "kernel_reachable s"
  shows "ffclock_ok s \<and> fc_updated s \<in> {-1, 0, 1} \<and> (fc_ffth s = fc_ffth ffclock_init \<or> readable s)"
  using assms
proof induction
  case init
  show ?case by (simp add: ffclock_init_ok) (simp add: ffclock_init_def)
next
  case (step s s')
  then have ok: "ffclock_ok s" and upd: "fc_updated s \<in> {-1, 0, 1}" by auto
  from step.hyps(2) show ?case
  proof cases
    case (set attrs code)
    then show ?thesis using step.IH
      by (auto simp: ffclock_setattr_def readable_def cur_hands_def split: option.splits if_splits)
  next
    case (tick d skip)
    then obtain h t where "s' = publish_hands h t" "ffclock_ok t" "fc_updated t = fc_updated s \<or> fc_updated t = 0"
      using windup_publishes ok by blast
    then show ?thesis using upd by (auto simp: publish_ok publish_readable)
  next
    case (reset mult shift ncount r u)
    have "readable s'"
      using ok unfolding reset ffclock_reset_def Let_def by (auto split: prod.split intro!: publish_readable)
    then show ?thesis using reset_fields(1,7) [OF ok reset] by auto
  qed
qed

end
