(* ===== verification/Raw_Data.thy ===== *)
theory Raw_Data
  imports Packet_Capture "HOL-Library.Sublist"
begin

text \<open>
  The raw data queue of \<^verbatim>\<open>radclock/rawdata.c\<close>, between the capture thread (or the timer
  signal of the spy mode) and the processing thread, with the extraction of the raw timestamp
  of \<^verbatim>\<open>libradclock/pcap-linux.c\<close>.

  \<^item> The bundles live in a heap, a partial map from addresses; \<^verbatim>\<open>free\<close> removes the address and
    an access to an address that is not allocated, or to NULL, is a fault (\<open>None\<close>).
  \<^item> Each thread is a step function with a program counter, one step per access to the fields
    the other thread accesses as well. The queue is not lock free: \<^verbatim>\<open>insert_rdb_in_list\<close> and
    the removal of a bundle are critical sections of \<^verbatim>\<open>rdb_mutex\<close>, but the scan of
    \<^verbatim>\<open>free_and_cherrypick\<close> reads the queue without it. A run is a schedule of the steps of both
    threads; memory is sequentially consistent.
  \<^item> \<open>rq_captured\<close> is a ghost list of the data whose insertion took effect and \<open>rq_out\<close> collects
    the results of the delivery calls.
\<close>

section \<open>Raw data\<close>

datatype rawdata_type = RD_UNKNOWN | RD_TYPE_SPY | RD_TYPE_NTP | RD_TYPE_1588 | RD_TYPE_PPS

record pcap_pkthdr =
  ph_ts_sec :: int
  ph_ts_usec :: int
  ph_caplen :: uint32
  ph_len :: uint32

record rd_spy_stamp =
  spy_Ta :: vcounter_t
  spy_Tb :: "int \<times> int"
  spy_Te :: "int \<times> int"
  spy_Tf :: vcounter_t

record rd_pcap_pkt =
  rd_vcount :: vcounter_t
  rd_pcap_hdr :: pcap_pkthdr
  rd_buf :: "uint8 list"

datatype rd_t = Rd_pkt rd_pcap_pkt | Rd_spy rd_spy_stamp

type_synonym addr = nat

record raw_data_bundle =
  rdb_next :: "addr option"
  rdb_read :: int
  rdb_type :: rawdata_type
  rdb_rd :: rd_t

type_synonym rd_heap = "addr \<rightharpoonup> raw_data_bundle"

text \<open>
  What the capture callback finds: the header libpcap owns, the 64 bit word that lies just before
  the frame data, the answer of the stamp ioctl at that moment (\<open>None\<close>: it fails), and the frame data.
\<close>

record captured_frame =
  fr_hdr :: pcap_pkthdr
  fr_before :: vcounter_t
  fr_ioctl :: "vcounter_t option"
  fr_data :: "uint8 list"

text \<open>
  The raw timestamp of a frame on Linux. \<open>mmap\<close> is the compile time choice for the old kernels
  between the memory mapped ring and the ioctl.
\<close>

definition extract_vcount_stamp ::
    "bool \<Rightarrow> int \<Rightarrow> captured_frame \<Rightarrow> vcounter_t \<Rightarrow> int \<times> vcounter_t \<times> pcap_pkthdr" where
  "extract_vcount_stamp mmap kernel_version frame vcount =
     (let rdhdr = fr_hdr frame
      in if kernel_version = 0 \<or> kernel_version = 1 then
           if mmap then (0, fr_before frame, rdhdr)
           else (case fr_ioctl frame of Some v \<Rightarrow> (0, v, rdhdr) | None \<Rightarrow> (1, vcount, rdhdr))
         else if kernel_version = 2 then (0, fr_before frame, rdhdr)
         else (1, vcount, rdhdr))"

text \<open>The bundle the capture callback builds; the return code of the extraction is discarded.\<close>

definition fill_rawdata_pcap ::
    "bool \<Rightarrow> int \<Rightarrow> captured_frame \<Rightarrow> raw_data_bundle" where
  "fill_rawdata_pcap mmap kernel_version frame =
     (case extract_vcount_stamp mmap kernel_version frame 0 of
        (_, vcount, hdr) \<Rightarrow>
          \<lparr>rdb_next = None, rdb_read = 0, rdb_type = RD_TYPE_NTP,
           rdb_rd = Rd_pkt \<lparr>rd_vcount = vcount, rd_pcap_hdr = hdr,
                            rd_buf = take (unat (ph_caplen (fr_hdr frame))) (fr_data frame)\<rparr>\<rparr>)"

definition fill_rawdata_spy :: "rd_spy_stamp \<Rightarrow> raw_data_bundle" where
  "fill_rawdata_spy spy =
     \<lparr>rdb_next = None, rdb_read = 0, rdb_type = RD_TYPE_SPY, rdb_rd = Rd_spy spy\<rparr>"

section \<open>What is delivered\<close>

abbreviation RADPCAP_PACKET_BUFSIZE :: nat where "RADPCAP_PACKET_BUFSIZE \<equiv> 65535"

datatype delivery =
    Pcap_delivery radpcap_packet vcounter_t
  | Spy_delivery vcounter_t real real vcounter_t

text \<open>
  The two copies of \<^verbatim>\<open>deliver_rawdata_pcap\<close> into the packet buffer, whose former contents are
  \<open>old\<close>. The copy faults when it leaves the buffer of the packet or the captured data.
\<close>

definition deliver_pkt ::
    "uint32 \<Rightarrow> (nat \<Rightarrow> uint8) \<Rightarrow> sockaddr_storage \<Rightarrow> rd_pcap_pkt \<Rightarrow> delivery option" where
  "deliver_pkt dlt old ss_if p =
     (let caplen = unat (ph_caplen (rd_pcap_hdr p))
      in if SIZEOF_pcap_pkthdr + caplen > RADPCAP_PACKET_BUFSIZE \<or> caplen > length (rd_buf p) then None
         else Some (Pcap_delivery
           \<lparr>pk_caplen = ph_caplen (rd_pcap_hdr p), pk_ts_sec = ph_ts_sec (rd_pcap_hdr p),
            pk_ts_usec = ph_ts_usec (rd_pcap_hdr p),
            pk_payload = Some (\<lambda>i. if i < caplen then rd_buf p ! i else old (SIZEOF_pcap_pkthdr + i)),
            pk_size = caplen + SIZEOF_pcap_pkthdr, pk_type = dlt, pk_ss_if = ss_if\<rparr>
           (rd_vcount p)))"

definition deliver_spy :: "rd_spy_stamp \<Rightarrow> delivery" where
  "deliver_spy s =
     Spy_delivery (spy_Ta s)
       (of_int (fst (spy_Tb s)) + of_int (snd (spy_Tb s)) / 10 ^ 6)
       (of_int (fst (spy_Te s)) + of_int (snd (spy_Te s)) / 10 ^ 6) (spy_Tf s)"

text \<open>
  What stays fixed in a run: the kernel, the data type of the synchronisation mode (it selects
  \<^verbatim>\<open>deliver_rawdata_pcap\<close> or \<^verbatim>\<open>deliver_rawdata_spy\<close>), the datalink type of the capture, the stale
  bytes of the packet buffer and the address of the interface. \<open>deliver_bundle\<close> copies the data of
  one bundle; \<open>None\<close> is a fault.
\<close>

record deliver_env =
  env_mmap :: bool
  env_kernel_version :: int
  env_want :: rawdata_type
  env_dlt :: uint32
  env_old :: "nat \<Rightarrow> uint8"
  env_ss_if :: sockaddr_storage

definition deliver_bundle :: "deliver_env \<Rightarrow> rd_t \<Rightarrow> delivery option" where
  "deliver_bundle env rd =
     (case rd of
        Rd_pkt p \<Rightarrow> if env_want env = RD_TYPE_NTP then deliver_pkt (env_dlt env) (env_old env) (env_ss_if env) p
                    else None
      | Rd_spy s \<Rightarrow> if env_want env = RD_TYPE_SPY then Some (deliver_spy s) else None)"

definition wrong_type_code :: "rawdata_type \<Rightarrow> int" where
  "wrong_type_code want = (if want = RD_TYPE_SPY then -1 else 1)"

section \<open>The two threads\<close>

datatype thread = Capture | Process

datatype insert_pc =
    P_idle
  | P_lock addr
  | P_link addr
  | P_start addr
  | P_end addr
  | P_unlock

datatype deliver_pc =
    C_idle
  | C_while "addr option"
  | C_read "addr option"
  | C_next "addr option"
  | C_lock "addr option" "addr option"
  | C_free "addr option" "addr option"
  | C_unlock "addr option"
  | C_last "addr option"
  | C_type "addr option"
  | C_copy "addr option"

record raw_queue =
  rq_heap :: rd_heap
  rdb_start :: "addr option"
  rdb_end :: "addr option"
  rdb_mutex :: "thread option"
  rq_ppc :: insert_pc
  rq_cpc :: deliver_pc
  rq_captured :: "rd_t list"
  rq_out :: "(int + delivery) list"

definition load_rdb :: "rd_heap \<Rightarrow> addr option \<Rightarrow> raw_data_bundle option" where
  "load_rdb h p = (case p of None \<Rightarrow> None | Some a \<Rightarrow> h a)"

definition store_rdb ::
    "rd_heap \<Rightarrow> addr option \<Rightarrow> (raw_data_bundle \<Rightarrow> raw_data_bundle) \<Rightarrow> rd_heap option" where
  "store_rdb h p f =
     (case p of None \<Rightarrow> None | Some a \<Rightarrow> (case h a of None \<Rightarrow> None | Some b \<Rightarrow> Some (h(a \<mapsto> f b))))"

text \<open>
  The capture thread. A new frame is taken only when the thread is in \<^verbatim>\<open>pcap_loop\<close>; the address
  is the one \<^verbatim>\<open>malloc\<close> returned. Then one step of \<^verbatim>\<open>insert_rdb_in_list\<close> at a time.
\<close>

definition new_rdb :: "addr \<Rightarrow> raw_data_bundle \<Rightarrow> raw_queue \<Rightarrow> raw_queue option" where
  "new_rdb a b w =
     (if rq_ppc w = P_idle \<and> rq_heap w a = None then
        Some (w\<lparr>rq_heap := (rq_heap w)(a \<mapsto> b), rq_ppc := P_lock a\<rparr>)
      else Some w)"

definition insert_rdb_in_list :: "raw_queue \<Rightarrow> raw_queue option" where
  "insert_rdb_in_list w =
     (case rq_ppc w of
        P_idle \<Rightarrow> Some w
      | P_lock rdb \<Rightarrow>
          Some (if rdb_mutex w = None then w\<lparr>rdb_mutex := Some Capture, rq_ppc := P_link rdb\<rparr> else w)
      | P_link rdb \<Rightarrow>
          if rdb_start w \<noteq> None then
            map_option (\<lambda>h. w\<lparr>rq_heap := h, rq_ppc := P_start rdb\<rparr>)
              (store_rdb (rq_heap w) (rdb_start w) (\<lambda>b. b\<lparr>rdb_next := Some rdb\<rparr>))
          else Some (w\<lparr>rq_ppc := P_start rdb\<rparr>)
      | P_start rdb \<Rightarrow>
          map_option (\<lambda>b. w\<lparr>rdb_start := Some rdb, rq_ppc := P_end rdb,
                            rq_captured := rq_captured w @ [rdb_rd b]\<rparr>) (load_rdb (rq_heap w) (Some rdb))
      | P_end rdb \<Rightarrow>
          Some (w\<lparr>rdb_end := (if rdb_end w = None then Some rdb else rdb_end w), rq_ppc := P_unlock\<rparr>)
      | P_unlock \<Rightarrow> Some (w\<lparr>rdb_mutex := None, rq_ppc := P_idle\<rparr>))"

definition return_code :: "raw_queue \<Rightarrow> int \<Rightarrow> raw_queue" where
  "return_code w err = w\<lparr>rq_out := rq_out w @ [Inl err], rq_cpc := C_idle\<rparr>"

text \<open>
  The processing thread: \<^verbatim>\<open>deliver_rawdata_pcap\<close> or \<^verbatim>\<open>deliver_rawdata_spy\<close>, whose first part is
  \<^verbatim>\<open>free_and_cherrypick\<close>.
\<close>

definition free_and_cherrypick :: "raw_queue \<Rightarrow> raw_queue option" where
  "free_and_cherrypick w =
     (case rq_cpc w of
        C_idle \<Rightarrow>
          Some (if rdb_end w = None then return_code w 1 else w\<lparr>rq_cpc := C_while (rdb_end w)\<rparr>)
      | C_while rdb \<Rightarrow> Some (w\<lparr>rq_cpc := (if rdb \<noteq> rdb_start w then C_read rdb else C_last rdb)\<rparr>)
      | C_read rdb \<Rightarrow>
          map_option (\<lambda>b. w\<lparr>rq_cpc := (if rdb_read b = 0 then C_last rdb else C_next rdb)\<rparr>)
            (load_rdb (rq_heap w) rdb)
      | C_next rdb \<Rightarrow>
          map_option (\<lambda>b. w\<lparr>rq_cpc := C_lock rdb (rdb_next b)\<rparr>) (load_rdb (rq_heap w) rdb)
      | C_lock tofree rdb \<Rightarrow>
          Some (if rdb_mutex w = None then w\<lparr>rdb_mutex := Some Process, rq_cpc := C_free tofree rdb\<rparr> else w)
      | C_free tofree rdb \<Rightarrow>
          map_option (\<lambda>h. w\<lparr>rdb_end := rdb, rq_heap := h(the tofree := None), rq_cpc := C_unlock rdb\<rparr>)
            (store_rdb (rq_heap w) tofree (\<lambda>b. b\<lparr>rdb_next := None\<rparr>))
      | C_unlock rdb \<Rightarrow> Some (w\<lparr>rdb_mutex := None, rq_cpc := C_while rdb\<rparr>)
      | C_last rdb \<Rightarrow>
          map_option (\<lambda>b. if rdb_read b = 1 then return_code w 1 else w\<lparr>rq_cpc := C_type rdb\<rparr>)
            (load_rdb (rq_heap w) rdb)
      | C_type rdb \<Rightarrow> Some w
      | C_copy rdb \<Rightarrow> Some w)"

definition deliver_rawdata :: "deliver_env \<Rightarrow> raw_queue \<Rightarrow> raw_queue option" where
  "deliver_rawdata env w =
     (case rq_cpc w of
        C_type rdb \<Rightarrow>
          map_option (\<lambda>b. if rdb_type b \<noteq> env_want env then return_code w (wrong_type_code (env_want env))
                          else w\<lparr>rq_cpc := C_copy rdb\<rparr>) (load_rdb (rq_heap w) rdb)
      | C_copy rdb \<Rightarrow>
          (case load_rdb (rq_heap w) rdb of
             None \<Rightarrow> None
           | Some b \<Rightarrow>
               (case deliver_bundle env (rdb_rd b) of
                  None \<Rightarrow> None
                | Some d \<Rightarrow>
                    map_option (\<lambda>h. w\<lparr>rq_heap := h, rq_out := rq_out w @ [Inr d], rq_cpc := C_idle\<rparr>)
                      (store_rdb (rq_heap w) rdb (\<lambda>b. b\<lparr>rdb_read := 1\<rparr>))))
      | _ \<Rightarrow> free_and_cherrypick w)"

text \<open>Schedules.\<close>

datatype action = Frame addr captured_frame | Spy addr rd_spy_stamp | Insert | Deliver

fun rq_step :: "deliver_env \<Rightarrow> action \<Rightarrow> raw_queue \<Rightarrow> raw_queue option" where
  "rq_step env (Frame a fr) w = new_rdb a (fill_rawdata_pcap (env_mmap env) (env_kernel_version env) fr) w"
| "rq_step env (Spy a s) w = new_rdb a (fill_rawdata_spy s) w"
| "rq_step env Insert w = insert_rdb_in_list w"
| "rq_step env Deliver w = deliver_rawdata env w"

fun rq_run :: "deliver_env \<Rightarrow> action list \<Rightarrow> raw_queue \<Rightarrow> raw_queue option" where
  "rq_run env [] w = Some w"
| "rq_run env (a # as) w = Option.bind (rq_step env a w) (rq_run env as)"

definition rq_empty :: raw_queue where
  "rq_empty = \<lparr>rq_heap = Map.empty, rdb_start = None, rdb_end = None, rdb_mutex = None, rq_ppc = P_idle,
     rq_cpc = C_idle, rq_captured = [], rq_out = []\<rparr>"

section \<open>The invariant\<close>

primrec rd_path :: "rd_heap \<Rightarrow> addr option \<Rightarrow> addr list \<Rightarrow> addr option \<Rightarrow> bool" where
  "rd_path h x [] y \<longleftrightarrow> x = y"
| "rd_path h x (a # as) y \<longleftrightarrow> x = Some a \<and> (\<exists>b. h a = Some b \<and> rd_path h (rdb_next b) as y)"

definition first_of :: "'a list \<Rightarrow> 'a option" where
  "first_of L = (case L of [] \<Rightarrow> None | a # _ \<Rightarrow> Some a)"

definition last_of :: "'a list \<Rightarrow> 'a option" where
  "last_of L = (if L = [] then None else Some (last L))"

fun inflight :: "insert_pc \<Rightarrow> addr option" where
  "inflight (P_lock a) = Some a"
| "inflight (P_link a) = Some a"
| "inflight (P_start a) = Some a"
| "inflight _ = None"

fun linked :: "insert_pc \<Rightarrow> addr option" where
  "linked (P_start a) = Some a"
| "linked _ = None"

fun insert_locked :: "insert_pc \<Rightarrow> bool" where
  "insert_locked P_idle = False"
| "insert_locked (P_lock a) = False"
| "insert_locked _ = True"

fun deliver_locked :: "deliver_pc \<Rightarrow> bool" where
  "deliver_locked (C_free f r) = True"
| "deliver_locked (C_unlock r) = True"
| "deliver_locked _ = False"

definition unread :: "rd_heap \<Rightarrow> addr \<Rightarrow> bool" where
  "unread h a \<longleftrightarrow> (\<exists>b. h a = Some b \<and> rdb_read b = 0)"

definition undelivered :: "rd_heap \<Rightarrow> addr list \<Rightarrow> rd_t list" where
  "undelivered h L = map (\<lambda>a. rdb_rd (the (h a))) (filter (unread h) L)"

definition bundle_ok :: "deliver_env \<Rightarrow> raw_data_bundle \<Rightarrow> bool" where
  "bundle_ok env b \<longleftrightarrow> rdb_type b = env_want env \<and> deliver_bundle env (rdb_rd b) \<noteq> None \<and> rdb_read b \<in> {0, 1}"

definition fresh_bundle :: "deliver_env \<Rightarrow> raw_data_bundle \<Rightarrow> bool" where
  "fresh_bundle env b \<longleftrightarrow> bundle_ok env b \<and> rdb_next b = None \<and> rdb_read b = 0"

definition heap_ok :: "deliver_env \<Rightarrow> rd_heap \<Rightarrow> addr list \<Rightarrow> insert_pc \<Rightarrow> bool" where
  "heap_ok env h L pc \<longleftrightarrow>
     distinct L \<and> (L \<noteq> [] \<longrightarrow> rd_path h (first_of L) L (linked pc))
     \<and> (\<forall>a. h a = None \<longleftrightarrow> a \<notin> set L \<and> inflight pc \<noteq> Some a)
     \<and> (\<forall>a. inflight pc = Some a \<longrightarrow> a \<notin> set L)
     \<and> (\<forall>a b. h a = Some b \<longrightarrow> bundle_ok env b)
     \<and> (\<forall>a b. inflight pc = Some a \<longrightarrow> h a = Some b \<longrightarrow> fresh_bundle env b)
     \<and> (\<forall>a \<in> set (tl L). unread h a)"

definition ends_ok :: "raw_queue \<Rightarrow> addr list \<Rightarrow> bool" where
  "ends_ok w L \<longleftrightarrow>
     rdb_start w = last_of L
     \<and> (\<forall>a. rq_ppc w = P_end a \<longrightarrow>
          last_of L = Some a \<and> rdb_end w = (if length L \<le> 1 then None else first_of L))
     \<and> ((\<forall>a. rq_ppc w \<noteq> P_end a) \<longrightarrow> rdb_end w = first_of L)"

definition mutex_ok :: "raw_queue \<Rightarrow> bool" where
  "mutex_ok w \<longleftrightarrow>
     (rdb_mutex w = Some Capture \<longleftrightarrow> insert_locked (rq_ppc w))
     \<and> (rdb_mutex w = Some Process \<longleftrightarrow> deliver_locked (rq_cpc w))"

definition at_end :: "raw_queue \<Rightarrow> addr list \<Rightarrow> addr option \<Rightarrow> bool" where
  "at_end w L r \<longleftrightarrow> L \<noteq> [] \<and> r = first_of L \<and> rdb_end w = r"

fun deliver_ok :: "raw_queue \<Rightarrow> addr list \<Rightarrow> deliver_pc \<Rightarrow> bool" where
  "deliver_ok w L C_idle \<longleftrightarrow> True"
| "deliver_ok w L (C_while r) \<longleftrightarrow> at_end w L r"
| "deliver_ok w L (C_read r) \<longleftrightarrow> at_end w L r \<and> tl L \<noteq> []"
| "deliver_ok w L (C_next r) \<longleftrightarrow> at_end w L r \<and> tl L \<noteq> [] \<and> \<not> unread (rq_heap w) (hd L)"
| "deliver_ok w L (C_lock f r) \<longleftrightarrow>
     at_end w L f \<and> tl L \<noteq> [] \<and> \<not> unread (rq_heap w) (hd L) \<and> r = first_of (tl L)"
| "deliver_ok w L (C_free f r) \<longleftrightarrow>
     at_end w L f \<and> tl L \<noteq> [] \<and> \<not> unread (rq_heap w) (hd L) \<and> r = first_of (tl L)"
| "deliver_ok w L (C_unlock r) \<longleftrightarrow> at_end w L r \<and> unread (rq_heap w) (hd L)"
| "deliver_ok w L (C_last r) \<longleftrightarrow> at_end w L r"
| "deliver_ok w L (C_type r) \<longleftrightarrow> at_end w L r \<and> unread (rq_heap w) (hd L)"
| "deliver_ok w L (C_copy r) \<longleftrightarrow> at_end w L r \<and> unread (rq_heap w) (hd L)"

fun got :: "(int + 'a) list \<Rightarrow> 'a list" where
  "got [] = []"
| "got (Inl e # xs) = got xs"
| "got (Inr x # xs) = x # got xs"

definition rq_inv :: "deliver_env \<Rightarrow> addr list \<Rightarrow> raw_queue \<Rightarrow> bool" where
  "rq_inv env L w \<longleftrightarrow>
     heap_ok env (rq_heap w) L (rq_ppc w) \<and> ends_ok w L \<and> mutex_ok w \<and> deliver_ok w L (rq_cpc w)
     \<and> map Some (got (rq_out w)) @ map (deliver_bundle env) (undelivered (rq_heap w) L)
       = map (deliver_bundle env) (rq_captured w)"

lemma got_append [simp]: "got (xs @ ys) = got xs @ got ys"
  by (induction xs rule: got.induct) simp_all

lemma first_of_simps [simp]: "first_of [] = None" "first_of (a # L) = Some a"
  "first_of L = None \<longleftrightarrow> L = []" "None = first_of L \<longleftrightarrow> L = []"
  by (auto simp: first_of_def split: list.split)

lemma first_of_append [simp]: "L \<noteq> [] \<Longrightarrow> first_of (L @ M) = first_of L"
  by (cases L) simp_all

lemma last_of_simps [simp]: "last_of [] = None" "last_of (L @ [a]) = Some a"
  "last_of L = None \<longleftrightarrow> L = []"
  by (simp_all add: last_of_def)

lemma last_of_tl [simp]: "tl L \<noteq> [] \<Longrightarrow> last_of (tl L) = last_of L"
  by (cases L) (simp_all add: last_of_def)

lemma rd_path_append [simp]:
  "rd_path h x (as @ bs) z \<longleftrightarrow> (\<exists>y. rd_path h x as y \<and> rd_path h y bs z)"
  by (induction as arbitrary: x) auto

lemma rd_path_upd [simp]: "a \<notin> set as \<Longrightarrow> rd_path (h(a := b)) x as y = rd_path h x as y"
  by (induction as arbitrary: x) auto

lemma unread_upd [simp]:
  "unread (h(a := b)) c = (if c = a then (\<exists>b'. b = Some b' \<and> rdb_read b' = 0) else unread h c)"
  by (simp add: unread_def)

lemma undelivered_upd_other [simp]: "a \<notin> set L \<Longrightarrow> undelivered (h(a := b)) L = undelivered h L"
  unfolding undelivered_def
proof -
  assume a: "a \<notin> set L"
  then have "filter (unread (h(a := b))) L = filter (unread h) L"
    by (intro filter_cong) (auto split: if_splits)
  with a show "map (\<lambda>c. rdb_rd (the ((h(a := b)) c))) (filter (unread (h(a := b))) L)
      = map (\<lambda>c. rdb_rd (the (h c))) (filter (unread h) L)"
    by auto
qed

lemma undelivered_append [simp]: "undelivered h (L @ M) = undelivered h L @ undelivered h M"
  by (simp add: undelivered_def)

lemma undelivered_Cons:
  "undelivered h (a # L) = (if unread h a then rdb_rd (the (h a)) # undelivered h L else undelivered h L)"
  by (simp add: undelivered_def)

lemma undelivered_Nil [simp]: "undelivered h [] = []"
  by (simp add: undelivered_def)

lemma rq_inv_empty: "rq_inv env [] rq_empty"
  by (simp add: rq_inv_def rq_empty_def heap_ok_def ends_ok_def mutex_ok_def)

subsection \<open>Capturing keeps it\<close>

lemma heap_ok_alloc:
  assumes "heap_ok env h L P_idle" "h a = None" "fresh_bundle env b"
  shows "heap_ok env (h(a \<mapsto> b)) L (P_lock a)"
proof -
  have "a \<notin> set L" using assms by (auto simp: heap_ok_def)
  then have "a \<notin> set (tl L)" by (cases L) auto
  with \<open>a \<notin> set L\<close> show ?thesis using assms by (auto simp: heap_ok_def fresh_bundle_def)
qed

lemma new_rdb_inv:
  assumes inv: "rq_inv env L w" and b: "fresh_bundle env b"
  shows "\<exists>w'. new_rdb a b w = Some w' \<and> rq_inv env L w'"
proof (cases "rq_ppc w = P_idle \<and> rq_heap w a = None")
  case True
  have h: "heap_ok env (rq_heap w) L P_idle" using inv True by (simp add: rq_inv_def)
  then have a: "a \<notin> set L" using True by (auto simp: heap_ok_def)
  let ?w = "w\<lparr>rq_heap := (rq_heap w)(a \<mapsto> b), rq_ppc := P_lock a\<rparr>"
  have "deliver_ok ?w L (rq_cpc w)"
    using inv a by (cases "rq_cpc w"; cases L) (auto simp: rq_inv_def at_end_def)
  then have "rq_inv env L ?w"
    using inv a True heap_ok_alloc [OF h _ b, of a]
    by (simp add: rq_inv_def ends_ok_def mutex_ok_def)
  then show ?thesis using True by (simp add: new_rdb_def)
next
  case False
  then show ?thesis using inv by (auto simp: new_rdb_def)
qed

lemma unread_upd_keep:
  "h a = Some b \<Longrightarrow> rdb_read b' = rdb_read b \<Longrightarrow> unread (h(a \<mapsto> b')) c = unread h c"
  by (auto simp: unread_def)

lemma undelivered_upd_keep:
  assumes "h a = Some b" "rdb_read b' = rdb_read b" "rdb_rd b' = rdb_rd b"
  shows "undelivered (h(a \<mapsto> b')) L = undelivered h L"
proof -
  have "unread (h(a \<mapsto> b')) = unread h" using unread_upd_keep [of h a b b', OF assms(1,2)] by blast
  moreover have "rdb_rd (the ((h(a \<mapsto> b')) c)) = rdb_rd (the (h c))" for c using assms by simp
  ultimately show ?thesis by (simp add: undelivered_def)
qed

lemma heap_ok_pc:
  "heap_ok env h L pc \<Longrightarrow> linked pc' = linked pc \<Longrightarrow> inflight pc' = inflight pc \<Longrightarrow> heap_ok env h L pc'"
  by (simp add: heap_ok_def)

lemma heap_ok_link:
  assumes ok: "heap_ok env h L (P_link a)" and l: "last_of L = Some l"
  obtains b where "h l = Some b" "heap_ok env (h(l \<mapsto> b\<lparr>rdb_next := Some a\<rparr>)) L (P_start a)"
proof -
  from l obtain L' where L: "L = L' @ [l]"
    by (cases L rule: rev_cases) auto
  have d: "l \<notin> set L'" using ok by (simp add: L heap_ok_def)
  have p: "rd_path h (first_of L) L' (Some l)" and "\<exists>b. h l = Some b"
    using ok by (auto simp: L heap_ok_def)
  then obtain b where b: "h l = Some b" by blast
  let ?h = "h(l \<mapsto> b\<lparr>rdb_next := Some a\<rparr>)"
  have al: "a \<noteq> l" "l \<in> set L" using ok by (auto simp: L heap_ok_def)
  have "rd_path ?h (first_of L) L (Some a)"
    unfolding L using p d by (auto simp: L)
  moreover have "\<forall>c \<in> set (tl L). unread ?h c"
    using ok b by (auto simp: heap_ok_def unread_def split: if_splits)
  moreover have "bundle_ok env (b\<lparr>rdb_next := Some a\<rparr>)"
    using ok b by (auto simp: heap_ok_def bundle_ok_def)
  ultimately have "heap_ok env ?h L (P_start a)"
    using ok al b by (auto simp: heap_ok_def split: if_splits)
  then show ?thesis using that b by blast
qed

lemma heap_ok_start:
  assumes ok: "heap_ok env h L (P_start a)"
  shows "heap_ok env h (L @ [a]) (P_end a)" "\<exists>b. h a = Some b \<and> fresh_bundle env b" "a \<notin> set L"
proof -
  have "h a \<noteq> None" using ok by (auto simp: heap_ok_def)
  then show b: "\<exists>b. h a = Some b \<and> fresh_bundle env b" using ok by (auto simp: heap_ok_def)
  then have u: "unread h a" by (auto simp: fresh_bundle_def unread_def)
  show a: "a \<notin> set L" using ok by (simp add: heap_ok_def)
  have "rd_path h (first_of (L @ [a])) (L @ [a]) None"
    using ok b by (cases L) (auto simp: heap_ok_def fresh_bundle_def)
  moreover have "\<forall>c \<in> set (tl (L @ [a])). unread h c"
    using ok u by (cases L) (auto simp: heap_ok_def)
  ultimately show "heap_ok env h (L @ [a]) (P_end a)"
    using ok a by (auto simp: heap_ok_def)
qed

lemma deliver_ok_cong:
  assumes "rdb_end w' = rdb_end w" "L \<noteq> [] \<Longrightarrow> unread (rq_heap w') (hd L) = unread (rq_heap w) (hd L)"
  shows "deliver_ok w' L pc = deliver_ok w L pc"
  using assms by (cases pc) (auto simp: at_end_def)

lemma deliver_ok_snoc: "deliver_ok w L pc \<Longrightarrow> deliver_ok w (L @ [a]) pc"
  by (cases pc; cases L) (auto simp: at_end_def)

lemma insert_rdb_inv:
  assumes inv: "rq_inv env L w"
  shows "\<exists>w'. insert_rdb_in_list w = Some w'
    \<and> rq_inv env (case rq_ppc w of P_start a \<Rightarrow> L @ [a] | _ \<Rightarrow> L) w'"
proof (cases "rq_ppc w")
  case P_idle
  then show ?thesis using inv by (simp add: insert_rdb_in_list_def)
next
  case (P_lock a)
  have "heap_ok env (rq_heap w) L (P_link a)"
    using inv P_lock by (auto simp: rq_inv_def intro: heap_ok_pc)
  then show ?thesis
    using inv P_lock deliver_ok_cong [of "w\<lparr>rdb_mutex := Some Capture, rq_ppc := P_link a\<rparr>" w L "rq_cpc w"]
    by (auto simp: insert_rdb_in_list_def rq_inv_def ends_ok_def mutex_ok_def)
next
  case (P_link a)
  have ok: "heap_ok env (rq_heap w) L (P_link a)" using inv P_link by (simp add: rq_inv_def)
  show ?thesis
  proof (cases "last_of L")
    case None
    then have "heap_ok env (rq_heap w) L (P_start a)" using ok by (simp add: heap_ok_def)
    then show ?thesis
      using inv P_link None deliver_ok_cong [of "w\<lparr>rq_ppc := P_start a\<rparr>" w L "rq_cpc w"]
      by (auto simp: insert_rdb_in_list_def rq_inv_def ends_ok_def mutex_ok_def)
  next
    case (Some l)
    from heap_ok_link [OF ok Some] obtain b where b: "rq_heap w l = Some b"
      "heap_ok env ((rq_heap w)(l \<mapsto> b\<lparr>rdb_next := Some a\<rparr>)) L (P_start a)" .
    let ?h = "(rq_heap w)(l \<mapsto> b\<lparr>rdb_next := Some a\<rparr>)"
    have u: "unread ?h c = unread (rq_heap w) c" for c
      using b(1) by (intro unread_upd_keep) auto
    have p: "undelivered ?h L = undelivered (rq_heap w) L"
      using b(1) by (intro undelivered_upd_keep) auto
    have d: "deliver_ok (w\<lparr>rq_heap := ?h, rq_ppc := P_start a\<rparr>) L (rq_cpc w)"
      using inv u deliver_ok_cong [of "w\<lparr>rq_heap := ?h, rq_ppc := P_start a\<rparr>" w L "rq_cpc w"]
      by (simp add: rq_inv_def)
    show ?thesis
      using inv P_link Some b p d
      by (auto simp: insert_rdb_in_list_def store_rdb_def rq_inv_def ends_ok_def mutex_ok_def)
  qed
next
  case (P_start a)
  have ok: "heap_ok env (rq_heap w) L (P_start a)" using inv P_start by (simp add: rq_inv_def)
  then obtain b where b: "rq_heap w a = Some b" "fresh_bundle env b" and a: "a \<notin> set L"
    using heap_ok_start by blast
  let ?w = "w\<lparr>rdb_start := Some a, rq_ppc := P_end a, rq_captured := rq_captured w @ [rdb_rd b]\<rparr>"
  have "deliver_ok w (L @ [a]) (rq_cpc w)" using inv by (simp add: rq_inv_def deliver_ok_snoc)
  then have d: "deliver_ok ?w (L @ [a]) (rq_cpc w)"
    using deliver_ok_cong [of ?w w "L @ [a]" "rq_cpc w"] by simp
  have p: "undelivered (rq_heap w) (L @ [a]) = undelivered (rq_heap w) L @ [rdb_rd b]"
    using b by (simp add: undelivered_Cons unread_def fresh_bundle_def)
  show ?thesis
    using inv P_start b(1) d p heap_ok_start(1) [OF ok]
    by (cases L)
      (auto simp: insert_rdb_in_list_def load_rdb_def rq_inv_def ends_ok_def mutex_ok_def last_of_def)
next
  case (P_end a)
  have "heap_ok env (rq_heap w) L P_unlock"
    using inv P_end by (auto simp: rq_inv_def intro: heap_ok_pc)
  moreover have e: "rdb_end (w\<lparr>rdb_end := (if rdb_end w = None then Some a else rdb_end w), rq_ppc := P_unlock\<rparr>) = first_of L"
    using inv P_end by (cases L; cases "tl L") (auto simp: rq_inv_def ends_ok_def last_of_def)
  moreover have "deliver_ok (w\<lparr>rdb_end := (if rdb_end w = None then Some a else rdb_end w), rq_ppc := P_unlock\<rparr>) L (rq_cpc w)"
    using inv e by (cases "rq_cpc w") (auto simp: rq_inv_def at_end_def split: if_splits)
  ultimately show ?thesis
    using inv P_end by (auto simp: insert_rdb_in_list_def rq_inv_def ends_ok_def mutex_ok_def)
next
  case P_unlock
  have "heap_ok env (rq_heap w) L P_idle"
    using inv P_unlock by (auto simp: rq_inv_def intro: heap_ok_pc)
  then show ?thesis
    using inv P_unlock deliver_ok_cong [of "w\<lparr>rdb_mutex := None, rq_ppc := P_idle\<rparr>" w L "rq_cpc w"]
    by (auto simp: insert_rdb_in_list_def rq_inv_def ends_ok_def mutex_ok_def)
qed

subsection \<open>Delivering keeps it\<close>

lemma at_end_load:
  assumes "rq_inv env L w" "at_end w L r"
  obtains b where "r = Some (hd L)" "load_rdb (rq_heap w) r = Some b" "rq_heap w (hd L) = Some b" "bundle_ok env b"
proof -
  from assms(2) have L: "L \<noteq> []" "r = Some (hd L)" by (auto simp: at_end_def first_of_def split: list.splits)
  then have "rq_heap w (hd L) \<noteq> None" using assms(1) by (auto simp: rq_inv_def heap_ok_def)
  then show ?thesis using that L assms(1) by (auto simp: load_rdb_def rq_inv_def heap_ok_def)
qed

lemma rq_inv_cpc:
  assumes "rq_inv env L w" "deliver_ok w L pc" "deliver_locked pc = deliver_locked (rq_cpc w)"
  shows "rq_inv env L (w\<lparr>rq_cpc := pc\<rparr>)"
  using assms deliver_ok_cong [of "w\<lparr>rq_cpc := pc\<rparr>" w L pc]
  by (simp add: rq_inv_def ends_ok_def mutex_ok_def)

lemma rq_inv_mutex:
  assumes "rq_inv env L w" "deliver_ok w L pc" "m = (if deliver_locked pc then Some Process else None)"
    "rdb_mutex w \<noteq> Some Capture"
  shows "rq_inv env L (w\<lparr>rdb_mutex := m, rq_cpc := pc\<rparr>)"
  using assms deliver_ok_cong [of "w\<lparr>rdb_mutex := m, rq_cpc := pc\<rparr>" w L pc]
  by (auto simp: rq_inv_def ends_ok_def mutex_ok_def)

lemma rq_inv_return:
  "rq_inv env L w \<Longrightarrow> \<not> deliver_locked (rq_cpc w) \<Longrightarrow> rq_inv env L (return_code w e)"
  by (simp add: rq_inv_def return_code_def ends_ok_def mutex_ok_def)

lemma tail_nonempty: "L \<noteq> [] \<Longrightarrow> first_of L \<noteq> last_of L \<Longrightarrow> tl L \<noteq> []"
  by (cases L) (auto simp: last_of_def)

lemma heap_ok_free:
  assumes ok: "heap_ok env h (a # L) pc" and "L \<noteq> []"
  shows "heap_ok env (h(a := None)) L pc"
proof -
  obtain l L' where L: "L = l # L'" using assms(2) by (cases L) auto
  have "a \<notin> set L" "inflight pc \<noteq> Some a" using ok by (auto simp: heap_ok_def)
  then show ?thesis using ok by (auto simp: heap_ok_def L)
qed

lemma free_inv:
  assumes inv: "rq_inv env L w" and pc: "rq_cpc w = C_free f r"
  obtains w' where "deliver_rawdata env w = Some w'" "rq_inv env (tl L) w'" "rq_cpc w' = C_unlock r"
    "rq_out w' = rq_out w" "rq_captured w' = rq_captured w" "rq_ppc w' = rq_ppc w" "rdb_mutex w' = rdb_mutex w"
    "undelivered (rq_heap w') (tl L) = undelivered (rq_heap w) L"
proof -
  have e: "at_end w L f" "tl L \<noteq> []" "\<not> unread (rq_heap w) (hd L)" "r = first_of (tl L)"
    using inv pc by (auto simp: rq_inv_def)
  obtain b where b: "f = Some (hd L)" "rq_heap w (hd L) = Some b"
    using at_end_load [OF inv e(1)] by blast
  obtain a M where L: "L = a # M" "M \<noteq> []" using e(2) by (cases L) auto
  let ?w = "w\<lparr>rdb_end := r, rq_heap := (rq_heap w)(a := None), rq_cpc := C_unlock r\<rparr>"
  have step: "deliver_rawdata env w = Some ?w"
    using b by (simp add: deliver_rawdata_def free_and_cherrypick_def pc store_rdb_def L)
  have "rdb_mutex w = Some Process" using inv pc by (simp add: rq_inv_def mutex_ok_def)
  then have m: "\<not> insert_locked (rq_ppc w)" using inv by (simp add: rq_inv_def mutex_ok_def)
  have ok: "heap_ok env (rq_heap w) L (rq_ppc w)" using inv by (simp add: rq_inv_def)
  then have a: "a \<notin> set M" by (simp add: heap_ok_def L)
  have u: "unread (rq_heap ?w) (hd M)" using ok L a by (auto simp: heap_ok_def)
  have "ends_ok ?w M" using inv m e(4) L by (auto simp: rq_inv_def ends_ok_def last_of_def)
  moreover have "deliver_ok ?w M (C_unlock r)" using L e(4) u by (simp add: at_end_def)
  moreover have x: "undelivered ((rq_heap w)(a := None)) M = undelivered (rq_heap w) L"
    using e(3) a by (simp add: L undelivered_Cons)
  moreover have "mutex_ok ?w" using inv m pc by (simp add: rq_inv_def mutex_ok_def)
  ultimately have "rq_inv env M ?w"
    using inv heap_ok_free [of env "rq_heap w" a M "rq_ppc w"] ok L by (auto simp: rq_inv_def split: if_splits)
  then show ?thesis using that [OF step] x L by auto
qed

lemma copy_inv:
  assumes inv: "rq_inv env L w" and pc: "rq_cpc w = C_copy r"
  shows "\<exists>w' d x xs. deliver_rawdata env w = Some w' \<and> rq_inv env L w' \<and> rq_out w' = rq_out w @ [Inr d]
    \<and> rq_cpc w' = C_idle \<and> rq_captured w' = rq_captured w \<and> undelivered (rq_heap w) L = x # xs
    \<and> undelivered (rq_heap w') L = xs \<and> deliver_bundle env x = Some d"
proof -
  have e: "at_end w L r" "unread (rq_heap w) (hd L)" using inv pc by (auto simp: rq_inv_def)
  obtain b where b: "r = Some (hd L)" "load_rdb (rq_heap w) r = Some b" "rq_heap w (hd L) = Some b" "bundle_ok env b"
    using at_end_load [OF inv e(1)] by blast
  obtain d where d: "deliver_bundle env (rdb_rd b) = Some d" using b(4) by (auto simp: bundle_ok_def)
  obtain a M where L: "L = a # M" using e(1) by (cases L) (auto simp: at_end_def)
  let ?h = "(rq_heap w)(a \<mapsto> b\<lparr>rdb_read := 1\<rparr>)"
  let ?w = "w\<lparr>rq_heap := ?h, rq_out := rq_out w @ [Inr d], rq_cpc := C_idle\<rparr>"
  have step: "deliver_rawdata env w = Some ?w"
    using b d by (simp add: deliver_rawdata_def pc store_rdb_def L)
  have ok: "heap_ok env (rq_heap w) L (rq_ppc w)" using inv by (simp add: rq_inv_def)
  then have a: "a \<notin> set M" "inflight (rq_ppc w) \<noteq> Some a" by (auto simp: heap_ok_def L)
  have x: "undelivered (rq_heap w) L = rdb_rd b # undelivered (rq_heap w) M"
    using e(2) b(3) by (simp add: L undelivered_Cons)
  have y: "undelivered ?h L = undelivered (rq_heap w) M"
    using a by (simp add: L undelivered_Cons)
  have "bundle_ok env (b\<lparr>rdb_read := 1\<rparr>)" using b(4) by (simp add: bundle_ok_def)
  then have "heap_ok env ?h L (rq_ppc w)"
    using ok a b(3) by (auto simp: heap_ok_def L split: if_splits)
  moreover have "ends_ok ?w L" "mutex_ok ?w"
    using inv pc by (simp_all add: rq_inv_def ends_ok_def mutex_ok_def)
  ultimately have "rq_inv env L ?w" using inv x y d by (simp add: rq_inv_def)
  then show ?thesis using step x y d by auto
qed

text \<open>
  The steps a call still needs, when it is not held up at the mutex: the scan removes at most
  one bundle, since only the oldest one can have been read.
\<close>

fun rq_rank :: "bool \<Rightarrow> deliver_pc \<Rightarrow> nat" where
  "rq_rank u C_idle = 12"
| "rq_rank u (C_while r) = (if u then 5 else 11)"
| "rq_rank u (C_read r) = (if u then 4 else 10)"
| "rq_rank u (C_next r) = 9"
| "rq_rank u (C_lock f r) = 8"
| "rq_rank u (C_free f r) = 7"
| "rq_rank u (C_unlock r) = 6"
| "rq_rank u (C_last r) = 3"
| "rq_rank u (C_type r) = 2"
| "rq_rank u (C_copy r) = 1"

definition rank_of :: "addr list \<Rightarrow> raw_queue \<Rightarrow> nat" where
  "rank_of L w = rq_rank (unread (rq_heap w) (hd L)) (rq_cpc w)"

fun waiting :: "deliver_pc \<Rightarrow> bool" where
  "waiting (C_lock f r) = True"
| "waiting _ = False"

definition blocked :: "raw_queue \<Rightarrow> bool" where
  "blocked w \<longleftrightarrow> waiting (rq_cpc w) \<and> rdb_mutex w = Some Capture"

fun at_last :: "deliver_pc \<Rightarrow> bool" where
  "at_last (C_last r) = True"
| "at_last _ = False"

text \<open>No insertion under way or seen by the call under way.\<close>

definition quiet :: "raw_queue \<Rightarrow> addr list \<Rightarrow> bool" where
  "quiet w L \<longleftrightarrow> rdb_mutex w \<noteq> Some Capture
     \<and> (at_last (rq_cpc w) \<longrightarrow> unread (rq_heap w) (hd L) \<or> tl L = [])"

definition goes_on :: "addr list \<Rightarrow> raw_queue \<Rightarrow> addr list \<Rightarrow> raw_queue \<Rightarrow> bool" where
  "goes_on L w L' w' \<longleftrightarrow>
     rq_out w' = rq_out w \<and> rank_of L' w' < rank_of L w
     \<and> undelivered (rq_heap w') L' = undelivered (rq_heap w) L \<and> (quiet w L \<longrightarrow> quiet w' L')"

definition gives_code :: "addr list \<Rightarrow> raw_queue \<Rightarrow> addr list \<Rightarrow> raw_queue \<Rightarrow> bool" where
  "gives_code L w L' w' \<longleftrightarrow>
     (\<exists>e. rq_out w' = rq_out w @ [Inl e]) \<and> rq_cpc w' = C_idle
     \<and> undelivered (rq_heap w') L' = undelivered (rq_heap w) L
     \<and> (quiet w L \<longrightarrow> undelivered (rq_heap w) L = [])"

definition gives_data :: "deliver_env \<Rightarrow> addr list \<Rightarrow> raw_queue \<Rightarrow> addr list \<Rightarrow> raw_queue \<Rightarrow> bool" where
  "gives_data env L w L' w' \<longleftrightarrow>
     (\<exists>d x xs. rq_out w' = rq_out w @ [Inr d] \<and> rq_cpc w' = C_idle \<and> undelivered (rq_heap w) L = x # xs
        \<and> undelivered (rq_heap w') L' = xs \<and> deliver_bundle env x = Some d)"

definition deliver_outcome :: "deliver_env \<Rightarrow> addr list \<Rightarrow> raw_queue \<Rightarrow> addr list \<Rightarrow> raw_queue \<Rightarrow> bool" where
  "deliver_outcome env L w L' w' \<longleftrightarrow>
     rq_inv env L' w' \<and> rq_captured w' = rq_captured w \<and> rq_ppc w' = rq_ppc w
     \<and> (w' = w \<and> L' = L \<and> blocked w
        \<or> \<not> blocked w \<and> (goes_on L w L' w' \<or> gives_code L w L' w' \<or> gives_data env L w L' w'))"

lemma outcome_cpc:
  assumes "rq_inv env L w" "deliver_ok w L pc" "deliver_locked pc = deliver_locked (rq_cpc w)"
    "rq_rank (unread (rq_heap w) (hd L)) pc < rank_of L w" "\<not> waiting (rq_cpc w)"
    "at_last pc \<Longrightarrow> unread (rq_heap w) (hd L) \<or> tl L = []"
  shows "deliver_outcome env L w L (w\<lparr>rq_cpc := pc\<rparr>)"
  using rq_inv_cpc [OF assms(1-3)] assms(4-6)
  by (simp add: deliver_outcome_def goes_on_def rank_of_def blocked_def quiet_def)

lemma outcome_code:
  assumes "rq_inv env L w" "\<not> deliver_locked (rq_cpc w)" "\<not> waiting (rq_cpc w)"
    "quiet w L \<Longrightarrow> undelivered (rq_heap w) L = []"
  shows "deliver_outcome env L w L (return_code w e)"
  using rq_inv_return [OF assms(1,2)] assms(3,4)
  by (simp add: deliver_outcome_def gives_code_def blocked_def return_code_def)

lemma deliver_step_while:
  assumes inv: "rq_inv env L w" and pc: "rq_cpc w = C_while r"
  shows "\<exists>w' L'. deliver_rawdata env w = Some w' \<and> deliver_outcome env L w L' w'"
proof -
  have e: "at_end w L r" using inv pc by (simp add: rq_inv_def)
  have s: "rdb_start w = last_of L" using inv by (simp add: rq_inv_def ends_ok_def)
  let ?pc = "if r \<noteq> rdb_start w then C_read r else C_last r"
  have "deliver_outcome env L w L (w\<lparr>rq_cpc := ?pc\<rparr>)"
  proof (rule outcome_cpc [OF inv])
    show "deliver_ok w L ?pc" using e s tail_nonempty [of L] by (auto simp: at_end_def)
    show "at_last ?pc \<Longrightarrow> unread (rq_heap w) (hd L) \<or> tl L = []"
    proof -
      assume "at_last ?pc"
      then have "first_of L = last_of L" using e s by (auto simp: at_end_def split: if_splits)
      moreover have "distinct L" using inv by (simp add: rq_inv_def heap_ok_def)
      ultimately show ?thesis using e
        by (cases L rule: list.exhaust; cases "tl L" rule: rev_cases) (auto simp: at_end_def last_of_def)
    qed
  qed (simp_all add: pc rank_of_def)
  then show ?thesis by (auto simp: deliver_rawdata_def free_and_cherrypick_def pc)
qed

lemma deliver_step_idle:
  assumes inv: "rq_inv env L w" and pc: "rq_cpc w = C_idle"
  shows "\<exists>w' L'. deliver_rawdata env w = Some w' \<and> deliver_outcome env L w L' w'"
proof (cases "rdb_end w")
    case None
    have "quiet w L \<Longrightarrow> L = []"
      using inv None by (cases "rq_ppc w") (auto simp: quiet_def rq_inv_def ends_ok_def mutex_ok_def)
    then have "deliver_outcome env L w L (return_code w 1)"
      using pc by (intro outcome_code [OF inv]) auto
    then show ?thesis using None by (auto simp: deliver_rawdata_def free_and_cherrypick_def pc)
  next
    case (Some a)
    then have "at_end w L (rdb_end w)"
      using inv by (cases "rq_ppc w") (auto simp: at_end_def rq_inv_def ends_ok_def split: if_splits)
    then have "deliver_outcome env L w L (w\<lparr>rq_cpc := C_while (rdb_end w)\<rparr>)"
      by (intro outcome_cpc [OF inv]) (simp_all add: pc rank_of_def)
    then show ?thesis using Some by (auto simp: deliver_rawdata_def free_and_cherrypick_def pc)
qed

lemma deliver_step_read:
  assumes inv: "rq_inv env L w" and pc: "rq_cpc w = C_read r"
  shows "\<exists>w' L'. deliver_rawdata env w = Some w' \<and> deliver_outcome env L w L' w'"
proof -
  have e: "at_end w L r" "tl L \<noteq> []" using inv pc by (auto simp: rq_inv_def)
  obtain b where b: "load_rdb (rq_heap w) r = Some b" "rq_heap w (hd L) = Some b"
    using at_end_load [OF inv e(1)] by blast
  let ?pc = "if rdb_read b = 0 then C_last r else C_next r"
  have "deliver_outcome env L w L (w\<lparr>rq_cpc := ?pc\<rparr>)"
    using e b by (intro outcome_cpc [OF inv]) (auto simp: pc rank_of_def unread_def split: if_splits)
  then show ?thesis using b by (auto simp: deliver_rawdata_def free_and_cherrypick_def pc)
qed

lemma deliver_step_next:
  assumes inv: "rq_inv env L w" and pc: "rq_cpc w = C_next r"
  shows "\<exists>w' L'. deliver_rawdata env w = Some w' \<and> deliver_outcome env L w L' w'"
proof -
  have e: "at_end w L r" "tl L \<noteq> []" "\<not> unread (rq_heap w) (hd L)" using inv pc by (auto simp: rq_inv_def)
  obtain b where b: "load_rdb (rq_heap w) r = Some b" "rq_heap w (hd L) = Some b"
    using at_end_load [OF inv e(1)] by blast
  have "rdb_next b = first_of (tl L)"
    using inv e(2) b(2) by (cases L; cases "tl L") (auto simp: rq_inv_def heap_ok_def)
  then have "deliver_outcome env L w L (w\<lparr>rq_cpc := C_lock r (rdb_next b)\<rparr>)"
    using e by (intro outcome_cpc [OF inv]) (auto simp: pc rank_of_def)
  then show ?thesis using b by (auto simp: deliver_rawdata_def free_and_cherrypick_def pc)
qed

lemma deliver_step_lock:
  assumes inv: "rq_inv env L w" and pc: "rq_cpc w = C_lock f r"
  shows "\<exists>w' L'. deliver_rawdata env w = Some w' \<and> deliver_outcome env L w L' w'"
proof (cases "rdb_mutex w")
    case None
    have "rq_inv env L (w\<lparr>rdb_mutex := Some Process, rq_cpc := C_free f r\<rparr>)"
      using inv pc None by (intro rq_inv_mutex) (auto simp: rq_inv_def)
    then have "deliver_outcome env L w L (w\<lparr>rdb_mutex := Some Process, rq_cpc := C_free f r\<rparr>)"
      using pc None by (simp add: deliver_outcome_def goes_on_def rank_of_def blocked_def quiet_def)
    then show ?thesis using None by (auto simp: deliver_rawdata_def free_and_cherrypick_def pc)
  next
    case (Some t)
    then have "t = Capture" using inv pc by (cases t) (auto simp: rq_inv_def mutex_ok_def)
    then have "deliver_outcome env L w L w" using inv Some pc by (simp add: deliver_outcome_def blocked_def)
    then show ?thesis using Some by (auto simp: deliver_rawdata_def free_and_cherrypick_def pc)
qed

lemma deliver_step_free:
  assumes inv: "rq_inv env L w" and pc: "rq_cpc w = C_free f r"
  shows "\<exists>w' L'. deliver_rawdata env w = Some w' \<and> deliver_outcome env L w L' w'"
proof -
  obtain w' where w': "deliver_rawdata env w = Some w'" "rq_inv env (tl L) w'" "rq_cpc w' = C_unlock r"
    "rq_out w' = rq_out w" "rq_captured w' = rq_captured w" "rq_ppc w' = rq_ppc w" "rdb_mutex w' = rdb_mutex w"
    "undelivered (rq_heap w') (tl L) = undelivered (rq_heap w) L"
    by (rule free_inv [OF inv pc])
  then have "deliver_outcome env L w (tl L) w'"
    by (simp add: deliver_outcome_def goes_on_def rank_of_def blocked_def quiet_def pc)
  then show ?thesis using w'(1) by blast
qed

lemma deliver_step_unlock:
  assumes inv: "rq_inv env L w" and pc: "rq_cpc w = C_unlock r"
  shows "\<exists>w' L'. deliver_rawdata env w = Some w' \<and> deliver_outcome env L w L' w'"
proof -
  have e: "at_end w L r" "unread (rq_heap w) (hd L)" "rdb_mutex w = Some Process"
    using inv pc by (auto simp: rq_inv_def mutex_ok_def)
  then have "rq_inv env L (w\<lparr>rdb_mutex := None, rq_cpc := C_while r\<rparr>)"
    by (intro rq_inv_mutex [OF inv]) auto
  then have "deliver_outcome env L w L (w\<lparr>rdb_mutex := None, rq_cpc := C_while r\<rparr>)"
    using e by (simp add: deliver_outcome_def goes_on_def rank_of_def blocked_def quiet_def pc)
  then show ?thesis by (auto simp: deliver_rawdata_def free_and_cherrypick_def pc)
qed

lemma deliver_step_last:
  assumes inv: "rq_inv env L w" and pc: "rq_cpc w = C_last r"
  shows "\<exists>w' L'. deliver_rawdata env w = Some w' \<and> deliver_outcome env L w L' w'"
proof -
  have e: "at_end w L r" using inv pc by (simp add: rq_inv_def)
  obtain b where b: "load_rdb (rq_heap w) r = Some b" "rq_heap w (hd L) = Some b" "bundle_ok env b"
    using at_end_load [OF inv e] by blast
  show ?thesis
  proof (cases "rdb_read b = 1")
    case True
    have "quiet w L \<Longrightarrow> undelivered (rq_heap w) L = []"
      using True b e by (cases L) (auto simp: quiet_def pc unread_def undelivered_Cons at_end_def)
    then have "deliver_outcome env L w L (return_code w 1)"
      by (intro outcome_code [OF inv]) (simp_all add: pc)
    then show ?thesis using b True by (auto simp: deliver_rawdata_def free_and_cherrypick_def pc)
  next
    case False
    then have "deliver_outcome env L w L (w\<lparr>rq_cpc := C_type r\<rparr>)"
      using e b by (intro outcome_cpc [OF inv]) (auto simp: pc rank_of_def unread_def bundle_ok_def)
    then show ?thesis using b False by (auto simp: deliver_rawdata_def free_and_cherrypick_def pc)
  qed
qed

lemma deliver_step_type:
  assumes inv: "rq_inv env L w" and pc: "rq_cpc w = C_type r"
  shows "\<exists>w' L'. deliver_rawdata env w = Some w' \<and> deliver_outcome env L w L' w'"
proof -
  have e: "at_end w L r" "unread (rq_heap w) (hd L)" using inv pc by (auto simp: rq_inv_def)
  obtain b where b: "load_rdb (rq_heap w) r = Some b" "bundle_ok env b"
    using at_end_load [OF inv e(1)] by blast
  have "deliver_outcome env L w L (w\<lparr>rq_cpc := C_copy r\<rparr>)"
    using e by (intro outcome_cpc [OF inv]) (auto simp: pc rank_of_def)
  then show ?thesis using b by (auto simp: deliver_rawdata_def pc bundle_ok_def)
qed

lemma deliver_step_copy:
  assumes inv: "rq_inv env L w" and pc: "rq_cpc w = C_copy r"
  shows "\<exists>w' L'. deliver_rawdata env w = Some w' \<and> deliver_outcome env L w L' w'"
proof -
  obtain w' d x xs where w': "deliver_rawdata env w = Some w'" "rq_inv env L w'" "rq_out w' = rq_out w @ [Inr d]"
    "rq_cpc w' = C_idle" "rq_captured w' = rq_captured w" "undelivered (rq_heap w) L = x # xs"
    "undelivered (rq_heap w') L = xs" "deliver_bundle env x = Some d"
    using copy_inv [OF inv pc] by blast
  moreover have "rq_ppc w' = rq_ppc w"
    using w'(1) by (auto simp: deliver_rawdata_def pc store_rdb_def split: option.splits)
  ultimately have "deliver_outcome env L w L w'"
    by (auto simp: deliver_outcome_def gives_data_def blocked_def pc)
  then show ?thesis using w'(1) by blast
qed

lemmas deliver_step_cases =
  deliver_step_idle deliver_step_while deliver_step_read deliver_step_next deliver_step_lock
  deliver_step_free deliver_step_unlock deliver_step_last deliver_step_type deliver_step_copy

lemma deliver_step:
  "rq_inv env L w \<Longrightarrow> \<exists>w' L'. deliver_rawdata env w = Some w' \<and> deliver_outcome env L w L' w'"
  by (cases "rq_cpc w") (blast intro: deliver_step_cases)+

section \<open>Runs\<close>

abbreviation BPF_PACKET_SIZE :: nat where "BPF_PACKET_SIZE \<equiv> 236"

text \<open>
  What libpcap promises of a frame captured with the snapshot length \<^verbatim>\<open>BPF_PACKET_SIZE\<close>, and that
  the data is of the kind the mode captures.
\<close>

fun capture_ok :: "deliver_env \<Rightarrow> action \<Rightarrow> bool" where
  "capture_ok env (Frame a fr) \<longleftrightarrow>
     env_want env = RD_TYPE_NTP \<and> unat (ph_caplen (fr_hdr fr)) \<le> BPF_PACKET_SIZE
     \<and> length (fr_data fr) = unat (ph_caplen (fr_hdr fr))"
| "capture_ok env (Spy a s) \<longleftrightarrow> env_want env = RD_TYPE_SPY"
| "capture_ok env Insert \<longleftrightarrow> True"
| "capture_ok env Deliver \<longleftrightarrow> True"

lemma extract_keeps_header: "snd (snd (extract_vcount_stamp mmap kv fr v)) = fr_hdr fr"
  by (simp add: extract_vcount_stamp_def Let_def split: option.split)

lemma fill_pcap_fresh:
  assumes "capture_ok env (Frame a fr)"
  shows "fresh_bundle env (fill_rawdata_pcap mmap kv fr)"
proof -
  obtain e v where "extract_vcount_stamp mmap kv fr 0 = (e, v, fr_hdr fr)"
    using extract_keeps_header [of mmap kv fr 0] by (cases "extract_vcount_stamp mmap kv fr 0") auto
  then show ?thesis
    using assms
    by (simp add: fill_rawdata_pcap_def fresh_bundle_def bundle_ok_def deliver_bundle_def deliver_pkt_def Let_def)
qed

lemma fill_spy_fresh: "capture_ok env (Spy a s) \<Longrightarrow> fresh_bundle env (fill_rawdata_spy s)"
  by (simp add: fill_rawdata_spy_def fresh_bundle_def bundle_ok_def deliver_bundle_def)

lemma rq_step_inv:
  assumes "rq_inv env L w" "capture_ok env act"
  shows "\<exists>w' L'. rq_step env act w = Some w' \<and> rq_inv env L' w'"
proof (cases act)
  case (Frame a fr)
  then show ?thesis using new_rdb_inv [OF assms(1) fill_pcap_fresh] assms(2) by fastforce
next
  case (Spy a s)
  then show ?thesis using new_rdb_inv [OF assms(1) fill_spy_fresh] assms(2) by fastforce
next
  case Insert
  then show ?thesis using insert_rdb_inv [OF assms(1)] by auto
next
  case Deliver
  then show ?thesis using deliver_step [OF assms(1)] by (auto simp: deliver_outcome_def)
qed

lemma rq_run_inv:
  "rq_inv env L w \<Longrightarrow> list_all (capture_ok env) acts \<Longrightarrow> \<exists>w' L'. rq_run env acts w = Some w' \<and> rq_inv env L' w'"
proof (induction acts arbitrary: L w)
  case Nil
  then show ?case by auto
next
  case (Cons act acts)
  have "capture_ok env act" "list_all (capture_ok env) acts" using Cons.prems(2) by auto
  then obtain w' L' where "rq_step env act w = Some w'" "rq_inv env L' w'"
    using rq_step_inv [OF Cons.prems(1)] by blast
  then show ?case using Cons.IH \<open>list_all (capture_ok env) acts\<close> by simp
qed

lemma rq_run_append: "rq_run env (xs @ ys) w = Option.bind (rq_run env xs w) (rq_run env ys)"
  by (induction xs arbitrary: w) (auto split: bind_split)

text \<open>Producer steps do not disturb the progress of a call.\<close>

lemma insert_keeps_rank:
  assumes inv: "rq_inv env L w" and step: "insert_rdb_in_list w = Some w'"
  shows "rq_out w' = rq_out w \<and> rank_of (case rq_ppc w of P_start a \<Rightarrow> L @ [a] | _ \<Rightarrow> L) w' = rank_of L w"
proof (cases "rq_ppc w")
  case (P_link a)
  have "unread (rq_heap w') c = unread (rq_heap w) c" for c
    using step P_link
    by (auto simp: insert_rdb_in_list_def store_rdb_def unread_def split: if_splits option.splits)
  then show ?thesis
    using step P_link by (auto simp: insert_rdb_in_list_def rank_of_def split: if_splits)
next
  case (P_start a)
  then have "L = [] \<Longrightarrow> rq_cpc w = C_idle"
    using inv by (cases "rq_cpc w") (auto simp: rq_inv_def at_end_def)
  then show ?thesis
    using step P_start by (cases L) (auto simp: insert_rdb_in_list_def rank_of_def)
qed (use step in \<open>auto simp: insert_rdb_in_list_def rank_of_def split: if_splits\<close>)

lemma new_keeps_rank:
  assumes inv: "rq_inv env L w" and step: "new_rdb a b w = Some w'"
  shows "rq_out w' = rq_out w \<and> rank_of L w' = rank_of L w"
proof (cases "L = []")
  case True
  then have "rq_cpc w = C_idle" using inv by (cases "rq_cpc w") (auto simp: rq_inv_def at_end_def)
  then show ?thesis using step by (auto simp: new_rdb_def rank_of_def split: if_splits)
next
  case False
  then have "rq_heap w a = None \<Longrightarrow> hd L \<noteq> a" using inv by (auto simp: rq_inv_def heap_ok_def)
  then show ?thesis using step by (auto simp: new_rdb_def rank_of_def split: if_splits)
qed

text \<open>The delivery steps of a schedule that are not spent waiting for the mutex.\<close>

fun effective :: "deliver_env \<Rightarrow> action list \<Rightarrow> raw_queue \<Rightarrow> nat" where
  "effective env [] w = 0"
| "effective env (act # acts) w =
     (if act = Deliver \<and> \<not> blocked w then 1 else 0)
     + (case rq_step env act w of None \<Rightarrow> 0 | Some w' \<Rightarrow> effective env acts w')"

lemma rank_pos: "0 < rank_of L w" "rank_of L w \<le> 12"
  by (cases "rq_cpc w"; simp add: rank_of_def)+

lemma rq_out_grows:
  assumes "rq_inv env L w" "list_all (capture_ok env) acts" "rq_run env acts w = Some w'"
  shows "length (rq_out w) \<le> length (rq_out w')"
  using assms
proof (induction acts arbitrary: L w)
  case Nil
  then show ?case by simp
next
  case (Cons act acts)
  have c: "capture_ok env act" "list_all (capture_ok env) acts" using Cons.prems(2) by auto
  obtain v M where v: "rq_step env act w = Some v" "rq_inv env M v"
    using rq_step_inv [OF Cons.prems(1) c(1)] by blast
  have "length (rq_out w) \<le> length (rq_out v)"
  proof (cases act)
    case Deliver
    then show ?thesis
      using deliver_step [OF Cons.prems(1)] v(1)
      by (auto simp: deliver_outcome_def goes_on_def gives_code_def gives_data_def)
  qed (use v insert_keeps_rank [OF Cons.prems(1)] new_keeps_rank [OF Cons.prems(1)] in auto)
  moreover have "length (rq_out v) \<le> length (rq_out w')"
    using Cons.IH [OF v(2) c(2)] Cons.prems(3) v(1) by simp
  ultimately show ?case by simp
qed

lemma step_progress:
  assumes "rq_inv env L w" "capture_ok env act"
  obtains w' L' where "rq_step env act w = Some w'" "rq_inv env L' w'"
    "length (rq_out w) < length (rq_out w')
      \<or> rq_out w' = rq_out w \<and> rank_of L' w' + (if act = Deliver \<and> \<not> blocked w then 1 else 0) \<le> rank_of L w"
proof (cases act)
  case (Frame a fr)
  then obtain w' where "new_rdb a (fill_rawdata_pcap (env_mmap env) (env_kernel_version env) fr) w = Some w'"
    "rq_inv env L w'"
    using new_rdb_inv [OF assms(1) fill_pcap_fresh] assms(2) by blast
  then show ?thesis using that Frame new_keeps_rank [OF assms(1)] by simp
next
  case (Spy a s)
  then obtain w' where "new_rdb a (fill_rawdata_spy s) w = Some w'" "rq_inv env L w'"
    using new_rdb_inv [OF assms(1) fill_spy_fresh] assms(2) by blast
  then show ?thesis using that Spy new_keeps_rank [OF assms(1)] by simp
next
  case Insert
  then show ?thesis using that insert_rdb_inv [OF assms(1)] insert_keeps_rank [OF assms(1)] by fastforce
next
  case Deliver
  then obtain w' L' where "rq_step env act w = Some w'" "deliver_outcome env L w L' w'"
    using deliver_step [OF assms(1)] by auto
  then show ?thesis using that Deliver
    by (auto simp: deliver_outcome_def goes_on_def gives_code_def gives_data_def)
qed

lemma effective_bound:
  "rq_inv env L w \<Longrightarrow> list_all (capture_ok env) acts \<Longrightarrow> rq_run env acts w = Some w'
    \<Longrightarrow> length (rq_out w) < length (rq_out w') \<or> effective env acts w < rank_of L w"
proof (induction acts arbitrary: L w)
  case Nil
  then show ?case using rank_pos by simp
next
  case (Cons act acts)
  have c: "capture_ok env act" "list_all (capture_ok env) acts" using Cons.prems(2) by auto
  obtain v M where v: "rq_step env act w = Some v" "rq_inv env M v"
    "length (rq_out w) < length (rq_out v)
      \<or> rq_out v = rq_out w \<and> rank_of M v + (if act = Deliver \<and> \<not> blocked w then 1 else 0) \<le> rank_of L w"
    using step_progress [OF Cons.prems(1) c(1)] .
  have run: "rq_run env acts v = Some w'" using Cons.prems(3) v(1) by simp
  have "length (rq_out v) \<le> length (rq_out w')" by (rule rq_out_grows [OF v(2) c(2) run])
  then show ?case using v Cons.IH [OF v(2) c(2) run] by auto
qed

lemma quiet_delivers:
  assumes "rq_inv env L w" "quiet w L" "undelivered (rq_heap w) L = x # xs"
  shows "\<exists>n w' d. n \<le> rank_of L w \<and> rq_run env (replicate n Deliver) w = Some w'
    \<and> rq_out w' = rq_out w @ [Inr d] \<and> deliver_bundle env x = Some d \<and> rq_cpc w' = C_idle"
  using assms
proof (induction "rank_of L w" arbitrary: L w rule: less_induct)
  case less
  obtain v M where v: "deliver_rawdata env w = Some v" "deliver_outcome env L w M v"
    using deliver_step [OF less.prems(1)] by blast
  have "\<not> blocked w" "\<not> gives_code L w M v"
    using less.prems by (auto simp: blocked_def quiet_def gives_code_def)
  then consider "goes_on L w M v" | "gives_data env L w M v" using v(2) by (auto simp: deliver_outcome_def)
  then show ?case
  proof cases
    case 1
    then have "rank_of M v < rank_of L w" "rq_inv env M v" "quiet v M" "undelivered (rq_heap v) M = x # xs"
      "rq_out v = rq_out w"
      using less.prems v(2) by (auto simp: goes_on_def deliver_outcome_def)
    then obtain n w' d where "n \<le> rank_of M v" "rq_run env (replicate n Deliver) v = Some w'"
      "rq_out w' = rq_out w @ [Inr d]" "deliver_bundle env x = Some d" "rq_cpc w' = C_idle"
      using less.hyps [of M v] by auto
    then show ?thesis
      using v(1) \<open>rank_of M v < rank_of L w\<close> by (intro exI [of _ "Suc n"] exI [of _ w'] exI [of _ d]) simp
  next
    case 2
    then show ?thesis
      using v(1) less.prems(3) rank_pos(1) [of L w]
      by (intro exI [of _ 1] exI [of _ v]) (auto simp: gives_data_def Suc_le_eq)
  qed
qed

text \<open>The data offered by a schedule, in order. A callback cannot run while another one is under way.\<close>

fun offered :: "deliver_env \<Rightarrow> action list \<Rightarrow> rd_t list" where
  "offered env [] = []"
| "offered env (Frame a fr # acts) =
     rdb_rd (fill_rawdata_pcap (env_mmap env) (env_kernel_version env) fr) # offered env acts"
| "offered env (Spy a s # acts) = rdb_rd (fill_rawdata_spy s) # offered env acts"
| "offered env (_ # acts) = offered env acts"

definition inserting :: "raw_queue \<Rightarrow> rd_t list" where
  "inserting w = (case inflight (rq_ppc w) of None \<Rightarrow> [] | Some a \<Rightarrow> [rdb_rd (the (rq_heap w a))])"

lemma inserting_new:
  assumes "new_rdb a b w = Some w'"
  shows "subseq (rq_captured w' @ inserting w') (rq_captured w @ inserting w @ [rdb_rd b])"
  using assms by (auto simp: new_rdb_def inserting_def subseq_append' split: if_splits)

lemma inserting_insert:
  assumes inv: "rq_inv env L w" and step: "insert_rdb_in_list w = Some w'"
  shows "rq_captured w' @ inserting w' = rq_captured w @ inserting w"
proof (cases "rq_ppc w")
  case (P_link a)
  have "last_of L \<noteq> Some a"
    using inv P_link by (cases "L = []") (auto simp: rq_inv_def heap_ok_def last_of_def)
  then have "rq_heap w' a = rq_heap w a"
    using step inv P_link
    by (auto simp: insert_rdb_in_list_def store_rdb_def rq_inv_def ends_ok_def split: if_splits option.splits)
  then show ?thesis
    using step P_link by (auto simp: insert_rdb_in_list_def inserting_def split: if_splits)
qed (use step in \<open>auto simp: insert_rdb_in_list_def inserting_def load_rdb_def split: if_splits\<close>)

lemma deliver_keeps_inflight:
  assumes inv: "rq_inv env L w" and step: "deliver_rawdata env w = Some w'" and a: "inflight (rq_ppc w) = Some a"
  shows "rq_heap w' a = rq_heap w a"
proof -
  have "a \<notin> set L" using inv a by (simp add: rq_inv_def heap_ok_def)
  then have "at_end w L (Some a) = False" by (cases L) (auto simp: at_end_def)
  then show ?thesis
    using step inv
    by (cases "rq_cpc w")
      (auto simp: deliver_rawdata_def free_and_cherrypick_def return_code_def store_rdb_def rq_inv_def
        split: if_splits option.splits)
qed

lemma inserting_deliver:
  assumes "rq_inv env L w" "deliver_rawdata env w = Some w'"
  shows "rq_captured w' @ inserting w' = rq_captured w @ inserting w"
  using deliver_step [OF assms(1)] assms(2) deliver_keeps_inflight [OF assms]
  by (auto simp: deliver_outcome_def inserting_def split: option.split)

lemma inserting_step:
  assumes "rq_inv env L w" "rq_step env act w = Some w'"
  shows "subseq (rq_captured w' @ inserting w') (rq_captured w @ inserting w @ offered env [act])"
proof (cases act)
  case Insert
  then show ?thesis using inserting_insert [OF assms(1)] assms(2) by simp
next
  case Deliver
  then show ?thesis using inserting_deliver [OF assms(1)] assms(2) by simp
qed (use assms(2) inserting_new in simp_all)

lemma offered_Cons: "offered env (act # acts) = offered env [act] @ offered env acts"
  by (cases act) simp_all

lemma captured_subseq:
  "rq_inv env L w \<Longrightarrow> list_all (capture_ok env) acts \<Longrightarrow> rq_run env acts w = Some w'
    \<Longrightarrow> subseq (rq_captured w' @ inserting w') (rq_captured w @ inserting w @ offered env acts)"
proof (induction acts arbitrary: L w)
  case Nil
  then show ?case by simp
next
  case (Cons act acts)
  obtain v M where v: "rq_step env act w = Some v" "rq_inv env M v"
    using rq_step_inv [OF Cons.prems(1), of act] Cons.prems(2) by auto
  have "subseq (rq_captured w' @ inserting w') ((rq_captured v @ inserting v) @ offered env acts)"
    using Cons.IH [OF v(2)] Cons.prems(2,3) v(1) by simp
  also have "subseq \<dots> ((rq_captured w @ inserting w @ offered env [act]) @ offered env acts)"
    by (rule list_emb_append_mono [OF inserting_step [OF Cons.prems(1) v(1)] subseq_order.order_refl])
  finally show ?case by (simp add: offered_Cons [of env act acts])
qed

lemma heap_size:
  assumes "rq_inv env L w"
  shows "card (dom (rq_heap w)) \<le> length (undelivered (rq_heap w) L) + 2"
proof -
  have ok: "heap_ok env (rq_heap w) L (rq_ppc w)" using assms by (simp add: rq_inv_def)
  have "dom (rq_heap w) = set L \<union> set_option (inflight (rq_ppc w))"
    using ok by (auto simp: heap_ok_def dom_def)
  moreover have "card (set_option (inflight (rq_ppc w))) \<le> 1"
    by (cases "inflight (rq_ppc w)") simp_all
  moreover have "card (set L \<union> set_option (inflight (rq_ppc w))) \<le> card (set L) + card (set_option (inflight (rq_ppc w)))"
    by (rule card_Un_le)
  ultimately have "card (dom (rq_heap w)) \<le> length L + 1"
    using card_length [of L] by simp
  moreover have "length L \<le> Suc (length (undelivered (rq_heap w) L))"
    using ok by (cases L) (auto simp: heap_ok_def undelivered_def filter_id_conv)
  ultimately show ?thesis by simp
qed

lemma reached_inv:
  assumes "list_all (capture_ok env) acts" "rq_run env acts rq_empty = Some w"
  obtains L where "rq_inv env L w"
  using rq_run_inv [OF rq_inv_empty assms(1)] assms(2) by auto

lemma inv_counts:
  assumes "rq_inv env L w"
  shows "length (got (rq_out w)) + length (undelivered (rq_heap w) L) = length (rq_captured w)"
    and "prefix (map Some (got (rq_out w))) (map (deliver_bundle env) (rq_captured w))"
proof -
  have eq: "map Some (got (rq_out w)) @ map (deliver_bundle env) (undelivered (rq_heap w) L)
      = map (deliver_bundle env) (rq_captured w)"
    using assms by (simp add: rq_inv_def)
  show "length (got (rq_out w)) + length (undelivered (rq_heap w) L) = length (rq_captured w)"
    using arg_cong [OF eq, of length] by simp
  show "prefix (map Some (got (rq_out w))) (map (deliver_bundle env) (rq_captured w))"
    by (rule prefixI [OF eq [symmetric]])
qed

text \<open>
  C6: In every interleaving of the capture thread with the processing thread no freed or null
  bundle is accessed and no copy leaves its buffer, the calls deliver the captured data in
  order, each once and unchanged, what is captured is a subsequence of what libpcap offered, and
  at most two bundles are allocated beyond the undelivered ones.
\<close>

theorem raw_queue_fifo:
  assumes "list_all (capture_ok env) acts"
  shows "\<exists>w. rq_run env acts rq_empty = Some w
    \<and> prefix (map Some (got (rq_out w))) (map (deliver_bundle env) (rq_captured w))
    \<and> subseq (rq_captured w) (offered env acts)
    \<and> card (dom (rq_heap w)) + length (got (rq_out w)) \<le> length (rq_captured w) + 2"
proof -
  obtain w L where w: "rq_run env acts rq_empty = Some w" "rq_inv env L w"
    using rq_run_inv [OF rq_inv_empty assms] by blast
  have "subseq (rq_captured w @ inserting w) (offered env acts)"
    using captured_subseq [OF rq_inv_empty assms w(1)] by (simp add: rq_empty_def inserting_def)
  moreover have "subseq (rq_captured w) (rq_captured w @ inserting w)"
    by (simp add: prefix_imp_subseq)
  ultimately have "subseq (rq_captured w) (offered env acts)"
    using subseq_order.trans by blast
  then show ?thesis
    using w(1) inv_counts [OF w(2)] heap_size [OF w(2)] by (intro exI [of _ w]) simp
qed

lemma replicate_numeral: "replicate (numeral k) x = x # replicate (pred_numeral k) x"
  by (simp add: numeral_eq_Suc)

definition demo_frame :: "uint8 \<Rightarrow> captured_frame" where
  "demo_frame x =
     \<lparr>fr_hdr = \<lparr>ph_ts_sec = 7, ph_ts_usec = 0, ph_caplen = 2, ph_len = 90\<rparr>, fr_before = 1000,
      fr_ioctl = None, fr_data = [x, 5]\<rparr>"

definition demo_env :: deliver_env where
  "demo_env = \<lparr>env_mmap = True, env_kernel_version = 2, env_want = RD_TYPE_NTP, env_dlt = DLT_EN10MB,
     env_old = (\<lambda>_. 0), env_ss_if = Sin 0\<rparr>"

text \<open>Two frames, the second inserted while the first is being delivered; then three more calls.\<close>

definition demo_schedule :: "action list" where
  "demo_schedule =
     Frame 40 (demo_frame 1) # replicate 5 Insert @ [Deliver, Deliver, Frame 41 (demo_frame 2), Insert, Insert,
       Deliver, Insert, Deliver, Insert, Deliver, Insert] @ replicate 14 Deliver"

lemma demo_schedule_ok: "list_all (capture_ok demo_env) demo_schedule"
  by (simp add: demo_schedule_def demo_env_def demo_frame_def replicate_numeral)

theorem raw_queue_fifo_witness:
  "\<exists>w. rq_run demo_env demo_schedule rq_empty = Some w
    \<and> prefix (map Some (got (rq_out w))) (map (deliver_bundle demo_env) (rq_captured w))
    \<and> subseq (rq_captured w) (offered demo_env demo_schedule)
    \<and> card (dom (rq_heap w)) + length (got (rq_out w)) \<le> length (rq_captured w) + 2"
  by (rule raw_queue_fifo [OF demo_schedule_ok])

text \<open>
  C34: A delivery call returns after at most twelve of its own steps in which it does not wait for
  the mutex, whatever the capture thread does in between: the scan removes at most one bundle.
\<close>

theorem raw_call_bounded:
  assumes "list_all (capture_ok env) acts" "rq_run env acts rq_empty = Some w"
    and "list_all (capture_ok env) later" "12 \<le> effective env later w"
  shows "\<exists>w'. rq_run env later w = Some w' \<and> length (rq_out w) < length (rq_out w')"
proof -
  obtain L where L: "rq_inv env L w" using reached_inv assms(1,2) by blast
  obtain w' where w': "rq_run env later w = Some w'" using rq_run_inv [OF L assms(3)] by blast
  then show ?thesis
    using effective_bound [OF L assms(3) w'] rank_pos(2) [of L w] assms(4) by auto
qed

text \<open>The queue after one frame is inserted.\<close>

definition demo_one :: raw_queue where
  "demo_one =
     \<lparr>rq_heap = [40 \<mapsto> fill_rawdata_pcap True 2 (demo_frame 1)], rdb_start = Some 40, rdb_end = Some 40,
      rdb_mutex = None, rq_ppc = P_idle, rq_cpc = C_idle,
      rq_captured = [rdb_rd (fill_rawdata_pcap True 2 (demo_frame 1))], rq_out = []\<rparr>"

lemma demo_one_run: "rq_run demo_env (Frame 40 (demo_frame 1) # replicate 5 Insert) rq_empty = Some demo_one"
  by (simp add: demo_one_def rq_empty_def demo_env_def new_rdb_def insert_rdb_in_list_def load_rdb_def
      replicate_numeral)

lemma demo_one_ok: "list_all (capture_ok demo_env) (Frame 40 (demo_frame 1) # replicate 5 Insert)"
  by (simp add: demo_env_def demo_frame_def replicate_numeral)

theorem raw_call_bounded_witness:
  "\<exists>w'. rq_run demo_env (replicate 12 Deliver) demo_one = Some w' \<and> length (rq_out demo_one) < length (rq_out w')"
proof (rule raw_call_bounded [OF demo_one_ok demo_one_run])
  show "12 \<le> effective demo_env (replicate 12 Deliver) demo_one"
    by (simp add: replicate_numeral demo_one_def deliver_rawdata_def free_and_cherrypick_def return_code_def
        blocked_def load_rdb_def fill_rawdata_pcap_def extract_vcount_stamp_def demo_frame_def demo_env_def
        deliver_bundle_def deliver_pkt_def store_rdb_def)
qed (simp add: replicate_numeral)

text \<open>
  A call that starts when captured data is undelivered, and is not disturbed by an insertion,
  returns the oldest undelivered data within twelve steps.
\<close>

lemma raw_oldest_delivered:
  assumes "list_all (capture_ok env) acts" "rq_run env acts rq_empty = Some w"
    and "rq_cpc w = C_idle" "rdb_mutex w \<noteq> Some Capture"
    and "length (got (rq_out w)) < length (rq_captured w)"
  shows "\<exists>n w' d. n \<le> 12 \<and> rq_run env (replicate n Deliver) w = Some w' \<and> rq_out w' = rq_out w @ [Inr d]
    \<and> deliver_bundle env (rq_captured w ! length (got (rq_out w))) = Some d \<and> rq_cpc w' = C_idle"
proof -
  obtain L where L: "rq_inv env L w" using reached_inv assms(1,2) by blast
  obtain x xs where x: "undelivered (rq_heap w) L = x # xs"
    using inv_counts(1) [OF L] assms(5) by (cases "undelivered (rq_heap w) L") auto
  have eq: "map Some (got (rq_out w)) @ deliver_bundle env x # map (deliver_bundle env) xs
      = map (deliver_bundle env) (rq_captured w)"
    using L x by (simp add: rq_inv_def)
  have "deliver_bundle env (rq_captured w ! length (got (rq_out w))) = deliver_bundle env x"
    using arg_cong [OF eq, of "\<lambda>l. l ! length (got (rq_out w))"] assms(5) by (simp add: nth_append)
  moreover have "quiet w L" using assms(3,4) by (simp add: quiet_def)
  ultimately show ?thesis
    using quiet_delivers [OF L _ x] rank_pos(2) [of L w] by (metis le_trans)
qed

text \<open>
  A bundle of a type the mode does not deliver is rejected without being marked read, so every
  later call finds it again: nothing behind it is ever delivered.
\<close>

lemma wrong_type_stays:
  assumes "load_rdb (rq_heap w) r = Some b" "rdb_type b \<noteq> env_want env" "rq_cpc w = C_type r"
  shows "deliver_rawdata env w = Some (return_code w (wrong_type_code (env_want env)))"
    and "rq_heap (return_code w e) = rq_heap w" "rdb_end (return_code w e) = rdb_end w"
  using assms by (simp_all add: deliver_rawdata_def return_code_def)
end
