(* ===== verification/Live_Input.thy ===== *)
theory Live_Input
  imports Raw_Data
begin

text \<open>
  The packet sources behind \<open>get_network_stamp\<close>: live capture (\<^verbatim>\<open>radclock/stampinput-livepcap.c\<close>)
  and the replay of a trace file (\<^verbatim>\<open>radclock/stampinput-tracefile.c\<close>).

  A live packet comes from the raw data queue; its link layer header is replaced by a Linux
  SLL header and the raw timestamp is stored in the address field of that header. A copy that
  leaves its buffers is a fault, an assertion that fails aborts the daemon. The files of libpcap
  are not modelled: what the code hands to \<^verbatim>\<open>pcap_dump\<close> is part of its result, \<^verbatim>\<open>pcap_next_ex\<close> is
  a parameter, and \<open>savefile_law\<close> is what the two promise to each other.
\<close>

section \<open>The link layer header\<close>

abbreviation DLT_NULL :: uint32 where "DLT_NULL \<equiv> 0"
abbreviation DLT_IEEE802_11 :: uint32 where "DLT_IEEE802_11 \<equiv> 105"
abbreviation AF_INET :: uint32 where "AF_INET \<equiv> 2"
abbreviation AF_INET6 :: uint32 where "AF_INET6 \<equiv> 10"
abbreviation ETHERTYPE_IP :: nat where "ETHERTYPE_IP \<equiv> 0x0800"
abbreviation ETHERTYPE_IPV6 :: nat where "ETHERTYPE_IPV6 \<equiv> 0x86dd"
abbreviation ETHERTYPE_VLAN :: nat where "ETHERTYPE_VLAN \<equiv> 0x8100"
abbreviation ETHERTYPE_1588 :: nat where "ETHERTYPE_1588 \<equiv> 0x88F7"
abbreviation LINUX_SLL_OTHERHOST :: uint8 where "LINUX_SLL_OTHERHOST \<equiv> 3"
abbreviation ARPHRD_ETHER :: uint8 where "ARPHRD_ETHER \<equiv> 1"

text \<open>A 16 bit field as the little endian host loads it.\<close>

definition load16 :: "(nat \<Rightarrow> uint8) \<Rightarrow> nat \<Rightarrow> nat" where
  "load16 b off = unat (b off) + 256 * unat (b (off + 1))"

text \<open>The switch on the link layer: the ethertype and the length of the header to remove, or an error.\<close>

datatype link_layer = Already_sll | Unsupported | Link nat nat

definition ether_layer :: "(nat \<Rightarrow> uint8) \<Rightarrow> link_layer" where
  "ether_layer b =
     (let ethertype = load16n b 12
      in if ethertype < 0x0600 then Unsupported
         else let (ethertype, etherlen) = (if ethertype = ETHERTYPE_VLAN then (load16 b 16, 18)
                                           else (ethertype, SIZEOF_ether_header))
              in if ethertype \<in> {ETHERTYPE_IP, ETHERTYPE_IPV6, ETHERTYPE_1588} then Link ethertype etherlen
                 else Unsupported)"

definition link_layer_of :: "uint32 \<Rightarrow> (nat \<Rightarrow> uint8) \<Rightarrow> link_layer" where
  "link_layer_of dlt b =
     (if dlt = DLT_NULL then
        if load32 b 0 = AF_INET then Link ETHERTYPE_IP 4
        else if load32 b 0 = AF_INET6 then Link ETHERTYPE_IPV6 4
        else Unsupported
      else if dlt = DLT_LINUX_SLL then Already_sll
      else if dlt = DLT_IEEE802_11 \<or> dlt = DLT_EN10MB then ether_layer b
      else Unsupported)"

text \<open>
  The bytes of the new frame: \<open>stale\<close> is what \<^verbatim>\<open>malloc\<close> left in the new buffer, \<open>n\<close> the number of
  bytes copied from behind the old link layer header.
\<close>

definition sll_bytes :: "(nat \<Rightarrow> uint8) \<Rightarrow> nat \<Rightarrow> nat \<Rightarrow> nat \<Rightarrow> (nat \<Rightarrow> uint8) \<Rightarrow> nat \<Rightarrow> uint8" where
  "sll_bytes stale ethertype etherlen n b k =
     (if k = 0 then 0 else if k = 1 then LINUX_SLL_OTHERHOST
      else if k = 2 then 0 else if k = 3 then ARPHRD_ETHER
      else if k = 14 then of_nat (ethertype div 256) else if k = 15 then of_nat (ethertype mod 256)
      else if SIZEOF_sll_header \<le> k \<and> k < SIZEOF_sll_header + n then b (etherlen + (k - SIZEOF_sll_header))
      else stale k)"

definition insert_sll_header :: "(nat \<Rightarrow> uint8) \<Rightarrow> radpcap_packet \<Rightarrow> (int \<times> radpcap_packet) option" where
  "insert_sll_header stale packet =
     (case pk_payload packet of
        None \<Rightarrow> None
      | Some b \<Rightarrow>
          (case link_layer_of (pk_type packet) b of
             Already_sll \<Rightarrow> Some (0, packet)
           | Unsupported \<Rightarrow> Some (1, packet)
           | Link ethertype etherlen \<Rightarrow>
               let caplen = unat (pk_caplen packet)
               in if caplen < etherlen
                     \<or> SIZEOF_pcap_pkthdr + SIZEOF_sll_header + (caplen - etherlen) > RADPCAP_PACKET_BUFSIZE
                  then None
                  else Some (0, packet\<lparr>pk_payload := Some (sll_bytes stale ethertype etherlen (caplen - etherlen) b),
                                       pk_type := DLT_LINUX_SLL,
                                       pk_size := pk_size packet + SIZEOF_sll_header - etherlen,
                                       pk_caplen := of_nat (caplen + SIZEOF_sll_header - etherlen)\<rparr>)))"

definition store64 :: "(nat \<Rightarrow> uint8) \<Rightarrow> nat \<Rightarrow> uint64 \<Rightarrow> nat \<Rightarrow> uint8" where
  "store64 b off x k = (if off \<le> k \<and> k < off + 8 then ucast (drop_bit (8 * (k - off)) x) else b k)"

definition set_vcount_in_sll :: "radpcap_packet \<Rightarrow> vcounter_t \<Rightarrow> radpcap_packet" where
  "set_vcount_in_sll packet vcount =
     packet\<lparr>pk_payload := map_option (\<lambda>b. (store64 b 6 (ntohll vcount))(4 := 0, 5 := 8)) (pk_payload packet)\<rparr>"

section \<open>The sources\<close>

text \<open>
  The arguments of \<^verbatim>\<open>pcap_dump\<close> and the results of \<^verbatim>\<open>pcap_next_ex\<close>: the pcap header and the buffer
  that holds the bytes of the packet.
\<close>

record pcap_record =
  pr_caplen :: uint32
  pr_ts_sec :: int
  pr_ts_usec :: int
  pr_payload :: "nat \<Rightarrow> uint8"

definition dump_args :: "radpcap_packet \<Rightarrow> pcap_record" where
  "dump_args packet =
     \<lparr>pr_caplen = pk_caplen packet, pr_ts_sec = pk_ts_sec packet, pr_ts_usec = pk_ts_usec packet,
      pr_payload = the (pk_payload packet)\<rparr>"

datatype live_result = Fault | Abort | No_packet int | Live radpcap_packet "pcap_record option"

definition radclock_ts :: "radclock_data \<Rightarrow> vcounter_t \<Rightarrow> radpcap_packet \<Rightarrow> radpcap_packet" where
  "radclock_ts d vcount packet =
     (let time = read_RADabs_UTC d vcount PLOCAL_ACTIVE
      in packet\<lparr>pk_ts_sec := c_trunc time, pk_ts_usec := c_trunc (10 ^ 6 * (time - of_int (c_trunc time)))\<rparr>)"

definition get_packet_livepcap ::
    "bool \<Rightarrow> bool \<Rightarrow> radclock_data \<Rightarrow> (nat \<Rightarrow> uint8) \<Rightarrow> sockaddr_storage \<Rightarrow> int + delivery \<Rightarrow> live_result" where
  "get_packet_livepcap tsmode_radclock traceoutput d stale ss_if delivered =
     (case delivered of
        Inl err \<Rightarrow> No_packet 1
      | Inr (Spy_delivery _ _ _ _) \<Rightarrow> No_packet 1
      | Inr (Pcap_delivery radpkt vcount) \<Rightarrow>
          (case insert_sll_header stale radpkt of
             None \<Rightarrow> Fault
           | Some (err, radpkt) \<Rightarrow>
               let radpkt = set_vcount_in_sll radpkt vcount
               in if get_vcount radpkt \<noteq> Some vcount then Abort
                  else let radpkt = (if tsmode_radclock then radclock_ts d vcount radpkt else radpkt)
                       in Live (radpkt\<lparr>pk_ss_if := ss_if\<rparr>) (if traceoutput then Some (dump_args radpkt) else None)))"

text \<open>
  The replay; \<open>next\<close> is the code that \<^verbatim>\<open>pcap_next_ex\<close> returns and the packet it points to when
  the code is 1.
\<close>

definition tracefile_ss_if :: sockaddr_storage where
  "tracefile_ss_if = Sin 0xffffffff"

definition get_packet_tracefile :: "uint32 \<Rightarrow> int \<times> pcap_record \<Rightarrow> int + radpcap_packet" where
  "get_packet_tracefile data_link next =
     (case next of (ret, rec) \<Rightarrow>
        if ret \<noteq> 1 then Inl 1
        else Inr \<lparr>pk_caplen = pr_caplen rec, pk_ts_sec = pr_ts_sec rec, pk_ts_usec = pr_ts_usec rec,
                  pk_payload = Some (pr_payload rec),
                  pk_size = unat (pr_caplen rec) + SIZEOF_pcap_pkthdr, pk_type = data_link,
                  pk_ss_if = tracefile_ss_if\<rparr>)"

text \<open>
  The packets the calls deliver one after the other until the first failure; \<open>next_ex\<close> reads a
  packet from the file and leaves the rest of it.
\<close>

fun tracefile_packets ::
    "nat \<Rightarrow> ('f \<Rightarrow> int \<times> pcap_record \<times> 'f) \<Rightarrow> uint32 \<Rightarrow> 'f \<Rightarrow> radpcap_packet list" where
  "tracefile_packets 0 next_ex data_link f = []"
| "tracefile_packets (Suc n) next_ex data_link f =
     (case next_ex f of (ret, rec, rest) \<Rightarrow>
        (case get_packet_tracefile data_link (ret, rec) of
           Inl _ \<Rightarrow> []
         | Inr packet \<Rightarrow> packet # tracefile_packets n next_ex data_link rest))"

text \<open>The stamps of the spy mode need no packet: the delivered bundle holds all four timestamps.\<close>

definition spystamp_get_next :: "stamp_t \<Rightarrow> timeref_stats \<Rightarrow> int + delivery \<Rightarrow> int \<times> stamp_t \<times> timeref_stats" where
  "spystamp_get_next stamp stats delivered =
     (case delivered of
        Inr (Spy_delivery a b e f) \<Rightarrow>
          (0, stamp\<lparr>st_type := STAMP_SPY, BST := \<lparr>Ta = a, Tb = b, Te = e, Tf = f\<rparr>\<rparr>, stats\<lparr>ref_count := ref_count stats + 2\<rparr>)
      | _ \<Rightarrow> (-1, stamp, stats))"

section \<open>The raw timestamp survives\<close>

lemma unat_of_nat_u32: "m < 2 ^ 32 \<Longrightarrow> unat (of_nat m :: uint32) = m"
  by (simp add: unsigned_of_nat take_bit_eq_mod)

lemma unat_stored_byte:
  assumes "k < 4"
  shows "unat (ucast (drop_bit (8 * k) (x :: uint64)) :: uint8) = byte_of k (unat (ucast x :: uint32))"
proof -
  have "take_bit 64 (unat x) = unat x" using unat_less_64 [of x] by (simp add: take_bit_eq_mod)
  then have "unat (ucast (drop_bit (8 * k) x) :: uint8) = take_bit 8 (drop_bit (8 * k) (unat x))"
    by (simp add: unsigned_ucast_eq unsigned_drop_bit_eq)
  also have "\<dots> = take_bit 8 (drop_bit (8 * k) (take_bit 32 (unat x)))"
    using assms by (simp add: drop_bit_take_bit)
  also have "\<dots> = byte_of k (unat (ucast x :: uint32))"
    by (simp add: byte_of_def unsigned_ucast_eq take_bit_eq_mod drop_bit_eq_div power_mult)
  finally show ?thesis .
qed

lemma load32_store64:
  "load32 (store64 b off x) off = ucast x"
  "load32 (store64 b off x) (off + 4) = ucast (drop_bit 32 x)"
proof -
  have k: "k < 4 \<Longrightarrow> unat (ucast (drop_bit (8 * k) y) :: uint8) = byte_of k (unat (ucast (y :: uint64) :: uint32))" for k y
    by (rule unat_stored_byte)
  have "load32 (store64 b off x) off = of_bytes (byte_of 0 (unat (ucast x :: uint32))) (byte_of 1 (unat (ucast x :: uint32)))
      (byte_of 2 (unat (ucast x :: uint32))) (byte_of 3 (unat (ucast x :: uint32)))"
    using k [of 0 x] k [of 1 x] k [of 2 x] k [of 3 x] by (simp add: load32_def store64_def)
  then show "load32 (store64 b off x) off = ucast x" by (simp only: of_bytes_of)
  let ?y = "drop_bit 32 x"
  have "load32 (store64 b off x) (off + 4) = of_bytes (byte_of 0 (unat (ucast ?y :: uint32))) (byte_of 1 (unat (ucast ?y :: uint32)))
      (byte_of 2 (unat (ucast ?y :: uint32))) (byte_of 3 (unat (ucast ?y :: uint32)))"
    using k [of 0 ?y] k [of 1 ?y] k [of 2 ?y] k [of 3 ?y] by (simp add: load32_def store64_def)
  then show "load32 (store64 b off x) (off + 4) = ucast ?y" by (simp only: of_bytes_of)
qed

lemma load64_store64: "load64 (store64 b off x) off = x"
  unfolding load64_def load32_store64
  by (rule bit_word_eqI) (auto simp: bit_simps)

lemma load64_upd: "k < off \<or> off + 8 \<le> k \<Longrightarrow> load64 (b(k := v)) off = load64 b off"
  by (auto simp: load64_def load32_def)

lemma get_vcount_set_vcount:
  assumes "pk_type packet = DLT_LINUX_SLL" "pk_payload packet = Some b"
    "SIZEOF_pcap_pkthdr + SIZEOF_sll_header \<le> pk_size packet"
  shows "get_vcount (set_vcount_in_sll packet v) = Some v"
  using assms
  by (simp add: get_vcount_def get_vcount_from_sll_def set_vcount_in_sll_def load64_upd load64_store64)

lemma get_vcount_cong:
  assumes "pk_type p' = pk_type p" "pk_size p' = pk_size p" "pk_payload p' = pk_payload p"
    "pk_ts_sec p' = pk_ts_sec p" "pk_ts_usec p' = pk_ts_usec p"
  shows "get_vcount p' = get_vcount p"
  using assms by (simp add: get_vcount_def get_vcount_from_sll_def get_vcount_from_etherframe_def)

text \<open>What a supported link layer makes of a delivered packet.\<close>

lemma live_link:
  assumes "pk_payload packet = Some b" "link_layer_of (pk_type packet) b = Link ethertype etherlen"
    and "etherlen \<le> unat (pk_caplen packet)" "unat (pk_caplen packet) \<le> BPF_PACKET_SIZE"
    and "pk_size packet = unat (pk_caplen packet) + SIZEOF_pcap_pkthdr" "etherlen \<le> 18"
  obtains radpkt where
    "get_packet_livepcap False traceoutput d stale ss_if (Inr (Pcap_delivery packet vcount))
       = Live (radpkt\<lparr>pk_ss_if := ss_if\<rparr>) (if traceoutput then Some (dump_args radpkt) else None)"
    "radpkt = packet\<lparr>pk_payload := Some ((store64 (sll_bytes stale ethertype etherlen (unat (pk_caplen packet) - etherlen) b) 6
        (ntohll vcount))(4 := 0, 5 := 8)), pk_type := DLT_LINUX_SLL,
      pk_size := unat (pk_caplen packet) + SIZEOF_pcap_pkthdr + SIZEOF_sll_header - etherlen,
      pk_caplen := of_nat (unat (pk_caplen packet) + SIZEOF_sll_header - etherlen)\<rparr>"
    "get_vcount radpkt = Some vcount"
proof -
  let ?n = "unat (pk_caplen packet) - etherlen"
  let ?sll = "packet\<lparr>pk_payload := Some (sll_bytes stale ethertype etherlen ?n b), pk_type := DLT_LINUX_SLL,
    pk_size := pk_size packet + SIZEOF_sll_header - etherlen,
    pk_caplen := of_nat (unat (pk_caplen packet) + SIZEOF_sll_header - etherlen)\<rparr>"
  let ?r = "set_vcount_in_sll ?sll vcount"
  have ins: "insert_sll_header stale packet = Some (0, ?sll)"
    using assms by (simp add: insert_sll_header_def Let_def)
  have v: "get_vcount ?r = Some vcount"
    by (rule get_vcount_set_vcount) (use assms in simp_all)
  have "get_packet_livepcap False traceoutput d stale ss_if (Inr (Pcap_delivery packet vcount))
      = Live (?r\<lparr>pk_ss_if := ss_if\<rparr>) (if traceoutput then Some (dump_args ?r) else None)"
    using ins v by (simp add: get_packet_livepcap_def Let_def)
  then show ?thesis
    using that [of ?r] v assms(5) by (simp add: set_vcount_in_sll_def)
qed

text \<open>The packet the raw data queue delivers for a frame.\<close>

definition frame_packet :: "deliver_env \<Rightarrow> captured_frame \<Rightarrow> radpcap_packet" where
  "frame_packet env fr =
     (let caplen = unat (ph_caplen (fr_hdr fr))
      in \<lparr>pk_caplen = ph_caplen (fr_hdr fr), pk_ts_sec = ph_ts_sec (fr_hdr fr), pk_ts_usec = ph_ts_usec (fr_hdr fr),
          pk_payload = Some (\<lambda>i. if i < caplen then fr_data fr ! i else env_old env (SIZEOF_pcap_pkthdr + i)),
          pk_size = caplen + SIZEOF_pcap_pkthdr, pk_type = env_dlt env, pk_ss_if = env_ss_if env\<rparr>)"

lemma deliver_frame:
  assumes "capture_ok env (Frame a fr)" "env_kernel_version env = 2"
  shows "deliver_bundle env (rdb_rd (fill_rawdata_pcap (env_mmap env) (env_kernel_version env) fr))
      = Some (Pcap_delivery (frame_packet env fr) (fr_before fr))"
  using assms
  by (simp add: deliver_bundle_def fill_rawdata_pcap_def extract_vcount_stamp_def deliver_pkt_def frame_packet_def
      Let_def cong: if_cong)

text \<open>
  Every Ethernet frame of IPv4, IPv6 or PTP that the capture thread queued becomes a packet the
  parser accepts as input: no assertion fails, the packet carries the raw timestamp of the frame
  and its protocol in the Linux SLL header, and everything behind the Ethernet header unchanged.
\<close>

lemma live_frame:
  assumes frame: "capture_ok env (Frame a fr)" "SIZEOF_ether_header \<le> unat (ph_caplen (fr_hdr fr))"
    and ether: "load16n (\<lambda>i. fr_data fr ! i) 12 = ethertype" "ethertype \<in> {ETHERTYPE_IP, ETHERTYPE_IPV6, ETHERTYPE_1588}"
    and env: "env_dlt env = DLT_EN10MB" "env_kernel_version env = 2"
  obtains delivered radpkt b
  where "deliver_bundle env (rdb_rd (fill_rawdata_pcap (env_mmap env) (env_kernel_version env) fr)) = Some delivered"
    "get_packet_livepcap False traceoutput d stale ss_if (Inr delivered)
        = Live radpkt (if traceoutput then Some (dump_args radpkt) else None)"
    "get_vcount radpkt = Some (fr_before fr)" "pk_type radpkt = DLT_LINUX_SLL" "pk_payload radpkt = Some b"
    "load16n b 2 = 1" "load16n b 14 = ethertype" "unat (pk_caplen radpkt) = unat (ph_caplen (fr_hdr fr)) + 2"
    "\<forall>i < unat (ph_caplen (fr_hdr fr)) - SIZEOF_ether_header. b (SIZEOF_sll_header + i) = fr_data fr ! (SIZEOF_ether_header + i)"
    "pk_ss_if radpkt = ss_if"
proof -
  let ?cap = "unat (ph_caplen (fr_hdr fr))" and ?p = "frame_packet env fr" and ?h = SIZEOF_ether_header
  obtain b where b: "pk_payload ?p = Some b" "\<forall>i < ?cap. b i = fr_data fr ! i"
    by (simp add: frame_packet_def Let_def)
  have p: "pk_caplen ?p = ph_caplen (fr_hdr fr)" "pk_size ?p = ?cap + SIZEOF_pcap_pkthdr" "pk_type ?p = DLT_EN10MB"
    using env(1) by (simp_all add: frame_packet_def Let_def)
  have "load16n b 12 = ethertype" using ether(1) frame(2) b(2) by (simp add: load16n_def)
  then have link: "link_layer_of (pk_type ?p) b = Link ethertype ?h"
    using ether(2) p(3) by (auto simp: link_layer_of_def ether_layer_def Let_def)
  let ?b = "(store64 (sll_bytes stale ethertype ?h (?cap - ?h) b) 6 (ntohll (fr_before fr)))(4 := 0, 5 := 8)"
  obtain radpkt where r: "get_packet_livepcap False traceoutput d stale ss_if (Inr (Pcap_delivery ?p (fr_before fr)))
       = Live (radpkt\<lparr>pk_ss_if := ss_if\<rparr>) (if traceoutput then Some (dump_args radpkt) else None)"
    "radpkt = ?p\<lparr>pk_payload := Some ?b, pk_type := DLT_LINUX_SLL,
      pk_size := ?cap + SIZEOF_pcap_pkthdr + SIZEOF_sll_header - ?h, pk_caplen := of_nat (?cap + SIZEOF_sll_header - ?h)\<rparr>"
    "get_vcount radpkt = Some (fr_before fr)"
    using live_link [OF b(1) link, of traceoutput d stale ss_if "fr_before fr"] frame p by auto
  have pay: "load16n ?b 2 = 1" "load16n ?b 14 = ethertype"
    using ether(2) by (auto simp: load16n_def store64_def sll_bytes_def unsigned_of_nat take_bit_eq_mod)
  have cap: "unat (of_nat (?cap + SIZEOF_sll_header - ?h) :: uint32) = ?cap + 2"
    using frame by (subst unat_of_nat_u32) auto
  have data: "\<forall>i < ?cap - ?h. ?b (SIZEOF_sll_header + i) = fr_data fr ! (?h + i)"
    using frame(2) b(2) by (auto simp: store64_def sll_bytes_def)
  have "dump_args (radpkt\<lparr>pk_ss_if := ss_if\<rparr>) = dump_args radpkt" by (simp add: dump_args_def)
  moreover have "get_vcount (radpkt\<lparr>pk_ss_if := ss_if\<rparr>) = get_vcount radpkt" by (rule get_vcount_cong) simp_all
  ultimately show ?thesis
    using deliver_frame [OF frame(1) env(2)] r(1,3) pay cap data
    by (intro that [of "Pcap_delivery ?p (fr_before fr)" "radpkt\<lparr>pk_ss_if := ss_if\<rparr>" ?b])
       (simp_all add: r(2))
qed

section \<open>Frames that are not supported\<close>

lemma load16n_bytes: "load16n b off = v \<Longrightarrow> unat (b off) = v div 256 \<and> unat (b (off + 1)) = v mod 256"
proof -
  have "unat (b (off + 1)) < 256" using unsigned_less [of "b (off + 1)"] by simp
  then show "load16n b off = v \<Longrightarrow> ?thesis" unfolding load16n_def by auto
qed

lemma vlan_unsupported:
  assumes "load16n b 12 = ETHERTYPE_VLAN" "load16n b 16 \<in> {ETHERTYPE_IP, ETHERTYPE_IPV6, ETHERTYPE_1588}"
  shows "ether_layer b = Unsupported"
proof -
  have "load16 b 16 \<notin> {ETHERTYPE_IP, ETHERTYPE_IPV6, ETHERTYPE_1588}"
    using assms(2) load16n_bytes [of b 16] by (auto simp: load16_def)
  then show ?thesis using assms(1) by (auto simp: ether_layer_def Let_def)
qed

lemma unsupported_aborts:
  assumes "pk_payload packet = Some b" "pk_type packet = DLT_EN10MB" "ether_layer b = Unsupported"
    "SIZEOF_pcap_pkthdr \<le> pk_size packet" "get_vcount_from_etherframe packet \<noteq> Some vcount"
  shows "get_packet_livepcap tsmode traceoutput d stale ss_if (Inr (Pcap_delivery packet vcount)) = Abort"
proof -
  have "insert_sll_header stale packet = Some (1, packet)"
    using assms(1-3) by (simp add: insert_sll_header_def link_layer_of_def)
  moreover have "get_vcount (set_vcount_in_sll packet vcount) \<noteq> Some vcount"
    using assms by (simp add: get_vcount_def set_vcount_in_sll_def get_vcount_from_etherframe_def)
  ultimately show ?thesis by (simp add: get_packet_livepcap_def Let_def)
qed

text \<open>
  A VLAN tagged Ethernet frame is meant to be unwrapped, but the inner type is compared in the
  byte order of the network: the link layer is judged unsupported, the error of
  \<^verbatim>\<open>insert_sll_header\<close> is only logged, and the assertion on the stored raw timestamp aborts the
  daemon (unless the header time happens to encode the same counter value).
\<close>

lemma vlan_frame_aborts:
  assumes "capture_ok env (Frame a fr)" "18 \<le> unat (ph_caplen (fr_hdr fr))"
    and "load16n (\<lambda>i. fr_data fr ! i) 12 = ETHERTYPE_VLAN"
      "load16n (\<lambda>i. fr_data fr ! i) 16 \<in> {ETHERTYPE_IP, ETHERTYPE_IPV6, ETHERTYPE_1588}"
    and "env_dlt env = DLT_EN10MB" "env_kernel_version env = 2"
    and "get_vcount_from_etherframe (frame_packet env fr) \<noteq> Some (fr_before fr)"
  shows "\<exists>delivered. deliver_bundle env (rdb_rd (fill_rawdata_pcap (env_mmap env) (env_kernel_version env) fr)) = Some delivered
    \<and> get_packet_livepcap tsmode traceoutput d stale ss_if (Inr delivered) = Abort"
proof -
  obtain b where b: "pk_payload (frame_packet env fr) = Some b" "\<forall>i < unat (ph_caplen (fr_hdr fr)). b i = fr_data fr ! i"
    by (simp add: frame_packet_def Let_def)
  have "load16n b 12 = ETHERTYPE_VLAN" "load16n b 16 \<in> {ETHERTYPE_IP, ETHERTYPE_IPV6, ETHERTYPE_1588}"
    using assms(2-4) b(2) by (simp_all add: load16n_def)
  then have "ether_layer b = Unsupported" by (rule vlan_unsupported)
  then have "get_packet_livepcap tsmode traceoutput d stale ss_if
      (Inr (Pcap_delivery (frame_packet env fr) (fr_before fr))) = Abort"
    using assms(5,7) b(1) by (intro unsupported_aborts [of _ b]) (simp_all add: frame_packet_def Let_def)
  then show ?thesis using deliver_frame [OF assms(1,6)] by blast
qed

definition vlan_demo :: captured_frame where
  "vlan_demo =
     \<lparr>fr_hdr = \<lparr>ph_ts_sec = 7, ph_ts_usec = 0, ph_caplen = 18, ph_len = 94\<rparr>, fr_before = 1000, fr_ioctl = None,
      fr_data = replicate 12 9 @ [0x81, 0, 0, 5, 8, 0]\<rparr>"

section \<open>Replaying a trace\<close>

lemma load_cong:
  "\<forall>i < n. b' i = b i \<Longrightarrow> off + 1 < n \<Longrightarrow> load16n b' off = load16n b off"
  "\<forall>i < n. b' i = b i \<Longrightarrow> off + 3 < n \<Longrightarrow> load32 b' off = load32 b off"
  "\<forall>i < n. b' i = b i \<Longrightarrow> off + 7 < n \<Longrightarrow> load_fp b' off = load_fp b off"
  by (simp_all add: load16n_def load32_def load_fp_def)

lemma ntp_pkt_at_cong: "\<forall>i < off + 48. b' i = b i \<Longrightarrow> ntp_pkt_at b' off = ntp_pkt_at b off"
  unfolding ntp_pkt_at_def using load_cong [of "off + 48" b' b] by simp

lemma parse_headers_cong:
  assumes "\<forall>i < 56. b' i = b i" "pk_caplen p' = pk_caplen p" "pk_type p' = pk_type p"
  shows "parse_headers p' b' = parse_headers p b"
proof -
  have "ip_hl b' 16 = ip_hl b 16" "check_ipv4 b' 16 r = check_ipv4 b 16 r" "check_ipv6 b' 16 r = check_ipv6 b 16 r" for r
    using assms(1) by (simp_all add: ip_hl_def check_ipv4_def check_ipv6_def)
  moreover have "map (\<lambda>k. b' (16 + 8 + k)) [0..<16] = map (\<lambda>k. b (16 + 8 + k)) [0..<16]"
    "map (\<lambda>k. b' (16 + 24 + k)) [0..<16] = map (\<lambda>k. b (16 + 24 + k)) [0..<16]"
    using assms(1) by (simp_all cong: map_cong)
  ultimately show ?thesis
    using assms load_cong [OF assms(1)] unfolding parse_headers_def by (simp add: Let_def)
qed

lemma ntp_payload_offset:
  assumes "get_valid_ntp_payload p b = Ntp_at off src dst ttl"
  shows "24 \<le> off" "pk_type p = DLT_LINUX_SLL"
  using assms
  by (auto simp: get_valid_ntp_payload_def parse_headers_def Let_def split: headers.splits option.splits if_splits)

text \<open>
  What libpcap documents of its files: the packets dumped into a file are read back in the order
  they were written, each with the header and the captured bytes, and then the end is reported,
  for packets that do not exceed the snapshot length the file was opened with.
\<close>

fun savefile_reads :: "('f \<Rightarrow> int \<times> pcap_record \<times> 'f) \<Rightarrow> 'f \<Rightarrow> pcap_record list \<Rightarrow> bool" where
  "savefile_reads next_ex f [] \<longleftrightarrow> fst (next_ex f) = -2"
| "savefile_reads next_ex f (c # cs) \<longleftrightarrow>
     (case next_ex f of (ret, rec, rest) \<Rightarrow>
        ret = 1 \<and> pr_caplen rec = pr_caplen c \<and> (\<forall>i < unat (pr_caplen c). pr_payload rec i = pr_payload c i)
        \<and> savefile_reads next_ex rest cs)"

definition savefile_law :: "nat \<Rightarrow> 'f \<Rightarrow> (pcap_record \<Rightarrow> 'f \<Rightarrow> 'f) \<Rightarrow> ('f \<Rightarrow> int \<times> pcap_record \<times> 'f) \<Rightarrow> bool" where
  "savefile_law snaplen new_file dump next_ex \<longleftrightarrow>
     (\<forall>cs. list_all (\<lambda>c. unat (pr_caplen c) \<le> snaplen) cs \<longrightarrow> savefile_reads next_ex (fold dump cs new_file) cs)"

text \<open>
  The packets for which a replay is safe: the whole NTP packet is captured and the new header did
  not take it over the snapshot length, the packet is not one the host exchanges with itself
  (those are dropped live), and no address is the placeholder the replay uses for its interface.
\<close>

definition not_own :: "sockaddr_storage \<Rightarrow> sockaddr_storage \<Rightarrow> bool" where
  "not_own ss_if ss \<longleftrightarrow> (compare_sockaddr_storage ss_if ss \<noteq> 0 \<or> is_loopback_sockaddr_storage ss)
     \<and> ss \<noteq> tracefile_ss_if"

definition peer_ok :: "uint8 \<Rightarrow> sockaddr_storage \<Rightarrow> sockaddr_storage \<Rightarrow> sockaddr_storage \<Rightarrow> bool" where
  "peer_ok mode ss_if src dst \<longleftrightarrow>
     (mode = MODE_CLIENT \<longrightarrow> not_own ss_if dst) \<and> (mode = MODE_SERVER \<longrightarrow> not_own ss_if src)"

definition replayable :: "radpcap_packet \<Rightarrow> bool" where
  "replayable p \<longleftrightarrow>
     pk_size p = unat (pk_caplen p) + SIZEOF_pcap_pkthdr \<and> unat (pk_caplen p) \<le> BPF_PACKET_SIZE
     \<and> (case pk_payload p of
          None \<Rightarrow> False
        | Some b \<Rightarrow>
            (case get_valid_ntp_payload p b of
               Ntp_at off src dst ttl \<Rightarrow>
                 off + 48 \<le> unat (pk_caplen p)
                 \<and> peer_ok (PKT_MODE (np_li_vn_mode (ntp_pkt_at b off))) (pk_ss_if p) src dst
             | _ \<Rightarrow> False))"

lemma by_mode_replay:
  assumes "peer_ok (PKT_MODE (np_li_vn_mode ntp)) ss_if src dst"
  shows "update_queue_by_mode ntop q tracefile_ss_if ntp v src dst ttl stats
       = update_queue_by_mode ntop q ss_if ntp v src dst ttl stats"
proof -
  have "ss \<noteq> tracefile_ss_if \<Longrightarrow> compare_sockaddr_storage tracefile_ss_if ss \<noteq> 0" for ss
    by (cases ss) (auto simp: tracefile_ss_if_def)
  then show ?thesis
    using assms
    by (auto simp: peer_ok_def not_own_def update_queue_by_mode_def Let_def bad_packet_client_def bad_packet_server_def)
qed

lemma replay_packet:
  assumes "replayable p" "pr_caplen rec = pk_caplen p"
    and "\<forall>i < unat (pk_caplen p). pr_payload rec i = the (pk_payload p) i"
    and "get_packet_tracefile DLT_LINUX_SLL (1, rec) = Inr r"
  shows "update_stamp_queue ntop q r stats = update_stamp_queue ntop q p stats"
proof -
  obtain b off src dst ttl where p: "pk_size p = unat (pk_caplen p) + SIZEOF_pcap_pkthdr" "pk_payload p = Some b"
    "get_valid_ntp_payload p b = Ntp_at off src dst ttl" "off + 48 \<le> unat (pk_caplen p)"
    "peer_ok (PKT_MODE (np_li_vn_mode (ntp_pkt_at b off))) (pk_ss_if p) src dst"
    using assms(1) by (auto simp: replayable_def split: option.splits payload.splits)
  note off = ntp_payload_offset [OF p(3)]
  let ?cap = "unat (pk_caplen p)" and ?b = "pr_payload rec"
  have r: "pk_payload r = Some ?b" "pk_caplen r = pk_caplen p" "pk_type r = pk_type p" "pk_size r = pk_size p"
    "pk_ss_if r = tracefile_ss_if"
    using p(1) off(2) assms(2,4) by (auto simp: get_packet_tracefile_def)
  have eq: "\<forall>i < ?cap. ?b i = b i" using assms(3) p(2) by simp
  have "parse_headers r ?b = parse_headers p b"
    using r off p(4) eq by (intro parse_headers_cong) auto
  then have "get_valid_ntp_payload r ?b = Ntp_at off src dst ttl" using p(3) by (simp add: get_valid_ntp_payload_def)
  moreover have "ntp_pkt_at ?b off = ntp_pkt_at b off" using p(4) eq by (intro ntp_pkt_at_cong) auto
  moreover have "get_vcount r = get_vcount p"
    using r p(2,4) off eq by (simp add: get_vcount_def get_vcount_from_sll_def load64_def load32_def)
  ultimately show ?thesis
    using r p(2,3) by_mode_replay [OF p(5)] unfolding update_stamp_queue_def by (simp split: option.split)
qed

fun feed ::
    "(sockaddr_storage \<Rightarrow> string) \<Rightarrow> radpcap_packet list \<Rightarrow> stamp_queue \<Rightarrow> timeref_stats
      \<Rightarrow> (stamp_queue \<times> timeref_stats) option" where
  "feed ntop [] q stats = Some (q, stats)"
| "feed ntop (p # ps) q stats =
     (case update_stamp_queue ntop q p (count_packet stats) of
        None \<Rightarrow> None
      | Some (err, q, stats) \<Rightarrow> feed ntop ps q stats)"

lemma replay_file:
  assumes "savefile_reads next_ex f (map dump_args ps)" "list_all replayable ps" "length ps < n"
  shows "feed ntop (tracefile_packets n next_ex DLT_LINUX_SLL f) q stats = feed ntop ps q stats"
  using assms
proof (induction ps arbitrary: n f q stats)
  case Nil
  then show ?case by (cases n) (auto simp: get_packet_tracefile_def split: prod.splits)
next
  case (Cons p ps)
  obtain m where n: "n = Suc m" using Cons.prems(3) by (cases n) auto
  obtain rec rest where nx: "next_ex f = (1, rec, rest)" "pr_caplen rec = pk_caplen p"
    "\<forall>i < unat (pk_caplen p). pr_payload rec i = the (pk_payload p) i" "savefile_reads next_ex rest (map dump_args ps)"
    using Cons.prems(1) by (auto simp: dump_args_def [of p] split: prod.splits)
  obtain r where r: "get_packet_tracefile DLT_LINUX_SLL (1, rec) = Inr r" by (simp add: get_packet_tracefile_def)
  have "update_stamp_queue ntop q r (count_packet stats) = update_stamp_queue ntop q p (count_packet stats)"
    using Cons.prems(2) nx(2,3) r by (intro replay_packet) simp_all
  moreover have "feed ntop (tracefile_packets m next_ex DLT_LINUX_SLL rest) q' stats' = feed ntop ps q' stats'" for q' stats'
    using Cons.prems(2,3) nx(4) n by (intro Cons.IH) simp_all
  ultimately show ?case using nx(1) r by (simp add: n split: option.split)
qed

text \<open>
  C36: A trace written while the daemon runs can be replayed. Given that libpcap returns the packets
  of a file as they were dumped, the packets that the trace source reads from the file of the
  live source change the matching queue and the packet statistics exactly as the live packets
  did. This is for packets that carry a completely captured NTP packet within the snapshot
  length, are not exchanged by the host with itself and do not use the address
  255.255.255.255.
\<close>

theorem trace_replay:
  assumes "savefile_law BPF_PACKET_SIZE new_file dump next_ex" "list_all replayable ps" "length ps < n"
  shows "feed ntop (tracefile_packets n next_ex DLT_LINUX_SLL (fold dump (map dump_args ps) new_file)) q stats
    = feed ntop ps q stats"
proof (rule replay_file [OF _ assms(2,3)])
  have "list_all (\<lambda>c. unat (pr_caplen c) \<le> BPF_PACKET_SIZE) (map dump_args ps)"
    using assms(2) by (auto simp: list_all_iff replayable_def dump_args_def)
  then show "savefile_reads next_ex (fold dump (map dump_args ps) new_file) (map dump_args ps)"
    using assms(1) by (simp add: savefile_law_def)
qed

text \<open>Files as lists of packets obey the law.\<close>

definition list_next :: "pcap_record list \<Rightarrow> int \<times> pcap_record \<times> pcap_record list" where
  "list_next f = (case f of [] \<Rightarrow> (-2, dump_args (demo_packet 0 0 0), []) | c # cs \<Rightarrow> (1, c, cs))"

lemma list_savefile: "savefile_law snaplen [] (\<lambda>c f. f @ [c]) list_next"
proof -
  have "savefile_reads list_next cs cs" for cs by (induction cs) (simp_all add: list_next_def)
  moreover have "fold (\<lambda>c f. f @ [c]) cs f = f @ cs" for cs f :: "pcap_record list"
    by (induction cs arbitrary: f) simp_all
  ultimately show ?thesis by (simp add: savefile_law_def)
qed

theorem trace_replay_witness:
  "feed (\<lambda>_. []) (tracefile_packets 2 list_next DLT_LINUX_SLL
       (fold (\<lambda>c f. f @ [c]) (map dump_args [demo_packet 5 28 92]) [])) init_stamp_queue \<lparr>ref_count = 0, badqual_count = 0\<rparr>
     = feed (\<lambda>_. []) [demo_packet 5 28 92] init_stamp_queue \<lparr>ref_count = 0, badqual_count = 0\<rparr>"
proof -
  have "replayable (demo_packet 5 28 92)"
    using demo_reply(2)
    by (simp add: replayable_def demo_packet_def peer_ok_def not_own_def tracefile_ss_if_def)
  then show ?thesis by (intro trace_replay [OF list_savefile]) simp_all
qed

section \<open>From the wire to the queue\<close>

lemma load_shift:
  assumes "\<forall>i < n. b (16 + i) = w (14 + i)"
  shows "k < n \<Longrightarrow> b (16 + k) = w (14 + k)"
    and "k + 3 < n \<Longrightarrow> load32 b (16 + k) = load32 w (14 + k)"
    and "k + 7 < n \<Longrightarrow> load_fp b (16 + k) = load_fp w (14 + k)"
proof -
  have byte: "j < n \<Longrightarrow> b (16 + j) = w (14 + j)" for j using assms by blast
  have "load32 b (16 + k) = load32 w (14 + k)" if "k + 3 < n" for k
    using that byte [of k] byte [of "k + 1"] byte [of "k + 2"] byte [of "k + 3"] by (simp add: load32_def)
  from this [of k] this [of "k + 4"] show "k + 3 < n \<Longrightarrow> load32 b (16 + k) = load32 w (14 + k)"
    "k + 7 < n \<Longrightarrow> load_fp b (16 + k) = load_fp w (14 + k)"
    by (simp_all add: load_fp_def)
qed (use assms in blast)

lemma ntp_pkt_shift:
  assumes "\<forall>i < n. b (16 + i) = w (14 + i)" "k + 48 \<le> n"
  shows "ntp_pkt_at b (16 + k) = ntp_pkt_at w (14 + k)"
proof -
  note byte = load_shift(1) [OF assms(1)] and word = load_shift(2) [OF assms(1)] and fp = load_shift(3) [OF assms(1)]
  show ?thesis
    unfolding ntp_pkt_at_def
    using assms(2) byte [of k] byte [of "k + 1"] byte [of "k + 2"] byte [of "k + 3"] word [of "k + 4"] word [of "k + 8"]
      word [of "k + 12"] fp [of "k + 16"] fp [of "k + 24"] fp [of "k + 32"] fp [of "k + 40"]
    by (simp add: add.assoc)
qed

lemma ipv4_shift:
  assumes "\<forall>i < n. b (16 + i) = w (14 + i)" "20 \<le> n"
  shows "check_ipv4 b 16 r = check_ipv4 w 14 r" "ip_hl b 16 = ip_hl w 14"
    "load32 b 28 = load32 w 26" "load32 b 32 = load32 w 30" "b 24 = w 22"
proof -
  note byte = load_shift(1) [OF assms(1)] and word = load_shift(2) [OF assms(1)]
  have "b 16 = w 14" "b 22 = w 20" "b 23 = w 21" "b 25 = w 23" "b 24 = w 22"
    using assms(2) byte [of 0] byte [of 6] byte [of 7] byte [of 8] byte [of 9] by simp_all
  then show "check_ipv4 b 16 r = check_ipv4 w 14 r" "ip_hl b 16 = ip_hl w 14" "b 24 = w 22"
    by (simp_all add: check_ipv4_def ip_hl_def)
  show "load32 b 28 = load32 w 26" "load32 b 32 = load32 w 30"
    using assms(2) word [of 12] word [of 16] by simp_all
qed

lemma check_lengths_suffices:
  assumes "20 \<le> r" "r < 2 ^ 31"
  shows "check_lengths r"
proof -
  have "\<not> less_size_t r 8"
    using assms unfolding less_size_t_def
    by (simp add: word_less_def uint_word_of_int unsigned_of_nat take_bit_eq_mod)
  then show ?thesis using assms by (simp add: check_lengths_def int_minus_small)
qed

lemma accepts_ipv4:
  assumes "pk_type p = DLT_LINUX_SLL" "load16n b 2 = 1" "load16n b 14 = ETHERTYPE_IP"
    and "56 \<le> unat (pk_caplen p)" "unat (pk_caplen p) < 2 ^ 31" "check_ipv4 b 16 (int (unat (pk_caplen p)) - 16) = 0"
  shows "get_valid_ntp_payload p b
      = Ntp_at (16 + ip_hl b 16 * 4 + 8) (Sin (load32 b 28)) (Sin (load32 b 32)) (int (unat (b 24)))"
proof -
  define c where "c = int (unat (pk_caplen p))"
  have c: "56 \<le> c" "c < 2 ^ 31" using assms(4,5) by (simp_all add: c_def)
  have i: "sint (pk_caplen p) = c" "int_minus c 16 = c - 16" "int_minus (c - 16) 20 = c - 36"
    using caplen_sint [OF assms(5)] c by (simp_all add: c_def int_minus_small)
  have "check_lengths (c - 36)" using c by (intro check_lengths_suffices) simp_all
  then show ?thesis
    using assms(1-3,6) unfolding get_valid_ntp_payload_def parse_headers_def Let_def i c_def [symmetric] by simp
qed

text \<open>
  C7: The path of an NTP packet through the capture side is faithful. An IPv4 frame whose NTP
  packet is captured completely, taken from the raw data queue and parsed, acts on the matching
  queue with the NTP packet, the addresses and the TTL as they were on the wire and with the raw
  timestamp of the capture, IP options included.
\<close>

theorem wire_frame_to_queue:
  fixes w :: "nat \<Rightarrow> uint8"
  assumes frame: "capture_ok env (Frame a fr)" "w = (\<lambda>i. fr_data fr ! i)" "cap = unat (ph_caplen (fr_hdr fr))"
    and ip: "load16n w 12 = ETHERTYPE_IP" "check_ipv4 w 14 (int cap - 14) = 0"
    and whole: "14 + ip_hl w 14 * 4 + 8 + 48 \<le> cap"
    and env: "env_dlt env = DLT_EN10MB" "env_kernel_version env = 2"
  shows "\<exists>delivered radpkt trace.
    deliver_bundle env (rdb_rd (fill_rawdata_pcap (env_mmap env) (env_kernel_version env) fr)) = Some delivered
    \<and> get_packet_livepcap False traceoutput d stale ss_if (Inr delivered) = Live radpkt trace
    \<and> update_stamp_queue ntop q radpkt stats
        = Some (update_queue_by_mode ntop q ss_if (ntp_pkt_at w (14 + ip_hl w 14 * 4 + 8)) (fr_before fr)
                  (Sin (load32 w 26)) (Sin (load32 w 30)) (int (unat (w 22))) stats)"
proof -
  have "SIZEOF_ether_header \<le> cap" using whole by simp
  then obtain delivered radpkt b where
    live: "deliver_bundle env (rdb_rd (fill_rawdata_pcap (env_mmap env) (env_kernel_version env) fr)) = Some delivered"
      "get_packet_livepcap False traceoutput d stale ss_if (Inr delivered)
         = Live radpkt (if traceoutput then Some (dump_args radpkt) else None)"
    and p: "get_vcount radpkt = Some (fr_before fr)" "pk_type radpkt = DLT_LINUX_SLL" "pk_payload radpkt = Some b"
      "pk_ss_if radpkt = ss_if"
    and b: "load16n b 2 = 1" "load16n b 14 = ETHERTYPE_IP" "unat (pk_caplen radpkt) = cap + 2"
      "\<forall>i < cap - SIZEOF_ether_header. b (SIZEOF_sll_header + i) = w (SIZEOF_ether_header + i)"
    using live_frame [OF frame(1) _ ip(1) [unfolded frame(2)] _ env, of traceoutput d stale ss_if]
    unfolding frame(2,3) by blast
  note ipv4 = ipv4_shift [OF b(4)]
  have "56 \<le> cap + 2" "cap + 2 < 2 ^ 31" using whole frame(1,3) by simp_all
  then have "get_valid_ntp_payload radpkt b
      = Ntp_at (16 + ip_hl w 14 * 4 + 8) (Sin (load32 w 26)) (Sin (load32 w 30)) (int (unat (w 22)))"
    using accepts_ipv4 [OF p(2) b(1,2)] ip(2) whole ipv4 by (simp add: b(3))
  moreover have "ntp_pkt_at b (16 + (ip_hl w 14 * 4 + 8)) = ntp_pkt_at w (14 + (ip_hl w 14 * 4 + 8))"
    using whole by (intro ntp_pkt_shift [OF b(4)]) simp
  ultimately show ?thesis
    using live p by (intro exI [of _ delivered] exI [of _ radpkt] exI) (simp add: update_stamp_queue_def add.assoc)
qed

text \<open>An NTP request as it leaves an Ethernet interface.\<close>

definition wire_demo :: captured_frame where
  "wire_demo =
     \<lparr>fr_hdr = \<lparr>ph_ts_sec = 7, ph_ts_usec = 0, ph_caplen = 90, ph_len = 90\<rparr>, fr_before = 1000, fr_ioctl = None,
      fr_data = replicate 12 9 @ [8, 0, 69] @ replicate 7 0 @ [64, 17, 0, 0] @ [10, 0, 0, 1, 10, 0, 0, 2]
        @ replicate 8 0 @ [35] @ replicate 47 0\<rparr>"

theorem wire_frame_to_queue_witness:
  "\<exists>delivered radpkt trace.
    get_packet_livepcap False False null_data (\<lambda>_. 0) (Sin 1) (Inr delivered) = Live radpkt trace
    \<and> update_stamp_queue (\<lambda>_. []) init_stamp_queue radpkt \<lparr>ref_count = 0, badqual_count = 0\<rparr>
        = Some (update_queue_by_mode (\<lambda>_. []) init_stamp_queue (Sin 1) (ntp_pkt_at (\<lambda>i. fr_data wire_demo ! i) 42) 1000
                  (Sin 0x0100000a) (Sin 0x0200000a) 64 \<lparr>ref_count = 0, badqual_count = 0\<rparr>)"
proof -
  let ?w = "\<lambda>i. fr_data wire_demo ! i"
  have len: "length (fr_data wire_demo) = 90" by (simp add: wire_demo_def)
  have bytes: "?w 12 = 8" "?w 13 = 0" "?w 14 = 69" "?w 20 = 0" "?w 21 = 0" "?w 22 = 64" "?w 23 = 17" "?w 26 = 10" "?w 27 = 0"
    "?w 28 = 0" "?w 29 = 1" "?w 30 = 10" "?w 31 = 0" "?w 32 = 0" "?w 33 = 2"
    by (simp_all add: wire_demo_def nth_append)
  have hl: "ip_hl ?w 14 = 5" by (simp add: ip_hl_def bytes)
  have 1: "capture_ok demo_env (Frame 40 wire_demo)" using len by (simp add: demo_env_def wire_demo_def)
  have 2: "90 = unat (ph_caplen (fr_hdr wire_demo))" by (simp add: wire_demo_def)
  have 3: "load16n ?w 12 = ETHERTYPE_IP" by (simp add: load16n_def bytes)
  have 4: "check_ipv4 ?w 14 (int 90 - 14) = 0" using hl by (simp add: check_ipv4_def bytes less_u32_def)
  have 5: "14 + ip_hl ?w 14 * 4 + 8 + 48 \<le> 90" unfolding hl by simp
  have 6: "env_dlt demo_env = DLT_EN10MB" "env_kernel_version demo_env = 2" by (simp_all add: demo_env_def)
  note wire_frame_to_queue [OF 1 refl 2 3 4 5 6, of False null_data "\<lambda>_. 0" "Sin 1" "\<lambda>_. []" init_stamp_queue
      "\<lparr>ref_count = 0, badqual_count = 0\<rparr>"]
  moreover have "load32 ?w 26 = 0x0100000a" "load32 ?w 30 = 0x0200000a" by (simp_all add: load32_def of_bytes_def bytes)
  moreover have "fr_before wire_demo = 1000" by (simp add: wire_demo_def)
  ultimately show ?thesis unfolding hl bytes by auto
qed

end
