(* ===== verification/Ts_Mode.thy ===== *)
theory Ts_Mode
  imports Live_Input
begin

text \<open>
  How the capture is told which clock timestamps the packets, and how the raw timestamp is read
  out of what the kernel delivers: \<^verbatim>\<open>libradclock/radapi-pcap.c\<close>, \<^verbatim>\<open>libradclock/pcap-linux.c\<close>
  (the extraction on Linux is in \<open>Raw_Data\<close>) and \<^verbatim>\<open>libradclock/pcap-fbsd.c\<close>.

  The kernel side of the ioctls is one word per capture socket; an ioctl either fails and leaves
  the word alone, or stores or returns it. The bpf header in front of a frame is a record.
\<close>

section \<open>Modes and flags\<close>

abbreviation PKTCAP_TSMODE_NOMODE :: int where "PKTCAP_TSMODE_NOMODE \<equiv> 0"
abbreviation PKTCAP_TSMODE_SYSCLOCK :: int where "PKTCAP_TSMODE_SYSCLOCK \<equiv> 1"
abbreviation PKTCAP_TSMODE_FBCLOCK :: int where "PKTCAP_TSMODE_FBCLOCK \<equiv> 2"
abbreviation PKTCAP_TSMODE_FFCLOCK :: int where "PKTCAP_TSMODE_FFCLOCK \<equiv> 3"
abbreviation PKTCAP_TSMODE_FFNATIVECLOCK :: int where "PKTCAP_TSMODE_FFNATIVECLOCK \<equiv> 4"
abbreviation PKTCAP_TSMODE_FFDIFFCLOCK :: int where "PKTCAP_TSMODE_FFDIFFCLOCK \<equiv> 5"
abbreviation PKTCAP_TSMODE_RADCLOCK :: int where "PKTCAP_TSMODE_RADCLOCK \<equiv> 6"
abbreviation PKTCAP_TSMODE_CUSTOM :: int where "PKTCAP_TSMODE_CUSTOM \<equiv> 100"

abbreviation RADCLOCK_TSMODE_SYSCLOCK :: uint64 where "RADCLOCK_TSMODE_SYSCLOCK \<equiv> 1"
abbreviation RADCLOCK_TSMODE_RADCLOCK :: uint64 where "RADCLOCK_TSMODE_RADCLOCK \<equiv> 2"
abbreviation RADCLOCK_TSMODE_FAIRCOMPARE :: uint64 where "RADCLOCK_TSMODE_FAIRCOMPARE \<equiv> 3"

abbreviation BPF_T_MICROTIME :: uint64 where "BPF_T_MICROTIME \<equiv> 0x0000"
abbreviation BPF_T_NANOTIME :: uint64 where "BPF_T_NANOTIME \<equiv> 0x0001"
abbreviation BPF_T_BINTIME :: uint64 where "BPF_T_BINTIME \<equiv> 0x0002"
abbreviation BPF_T_FORMAT_MASK :: uint64 where "BPF_T_FORMAT_MASK \<equiv> 0x0003"
abbreviation BPF_T_FFCOUNTER :: uint64 where "BPF_T_FFCOUNTER \<equiv> 0x0004"
abbreviation BPF_T_FFC :: uint64 where "BPF_T_FFC \<equiv> 0x0010"
abbreviation BPF_T_NORMAL :: uint64 where "BPF_T_NORMAL \<equiv> 0x0000"
abbreviation BPF_T_SYSCLOCK :: uint64 where "BPF_T_SYSCLOCK \<equiv> 0x0000"
abbreviation BPF_T_FBCLOCK :: uint64 where "BPF_T_FBCLOCK \<equiv> 0x1000"
abbreviation BPF_T_FFCLOCK :: uint64 where "BPF_T_FFCLOCK \<equiv> 0x2000"
abbreviation BPF_T_FFNATIVECLOCK :: uint64 where "BPF_T_FFNATIVECLOCK \<equiv> 0x3000"
abbreviation BPF_T_FFDIFFCLOCK :: uint64 where "BPF_T_FFDIFFCLOCK \<equiv> 0x4000"
abbreviation BPF_T_CLOCK_MASK :: uint64 where "BPF_T_CLOCK_MASK \<equiv> 0x7000"

text \<open>The capture socket: its mode word, and whether the ioctls on it succeed.\<close>

record capture_socket =
  cs_word :: uint64
  cs_set_ok :: bool
  cs_get_ok :: bool

definition ioctl_set :: "capture_socket \<Rightarrow> uint64 \<Rightarrow> capture_socket option" where
  "ioctl_set so w = (if cs_set_ok so then Some (so\<lparr>cs_word := w\<rparr>) else None)"

definition ioctl_get :: "capture_socket \<Rightarrow> uint64 option" where
  "ioctl_get so = (if cs_get_ok so then Some (cs_word so) else None)"

text \<open>The clock component of the type word, shared by the switches of the newer kernels.\<close>

definition clock_flag :: "int \<Rightarrow> uint64 option" where
  "clock_flag mode =
     (if mode = PKTCAP_TSMODE_SYSCLOCK then Some BPF_T_SYSCLOCK
      else if mode = PKTCAP_TSMODE_FBCLOCK then Some BPF_T_FBCLOCK
      else if mode = PKTCAP_TSMODE_FFCLOCK then Some BPF_T_FFCLOCK
      else if mode = PKTCAP_TSMODE_RADCLOCK \<or> mode = PKTCAP_TSMODE_FFNATIVECLOCK then Some BPF_T_FFNATIVECLOCK
      else if mode = PKTCAP_TSMODE_FFDIFFCLOCK then Some BPF_T_FFDIFFCLOCK
      else None)"

definition flag_clock :: "uint64 \<Rightarrow> int \<Rightarrow> int" where
  "flag_clock bd_tstamp mode =
     (let c = bd_tstamp AND BPF_T_CLOCK_MASK
      in if c = BPF_T_SYSCLOCK then PKTCAP_TSMODE_SYSCLOCK
         else if c = BPF_T_FBCLOCK then PKTCAP_TSMODE_FBCLOCK
         else if c = BPF_T_FFCLOCK then PKTCAP_TSMODE_FFCLOCK
         else if c = BPF_T_FFNATIVECLOCK then PKTCAP_TSMODE_FFNATIVECLOCK
         else if c = BPF_T_FFDIFFCLOCK then PKTCAP_TSMODE_FFDIFFCLOCK
         else mode)"

section \<open>Linux\<close>

text \<open>The result: the return code, the mode reported to the caller, and the socket.\<close>

definition finish_set :: "capture_socket \<Rightarrow> uint64 \<Rightarrow> int \<Rightarrow> int \<times> int \<times> capture_socket" where
  "finish_set so w mode = (case ioctl_set so w of None \<Rightarrow> (1, mode, so) | Some so \<Rightarrow> (0, mode, so))"

definition descriptor_set_tsmode_linux ::
    "int \<Rightarrow> capture_socket \<Rightarrow> int \<Rightarrow> uint32 \<Rightarrow> int \<times> int \<times> capture_socket" where
  "descriptor_set_tsmode_linux kernel_version so mode custom =
     (if kernel_version = 0 \<or> kernel_version = 1 then
        if mode = PKTCAP_TSMODE_SYSCLOCK then finish_set so RADCLOCK_TSMODE_SYSCLOCK mode
        else if mode \<in> {PKTCAP_TSMODE_FBCLOCK, PKTCAP_TSMODE_FFCLOCK, PKTCAP_TSMODE_FFDIFFCLOCK}
        then finish_set so RADCLOCK_TSMODE_RADCLOCK PKTCAP_TSMODE_RADCLOCK
        else if mode = PKTCAP_TSMODE_RADCLOCK \<or> mode = PKTCAP_TSMODE_FFNATIVECLOCK
        then finish_set so RADCLOCK_TSMODE_RADCLOCK mode
        else if mode = PKTCAP_TSMODE_CUSTOM then finish_set so (ucast custom) mode
        else (1, mode, so)
      else if kernel_version = 2 then
        if mode = PKTCAP_TSMODE_CUSTOM then finish_set so (ucast custom) mode
        else (case clock_flag mode of
                None \<Rightarrow> (1, mode, so)
              | Some c \<Rightarrow> finish_set so (BPF_T_NANOTIME OR BPF_T_FFC OR BPF_T_NORMAL OR c) mode)
      else (1, mode, so))"

definition descriptor_get_tsmode_linux :: "int \<Rightarrow> capture_socket \<Rightarrow> int \<Rightarrow> int \<times> int" where
  "descriptor_get_tsmode_linux kernel_version so mode =
     (if kernel_version = 0 \<or> kernel_version = 1 then
        (case ioctl_get so of
           None \<Rightarrow> (1, mode)
         | Some w \<Rightarrow>
             (0, if w = RADCLOCK_TSMODE_SYSCLOCK then PKTCAP_TSMODE_SYSCLOCK
                 else if w = RADCLOCK_TSMODE_RADCLOCK \<or> w = RADCLOCK_TSMODE_FAIRCOMPARE then PKTCAP_TSMODE_FFNATIVECLOCK
                 else PKTCAP_TSMODE_NOMODE))
      else if kernel_version = 2 then
        (case ioctl_get so of None \<Rightarrow> (1, mode) | Some w \<Rightarrow> (0, flag_clock w mode))
      else (1, mode))"

section \<open>FreeBSD\<close>

text \<open>
  On the oldest FreeBSD kernels the ioctl reads and writes one byte at the address it is given:
  the mode itself, and the low byte of a zeroed \<^verbatim>\<open>long\<close>.
\<close>

definition descriptor_set_tsmode_fbsd ::
    "int \<Rightarrow> capture_socket \<Rightarrow> int \<Rightarrow> uint32 \<Rightarrow> int \<times> int \<times> capture_socket" where
  "descriptor_set_tsmode_fbsd kernel_version so mode custom =
     (if kernel_version = 0 \<or> kernel_version = 1 then
        finish_set so (word_of_int (mode mod 256)) mode
      else if kernel_version = 2 then
        if mode \<in> {PKTCAP_TSMODE_SYSCLOCK, PKTCAP_TSMODE_FBCLOCK, PKTCAP_TSMODE_FFCLOCK, PKTCAP_TSMODE_FFNATIVECLOCK,
                   PKTCAP_TSMODE_FFDIFFCLOCK, PKTCAP_TSMODE_RADCLOCK}
        then finish_set so (BPF_T_MICROTIME OR BPF_T_NORMAL OR BPF_T_SYSCLOCK) PKTCAP_TSMODE_RADCLOCK
        else (1, mode, so)
      else if kernel_version = 3 then
        if mode = PKTCAP_TSMODE_CUSTOM then finish_set so (ucast custom) mode
        else (case clock_flag mode of
                None \<Rightarrow> (1, mode, so)
              | Some c \<Rightarrow> finish_set so (BPF_T_MICROTIME OR BPF_T_FFC OR BPF_T_NORMAL OR c) mode)
      else (1, mode, so))"

definition descriptor_get_tsmode_fbsd :: "int \<Rightarrow> capture_socket \<Rightarrow> int \<Rightarrow> int \<times> int" where
  "descriptor_get_tsmode_fbsd kernel_version so mode =
     (if kernel_version \<in> {0, 1, 2, 3} then
        (case ioctl_get so of
           None \<Rightarrow> (1, mode)
         | Some w \<Rightarrow>
             (0, if kernel_version = 2 then
                   if w = BPF_T_FFCOUNTER then PKTCAP_TSMODE_RADCLOCK else PKTCAP_TSMODE_NOMODE
                 else if kernel_version = 3 then flag_clock w mode
                 else int (unat w)))
      else (1, mode))"

section \<open>The library interface\<close>

text \<open>
  \<open>set_ts\<close> and \<open>get_ts\<close> are the functions of the system in use; \<open>live\<close> tells a live capture from a
  file, and \<open>None\<close> is a null clock handle.
\<close>

definition pktcap_set_tsmode ::
    "(int \<Rightarrow> capture_socket \<Rightarrow> int \<Rightarrow> uint32 \<Rightarrow> int \<times> int \<times> capture_socket) \<Rightarrow> int \<Rightarrow> bool \<Rightarrow> int option
      \<Rightarrow> capture_socket \<Rightarrow> int \<Rightarrow> uint32 \<Rightarrow> int \<times> int option \<times> capture_socket" where
  "pktcap_set_tsmode set_ts kernel_version live tsmode so mode custom =
     (case tsmode of
        None \<Rightarrow> (-1, None, so)
      | Some old \<Rightarrow>
          if \<not> live then (0, Some old, so)
          else (case set_ts kernel_version so mode custom of (err, mode, so) \<Rightarrow>
                  if err \<noteq> 0 then (-1, Some old, so) else (0, Some mode, so)))"

definition pktcap_get_tsmode ::
    "(int \<Rightarrow> capture_socket \<Rightarrow> int \<Rightarrow> int \<times> int) \<Rightarrow> int \<Rightarrow> int option \<Rightarrow> capture_socket \<Rightarrow> int \<Rightarrow> int \<times> int" where
  "pktcap_get_tsmode get_ts kernel_version tsmode so mode =
     (case tsmode of
        None \<Rightarrow> (-1, mode)
      | Some _ \<Rightarrow>
          (case get_ts kernel_version so 0 of (err, inferredmode) \<Rightarrow>
             if err \<noteq> 0 then (-1, mode) else (0, inferredmode)))"

section \<open>The raw timestamp on FreeBSD\<close>

text \<open>
  The header the kernel puts in front of a frame, with the raw counter as its last member. The
  layout is that of a 64 bit system: the counter is at offset 32 of the header, which is padded
  so that header and link layer header together are a multiple of eight bytes.
\<close>

record bpf_hdr_hack =
  bh_tstamp :: "int \<times> int"
  bh_caplen :: uint32
  bh_datalen :: uint32
  bh_hdrlen :: nat
  bh_vcount :: vcounter_t

definition BPF_WORDALIGN :: "nat \<Rightarrow> nat" where
  "BPF_WORDALIGN x = (x + 7) div 8 * 8"

definition BPF_HDR_LEN_v1 :: nat where
  "BPF_HDR_LEN_v1 = BPF_WORDALIGN (32 + 8 + SIZEOF_ether_header) - SIZEOF_ether_header"

definition extract_vcount_stamp_v1 :: "bpf_hdr_hack \<Rightarrow> pcap_pkthdr \<Rightarrow> vcounter_t \<Rightarrow> int \<times> vcounter_t" where
  "extract_vcount_stamp_v1 hack header vcount =
     (if bh_hdrlen hack \<noteq> BPF_HDR_LEN_v1
         \<or> (bh_tstamp hack, bh_caplen hack, bh_datalen hack)
           \<noteq> ((ph_ts_sec header, ph_ts_usec header), ph_caplen header, ph_len header)
      then (1, vcount) else (0, bh_vcount hack))"

definition extract_vcount_stamp_v2 :: "pcap_pkthdr \<Rightarrow> int \<times> vcounter_t" where
  "extract_vcount_stamp_v2 header = (0, word_of_int (ph_ts_sec header))"

definition extract_vcount_stamp_v3 :: "bpf_hdr_hack \<Rightarrow> pcap_pkthdr \<Rightarrow> int \<times> vcounter_t \<times> pcap_pkthdr" where
  "extract_vcount_stamp_v3 h header =
     (let rdhdr = header;
          rdhdr = (if bh_tstamp h \<noteq> (ph_ts_sec header, ph_ts_usec header)
                   then rdhdr\<lparr>ph_ts_sec := fst (bh_tstamp h), ph_ts_usec := snd (bh_tstamp h)\<rparr> else rdhdr)
      in (0, bh_vcount h, rdhdr))"

text \<open>The copy of the pcap header for the raw data bundle is \<open>None\<close> when it is not written.\<close>

definition extract_vcount_stamp_fbsd ::
    "bool \<Rightarrow> int \<Rightarrow> int \<Rightarrow> bpf_hdr_hack \<Rightarrow> pcap_pkthdr \<Rightarrow> vcounter_t \<Rightarrow> int \<times> vcounter_t \<times> pcap_pkthdr option" where
  "extract_vcount_stamp_fbsd live kernel_version tsmode hack header vcount =
     (if \<not> live then (1, vcount, None)
      else if kernel_version = 0 \<or> kernel_version = 1 then
        (case extract_vcount_stamp_v1 hack header vcount of (err, v) \<Rightarrow> (err, v, Some header))
      else if kernel_version = 2 then
        if tsmode = PKTCAP_TSMODE_RADCLOCK then
          (case extract_vcount_stamp_v2 header of (err, v) \<Rightarrow> (err, v, Some header))
        else (1, 0, None)
      else if kernel_version = 3 then
        (case extract_vcount_stamp_v3 hack header of (err, v, rdhdr) \<Rightarrow> (err, v, Some rdhdr))
      else (1, vcount, None))"

text \<open>The interpretation of the timestamp field by its format.\<close>

definition ts_format_to_double_fbsd :: "int \<Rightarrow> int \<Rightarrow> uint64 \<Rightarrow> real" where
  "ts_format_to_double_fbsd sec usec tstype =
     (let f = tstype AND BPF_T_FORMAT_MASK
      in if f = BPF_T_MICROTIME then of_int sec + of_int usec / 10 ^ 6
         else if f = BPF_T_NANOTIME then of_int sec + of_int usec / 10 ^ 9
         else if f = BPF_T_BINTIME then bintime_to_ld \<lparr>bt_sec = sec, bt_frac = word_of_int usec\<rparr>
         else of_int sec)"

definition ts_format_to_double_linux :: "int \<Rightarrow> int \<Rightarrow> real" where
  "ts_format_to_double_linux sec usec = of_int sec + of_int usec / 10 ^ 6"

section \<open>Setting a mode and asking for it\<close>

text \<open>
  What the library relies on in a system whose kernel takes the type word apart by its clock
  component.
\<close>

locale tsmode_system =
  fixes set_ts :: "int \<Rightarrow> capture_socket \<Rightarrow> int \<Rightarrow> uint32 \<Rightarrow> int \<times> int \<times> capture_socket"
    and get_ts :: "int \<Rightarrow> capture_socket \<Rightarrow> int \<Rightarrow> int \<times> int"
    and kv :: int
  assumes set_clock: "clock_flag mode = Some c \<Longrightarrow> cs_set_ok so \<Longrightarrow>
      \<exists>w. set_ts kv so mode custom = (0, mode, so\<lparr>cs_word := w\<rparr>) \<and> w AND BPF_T_CLOCK_MASK = c"
    and set_refused: "\<not> cs_set_ok so \<Longrightarrow> \<exists>m. set_ts kv so mode custom = (1, m, so)"
    and set_unknown: "clock_flag mode = None \<Longrightarrow> mode \<noteq> PKTCAP_TSMODE_CUSTOM \<Longrightarrow>
      set_ts kv so mode custom = (1, mode, so)"
    and get_word: "cs_get_ok so \<Longrightarrow> get_ts kv so m = (0, flag_clock (cs_word so) m)"
begin

lemma set_then_get:
  assumes "clock_flag mode = Some c" "cs_set_ok so" "cs_get_ok so"
  shows "\<exists>so'. pktcap_set_tsmode set_ts kv True (Some old) so mode custom = (0, Some mode, so')
    \<and> pktcap_get_tsmode get_ts kv (Some mode) so' m = (0, flag_clock c 0)"
proof -
  obtain w where w: "set_ts kv so mode custom = (0, mode, so\<lparr>cs_word := w\<rparr>)" "w AND BPF_T_CLOCK_MASK = c"
    using set_clock [OF assms(1,2)] by blast
  have "c AND BPF_T_CLOCK_MASK = c" using w(2) by (metis and.idem and.assoc)
  then have "flag_clock w 0 = flag_clock c 0" using w(2) by (simp add: flag_clock_def)
  then show ?thesis
    using w(1) get_word [of "so\<lparr>cs_word := w\<rparr>" 0] assms(3)
    by (simp add: pktcap_set_tsmode_def pktcap_get_tsmode_def)
qed

lemma set_failure:
  assumes "\<not> cs_set_ok so \<or> clock_flag mode = None \<and> mode \<noteq> PKTCAP_TSMODE_CUSTOM"
  shows "pktcap_set_tsmode set_ts kv True (Some old) so mode custom = (-1, Some old, so)"
proof -
  obtain m where "set_ts kv so mode custom = (1, m, so)" using assms set_refused set_unknown by blast
  then show ?thesis by (simp add: pktcap_set_tsmode_def)
qed

end

lemma clock_flag_bits: "clock_flag mode = Some c \<Longrightarrow> c \<in> {BPF_T_SYSCLOCK, BPF_T_FBCLOCK, BPF_T_FFCLOCK, BPF_T_FFNATIVECLOCK, BPF_T_FFDIFFCLOCK}"
  by (auto simp: clock_flag_def split: if_splits)

lemma clock_flag_custom: "clock_flag mode = Some c \<Longrightarrow> mode \<noteq> PKTCAP_TSMODE_CUSTOM"
  by (auto simp: clock_flag_def split: if_splits)

lemma clock_bits_word:
  assumes "clock_flag mode = Some c"
  shows "(BPF_T_NANOTIME OR BPF_T_FFC OR BPF_T_NORMAL OR c) AND BPF_T_CLOCK_MASK = c"
    "(BPF_T_MICROTIME OR BPF_T_FFC OR BPF_T_NORMAL OR c) AND BPF_T_CLOCK_MASK = c"
  using clock_flag_bits [OF assms] by auto

interpretation linux2: tsmode_system descriptor_set_tsmode_linux descriptor_get_tsmode_linux 2
proof
  fix mode c and so :: capture_socket and custom :: uint32
  assume "clock_flag mode = Some c" "cs_set_ok so"
  then show "\<exists>w. descriptor_set_tsmode_linux 2 so mode custom = (0, mode, so\<lparr>cs_word := w\<rparr>) \<and> w AND BPF_T_CLOCK_MASK = c"
    using clock_bits_word(1) [of mode c] clock_flag_custom [of mode c]
    by (intro exI [of _ "BPF_T_NANOTIME OR BPF_T_FFC OR BPF_T_NORMAL OR c"])
      (simp add: descriptor_set_tsmode_linux_def finish_set_def ioctl_set_def)
qed (auto simp: descriptor_set_tsmode_linux_def descriptor_get_tsmode_linux_def finish_set_def ioctl_set_def
    ioctl_get_def split: option.split)

interpretation fbsd3: tsmode_system descriptor_set_tsmode_fbsd descriptor_get_tsmode_fbsd 3
proof
  fix mode c and so :: capture_socket and custom :: uint32
  assume "clock_flag mode = Some c" "cs_set_ok so"
  then show "\<exists>w. descriptor_set_tsmode_fbsd 3 so mode custom = (0, mode, so\<lparr>cs_word := w\<rparr>) \<and> w AND BPF_T_CLOCK_MASK = c"
    using clock_bits_word(2) [of mode c] clock_flag_custom [of mode c]
    by (intro exI [of _ "BPF_T_MICROTIME OR BPF_T_FFC OR BPF_T_NORMAL OR c"])
      (simp add: descriptor_set_tsmode_fbsd_def finish_set_def ioctl_set_def)
qed (auto simp: descriptor_set_tsmode_fbsd_def descriptor_get_tsmode_fbsd_def finish_set_def ioctl_set_def
    ioctl_get_def split: option.split)

definition reported_mode :: "int \<Rightarrow> int" where
  "reported_mode mode = (if mode = PKTCAP_TSMODE_RADCLOCK then PKTCAP_TSMODE_FFNATIVECLOCK else mode)"

lemma flag_clock_of_flag: "clock_flag mode = Some c \<Longrightarrow> flag_clock c 0 = reported_mode mode"
  by (auto simp: clock_flag_def flag_clock_def reported_mode_def split: if_splits)

lemma clock_flag_range: "clock_flag mode \<noteq> None \<longleftrightarrow> PKTCAP_TSMODE_SYSCLOCK \<le> mode \<and> mode \<le> PKTCAP_TSMODE_RADCLOCK"
  by (auto simp: clock_flag_def)

text \<open>
  On the current kernels of both systems a timestamping mode that is set is recorded and
  reported back. The one exception is the user space mode: the kernel is set to its native
  feed-forward clock for it, and reports that. A mode that is unknown or refused by the kernel
  changes neither the recorded mode nor the socket.
\<close>

lemma tsmode_roundtrip:
  assumes "PKTCAP_TSMODE_SYSCLOCK \<le> mode" "mode \<le> PKTCAP_TSMODE_RADCLOCK" "cs_set_ok so" "cs_get_ok so"
    and "\<not> cs_set_ok so' \<or> unknown < PKTCAP_TSMODE_SYSCLOCK"
  shows "(\<exists>so1. pktcap_set_tsmode descriptor_set_tsmode_linux 2 True (Some old) so mode custom = (0, Some mode, so1)
      \<and> pktcap_get_tsmode descriptor_get_tsmode_linux 2 (Some mode) so1 m = (0, reported_mode mode))
    \<and> (\<exists>so1. pktcap_set_tsmode descriptor_set_tsmode_fbsd 3 True (Some old) so mode custom = (0, Some mode, so1)
      \<and> pktcap_get_tsmode descriptor_get_tsmode_fbsd 3 (Some mode) so1 m = (0, reported_mode mode))
    \<and> pktcap_set_tsmode descriptor_set_tsmode_linux 2 True (Some old) so' unknown custom = (-1, Some old, so')
    \<and> pktcap_set_tsmode descriptor_set_tsmode_fbsd 3 True (Some old) so' unknown custom = (-1, Some old, so')"
proof -
  obtain c where c: "clock_flag mode = Some c" using assms(1,2) clock_flag_range by blast
  have "\<not> cs_set_ok so' \<or> clock_flag unknown = None \<and> unknown \<noteq> PKTCAP_TSMODE_CUSTOM"
    using assms(5) clock_flag_range [of unknown] by auto
  then show ?thesis
    using linux2.set_then_get [OF c assms(3,4)] fbsd3.set_then_get [OF c assms(3,4)]
      linux2.set_failure fbsd3.set_failure flag_clock_of_flag [OF c] by simp
qed

text \<open>
  On FreeBSD kernels of version 2 the capture is set to plain microsecond timestamps of the
  system clock. The mode is then not recognised when it is asked for, and what is extracted as
  the raw counter of a packet is the seconds field of its system clock timestamp.
\<close>

lemma fbsd2_counter_is_seconds:
  assumes "clock_flag mode = Some c" "cs_set_ok so" "cs_get_ok so"
  shows "\<exists>so1. pktcap_set_tsmode descriptor_set_tsmode_fbsd 2 True (Some old) so mode custom
        = (0, Some PKTCAP_TSMODE_RADCLOCK, so1)
      \<and> cs_word so1 = BPF_T_MICROTIME \<and> pktcap_get_tsmode descriptor_get_tsmode_fbsd 2 (Some PKTCAP_TSMODE_RADCLOCK) so1 m
        = (0, PKTCAP_TSMODE_NOMODE)"
    "extract_vcount_stamp_fbsd True 2 PKTCAP_TSMODE_RADCLOCK hack header v = (0, word_of_int (ph_ts_sec header), Some header)"
proof -
  have m: "mode \<in> {PKTCAP_TSMODE_SYSCLOCK, PKTCAP_TSMODE_FBCLOCK, PKTCAP_TSMODE_FFCLOCK, PKTCAP_TSMODE_FFNATIVECLOCK,
      PKTCAP_TSMODE_FFDIFFCLOCK, PKTCAP_TSMODE_RADCLOCK}"
    using assms(1) by (auto simp: clock_flag_def split: if_splits)
  show "\<exists>so1. pktcap_set_tsmode descriptor_set_tsmode_fbsd 2 True (Some old) so mode custom
        = (0, Some PKTCAP_TSMODE_RADCLOCK, so1)
      \<and> cs_word so1 = BPF_T_MICROTIME \<and> pktcap_get_tsmode descriptor_get_tsmode_fbsd 2 (Some PKTCAP_TSMODE_RADCLOCK) so1 m
        = (0, PKTCAP_TSMODE_NOMODE)"
    using m assms(2,3)
    by (simp add: pktcap_set_tsmode_def pktcap_get_tsmode_def descriptor_set_tsmode_fbsd_def descriptor_get_tsmode_fbsd_def
        finish_set_def ioctl_set_def ioctl_get_def)
  show "extract_vcount_stamp_fbsd True 2 PKTCAP_TSMODE_RADCLOCK hack header v
      = (0, word_of_int (ph_ts_sec header), Some header)"
    by (simp add: extract_vcount_stamp_fbsd_def extract_vcount_stamp_v2_def)
qed

text \<open>
  On FreeBSD the copy of the pcap header is left unwritten on three error paths; the capture
  callback discards the error and queues the bundle with it. Otherwise the copy has the lengths
  of the packet and, on version 3, the timestamp of the bpf header.
\<close>

lemma fbsd_header_copy:
  "snd (snd (extract_vcount_stamp_fbsd live kv tsmode hack header v)) = None \<longleftrightarrow>
     \<not> live \<or> kv = 2 \<and> tsmode \<noteq> PKTCAP_TSMODE_RADCLOCK \<or> kv \<notin> {0, 1, 2, 3}"
  "snd (snd (extract_vcount_stamp_fbsd live kv tsmode hack header v)) = Some rdhdr \<Longrightarrow>
     ph_caplen rdhdr = ph_caplen header \<and> ph_len rdhdr = ph_len header
     \<and> (kv = 3 \<longrightarrow> (ph_ts_sec rdhdr, ph_ts_usec rdhdr) = bh_tstamp hack)"
  by (auto simp: extract_vcount_stamp_fbsd_def extract_vcount_stamp_v3_def Let_def split: prod.splits if_splits)
end
