(* ===== verification/Kernel_Read.thy ===== *)
theory Kernel_Read
  imports Kernel_FFclock Ts_Mode Fixed_Point
begin

text \<open>
  Reading the kernel's feed-forward clocks: \<^verbatim>\<open>ffclock_read_counter\<close> and \<^verbatim>\<open>ffclock_fill_timestamps\<close>
  of \<^verbatim>\<open>kernel/linux/6.1.27/CurrentSource/timekeeping.c\<close>, and the protocol between such readers and
  the tick code that fills the ring of tick states at the same time.

  The theory ends with the way of the daemon's parameters through the kernel to a timestamp.
\<close>

section \<open>Reading\<close>

abbreviation BPF_T_FAST :: uint64 where "BPF_T_FAST \<equiv> 0x0100"
abbreviation BPF_T_MONOTONIC :: uint64 where "BPF_T_MONOTONIC \<equiv> 0x0200"
abbreviation BPF_T_FLAG_MASK :: uint64 where "BPF_T_FLAG_MASK \<equiv> 0x0300"

text \<open>
  The counter. \<open>tsc\<close> tells whether the clock source is the TSC, \<open>rdtsc\<close> is \<open>None\<close> on a machine
  without it, \<open>clock_read\<close> the value of the clock source and \<open>delta\<close> its distance from the tick.
\<close>

definition ffclock_read_counter :: "bool \<Rightarrow> bool \<Rightarrow> uint64 option \<Rightarrow> uint64 \<Rightarrow> uint64 \<Rightarrow> fftimehands \<Rightarrow> uint64" where
  "ffclock_read_counter bypass tsc rdtsc clock_read delta h =
     (if bypass \<and> tsc then (case rdtsc of Some v \<Rightarrow> v | None \<Rightarrow> 0)
      else if bypass then clock_read
      else fh_tick_ffcount h + delta)"

definition tick_clock :: "uint64 \<Rightarrow> fftimehands \<Rightarrow> kbintime \<times> uint64" where
  "tick_clock clock h =
     (if clock = BPF_T_FFNATIVECLOCK then (fh_tick_time h, ce_period (fh_cest h))
      else if clock = BPF_T_FFDIFFCLOCK then (fh_tick_time_diff h, ce_period (fh_cest h))
      else (fh_tick_time_lerp h, fh_period_lerp h))"

definition advance_to :: "uint64 \<Rightarrow> uint64 \<Rightarrow> kbintime \<Rightarrow> uint64 \<Rightarrow> kbintime" where
  "advance_to ffc tick_ffcount bt period =
     (if ffc > tick_ffcount then bintime_add bt (ffclock_convert_delta (ffc - tick_ffcount) period)
      else bintime_sub bt (ffclock_convert_delta (tick_ffcount - ffc) period))"

definition sub_leap :: "uint64 \<Rightarrow> ffclock_estimate \<Rightarrow> kbintime \<Rightarrow> kbintime" where
  "sub_leap ffc cest bt =
     (let sec = kb_sec bt - scast (ce_leapsec_total cest)
      in bt\<lparr>kb_sec := (if ce_leapsec_expected cest \<noteq> 0 \<and> ffc > ce_leapsec_expected cest
                       then sec - scast (ce_leapsec_next cest) else sec)\<rparr>)"

text \<open>
  The body of the retry loop for a feed-forward clock. The global boot time is loaded up to three
  times, for the comparison, for the lower bound and for the subtraction; \<open>read_hands\<close> is the body
  when the three loads see the same value.
\<close>

definition uptime_mode :: "uint64 \<Rightarrow> bool" where
  "uptime_mode tsmode \<longleftrightarrow> (tsmode AND BPF_T_FLAG_MASK) AND BPF_T_MONOTONIC = BPF_T_MONOTONIC"

definition read_body :: "uint64 \<Rightarrow> uint64 \<Rightarrow> kbintime \<Rightarrow> kbintime \<Rightarrow> kbintime \<Rightarrow> fftimehands \<Rightarrow> kbintime" where
  "read_body tsmode ffc boot_cmp boot_min boot_sub h =
     (let clock = tsmode AND BPF_T_CLOCK_MASK; flag = tsmode AND BPF_T_FLAG_MASK;
          (bt, period) = tick_clock clock h;
          bt = (if flag AND BPF_T_FAST \<noteq> BPF_T_FAST then advance_to ffc (fh_tick_ffcount h) bt period else bt);
          bt = (if clock < BPF_T_FFDIFFCLOCK then sub_leap ffc (fh_cest h) bt else bt)
      in if uptime_mode tsmode
         then bintime_sub (if bintime_gt boot_cmp bt then boot_min else bt) boot_sub
         else bt)"

definition read_hands :: "uint64 \<Rightarrow> uint64 \<Rightarrow> kbintime \<Rightarrow> fftimehands \<Rightarrow> kbintime" where
  "read_hands tsmode ffc boottime h = read_body tsmode ffc boottime boottime boottime h"

lemmas read_hands_body = read_hands_def read_body_def uptime_mode_def



section \<open>Readers and the ring\<close>

text \<open>
  The tick code fills the entry after the current one in many stores: it clears the generation,
  writes the fields, sets the generation and moves the pointer. \<open>rg_ogen\<close> is the old generation it
  keeps in between. A store function changes the fields of the entry but not its generation.
  The boot time is a global of two words that no generation protects: a tick that regains
  synchronisation, and a reset of the clock, store them one by one.
\<close>

record ring =
  rg_slots :: "fftimehands list"
  rg_cur :: nat
  rg_ogen :: "uint8 option"
  rg_boot :: kbintime

datatype ring_action = Begin | Store "fftimehands \<Rightarrow> fftimehands" | Boot_frac uint64 | Boot_sec uint64 | Publish

fun ring_step :: "ring_action \<Rightarrow> ring \<Rightarrow> ring" where
  "ring_step Begin r =
     (let k = next_hands (rg_cur r)
      in case rg_ogen r of
           None \<Rightarrow> r\<lparr>rg_slots := (rg_slots r)[k := (rg_slots r ! k)\<lparr>fh_gen := 0\<rparr>],
                     rg_ogen := Some (fh_gen (rg_slots r ! k))\<rparr>
         | Some _ \<Rightarrow> r)"
| "ring_step (Store f) r =
     (let k = next_hands (rg_cur r)
      in case rg_ogen r of
           None \<Rightarrow> r
         | Some _ \<Rightarrow> r\<lparr>rg_slots := (rg_slots r)[k := (f (rg_slots r ! k))\<lparr>fh_gen := 0\<rparr>]\<rparr>)"
| "ring_step (Boot_frac x) r = r\<lparr>rg_boot := (rg_boot r)\<lparr>kb_frac := x\<rparr>\<rparr>"
| "ring_step (Boot_sec x) r = r\<lparr>rg_boot := (rg_boot r)\<lparr>kb_sec := x\<rparr>\<rparr>"
| "ring_step Publish r =
     (let k = next_hands (rg_cur r)
      in case rg_ogen r of
           None \<Rightarrow> r
         | Some ogen \<Rightarrow> r\<lparr>rg_slots := (rg_slots r)[k := (rg_slots r ! k)\<lparr>fh_gen := bump_gen ogen\<rparr>],
                          rg_cur := k, rg_ogen := None\<rparr>)"

definition ring_run :: "ring_action list \<Rightarrow> ring \<Rightarrow> ring" where
  "ring_run acts r = fold ring_step acts r"

definition ring_of :: "ffclock \<Rightarrow> ring" where
  "ring_of s = \<lparr>rg_slots = fc_ffth s, rg_cur = fc_cur s, rg_ogen = None, rg_boot = fc_boottime s\<rparr>"

text \<open>The tick functions of the model are such sequences of stores.\<close>

lemma publish_is_run:
  assumes "ffclock_ok s"
  shows "ring_of (publish_hands h s) = ring_run [Begin, Store (\<lambda>_. h), Publish] (ring_of s)"
    and "ring_of (publish_hands h (s\<lparr>fc_boottime := b, fc_status := x, fc_updated := y\<rparr>))
      = ring_run [Begin, Boot_frac (kb_frac b), Boot_sec (kb_sec b), Store (\<lambda>_. h), Publish] (ring_of s)"
proof -
  have "(fc_boottime s)\<lparr>kb_frac := kb_frac b, kb_sec := kb_sec b\<rparr> = b" by (cases b; cases "fc_boottime s") simp
  then show "ring_of (publish_hands h s) = ring_run [Begin, Store (\<lambda>_. h), Publish] (ring_of s)"
    "ring_of (publish_hands h (s\<lparr>fc_boottime := b, fc_status := x, fc_updated := y\<rparr>))
      = ring_run [Begin, Boot_frac (kb_frac b), Boot_sec (kb_sec b), Store (\<lambda>_. h), Publish] (ring_of s)"
    using assms next_hands_less [of "fc_cur s"]
    by (simp_all add: ring_run_def ring_of_def publish_hands_def Let_def ffclock_ok_def)
qed

definition ring_ok :: "ring \<Rightarrow> bool" where
  "ring_ok r \<longleftrightarrow> length (rg_slots r) = FFTH_SIZE \<and> rg_cur r < FFTH_SIZE
     \<and> (rg_ogen r \<noteq> None \<longrightarrow> fh_gen (rg_slots r ! next_hands (rg_cur r)) = 0)"

lemma ring_of_ok: "ffclock_ok s \<Longrightarrow> ring_ok (ring_of s)"
  by (simp add: ring_ok_def ring_of_def ffclock_ok_def)

lemma ring_step_ok: "ring_ok r \<Longrightarrow> ring_ok (ring_step a r)"
  by (cases a) (auto simp: ring_ok_def Let_def next_hands_less split: option.split)

definition writing :: "nat \<Rightarrow> ring \<Rightarrow> bool" where
  "writing k r \<longleftrightarrow> rg_ogen r \<noteq> None \<and> next_hands (rg_cur r) = k"

lemma bump_nonzero: "bump_gen g \<noteq> 0"
  by (simp add: bump_gen_def)

lemma bump_pow:
  assumes "g \<noteq> 0"
  shows "unat ((bump_gen ^^ c) g) = (unat g - 1 + c) mod 255 + 1"
proof (induction c)
  case 0
  have "unat g < 256" using unsigned_less [of g, where ?'a = nat] by simp
  moreover have "0 < unat g" using assms by (simp add: unat_gt_0)
  ultimately show ?case by simp
next
  case (Suc c)
  have step: "unat (bump_gen x) = unat x mod 255 + 1" for x
  proof (cases "x = 255")
    case False
    have "unat x < 256" using unsigned_less [of x, where ?'a = nat] by simp
    moreover have "unat x \<noteq> 255" using False by (auto simp: word_unat_eq_iff)
    ultimately have x: "unat x < 255" by simp
    then have "unat (x + 1) = unat x + 1" by (simp add: unat_word_ariths)
    then show ?thesis using x by (auto simp: bump_gen_def unat_eq_zero [symmetric])
  qed (simp add: bump_gen_def)
  show ?case by (simp add: step Suc mod_simps)
qed

lemma mod_shift_fixed: "(a :: nat) < m \<Longrightarrow> c < m \<Longrightarrow> (a + c) mod m = a \<Longrightarrow> c = 0"
  by (cases "a + c < m") (auto simp: le_mod_geq)

lemma bump_cycle:
  assumes "g \<noteq> 0" "c < 255" "(bump_gen ^^ c) g = g"
  shows "c = 0"
proof (rule mod_shift_fixed [of "unat g - 1" 255])
  show "unat g - 1 < 255" using unsigned_less [of g, where ?'a = nat] assms(1) by (simp add: unat_gt_0)
  show "(unat g - 1 + c) mod 255 = unat g - 1" using bump_pow [OF assms(1), of c] unfolding assms(3) by linarith
qed (rule assms)


text \<open>What one store of the writer does to a given entry.\<close>

lemma slot_step:
  assumes "ring_ok r" "k < FFTH_SIZE"
  shows "(rg_slots (ring_step a r) ! k = rg_slots r ! k \<and> \<not> writing k r \<and> \<not> writing k (ring_step a r))
    \<or> (\<not> writing k r \<and> writing k (ring_step a r) \<and> rg_ogen (ring_step a r) = Some (fh_gen (rg_slots r ! k)))
    \<or> (writing k r \<and> writing k (ring_step a r) \<and> rg_ogen (ring_step a r) = rg_ogen r)
    \<or> (a = Publish \<and> writing k r \<and> \<not> writing k (ring_step a r)
         \<and> fh_gen (rg_slots (ring_step a r) ! k) = bump_gen (the (rg_ogen r)))"
proof -
  have len: "k < length (rg_slots r)" using assms by (simp add: ring_ok_def)
  show ?thesis
  proof (cases "rg_ogen r")
    case None
    then show ?thesis using len
      by (cases a; cases "next_hands (rg_cur r) = k") (simp_all add: writing_def Let_def)
  next
    case (Some ogen)
    then show ?thesis using len
      by (cases a; cases "next_hands (rg_cur r) = k") (simp_all add: writing_def Let_def)
  qed
qed

lemma ring_run_ok: "ring_ok r \<Longrightarrow> ring_ok (ring_run acts r)"
  by (induction acts arbitrary: r) (simp_all add: ring_run_def ring_step_ok)

lemma writing_gen: "ring_ok r \<Longrightarrow> writing k r \<Longrightarrow> fh_gen (rg_slots r ! k) = 0"
  by (auto simp: ring_ok_def writing_def)

lemma ring_run_snoc: "ring_run (acts @ [a]) r = ring_step a (ring_run acts r)"
  by (simp add: ring_run_def)

definition publications :: "ring_action list \<Rightarrow> nat" where
  "publications acts = length (filter (\<lambda>a. a = Publish) acts)"

text \<open>
  The history of an entry: \<open>c\<close> counts its publications. As long as it is 0 and the entry is not
  being written, it has not been touched.
\<close>

definition untouched :: "nat \<Rightarrow> ring_action list \<Rightarrow> ring \<Rightarrow> bool" where
  "untouched k acts r \<longleftrightarrow> (\<forall>t \<le> length acts. rg_slots (ring_run (take t acts) r) ! k = rg_slots r ! k)"

lemma untouched_snoc:
  "untouched k acts r \<Longrightarrow> rg_slots (ring_run (acts @ [a]) r) ! k = rg_slots r ! k \<Longrightarrow> untouched k (acts @ [a]) r"
  by (auto simp: untouched_def le_Suc_eq)

lemma slot_history:
  assumes "ring_ok r" "k < FFTH_SIZE" "\<not> writing k r" "g = fh_gen (rg_slots r ! k)"
  shows "\<exists>c \<le> publications acts.
    if writing k (ring_run acts r) then rg_ogen (ring_run acts r) = Some ((bump_gen ^^ c) g)
    else fh_gen (rg_slots (ring_run acts r) ! k) = (bump_gen ^^ c) g \<and> (c = 0 \<longrightarrow> untouched k acts r)"
proof (induction acts rule: rev_induct)
  case Nil
  show ?case using assms(3,4) by (simp add: ring_run_def untouched_def publications_def)
next
  case (snoc a acts)
  let ?r = "ring_run acts r"
  obtain c where c: "c \<le> publications acts"
    "writing k ?r \<Longrightarrow> rg_ogen ?r = Some ((bump_gen ^^ c) g)"
    "\<not> writing k ?r \<Longrightarrow> fh_gen (rg_slots ?r ! k) = (bump_gen ^^ c) g \<and> (c = 0 \<longrightarrow> untouched k acts r)"
    using snoc.IH by (metis (full_types))
  have le: "c \<le> publications (acts @ [a])" "a = Publish \<Longrightarrow> Suc c \<le> publications (acts @ [a])"
    using c(1) by (simp_all add: publications_def)
  have last: "rg_slots ?r ! k = rg_slots r ! k" if "untouched k acts r"
    using that by (simp add: untouched_def) (metis order_refl take_all)
  consider (other) "rg_slots (ring_step a ?r) ! k = rg_slots ?r ! k" "\<not> writing k ?r" "\<not> writing k (ring_step a ?r)"
    | (start) "\<not> writing k ?r" "writing k (ring_step a ?r)" "rg_ogen (ring_step a ?r) = Some (fh_gen (rg_slots ?r ! k))"
    | (storing) "writing k ?r" "writing k (ring_step a ?r)" "rg_ogen (ring_step a ?r) = rg_ogen ?r"
    | (publish) "a = Publish" "writing k ?r" "\<not> writing k (ring_step a ?r)"
        "fh_gen (rg_slots (ring_step a ?r) ! k) = bump_gen (the (rg_ogen ?r))"
    using slot_step [OF ring_run_ok [OF assms(1)] assms(2)] by blast
  then show ?case
  proof cases
    case other
    then show ?thesis using c(3) le(1) last
      by (intro exI [of _ c]) (auto simp: ring_run_snoc intro: untouched_snoc)
  next
    case start
    then show ?thesis using c(3) le(1) by (intro exI [of _ c]) (auto simp: ring_run_snoc)
  next
    case storing
    then show ?thesis using c(2) le(1) by (intro exI [of _ c]) (auto simp: ring_run_snoc)
  next
    case publish
    then show ?thesis using c(2) le(2) by (intro exI [of _ "Suc c"]) (auto simp: ring_run_snoc)
  qed
qed

lemma same_gen_untouched:
  assumes "ring_ok r" "k < FFTH_SIZE" "fh_gen (rg_slots r ! k) \<noteq> 0" "publications acts < 255"
    and "fh_gen (rg_slots (ring_run acts r) ! k) = fh_gen (rg_slots r ! k)"
  shows "untouched k acts r"
proof -
  have "\<not> writing k r" "\<not> writing k (ring_run acts r)"
    using assms(3,5) writing_gen [OF assms(1)] writing_gen [OF ring_run_ok [OF assms(1)]] by auto
  then show ?thesis
    using slot_history [OF assms(1,2) _ refl, of acts] bump_cycle [OF assms(3)] assms(4,5) by fastforce
qed

text \<open>
  One turn of the reader's loop: it has taken a pointer to entry \<open>k\<close> and reads the generation, then
  every field and each word of the boot time at a moment of its own while the writer runs \<open>acts\<close>
  (\<open>tm i\<close> is the number of stores done at load \<open>i\<close>), then the generation again. \<open>None\<close> is
  another turn.
\<close>

definition read_fields :: "(nat \<Rightarrow> nat) \<Rightarrow> nat \<Rightarrow> ring_action list \<Rightarrow> ring \<Rightarrow> fftimehands" where
  "read_fields tm k acts r =
     (let h = (\<lambda>i. rg_slots (ring_run (take (tm i) acts) r) ! k)
      in \<lparr>fh_cest = (fh_cest (h 0))\<lparr>ce_period := ce_period (fh_cest (h 1)),
            ce_leapsec_total := ce_leapsec_total (fh_cest (h 2)),
            ce_leapsec_expected := ce_leapsec_expected (fh_cest (h 3)),
            ce_leapsec_next := ce_leapsec_next (fh_cest (h 4))\<rparr>,
          fh_tick_time = fh_tick_time (h 5), fh_tick_time_lerp = fh_tick_time_lerp (h 6),
          fh_tick_time_diff = fh_tick_time_diff (h 7), fh_tick_error = fh_tick_error (h 8),
          fh_tick_ffcount = fh_tick_ffcount (h 9), fh_period_lerp = fh_period_lerp (h 10), fh_gen = fh_gen (h 11)\<rparr>)"

definition read_boot :: "(nat \<Rightarrow> nat) \<Rightarrow> nat \<Rightarrow> ring_action list \<Rightarrow> ring \<Rightarrow> kbintime" where
  "read_boot tm i acts r =
     \<lparr>kb_sec = kb_sec (rg_boot (ring_run (take (tm i) acts) r)),
      kb_frac = kb_frac (rg_boot (ring_run (take (tm (i + 1)) acts) r))\<rparr>"

definition read_attempt ::
    "uint64 \<Rightarrow> uint64 \<Rightarrow> (nat \<Rightarrow> nat) \<Rightarrow> nat \<Rightarrow> ring_action list \<Rightarrow> ring \<Rightarrow> kbintime option" where
  "read_attempt tsmode ffc tm k acts r =
     (let gen = fh_gen (rg_slots r ! k);
          bt = read_body tsmode ffc (read_boot tm 12 acts r) (read_boot tm 14 acts r) (read_boot tm 16 acts r)
                 (read_fields tm k acts r)
      in if gen = 0 \<or> gen \<noteq> fh_gen (rg_slots (ring_run acts r) ! k) then None else Some bt)"

lemma untouched_fields:
  assumes "untouched k acts r"
  shows "read_fields tm k acts r = rg_slots r ! k"
proof -
  have "rg_slots (ring_run (take t acts) r) ! k = rg_slots r ! k" for t
    using assms by (cases "t \<le> length acts") (auto simp: untouched_def)
  then show ?thesis unfolding read_fields_def Let_def by simp
qed

fun boot_store :: "ring_action \<Rightarrow> bool" where
  "boot_store (Boot_frac _) = True"
| "boot_store (Boot_sec _) = True"
| "boot_store _ = False"

lemma boot_unchanged: "\<not> list_ex boot_store acts \<Longrightarrow> rg_boot (ring_run acts r) = rg_boot r"
proof (induction acts arbitrary: r)
  case (Cons a acts)
  have "rg_boot (ring_step a r) = rg_boot r" using Cons.prems by (cases a) (simp_all add: Let_def split: option.split)
  then show ?case using Cons by (simp add: ring_run_def)
qed (simp add: ring_run_def)

lemma read_boot_stable:
  assumes "\<not> list_ex boot_store acts"
  shows "read_boot tm i acts r = rg_boot r"
proof -
  have "\<not> list_ex boot_store (take t acts)" for t using assms by (auto simp: list_ex_iff dest: in_set_takeD)
  then show ?thesis by (simp add: read_boot_def boot_unchanged)
qed

text \<open>
  C9: Readers of the tick states need no lock. Whatever the tick code stores while a reader goes
  through the fields of an entry, and whenever each field is read, a turn of the reader's loop
  that sees the same nonzero generation at both ends works on one published tick state, the one
  whose generation it first saw. The time it returns is the reading of that state, unless the
  mode asks for an uptime and the boot time is being stored during the turn: then the state is
  still the published one, but the loads of the boot time come from different moments. The
  generation has 8 bits and skips 0, so this holds for turns with fewer than 255 ticks. A
  turn undisturbed by the writer is always the last one.
\<close>

theorem tick_read_consistent:
  assumes "ring_ok r" "k < FFTH_SIZE" "publications acts < 255"
  shows "case read_attempt tsmode ffc tm k acts r of
      None \<Rightarrow> acts \<noteq> [] \<or> fh_gen (rg_slots r ! k) = 0
    | Some bt \<Rightarrow> fh_gen (rg_slots r ! k) \<noteq> 0
        \<and> bt = read_body tsmode ffc (read_boot tm 12 acts r) (read_boot tm 14 acts r) (read_boot tm 16 acts r) (rg_slots r ! k)
        \<and> (bt = read_hands tsmode ffc (rg_boot r) (rg_slots r ! k) \<or> uptime_mode tsmode \<and> list_ex boot_store acts)"
proof (cases "read_attempt tsmode ffc tm k acts r")
  case None
  then have "fh_gen (rg_slots r ! k) = 0 \<or> fh_gen (rg_slots r ! k) \<noteq> fh_gen (rg_slots (ring_run acts r) ! k)"
    unfolding read_attempt_def Let_def by (simp only: option.distinct split: if_splits)
  then show ?thesis using None by (cases "acts = []") (simp_all add: ring_run_def)
next
  case (Some bt)
  let ?body = "\<lambda>h. read_body tsmode ffc (read_boot tm 12 acts r) (read_boot tm 14 acts r) (read_boot tm 16 acts r) h"
  have g: "fh_gen (rg_slots r ! k) \<noteq> 0" "fh_gen (rg_slots (ring_run acts r) ! k) = fh_gen (rg_slots r ! k)"
    and b: "bt = ?body (read_fields tm k acts r)"
    using Some unfolding read_attempt_def Let_def by (auto simp only: option.inject option.distinct split: if_splits)
  have b': "bt = ?body (rg_slots r ! k)"
    using b untouched_fields [OF same_gen_untouched [OF assms(1,2) g(1) assms(3) g(2)]] by simp
  moreover have "bt = read_hands tsmode ffc (rg_boot r) (rg_slots r ! k)"
    if "\<not> (uptime_mode tsmode \<and> list_ex boot_store acts)"
  proof (cases "uptime_mode tsmode")
    case True
    then show ?thesis using that b' by (simp add: read_hands_def read_boot_stable)
  next
    case False
    then show ?thesis unfolding b' read_hands_def read_body_def by simp
  qed
  ultimately show ?thesis using Some g(1) by auto
qed

definition demo_ring :: ring where
  "demo_ring = \<lparr>rg_slots = replicate FFTH_SIZE (zero_hands\<lparr>fh_gen := 3, fh_tick_time_lerp := \<lparr>kb_sec = 7, kb_frac = 5\<rparr>\<rparr>),
     rg_cur = 4, rg_ogen = None, rg_boot = bintime_clear\<rparr>"

theorem tick_read_consistent_witness:
  "read_attempt 0x2000 0 (\<lambda>i. i) 4 [Begin, Store (\<lambda>h. h\<lparr>fh_tick_ffcount := 9\<rparr>), Boot_sec 2, Publish] demo_ring
     = Some (read_hands 0x2000 0 bintime_clear (rg_slots demo_ring ! 4))"
proof -
  have ok: "ring_ok demo_ring" by (simp add: ring_ok_def demo_ring_def)
  let ?a = "[Begin, Store (\<lambda>h. h\<lparr>fh_tick_ffcount := 9\<rparr>), Boot_sec 2, Publish]"
  have "read_attempt 0x2000 0 (\<lambda>i. i) 4 ?a demo_ring \<noteq> None"
    by (simp add: read_attempt_def Let_def demo_ring_def ring_run_def next_hands_def)
  moreover have "\<not> uptime_mode 0x2000" "rg_boot demo_ring = bintime_clear" by (simp_all add: uptime_mode_def demo_ring_def)
  ultimately show ?thesis
    using tick_read_consistent [OF ok, of 4 ?a "0x2000" 0 "\<lambda>i. i"]
    by (auto simp: publications_def split: option.splits)
qed

text \<open>
  An uptime can indeed come from no moment at all: here the seconds of the boot time are stored
  between the loads of a turn that succeeds, and the result is neither the uptime with the old
  boot time nor the one with the new.
\<close>

lemma uptime_from_no_moment:
  "\<exists>bt. read_attempt 0x2300 0 (\<lambda>i. if i = 16 then 0 else 2) 4 [Boot_frac 1, Boot_sec 3] demo_ring = Some bt
     \<and> bt \<noteq> read_hands 0x2300 0 bintime_clear (rg_slots demo_ring ! 4)
     \<and> bt \<noteq> read_hands 0x2300 0 \<lparr>kb_sec = 3, kb_frac = 1\<rparr> (rg_slots demo_ring ! 4)"
  by (simp add: read_attempt_def Let_def demo_ring_def ring_run_def read_boot_def read_fields_def read_hands_def read_body_def
      uptime_mode_def tick_clock_def bintime_clear_def zero_hands_def sub_leap_def zero_estimate_def bintime_sub_def bintime_gt_def
      word_sless_alt)

section \<open>From the daemon to a timestamp\<close>

text \<open>
  Sending the daemon's data to the kernel. The arguments of \<open>radclock_gnl_set_attr\<close> are the results
  of the calls of the netlink library in the order of the calls; \<open>gnl_payload\<close> is the attribute,
  the bytes of \<^verbatim>\<open>struct ffclock_data\<close>, which the kernel takes for a \<^verbatim>\<open>struct ffclock_estimate\<close>.
\<close>

definition radclock_gnl_set_attr :: "bool \<Rightarrow> bool \<Rightarrow> int \<Rightarrow> int \<Rightarrow> int \<Rightarrow> int \<Rightarrow> int" where
  "radclock_gnl_set_attr msg sk connect put send ack =
     (if \<not> msg then -1
      else if \<not> sk then -1
      else if connect < 0 then -1
      else if put \<noteq> 0 then -1
      else let ret = (if send < 0 then 1 else 0)
           in if ret \<noteq> 0 then ret else ack)"


text \<open>
  The assignment in the test of the send binds weaker than the comparison, so that a failed send
  gives 1, which the caller takes for success.
\<close>

lemma failed_send_is_success:
  "send < 0 \<Longrightarrow> connect \<ge> 0 \<Longrightarrow>
   set_kernel_ffclock_linux 2 (radclock_gnl_set_attr True True connect 0 send ack) = (0, True)"
  by (simp add: radclock_gnl_set_attr_def set_kernel_ffclock_linux_def)


definition leaps_at :: "ffclock_estimate \<Rightarrow> uint64 \<Rightarrow> int" where
  "leaps_at cest ffc = sint (ce_leapsec_total cest)
     + (if ce_leapsec_expected cest \<noteq> 0 \<and> ffc > ce_leapsec_expected cest then sint (ce_leapsec_next cest) else 0)"

lemma sub_leap_val: "bt_val (sub_leap ffc cest bt) = bt_val bt - word_of_int (leaps_at cest ffc * 2 ^ 64)"
proof -
  have "sub_leap ffc cest bt = \<lparr>kb_sec = word_of_int (uint (kb_sec bt) - leaps_at cest ffc), kb_frac = kb_frac bt\<rparr>"
    by (simp add: sub_leap_def Let_def leaps_at_def)
  then have "bt_val (sub_leap ffc cest bt) = word_of_int ((uint (kb_sec bt) - leaps_at cest ffc) * 2 ^ 64 + uint (kb_frac bt))"
    by (simp only: bt_val_mk)
  also have "\<dots> = word_of_int ((uint (kb_sec bt) * 2 ^ 64 + uint (kb_frac bt)) - leaps_at cest ffc * 2 ^ 64)"
    by (rule arg_cong [where f = word_of_int]) (simp add: algebra_simps)
  finally show ?thesis by (simp only: bt_val_def of_int_diff)
qed













text \<open>
  Two defects of the uptime readings. Leap seconds are taken off before the boot time is, so
  that the clock for the time since boot steps at a leap second, unlike a monotonic clock. And a
  tick that regains synchronisation changes the boot time before it publishes the new
  entry, so that a reader of the old entry, whose generation has not changed, uses both.
\<close>

lemma uptime_steps_at_leap:
  assumes "clock < BPF_T_FFDIFFCLOCK" "tsmode AND BPF_T_CLOCK_MASK = clock" "tsmode AND BPF_T_FLAG_MASK = BPF_T_MONOTONIC"
    and "ce_leapsec_expected (fh_cest h) = 0" "h' = h\<lparr>fh_cest := (fh_cest h)\<lparr>ce_leapsec_total := ce_leapsec_total (fh_cest h) + 1\<rparr>\<rparr>"
    and "ce_leapsec_total (fh_cest h) = 0"
    and "\<not> bintime_gt boottime (advance_to ffc (fh_tick_ffcount h) (fst (tick_clock clock h)) (snd (tick_clock clock h)))"
      "\<not> bintime_gt boottime (sub_leap ffc (fh_cest h') (advance_to ffc (fh_tick_ffcount h) (fst (tick_clock clock h)) (snd (tick_clock clock h))))"
  shows "bt_val (read_hands tsmode ffc boottime h') = bt_val (read_hands tsmode ffc boottime h) - 2 ^ 64"
proof -
  have t: "tick_clock clock h' = tick_clock clock h" "fh_tick_ffcount h' = fh_tick_ffcount h" by (simp_all add: assms(5) tick_clock_def)
  have l: "leaps_at (fh_cest h) ffc = 0" "leaps_at (fh_cest h') ffc = 1" using assms(4,6) by (simp_all add: leaps_at_def assms(5))
  have z: "sub_leap ffc (fh_cest h) x = x" for x using sub_leap_val [of ffc "fh_cest h" x] l(1) by (simp add: bt_val_inj)
  show ?thesis
    using assms(1-3,7,8) by (simp add: read_hands_body Let_def t bt_val_sub split_beta sub_leap_val l z)
qed

lemma uptime_race:
  assumes "regains_sync s" "update_hands ffdelta s slot = Some (h, boot)"
  shows "cur_hands (s\<lparr>fc_boottime := boot\<rparr>) = cur_hands s"
    "uptime (s\<lparr>fc_boottime := boot\<rparr>) = uptime s - (bt_val (fh_tick_time h)
       - (bt_val (fh_tick_time_lerp (cur_hands s)) + ucast ffdelta * ucast (fh_period_lerp (cur_hands s))))"
proof -
  show "cur_hands (s\<lparr>fc_boottime := boot\<rparr>) = cur_hands s" by (simp add: cur_hands_def)
  let ?lerp = "bintime_add (fh_tick_time_lerp (cur_hands s)) (ffclock_convert_delta ffdelta (fh_period_lerp (cur_hands s)))"
  obtain fwd gap where g: "lerp_gap (fh_tick_time h) ?lerp = (fwd, gap)" by fastforce
  have "fh_tick_time h = bintime_add (ce_update_time (fc_estimate s)) (ffclock_convert_delta
      (fh_tick_ffcount (cur_hands s) + ffdelta - ce_update_ffcount (fc_estimate s)) (ce_period (fc_estimate s)))"
    using assms(2) unfolding update_hands_def Let_def by (auto split: prod.splits)
  then have "boot = (if fwd then bintime_add (fc_boottime s) gap else bintime_sub (fc_boottime s) gap)"
    using assms g unfolding update_hands_def Let_def by (auto split: prod.splits)
  then show "uptime (s\<lparr>fc_boottime := boot\<rparr>) = uptime s - (bt_val (fh_tick_time h)
       - (bt_val (fh_tick_time_lerp (cur_hands s)) + ucast ffdelta * ucast (fh_period_lerp (cur_hands s))))"
    using lerp_gap_val [OF g]
    by (cases fwd) (simp_all add: uptime_def cur_hands_def bt_val_add bt_val_sub convert_delta_val algebra_simps)
qed

end
