(* ===== verification/Ascii_Stamps.thy ===== *)
theory Ascii_Stamps
  imports Packet_Capture
begin

text \<open>
  Stamps as text: the stamp file the daemon writes (\<^verbatim>\<open>open_output_stamp\<close> and the first part of
  \<^verbatim>\<open>print_out_files\<close> of \<^verbatim>\<open>radclock/stampoutput.c\<close>) and the source that reads such files back
  (\<^verbatim>\<open>radclock/stampinput-ascii.c\<close>).

  A file is the list of characters still to be read. The conversions of \<^verbatim>\<open>fscanf\<close> and
  \<^verbatim>\<open>fprintf\<close> the code uses are written out: leading white space, newlines included, is skipped;
  \<^verbatim>\<open>%llu\<close> saturates; \<^verbatim>\<open>%Lf\<close> reads decimal notation without exponent, the only one
  \<^verbatim>\<open>print_out_files\<close> writes; an out of range \<^verbatim>\<open>%d\<close> stores the low 32 bits, as glibc does;
  \<^verbatim>\<open>%.9Lf\<close> rounds to nearest, ties to even. A loop that reads past the end of the file for ever
  is \<open>None\<close>.
\<close>

section \<open>Reading and writing numbers\<close>

definition newline :: char where "newline = CHR 0x0A"

definition is_space :: "char \<Rightarrow> bool" where
  "is_space c \<longleftrightarrow> c = CHR 0x20 \<or> (9 \<le> (of_char c :: nat) \<and> (of_char c :: nat) \<le> 13)"

definition is_digit :: "char \<Rightarrow> bool" where
  "is_digit c \<longleftrightarrow> 48 \<le> (of_char c :: nat) \<and> (of_char c :: nat) \<le> 57"

definition digit :: "nat \<Rightarrow> char" where
  "digit k = char_of (48 + k)"

definition dval :: "char \<Rightarrow> nat" where
  "dval c = of_char c - 48"

definition num_val :: "string \<Rightarrow> nat" where
  "num_val ds = foldl (\<lambda>a c. 10 * a + dval c) 0 ds"

fun digits :: "nat \<Rightarrow> string" where
  "digits n = (if n < 10 then [digit n] else digits (n div 10) @ [digit (n mod 10)])"

declare digits.simps [simp del]

fun fixed_digits :: "nat \<Rightarrow> nat \<Rightarrow> string" where
  "fixed_digits 0 n = []"
| "fixed_digits (Suc k) n = fixed_digits k (n div 10) @ [digit (n mod 10)]"

text \<open>The printf conversions.\<close>

definition show_d :: "int \<Rightarrow> string" where
  "show_d i = (if i < 0 then CHR ''-'' # digits (nat (- i)) else digits (nat i))"

definition show_llu :: "uint64 \<Rightarrow> string" where
  "show_llu x = digits (unat x)"

definition show_9Lf :: "real \<Rightarrow> string" where
  "show_9Lf x =
     (let n = nat \<bar>round_even (x * 10 ^ 9)\<bar>
      in (if x < 0 then [CHR ''-''] else []) @ digits (n div 10 ^ 9) @ [CHR ''.''] @ fixed_digits 9 (n mod 10 ^ 9))"

text \<open>The scanf conversions: the value, or \<open>None\<close> for a matching failure, and the rest of the input.\<close>

fun scan_sign :: "string \<Rightarrow> bool \<times> string" where
  "scan_sign [] = (False, [])"
| "scan_sign (c # s) = (if c = CHR ''-'' then (True, s) else if c = CHR ''+'' then (False, s) else (False, c # s))"

definition scan_nat :: "string \<Rightarrow> (bool \<times> nat) option \<times> string" where
  "scan_nat s =
     (let (neg, s) = scan_sign (dropWhile is_space s); ds = takeWhile is_digit s
      in (if ds = [] then (None, s) else (Some (neg, num_val ds), dropWhile is_digit s)))"

definition scan_llu :: "string \<Rightarrow> uint64 option \<times> string" where
  "scan_llu s =
     (case scan_nat s of
        (None, s) \<Rightarrow> (None, s)
      | (Some (neg, n), s) \<Rightarrow>
          (Some (if 2 ^ 64 \<le> n then - 1 else if neg then - of_nat n else of_nat n), s))"

definition scan_d :: "string \<Rightarrow> int option \<times> string" where
  "scan_d s =
     (case scan_nat s of
        (None, s) \<Rightarrow> (None, s)
      | (Some (neg, n), s) \<Rightarrow>
          (let v = (if neg then max (- (2 ^ 63)) (- int n) else min (2 ^ 63 - 1) (int n))
           in (Some (sint (word_of_int v :: uint32)), s)))"

definition scan_Lf :: "string \<Rightarrow> real option \<times> string" where
  "scan_Lf s =
     (let (neg, s) = scan_sign (dropWhile is_space s); ds = takeWhile is_digit s; s1 = dropWhile is_digit s;
          (fs, s2) = (case s1 of c # t \<Rightarrow> if c = CHR ''.'' then (takeWhile is_digit t, dropWhile is_digit t) else ([], s1)
                              | [] \<Rightarrow> ([], s1))
      in if ds = [] \<and> fs = [] then (None, s2)
         else (Some ((if neg then - 1 else 1) * (real (num_val (ds @ fs)) / 10 ^ length fs)), s2))"

section \<open>The ascii source\<close>

text \<open>\<^verbatim>\<open>while ((fgetc(fd)) != '\n') {}\<close>\<close>

fun skip_line :: "string \<Rightarrow> string option" where
  "skip_line [] = None"
| "skip_line (c # s) = (if c = newline then Some s else skip_line s)"

lemma skip_line_length: "skip_line s = Some t \<Longrightarrow> length t < length s"
  by (induction s) (auto split: if_splits)

function skip_commentblock :: "char \<Rightarrow> string \<Rightarrow> string option" where
  "skip_commentblock commentchar [] = Some []"
| "skip_commentblock commentchar (c # s) =
     (if c = commentchar then
        (case skip_line s of None \<Rightarrow> None | Some s \<Rightarrow> skip_commentblock commentchar s)
      else Some (c # s))"
  by pat_completeness auto

termination by (relation "measure (\<lambda>(_, s). length s)") (auto dest: skip_line_length)

definition open_timestamp :: "string \<Rightarrow> string option" where
  "open_timestamp file = skip_commentblock (CHR ''%'') file"

text \<open>
  The call of \<^verbatim>\<open>fscanf\<close>: the number of conversions (-1 for end of file), the stamp with the
  converted fields, the server number and the rest of the input.
\<close>

definition scan_tail :: "stamp_t \<Rightarrow> string \<Rightarrow> int \<times> stamp_t \<times> int \<times> string" where
  "scan_tail st s =
     (case scan_llu s of
        (None, s) \<Rightarrow> (3, st, 0, s)
      | (Some f, s) \<Rightarrow>
          let st = st\<lparr>BST := (BST st)\<lparr>Tf := f\<rparr>\<rparr>
          in case scan_llu s of
               (None, s) \<Rightarrow> (4, st, 0, s)
             | (Some nonce, s) \<Rightarrow>
                 let st = st\<lparr>st_id := nonce\<rparr>
                 in case scan_d s of
                      (None, s) \<Rightarrow> (5, st, 0, s)
                    | (Some sID, s) \<Rightarrow> (6, st, sID, s))"

definition fscanf_stamp :: "stamp_t \<Rightarrow> string \<Rightarrow> int \<times> stamp_t \<times> int \<times> string" where
  "fscanf_stamp st s =
     (if dropWhile is_space s = [] then (-1, st, 0, [])
      else case scan_llu s of
        (None, s) \<Rightarrow> (0, st, 0, s)
      | (Some a, s) \<Rightarrow>
          let st = st\<lparr>BST := (BST st)\<lparr>Ta := a\<rparr>\<rparr>
          in case scan_Lf s of
               (None, s) \<Rightarrow> (1, st, 0, s)
             | (Some tb, s) \<Rightarrow>
                 let st = st\<lparr>BST := (BST st)\<lparr>Tb := tb\<rparr>\<rparr>
                 in case scan_Lf s of
                      (None, s) \<Rightarrow> (2, st, 0, s)
                    | (Some te, s) \<Rightarrow> scan_tail (st\<lparr>BST := (BST st)\<lparr>Te := te\<rparr>\<rparr>) s)"

definition asciistamp_get_next ::
    "stamp_t \<Rightarrow> timeref_stats \<Rightarrow> string \<Rightarrow> (int \<times> stamp_t \<times> timeref_stats \<times> string) option" where
  "asciistamp_get_next st stats fd =
     (case fscanf_stamp st fd of (ncols, st, input_sID, s) \<Rightarrow>
        if ncols = -1 then Some (-1, st, stats, s)
        else (case skip_line s of
                None \<Rightarrow> None
              | Some s \<Rightarrow> Some (0, st\<lparr>st_server_ipaddr := ''10.0.0.'' @ show_d input_sID, st_type := STAMP_NTP\<rparr>,
                                stats\<lparr>ref_count := ref_count stats + 2\<rparr>, s)))"

section \<open>The stamp file\<close>

definition stamp_header :: string where
  "stamp_header = concat (map (\<lambda>l. l @ [newline])
     [''% BEGIN_HEADER'', ''% description: radclock local vcounter and NTP server stamps'', ''% type: NTP_rad'',
      ''% version: 4'', ''% fields: Ta Tb Te Tf nonce [sID]'', ''% END_HEADER''])"

definition print_stamp :: "nat \<Rightarrow> nat \<Rightarrow> stamp_t \<Rightarrow> string" where
  "print_stamp nservers sID st =
     show_llu (Ta (BST st)) @ '' '' @ show_9Lf (Tb (BST st)) @ '' '' @ show_9Lf (Te (BST st)) @ '' ''
     @ show_llu (Tf (BST st)) @ '' '' @ show_llu (st_id st)
     @ (if nservers = 1 then [] else '' '' @ show_d (int sID)) @ [newline]"

section \<open>What is written is read back\<close>

lemma digit_facts:
  assumes "k < 10"
  shows "is_digit (digit k)" "dval (digit k) = k" "\<not> is_space (digit k)"
proof -
  have c: "of_char (digit k) = 48 + k" using assms by (simp add: digit_def)
  show "is_digit (digit k)" "dval (digit k) = k" using c assms by (simp_all add: is_digit_def dval_def)
  have "digit k \<noteq> CHR 0x20" using c by auto
  then show "\<not> is_space (digit k)" using c by (simp add: is_space_def)
qed

lemma digit_no_sign:
  assumes d: "is_digit c"
  shows "c \<noteq> CHR ''-''" "c \<noteq> CHR ''+''" "\<not> is_space c"
proof -
  have no: "\<not> is_digit (CHR ''-'')" "\<not> is_digit (CHR ''+'')" "\<not> is_digit (CHR 0x20)"
    by (simp_all add: is_digit_def)
  show "c \<noteq> CHR ''-''" "c \<noteq> CHR ''+''" using d no(1,2) by metis+
  have sp: "c \<noteq> CHR 0x20" using d no(3) by metis
  obtain n where n: "n = (of_char c :: nat)" by blast
  have "48 \<le> n" using d unfolding is_digit_def n by (rule conjunct1)
  then have "\<not> (9 \<le> n \<and> n \<le> 13)" by simp
  then show "\<not> is_space c" using sp unfolding is_space_def n by (metis (no_types))
qed

lemma num_val_append: "num_val (xs @ ys) = num_val xs * 10 ^ length ys + num_val ys"
proof -
  have "foldl (\<lambda>a c. 10 * a + dval c) m ys = m * 10 ^ length ys + foldl (\<lambda>a c. 10 * a + dval c) 0 ys" for m
  proof (induction ys rule: rev_induct)
    case (snoc y ys)
    then show ?case by (simp add: algebra_simps)
  qed simp
  then show ?thesis unfolding num_val_def foldl_append by blast
qed

lemma num_val_single [simp]: "num_val [c] = dval c" "num_val [] = 0"
  by (simp_all add: num_val_def)

lemma digits_val [simp]: "num_val (digits n) = n"
proof (induction n rule: digits.induct)
  case (1 n)
  then show ?case
    by (subst digits.simps) (auto simp: num_val_append digit_facts)
qed

lemma digits_all: "list_all is_digit (digits n)" "digits n \<noteq> []"
proof (induction n rule: digits.induct)
  case (1 n)
  { case 1 then show ?case using "1.IH" by (subst digits.simps) (auto simp: digit_facts) }
  { case 2 then show ?case by (subst digits.simps) auto }
qed

lemma fixed_val [simp]: "num_val (fixed_digits k n) = n mod 10 ^ k"
proof (induction k arbitrary: n)
  case (Suc k)
  have "n mod 10 ^ Suc k = 10 * (n div 10 mod 10 ^ k) + n mod 10"
    using mod_mult2_eq [of n 10 "10 ^ k"] by simp
  then show ?case using Suc by (simp add: num_val_append digit_facts)
qed simp

lemma fixed_all: "list_all is_digit (fixed_digits k n)" "length (fixed_digits k n) = k"
  by (induction k arbitrary: n) (auto simp: digit_facts)

text \<open>Where a number ends.\<close>

definition ends_number :: "string \<Rightarrow> bool" where
  "ends_number s \<longleftrightarrow> (case s of [] \<Rightarrow> True | c # _ \<Rightarrow> \<not> is_digit c)"

lemma split_digits:
  assumes "list_all is_digit ds" "ends_number s"
  shows "takeWhile is_digit (ds @ s) = ds" "dropWhile is_digit (ds @ s) = s"
  using assms by (induction ds) (auto simp: ends_number_def split: list.splits)

lemma drop_spaces: "list_all is_space sp \<Longrightarrow> \<not> is_space c \<Longrightarrow> dropWhile is_space (sp @ c # s) = c # s"
  by (induction sp) auto

lemma scan_start:
  assumes "list_all is_space sp" "list_all is_digit ds" "ds \<noteq> []"
  shows "scan_sign (dropWhile is_space (sp @ ds @ s)) = (False, ds @ s)"
    and "scan_sign (dropWhile is_space (sp @ CHR ''-'' # ds @ s)) = (True, ds @ s)"
proof -
  obtain c cs where ds: "ds = c # cs" using assms(3) by (cases ds) auto
  then have "is_digit c" using assms(2) by simp
  note c = digit_no_sign [OF this]
  show "scan_sign (dropWhile is_space (sp @ ds @ s)) = (False, ds @ s)"
    using drop_spaces [OF assms(1) c(3), of "cs @ s"] c by (simp add: ds)
  have "\<not> is_space (CHR ''-'')" by (simp add: is_space_def)
  then show "scan_sign (dropWhile is_space (sp @ CHR ''-'' # ds @ s)) = (True, ds @ s)"
    using drop_spaces [OF assms(1), of "CHR ''-''" "ds @ s"] by simp
qed

lemma scan_nat_digits:
  assumes "list_all is_space sp" "ends_number s"
  shows "scan_nat (sp @ digits n @ s) = (Some (False, n), s)"
  using scan_start(1) [OF assms(1) digits_all, of n s] split_digits [OF digits_all(1) assms(2), of n] digits_all(2) [of n]
  by (simp add: scan_nat_def)

lemma scan_llu_show:
  assumes "list_all is_space sp" "ends_number s"
  shows "scan_llu (sp @ show_llu x @ s) = (Some x, s)"
  using scan_nat_digits [OF assms, of "unat x"] unat_less_64 [of x]
  by (simp add: scan_llu_def show_llu_def of_nat_unat not_le)

lemma scan_d_digits:
  assumes "list_all is_space sp" "ends_number s"
  shows "scan_d (sp @ digits n @ s) = (Some (sint (word_of_int (min (2 ^ 63 - 1) (int n)) :: uint32)), s)"
  using scan_nat_digits [OF assms, of n] by (simp add: scan_d_def)

lemma scan_Lf_show:
  assumes "list_all is_space sp" "ends_number s"
  shows "scan_Lf (sp @ show_9Lf x @ s) = (Some (of_int (round_even (x * 10 ^ 9)) / 10 ^ 9), s)"
proof -
  let ?r = "round_even (x * 10 ^ 9)"
  let ?n = "nat \<bar>?r\<bar>"
  let ?ds = "digits (?n div 10 ^ 9)" and ?fs = "fixed_digits 9 (?n mod 10 ^ 9)"
  have val: "num_val (?ds @ ?fs) = ?n" by (simp add: num_val_append fixed_all)
  have dot: "ends_number (CHR ''.'' # ?fs @ s)" by (simp add: ends_number_def is_digit_def)
  have body: "takeWhile is_digit (?ds @ CHR ''.'' # ?fs @ s) = ?ds"
    "dropWhile is_digit (?ds @ CHR ''.'' # ?fs @ s) = CHR ''.'' # ?fs @ s"
    "takeWhile is_digit (?fs @ s) = ?fs" "dropWhile is_digit (?fs @ s) = s"
    using split_digits [OF digits_all(1) dot] split_digits [OF fixed_all(1) assms(2)] by auto
  show ?thesis
  proof (cases "x < 0")
    case True
    then have "?r \<le> 0" by (intro round_even_sign) simp
    then have "real_of_int ?r = - real ?n" by simp
    then show ?thesis
      using True scan_start(2) [OF assms(1) digits_all, of "?n div 10 ^ 9" "CHR ''.'' # ?fs @ s"] body val
      by (simp add: scan_Lf_def show_9Lf_def Let_def digits_all(2) fixed_all(2))
  next
    case False
    then have "0 \<le> ?r" by (intro round_even_sign) simp
    then have "real_of_int ?r = real ?n" by simp
    then show ?thesis
      using False scan_start(1) [OF assms(1) digits_all, of "?n div 10 ^ 9" "CHR ''.'' # ?fs @ s"] body val
      by (simp add: scan_Lf_def show_9Lf_def Let_def digits_all(2) fixed_all(2))
  qed
qed

subsection \<open>One line\<close>

definition ninth :: "real \<Rightarrow> real" where
  "ninth x = of_int (round_even (x * 10 ^ 9)) / 10 ^ 9"

lemma ninth_close: "\<bar>ninth x - x\<bar> \<le> 1 / (2 * 10 ^ 9)"
proof -
  have "ninth x - x = (of_int (round_even (x * 10 ^ 9)) - x * 10 ^ 9) / 10 ^ 9"
    by (simp add: ninth_def field_simps)
  then have "\<bar>ninth x - x\<bar> = \<bar>of_int (round_even (x * 10 ^ 9)) - x * 10 ^ 9\<bar> / 10 ^ 9"
    by (simp only: abs_divide) simp
  then show ?thesis using round_even_close [of "x * 10 ^ 9"] by simp
qed

text \<open>The stamp that comes out of a line, before the server number is known.\<close>

definition reread :: "stamp_t \<Rightarrow> stamp_t \<Rightarrow> stamp_t" where
  "reread st0 st =
     st0\<lparr>st_id := st_id st,
         BST := \<lparr>Ta = Ta (BST st), Tb = ninth (Tb (BST st)), Te = ninth (Te (BST st)), Tf = Tf (BST st)\<rparr>\<rparr>"

definition columns :: "stamp_t \<Rightarrow> string" where
  "columns st =
     show_llu (Ta (BST st)) @ '' '' @ show_9Lf (Tb (BST st)) @ '' '' @ show_9Lf (Te (BST st)) @ '' ''
     @ show_llu (Tf (BST st)) @ '' '' @ show_llu (st_id st)"

lemma print_stamp_columns:
  "print_stamp nservers sID st = columns st @ (if nservers = 1 then [] else '' '' @ show_d (int sID)) @ [newline]"
  by (simp add: print_stamp_def columns_def)

lemma space_char: "is_space (CHR '' '')" "ends_number (CHR '' '' # s)" "is_space newline" "ends_number (newline # s)"
  by (simp_all add: is_space_def ends_number_def is_digit_def newline_def)

lemma show_llu_start: "dropWhile is_space (show_llu x @ s) \<noteq> []"
proof -
  obtain c cs where c: "digits (unat x) = c # cs" using digits_all(2) by (cases "digits (unat x)") auto
  then have "is_digit c" using digits_all(1) [of "unat x"] by simp
  then show ?thesis using c digit_no_sign(3) by (simp add: show_llu_def)
qed

lemma scan_tail_columns:
  assumes "ends_number t"
  shows "scan_tail st0 (CHR '' '' # show_llu f @ CHR '' '' # show_llu i @ t) =
    (let st = st0\<lparr>st_id := i, BST := (BST st0)\<lparr>Tf := f\<rparr>\<rparr>
     in case scan_d t of (None, s) \<Rightarrow> (5, st, 0, s) | (Some sID, s) \<Rightarrow> (6, st, sID, s))"
  using scan_llu_show [of "'' ''" "CHR '' '' # show_llu i @ t" f] scan_llu_show [of "'' ''" t i] assms
  by (cases st0) (simp add: scan_tail_def space_char Let_def)

lemma fscanf_columns:
  assumes "ends_number t"
  shows "fscanf_stamp st0 (columns st @ t) =
    (case scan_d t of (None, s) \<Rightarrow> (5, reread st0 st, 0, s) | (Some sID, s) \<Rightarrow> (6, reread st0 st, sID, s))"
proof -
  let ?t3 = "'' '' @ show_llu (Tf (BST st)) @ '' '' @ show_llu (st_id st) @ t"
  let ?t2 = "'' '' @ show_9Lf (Te (BST st)) @ ?t3"
  let ?t1 = "'' '' @ show_9Lf (Tb (BST st)) @ ?t2"
  have 1: "scan_llu ([] @ show_llu (Ta (BST st)) @ ?t1) = (Some (Ta (BST st)), ?t1)"
    by (rule scan_llu_show) (simp_all add: space_char)
  have 2: "scan_Lf ?t1 = (Some (ninth (Tb (BST st))), ?t2)"
    unfolding ninth_def by (rule scan_Lf_show) (simp_all add: space_char)
  have 3: "scan_Lf ?t2 = (Some (ninth (Te (BST st))), ?t3)"
    unfolding ninth_def by (rule scan_Lf_show) (simp_all add: space_char)
  have eq: "columns st @ t = show_llu (Ta (BST st)) @ ?t1" by (simp add: columns_def)
  show ?thesis
    unfolding eq fscanf_stamp_def using show_llu_start [of "Ta (BST st)" ?t1] 1 2 3 scan_tail_columns [OF assms]
    by (simp add: Let_def reread_def split: option.split prod.split)
qed

lemma skip_to_newline: "newline \<notin> set x \<Longrightarrow> skip_line (x @ newline # s) = Some s"
  by (induction x) auto

lemma no_newline:
  "list_all is_digit ds \<Longrightarrow> newline \<notin> set ds"
  "newline \<notin> set (show_llu x)" "newline \<notin> set (show_9Lf r)" "newline \<notin> set (show_d i)"
proof -
  have n: "\<not> is_digit newline" by (simp add: is_digit_def newline_def)
  then show d: "newline \<notin> set ds" if "list_all is_digit ds" for ds using that by (auto simp: list_all_iff)
  have c: "newline \<noteq> CHR ''-''" "newline \<noteq> CHR ''.''" by (simp_all add: newline_def)
  show "newline \<notin> set (show_llu x)" "newline \<notin> set (show_9Lf r)" "newline \<notin> set (show_d i)"
    using d [OF digits_all(1)] d [OF fixed_all(1)] c by (simp_all add: show_llu_def show_9Lf_def show_d_def Let_def)
qed

lemma get_next_multi:
  assumes "nservers \<noteq> 1" "sID < 2 ^ 31"
  shows "asciistamp_get_next st0 stats (print_stamp nservers sID st @ s) =
    Some (0, (reread st0 st)\<lparr>st_server_ipaddr := ''10.0.0.'' @ show_d (int sID), st_type := STAMP_NTP\<rparr>,
          stats\<lparr>ref_count := ref_count stats + 2\<rparr>, s)"
proof -
  have "sint (word_of_int (min (2 ^ 63 - 1) (int sID)) :: uint32) = int sID"
    using assms(2) by (subst sint_small) auto
  then have d: "scan_d ('' '' @ show_d (int sID) @ newline # s) = (Some (int sID), newline # s)"
    using scan_d_digits [of "'' ''" "newline # s" sID] by (simp add: show_d_def space_char)
  have "fscanf_stamp st0 (print_stamp nservers sID st @ s) = (6, reread st0 st, int sID, newline # s)"
    using fscanf_columns [of "'' '' @ show_d (int sID) @ newline # s" st0 st] d assms(1)
    by (simp add: print_stamp_columns space_char)
  then show ?thesis by (simp add: asciistamp_get_next_def)
qed

text \<open>A line without the last column: the conversion of the server number runs into the next line.\<close>

lemma get_next_single:
  "asciistamp_get_next st0 stats (print_stamp 1 i x @ print_stamp 1 j y @ s) =
    Some (0, (reread st0 x)\<lparr>st_server_ipaddr := ''10.0.0.'' @
            show_d (sint (word_of_int (min (2 ^ 63 - 1) (int (unat (Ta (BST y))))) :: uint32)), st_type := STAMP_NTP\<rparr>,
          stats\<lparr>ref_count := ref_count stats + 2\<rparr>, s)"
  "asciistamp_get_next st0 stats (print_stamp 1 i x) = None"
proof -
  define v where "v = sint (word_of_int (min (2 ^ 63 - 1) (int (unat (Ta (BST y))))) :: uint32)"
  define rest where "rest = '' '' @ show_9Lf (Tb (BST y)) @ '' '' @ show_9Lf (Te (BST y)) @ '' ''
     @ show_llu (Tf (BST y)) @ '' '' @ show_llu (st_id y)"
  have y: "print_stamp 1 j y @ s = digits (unat (Ta (BST y))) @ rest @ newline # s"
    by (simp add: print_stamp_def rest_def show_llu_def)
  have "ends_number (rest @ newline # s)" by (simp add: rest_def space_char)
  then have "scan_d ([newline] @ print_stamp 1 j y @ s) = (Some v, rest @ newline # s)"
    unfolding y v_def by (intro scan_d_digits) (simp_all add: space_char)
  then have "fscanf_stamp st0 (print_stamp 1 i x @ print_stamp 1 j y @ s) = (6, reread st0 x, v, rest @ newline # s)"
    using fscanf_columns [of "newline # print_stamp 1 j y @ s" st0 x] by (simp add: print_stamp_columns space_char)
  moreover have "newline \<notin> set rest"
    using no_newline(2-4) by (simp add: rest_def) (simp add: newline_def)
  ultimately show "asciistamp_get_next st0 stats (print_stamp 1 i x @ print_stamp 1 j y @ s) =
    Some (0, (reread st0 x)\<lparr>st_server_ipaddr := ''10.0.0.'' @
            show_d (sint (word_of_int (min (2 ^ 63 - 1) (int (unat (Ta (BST y))))) :: uint32)), st_type := STAMP_NTP\<rparr>,
          stats\<lparr>ref_count := ref_count stats + 2\<rparr>, s)"
    by (simp add: asciistamp_get_next_def skip_to_newline v_def)
  have "scan_d [newline] = (None, [])" by (simp add: scan_d_def scan_nat_def space_char)
  then have "fscanf_stamp st0 (print_stamp 1 i x) = (5, reread st0 x, 0, [])"
    using fscanf_columns [of "[newline]" st0 x] by (simp add: print_stamp_columns space_char)
  then show "asciistamp_get_next st0 stats (print_stamp 1 i x) = None"
    by (simp add: asciistamp_get_next_def)
qed

subsection \<open>Files\<close>

text \<open>\<open>n\<close> calls, stopping at an error code.\<close>

fun get_stamps ::
    "nat \<Rightarrow> stamp_t \<Rightarrow> timeref_stats \<Rightarrow> string \<Rightarrow> (stamp_t list \<times> timeref_stats \<times> string) option" where
  "get_stamps 0 st stats s = Some ([], stats, s)"
| "get_stamps (Suc n) st stats s =
     (case asciistamp_get_next st stats s of
        None \<Rightarrow> None
      | Some (code, st, stats, s) \<Rightarrow>
          if code \<noteq> 0 then Some ([], stats, s)
          else map_option (\<lambda>(sts, r). (st # sts, r)) (get_stamps n st stats s))"

definition stamp_file :: "nat \<Rightarrow> (nat \<times> stamp_t) list \<Rightarrow> string" where
  "stamp_file nservers xs = stamp_header @ concat (map (\<lambda>(sID, st). print_stamp nservers sID st) xs)"

lemma skip_comment_line: "newline \<notin> set l \<Longrightarrow> skip_commentblock c (c # l @ newline # s) = skip_commentblock c s"
  by (simp add: skip_to_newline)

lemma open_stamp_file:
  "open_timestamp (stamp_file nservers xs) = Some (concat (map (\<lambda>(sID, st). print_stamp nservers sID st) xs))"
proof -
  let ?s = "concat (map (\<lambda>(sID, st). print_stamp nservers sID st) xs)"
  have "skip_commentblock (CHR ''%'') ?s = Some ?s"
  proof (cases xs)
    case (Cons x ys)
    obtain sID st where x: "x = (sID, st)" by (cases x)
    obtain c cs where c: "digits (unat (Ta (BST st))) = c # cs" using digits_all(2) by (cases "digits (unat (Ta (BST st)))") auto
    then have "is_digit c" using digits_all(1) [of "unat (Ta (BST st))"] by simp
    moreover have "\<not> is_digit (CHR ''%'')" by (simp add: is_digit_def)
    ultimately have "c \<noteq> CHR ''%''" by metis
    then show ?thesis using Cons x c by (simp add: print_stamp_def show_llu_def)
  qed simp
  then show ?thesis
    unfolding open_timestamp_def stamp_file_def stamp_header_def
    by (simp add: newline_def)
qed

definition same_stamp :: "nat \<times> stamp_t \<Rightarrow> stamp_t \<Rightarrow> bool" where
  "same_stamp x st' \<longleftrightarrow>
     (case x of (sID, st) \<Rightarrow>
        Ta (BST st') = Ta (BST st) \<and> Tf (BST st') = Tf (BST st) \<and> st_id st' = st_id st
        \<and> \<bar>Tb (BST st') - Tb (BST st)\<bar> \<le> 1 / (2 * 10 ^ 9) \<and> \<bar>Te (BST st') - Te (BST st)\<bar> \<le> 1 / (2 * 10 ^ 9)
        \<and> st_server_ipaddr st' = ''10.0.0.'' @ show_d (int sID) \<and> st_type st' = STAMP_NTP)"

lemma same_reread: "same_stamp (sID, st) ((reread st0 st)\<lparr>st_server_ipaddr := ''10.0.0.'' @ show_d (int sID), st_type := STAMP_NTP\<rparr>)"
  using ninth_close by (simp add: same_stamp_def reread_def)

lemma get_stamps_lines:
  assumes "nservers \<noteq> 1" "list_all (\<lambda>(sID, st). sID < 2 ^ 31) xs"
  shows "\<exists>sts stats'. get_stamps (Suc (length xs)) st0 stats (concat (map (\<lambda>(sID, st). print_stamp nservers sID st) xs))
      = Some (sts, stats', []) \<and> list_all2 same_stamp xs sts \<and> ref_count stats' = ref_count stats + 2 * of_nat (length xs)"
  using assms(2)
proof (induction xs arbitrary: st0 stats)
  case Nil
  then show ?case by (simp add: asciistamp_get_next_def fscanf_stamp_def)
next
  case (Cons x xs)
  obtain sID st where x: "x = (sID, st)" by (cases x)
  have "sID < 2 ^ 31" using Cons.prems x by simp
  note step = get_next_multi [OF assms(1) this, of st0 stats st]
  let ?st = "(reread st0 st)\<lparr>st_server_ipaddr := ''10.0.0.'' @ show_d (int sID), st_type := STAMP_NTP\<rparr>"
  let ?stats = "stats\<lparr>ref_count := ref_count stats + 2\<rparr>"
  let ?s = "concat (map (\<lambda>(sID, st). print_stamp nservers sID st) xs)"
  obtain sts stats' where r: "get_stamps (Suc (length xs)) ?st ?stats ?s = Some (sts, stats', [])"
    "list_all2 same_stamp xs sts" "ref_count stats' = ref_count ?stats + 2 * of_nat (length xs)"
    using Cons.IH [of ?st ?stats] Cons.prems by auto
  have "get_stamps (Suc (length (x # xs))) st0 stats (print_stamp nservers sID st @ ?s) = Some (?st # sts, stats', [])"
    using step [of ?s] r(1) by (subst get_stamps.simps) (simp del: get_stamps.simps)
  then show ?case using r(2,3) same_reread [of sID st st0] x
    by (intro exI [of _ "?st # sts"] exI [of _ stats']) (simp del: get_stamps.simps add: algebra_simps)
qed

text \<open>
  C37: A stamp file written by a daemon with several servers is read back completely: after the
  comment header the source returns every stamp in order and then the end of file, with the
  counter values and the nonce exact, the server times to half a nanosecond, and an address that
  identifies the server.
\<close>

theorem ascii_replay_roundtrip:
  assumes "nservers \<noteq> 1" "list_all (\<lambda>(sID, st). sID < 2 ^ 31) xs"
  shows "\<exists>fd sts stats'. open_timestamp (stamp_file nservers xs) = Some fd
    \<and> get_stamps (Suc (length xs)) st0 stats fd = Some (sts, stats', [])
    \<and> list_all2 same_stamp xs sts \<and> ref_count stats' = ref_count stats + 2 * of_nat (length xs)"
  using open_stamp_file get_stamps_lines [OF assms] by fastforce

theorem ascii_replay_roundtrip_witness:
  "\<exists>fd sts stats'. open_timestamp (stamp_file 2 [(0, demo_stamp 7 5 9), (1, demo_stamp 8 20 30)]) = Some fd
    \<and> get_stamps 3 (ntp_stamp 0) \<lparr>ref_count = 0, badqual_count = 0\<rparr> fd = Some (sts, stats', [])
    \<and> list_all2 same_stamp [(0, demo_stamp 7 5 9), (1, demo_stamp 8 20 30)] sts \<and> ref_count stats' = 4"
  using ascii_replay_roundtrip [of 2 "[(0, demo_stamp 7 5 9), (1, demo_stamp 8 20 30)]" "ntp_stamp 0"
      "\<lparr>ref_count = 0, badqual_count = 0\<rparr>"]
  by (simp add: numeral_3_eq_3 del: get_stamps.simps)

text \<open>
  A stamp file written by a daemon with a single server is not read back: its lines have no
  server column, so the last conversion takes the first number of the next line as the server
  number and the rest of that line is skipped. Every second stamp is lost and the others get a
  made-up server address; when the last line has no successor, the call never returns.
\<close>

lemma ascii_single_server_loses:
  "asciistamp_get_next st0 stats (print_stamp 1 i x @ print_stamp 1 j y @ s) =
    Some (0, (reread st0 x)\<lparr>st_server_ipaddr := ''10.0.0.'' @
            show_d (sint (word_of_int (min (2 ^ 63 - 1) (int (unat (Ta (BST y))))) :: uint32)), st_type := STAMP_NTP\<rparr>,
          stats\<lparr>ref_count := ref_count stats + 2\<rparr>, s)
   \<and> asciistamp_get_next st0 stats (print_stamp 1 i x) = None"
  using get_next_single by blast

text \<open>A last line without a newline is never left either.\<close>

lemma unterminated_line_hangs: "newline \<notin> set s \<Longrightarrow> skip_line s = None"
  by (induction s) auto

end
