(* ===== verification/Config_File.thy ===== *)
theory Config_File
  imports Algo_State Ascii_Stamps
begin

text \<open>
  The configuration file: \<^verbatim>\<open>radclock/config_mgr.c\<close> with the structures of \<^verbatim>\<open>config_mgr.h\<close>.

  The daemon reads lines \<^verbatim>\<open>key = value\<close>, keeps values given on the command line, falls back to
  defaults for bad ones and notes changes in a mask. It writes the file when it is missing or from
  an older version.

  A memory error (a wild pointer or an access outside a buffer) is \<open>None\<close>. The buffer of the key,
  which is not initialised and not terminated by each line, is state. Messages are left out.
  The conversions \<^verbatim>\<open>atoi\<close>, \<^verbatim>\<open>strtod\<close>, \<^verbatim>\<open>%d\<close>, \<^verbatim>\<open>%.9lf\<close>, \<^verbatim>\<open>%lf\<close> and \<^verbatim>\<open>%lg\<close> are written out.
\<close>

section \<open>Keys, options and the configuration\<close>

datatype conf_key =
    CONFIG_UNKNOWN | CONFIG_RADCLOCK_VERSION | CONFIG_VERBOSE | CONFIG_SERVER_IPC | CONFIG_SYNCHRO_TYPE
  | CONFIG_SERVER_NTP | CONFIG_ADJUST_FFCLOCK | CONFIG_ADJUST_FBCLOCK | CONFIG_POLLPERIOD | CONFIG_PHAT_INIT
  | CONFIG_ASYM_HOST | CONFIG_ASYM_NET | CONFIG_TEMPQUALITY | CONFIG_TSLIMIT | CONFIG_SKM_SCALE
  | CONFIG_RATE_ERR_BOUND | CONFIG_BEST_SKM_RATE | CONFIG_OFFSET_RATIO | CONFIG_PLOCAL_QUALITY | CONFIG_HOSTNAME
  | CONFIG_TIME_SERVER | CONFIG_NETWORKDEV | CONFIG_SYNC_IN_PCAP | CONFIG_SYNC_IN_ASCII | CONFIG_SYNC_OUT_PCAP
  | CONFIG_SYNC_OUT_ASCII | CONFIG_CLOCK_OUT_ASCII | CONFIG_SERVER_VM_UDP | CONFIG_SERVER_XEN | CONFIG_SERVER_VMWARE
  | CONFIG_VM_UDP_LIST

definition keys :: "(string \<times> conf_key) list" where
  "keys =
     [(''radclock_version'', CONFIG_RADCLOCK_VERSION), (''verbose_level'', CONFIG_VERBOSE),
      (''synchronization_type'', CONFIG_SYNCHRO_TYPE), (''ipc_server'', CONFIG_SERVER_IPC),
      (''ntp_server'', CONFIG_SERVER_NTP), (''vm_udp_server'', CONFIG_SERVER_VM_UDP), (''xen_server'', CONFIG_SERVER_XEN),
      (''vmware_server'', CONFIG_SERVER_VMWARE), (''adjust_FFclock'', CONFIG_ADJUST_FFCLOCK),
      (''adjust_FBclock'', CONFIG_ADJUST_FBCLOCK), (''polling_period'', CONFIG_POLLPERIOD),
      (''temperature_quality'', CONFIG_TEMPQUALITY), (''ts_limit'', CONFIG_TSLIMIT), (''skm_scale'', CONFIG_SKM_SCALE),
      (''rate_error_bound'', CONFIG_RATE_ERR_BOUND), (''best_skm_rate'', CONFIG_BEST_SKM_RATE),
      (''offset_ratio'', CONFIG_OFFSET_RATIO), (''plocal_quality'', CONFIG_PLOCAL_QUALITY),
      (''init_period_estimate'', CONFIG_PHAT_INIT), (''host_asymmetry'', CONFIG_ASYM_HOST),
      (''network_asymmetry'', CONFIG_ASYM_NET), (''hostname'', CONFIG_HOSTNAME), (''time_server'', CONFIG_TIME_SERVER),
      (''network_device'', CONFIG_NETWORKDEV), (''sync_input_pcap'', CONFIG_SYNC_IN_PCAP),
      (''sync_input_ascii'', CONFIG_SYNC_IN_ASCII), (''sync_output_pcap'', CONFIG_SYNC_OUT_PCAP),
      (''sync_output_ascii'', CONFIG_SYNC_OUT_ASCII), (''clock_output_ascii'', CONFIG_CLOCK_OUT_ASCII),
      (''vm_udp_list'', CONFIG_VM_UDP_LIST)]"

definition labels_bool :: "string list" where "labels_bool = [''off'', ''on'']"
definition labels_verb :: "string list" where "labels_verb = [''quiet'', ''normal'', ''high'']"
definition labels_sync :: "string list" where
  "labels_sync = [''spy'', ''piggy'', ''ntp'', ''ieee1588'', ''pps'', ''vm_udp'', ''xen'', ''vmware'']"

datatype temp_quality = QUALITY_POOR | QUALITY_GOOD | QUALITY_EXCEL

definition quality_labels :: "(string \<times> temp_quality) list" where
  "quality_labels = [(''poor'', QUALITY_POOR), (''good'', QUALITY_GOOD), (''excellent'', QUALITY_EXCEL)]"

text \<open>
  The structure as the file is read into it: its numbers are \<^verbatim>\<open>double\<close> values that may be infinite or
  NaN. \<open>cf_time_server\<close> is the list of allocated blocks.
\<close>

record file_metaparam =
  fm_TSLIMIT :: c_double
  fm_SKM_SCALE :: c_double
  fm_RateErrBOUND :: c_double
  fm_BestSKMrate :: c_double
  fm_offset_ratio :: int
  fm_plocal_quality :: c_double
  fm_path_scale :: c_double
  fm_relasym_bound_global :: c_double

record full_config =
  cf_mask :: uint32
  cf_poll_period :: int
  cf_metaparam :: file_metaparam
  cf_phat_init :: c_double
  cf_asym_host :: c_double
  cf_asym_net :: c_double
  cf_conffile :: string
  cf_logfile :: string
  cf_radclock_version :: string
  cf_verbose_level :: int
  cf_synchro_type :: int
  cf_server_ipc :: int
  cf_server_ntp :: int
  cf_server_vm_udp :: int
  cf_server_xen :: int
  cf_server_vmware :: int
  cf_adjust_FFclock :: int
  cf_adjust_FBclock :: int
  cf_ntp_upstream_port :: int
  cf_ntp_downstream_port :: int
  cf_hostname :: string
  cf_time_server :: "string list"
  cf_network_device :: string
  cf_sync_in_pcap :: string
  cf_sync_in_ascii :: string
  cf_sync_out_pcap :: string
  cf_sync_out_ascii :: string
  cf_clock_out_ascii :: string
  cf_vm_udp_list :: string

abbreviation MAXLINE :: nat where "MAXLINE \<equiv> 250"
abbreviation RAD_MINPOLL :: int where "RAD_MINPOLL \<equiv> 1"
abbreviation RAD_MAXPOLL :: int where "RAD_MAXPOLL \<equiv> 1024"
abbreviation BOOL_OFF :: int where "BOOL_OFF \<equiv> 0"
abbreviation BOOL_ON :: int where "BOOL_ON \<equiv> 1"
abbreviation DEFAULT_VERBOSE :: int where "DEFAULT_VERBOSE \<equiv> 1"
abbreviation DEFAULT_SYNCHRO_TYPE :: int where "DEFAULT_SYNCHRO_TYPE \<equiv> 2"
abbreviation DEFAULT_NTP_POLL_PERIOD :: int where "DEFAULT_NTP_POLL_PERIOD \<equiv> 16"

abbreviation UPDMASK_ASYM_HOST :: uint32 where "UPDMASK_ASYM_HOST \<equiv> 0x0000008"
abbreviation UPDMASK_ASYM_NET :: uint32 where "UPDMASK_ASYM_NET \<equiv> 0x0000010"
abbreviation UPDMASK_SERVER_IPC :: uint32 where "UPDMASK_SERVER_IPC \<equiv> 0x0000020"
abbreviation UPDMASK_SYNCHRO_TYPE :: uint32 where "UPDMASK_SYNCHRO_TYPE \<equiv> 0x0000040"
abbreviation UPDMASK_SERVER_NTP :: uint32 where "UPDMASK_SERVER_NTP \<equiv> 0x0000080"
abbreviation UPDMASK_ADJUST_FFCLOCK :: uint32 where "UPDMASK_ADJUST_FFCLOCK \<equiv> 0x0000100"
abbreviation UPDMASK_ADJUST_FBCLOCK :: uint32 where "UPDMASK_ADJUST_FBCLOCK \<equiv> 0x0000200"
abbreviation UPDMASK_HOSTNAME :: uint32 where "UPDMASK_HOSTNAME \<equiv> 0x0000400"
abbreviation UPDMASK_TIME_SERVER :: uint32 where "UPDMASK_TIME_SERVER \<equiv> 0x0000800"
abbreviation UPDMASK_VERBOSE :: uint32 where "UPDMASK_VERBOSE \<equiv> 0x0001000"
abbreviation UPDMASK_NETWORKDEV :: uint32 where "UPDMASK_NETWORKDEV \<equiv> 0x0002000"
abbreviation UPDMASK_SYNC_IN_PCAP :: uint32 where "UPDMASK_SYNC_IN_PCAP \<equiv> 0x0004000"
abbreviation UPDMASK_SYNC_IN_ASCII :: uint32 where "UPDMASK_SYNC_IN_ASCII \<equiv> 0x0008000"
abbreviation UPDMASK_SYNC_OUT_PCAP :: uint32 where "UPDMASK_SYNC_OUT_PCAP \<equiv> 0x0010000"
abbreviation UPDMASK_SYNC_OUT_ASCII :: uint32 where "UPDMASK_SYNC_OUT_ASCII \<equiv> 0x0020000"
abbreviation UPDMASK_CLOCK_OUT_ASCII :: uint32 where "UPDMASK_CLOCK_OUT_ASCII \<equiv> 0x0040000"
abbreviation UPDMASK_SERVER_VM_UDP :: uint32 where "UPDMASK_SERVER_VM_UDP \<equiv> 0x0080000"
abbreviation UPDMASK_SERVER_XEN :: uint32 where "UPDMASK_SERVER_XEN \<equiv> 0x0100000"
abbreviation UPDMASK_SERVER_VMWARE :: uint32 where "UPDMASK_SERVER_VMWARE \<equiv> 0x0200000"
abbreviation UPDMASK_VM_UDP_LIST :: uint32 where "UPDMASK_VM_UDP_LIST \<equiv> 0x0400000"

text \<open>The parameters of the three qualities; the path parameters are not part of them.\<close>

definition quality_params :: "temp_quality \<Rightarrow> file_metaparam \<Rightarrow> file_metaparam" where
  "quality_params q mp =
     (case q of
        QUALITY_POOR \<Rightarrow> mp\<lparr>fm_TSLIMIT := lit (15 / 10 ^ 6), fm_SKM_SCALE := lit 512, fm_RateErrBOUND := lit (1 / 10 ^ 6),
                          fm_BestSKMrate := lit (1 / 10 ^ 6), fm_offset_ratio := 10, fm_plocal_quality := lit (2 / 10 ^ 6)\<rparr>
      | QUALITY_GOOD \<Rightarrow> mp\<lparr>fm_TSLIMIT := lit (15 / 10 ^ 6), fm_SKM_SCALE := lit 1024, fm_RateErrBOUND := lit (5 / 10 ^ 7),
                          fm_BestSKMrate := lit (2 / 10 ^ 7), fm_offset_ratio := 10, fm_plocal_quality := lit (8 / 10 ^ 7)\<rparr>
      | QUALITY_EXCEL \<Rightarrow> mp\<lparr>fm_TSLIMIT := lit (15 / 10 ^ 6), fm_SKM_SCALE := lit 1024, fm_RateErrBOUND := lit (1 / 10 ^ 7),
                           fm_BestSKMrate := lit (5 / 10 ^ 8), fm_offset_ratio := 6, fm_plocal_quality := lit (8 / 10 ^ 7)\<rparr>)"

definition init_metaparam :: file_metaparam where
  "init_metaparam = quality_params QUALITY_GOOD
     \<lparr>fm_TSLIMIT = Num 0, fm_SKM_SCALE = Num 0, fm_RateErrBOUND = Num 0, fm_BestSKMrate = Num 0, fm_offset_ratio = 0,
      fm_plocal_quality = Num 0, fm_path_scale = Num (5 * 3600), fm_relasym_bound_global = lit (2 / 10)\<rparr>"

text \<open>The verbosity is not set by \<^verbatim>\<open>config_init\<close>: \<open>verbose\<close> is its value before.\<close>

definition config_init :: "string \<Rightarrow> int \<Rightarrow> full_config" where
  "config_init version verbose =
     \<lparr>cf_mask = 0, cf_poll_period = DEFAULT_NTP_POLL_PERIOD, cf_metaparam = init_metaparam,
      cf_phat_init = lit DEFAULT_PHAT_INIT, cf_asym_host = Num 0, cf_asym_net = Num 0,
      cf_conffile = [], cf_logfile = [], cf_radclock_version = version, cf_verbose_level = verbose,
      cf_synchro_type = DEFAULT_SYNCHRO_TYPE, cf_server_ipc = BOOL_ON, cf_server_ntp = BOOL_OFF,
      cf_server_vm_udp = BOOL_OFF, cf_server_xen = BOOL_OFF, cf_server_vmware = BOOL_OFF,
      cf_adjust_FFclock = BOOL_ON, cf_adjust_FBclock = BOOL_OFF, cf_ntp_upstream_port = 123,
      cf_ntp_downstream_port = 123, cf_hostname = [], cf_time_server = [[]], cf_network_device = [],
      cf_sync_in_pcap = [], cf_sync_in_ascii = [], cf_sync_out_pcap = [], cf_sync_out_ascii = [],
      cf_clock_out_ascii = [], cf_vm_udp_list = []\<rparr>"

definition find_key_label :: "conf_key \<Rightarrow> string" where
  "find_key_label codekey =
     (case find (\<lambda>(_, k). k = codekey) keys of Some (label, _) \<Rightarrow> label | None \<Rightarrow> ''(null)'')"

definition match_key :: "string \<Rightarrow> conf_key" where
  "match_key keylabel = (case map_of keys keylabel of Some k \<Rightarrow> k | None \<Rightarrow> CONFIG_UNKNOWN)"

definition get_temperature_config :: "full_config \<Rightarrow> temp_quality option" where
  "get_temperature_config conf =
     find (\<lambda>q. cf_metaparam conf = quality_params q (cf_metaparam conf)) [QUALITY_POOR, QUALITY_GOOD, QUALITY_EXCEL]"

fun check_valid_option :: "string \<Rightarrow> string list \<Rightarrow> int" where
  "check_valid_option value [] = -1"
| "check_valid_option value (l # ls) =
     (if value = l then 0 else let i = check_valid_option value ls in if i < 0 then -1 else i + 1)"

section \<open>Conversions\<close>

definition atoi :: "string \<Rightarrow> int" where
  "atoi s = (case fst (scan_d s) of Some v \<Rightarrow> v | None \<Rightarrow> 0)"

definition scan_exp :: "string \<Rightarrow> real" where
  "scan_exp s =
     (case s of
        [] \<Rightarrow> 1
      | c # t \<Rightarrow> if c = CHR ''e'' \<or> c = CHR ''E'' then
                  let (neg, u) = scan_sign t; ds = takeWhile is_digit u
                  in if ds = [] then 1 else if neg then 1 / 10 ^ num_val ds else 10 ^ num_val ds
                else 1)"

text \<open>
  \<^verbatim>\<open>strtod\<close> takes decimal and hexadecimal numbers, infinities and NaNs, after white space and a sign.
  The names are compared without regard to case; a text in parentheses may follow \<^verbatim>\<open>nan\<close>.
\<close>

definition to_lower :: "char \<Rightarrow> char" where
  "to_lower c = (let n = of_char c :: nat in if 65 \<le> n \<and> n \<le> 90 then char_of (n + 32) else c)"

definition starts_with :: "string \<Rightarrow> string \<Rightarrow> bool" where
  "starts_with word s \<longleftrightarrow> map to_lower (take (length word) s) = word"

definition hex_val :: "char \<Rightarrow> nat option" where
  "hex_val c =
     (if is_digit c then Some (dval c)
      else let n = of_char (to_lower c) in if 97 \<le> n \<and> n \<le> 102 then Some (n - 87) else None)"

definition is_hex :: "char \<Rightarrow> bool" where
  "is_hex c \<longleftrightarrow> hex_val c \<noteq> None"

definition hex_num :: "string \<Rightarrow> nat" where
  "hex_num ds = foldl (\<lambda>n c. 16 * n + the (hex_val c)) 0 ds"

definition scan_bexp :: "string \<Rightarrow> real" where
  "scan_bexp s =
     (case s of
        [] \<Rightarrow> 1
      | c # t \<Rightarrow> if c = CHR ''p'' \<or> c = CHR ''P'' then
                  let (neg, u) = scan_sign t; ds = takeWhile is_digit u
                  in if ds = [] then 1 else if neg then 1 / 2 ^ num_val ds else 2 ^ num_val ds
                else 1)"

text \<open>The value of a hexadecimal number behind its prefix, if there is a digit.\<close>

definition scan_hex :: "string \<Rightarrow> real option" where
  "scan_hex s =
     (let ds = takeWhile is_hex s; s1 = dropWhile is_hex s;
          (fs, s2) = (case s1 of c # t \<Rightarrow> if c = CHR ''.'' then (takeWhile is_hex t, dropWhile is_hex t) else ([], s1)
                              | [] \<Rightarrow> ([], s1))
      in if ds = [] \<and> fs = [] then None
         else Some (real (hex_num (ds @ fs)) / 16 ^ length fs * scan_bexp s2))"

definition strtod :: "string \<Rightarrow> c_double" where
  "strtod s =
     (let (neg, u) = scan_sign (dropWhile is_space s)
      in if starts_with ''inf'' u then Inf neg
         else if starts_with ''nan'' u then Nan neg
         else case (if starts_with ''0x'' u then scan_hex (drop 2 u) else None) of
           Some v \<Rightarrow> to_double (if neg then - v else v)
         | None \<Rightarrow> (case scan_Lf s of (None, _) \<Rightarrow> Num 0 | (Some v, r) \<Rightarrow> to_double (v * scan_exp r)))"

definition show_cd :: "(real \<Rightarrow> string) \<Rightarrow> c_double \<Rightarrow> string" where
  "show_cd show v =
     (case v of
        Num x \<Rightarrow> show x
      | Inf neg \<Rightarrow> (if neg then ''-inf'' else ''inf'')
      | Nan neg \<Rightarrow> (if neg then ''-nan'' else ''nan''))"

definition show_fix :: "nat \<Rightarrow> real \<Rightarrow> string" where
  "show_fix k x =
     (let n = nat \<bar>round_even (x * 10 ^ k)\<bar>
      in (if x < 0 then [CHR ''-''] else []) @ digits (n div 10 ^ k) @ [CHR ''.''] @ fixed_digits k (n mod 10 ^ k))"

text \<open>
  \<^verbatim>\<open>%lg\<close>: six significant digits without trailing zeros, in the notation with an exponent below
  \<open>10\<^sup>-\<^sup>4\<close> and from \<open>10\<^sup>6\<close>.
\<close>

definition strip_zeros :: "string \<Rightarrow> string" where
  "strip_zeros s = rev (dropWhile (\<lambda>c. c = CHR ''0'') (rev s))"

definition show_point :: "string \<Rightarrow> string \<Rightarrow> string" where
  "show_point ds fs = (if strip_zeros fs = [] then ds else ds @ [CHR ''.''] @ strip_zeros fs)"

definition lg_parts :: "real \<Rightarrow> nat \<times> int" where
  "lg_parts x =
     (let e = \<lfloor>log 10 \<bar>x\<bar>\<rfloor>; m = nat (round_even (\<bar>x\<bar> * 10 powi (5 - e)))
      in if m = 10 ^ 6 then (10 ^ 5, e + 1) else (m, e))"

definition show_exp :: "int \<Rightarrow> string" where
  "show_exp e = (if e < 0 then ''e-'' else ''e+'') @ (if \<bar>e\<bar> < 10 then ''0'' else []) @ digits (nat \<bar>e\<bar>)"

definition show_lg :: "real \<Rightarrow> string" where
  "show_lg x =
     (if x = 0 then ''0''
      else let (m, e) = lg_parts x
           in (if x < 0 then ''-'' else []) @
              (if e < -4 \<or> 6 \<le> e
               then show_point (digits (m div 10 ^ 5)) (fixed_digits 5 (m mod 10 ^ 5)) @ show_exp e
               else let k = nat (5 - e) in show_point (digits (m div 10 ^ k)) (fixed_digits k (m mod 10 ^ k))))"

section \<open>Writing the file\<close>

definition conf_rule :: string where
  "conf_rule = ''#----------------------------------------------------------------------------#''"

definition tabbed :: "string \<Rightarrow> string" where
  "tabbed s = CHR ''#'' # CHR 0x09 # s"

definition text_head :: "string list" where
  "text_head =
    [''##'',
     ''## This is the default configuration file for the RADclock'',
     ''##'',
     [],
     conf_rule,
     ''# Package version. Do not modify this line.'']"

definition text_verbose :: "string list" where
  "text_verbose =
    [conf_rule,
     [],
     [],
     ''# Verbosity level of the radclock daemon.'',
     tabbed ''quiet : only errors and warnings are logged'',
     tabbed ''normal: adaptive logging of events'',
     tabbed ''high  : include debug messages (is very high, expert use)'']"

definition text_synchro :: "string list" where
  "text_synchro =
    [[],
     [],
     [],
     conf_rule,
     ''# Synchronization Client parameters'',
     conf_rule,
     [],
     ''# Specify the type of underlying synchronization used.'',
     ''# Note that piggybacking requires an ntp daemon running and is then'',
     ''# incompatible with the RADclock serving clients over the network or '',
     ''# adjusting the system FBclock. Piggybacking disables these functions.'',
     tabbed ''piggy   : piggybacking on running ntp daemon'',
     tabbed ''ntp     : RADclock uses NTP protocol'',
     tabbed ''ieee1588: RADclock uses IEEE 1588 protocol - NOT IMPLEMENTED YET'',
     tabbed ''pps     : RADclock listens to PPS - NOT IMPLEMENTED YET'',
     tabbed ''vm_udp  : RADclock communicates with master radclock for clock data over udp'',
     tabbed ''xen     : RADclock communicates with master radclock for clock data over xenstore'',
     tabbed ''vmware  : RADclock communicates with master radclock for clock data over vmci'']"

definition text_poll :: "string list" where
  "text_poll =
    [''# The polling period specifies the time interval at which'',
     ''# the requests for time are sent to the server (value in seconds)'']"

definition text_hostname :: "string list" where
  "text_hostname =
    [''# Hostname or IP address (uses lookup name resolution).'',
     ''# Automatic detection will be attempted if not specified.'']"

definition text_server :: "string list" where
  "text_server =
    [''# Time server answering the requests from this client.'',
     ''# Can be a host name or an IP address (uses lookup name resolution).'']"

definition text_ipc :: "string list" where
  "text_ipc =
    [[],
     [],
     [],
     conf_rule,
     ''# Synchronization Server parameters'',
     conf_rule,
     [],
     ''# IPC server.'',
     ''# Serves time to the Shared Memory Segment for use by user radclocks.'',
     tabbed ''on : Start service - makes RADclock available to other programs'',
     tabbed ''off: Stop service  - useful when replaying traces'']"

definition text_vm_udp :: "string list" where
  "text_vm_udp =
    [''# VM UDP server.'',
     ''# Serves clock data to radclock clients over the network.'',
     tabbed ''on : runs a VM UDP server for guests'',
     tabbed ''off: no server running'']"

definition text_vm_list :: "string list" where
  "text_vm_list =
    [''# File containing list of VM UDP clients in the case of VM UDP server'',
     ''# Name or IP address of master radclock in the case of synctype = vm_udp'']"

definition text_xen :: "string list" where
  "text_xen =
    [''# XEN server.'',
     ''# Serves clock data to radclock clients over the xenstore.'',
     tabbed ''on : runs a XEN server for guests'',
     tabbed ''off: no server running'']"

definition text_vmware :: "string list" where
  "text_vmware =
    [''# VMWARE server.'',
     ''# Serves clock data to radclock clients over a VMCI socket.'',
     tabbed ''on : runs a VMWARE server for guests'',
     tabbed ''off: no server running'']"

definition text_ntp :: "string list" where
  "text_ntp =
    [''# NTP server.'',
     ''# Serves time to radclock clients over the network.'',
     tabbed ''on : runs a NTP server for remote clients'',
     tabbed ''off: no server running'']"

definition text_ffclock :: "string list" where
  "text_ffclock =
    [''# System FFclock.'',
     ''# Let the RADclock daemon adjust the system FFclock. The main usecase for disabling'',
     ''# the push of radclock updates to the FFclock is to allow a second radclock'',
     ''# to run (eg for experimental purposes) without competing with an'',
     ''# existing radclock already operating as the FFclock's daemon.'',
     tabbed ''on : adjust the system FFclock'',
     tabbed ''off: does not adjust the FFclock'']"

definition text_fbclock :: "string list" where
  "text_fbclock =
    [''# System FBclock.'',
     ''# Let the RADclock adjust the system FBclock, make sure no other FB synchronization'',
     ''# daemon is running, especially the ntp daemon.'',
     ''# Note that this feature relies on standard kernel calls to adjust the time and'',
     ''# is completely different from the IPC server provided. It is also independent '',
     ''# if the system FFclock functionality. This feature is essentially'',
     ''# provided to maintain FB system time as an alternative to ntpd when the latter'',
     ''# is causing problems, or when access to RADclock absolute time is needed on older'',
     ''# systems whose calling code cannot be changes.'',
     ''# If you care about synchronization, either use the FFclock, or turn the IPC'',
     ''# server on and use the libradclock API.'',
     ''# Also note that system clock time causality may break since the system clock will'',
     ''# be set on RADclock restart. The system clock will tick monotonically afterwards.'',
     tabbed ''on : adjust the system FBclock'',
     tabbed ''off: does not adjust the FBclock (to use with NTP piggybacking)'']"

definition text_quality :: "string list" where
  "text_quality =
    [[],
     [],
     [],
     conf_rule,
     ''# Environment and Tuning parameters'',
     conf_rule,
     [],
     ''# Temperature environment and hardware quality.'',
     ''# Keywods accepted are: poor, good, excellent.'',
     ''# This setting overrides temperature and hardware expert mode (default behavior). '']"

definition text_expert :: "string list" where
  "text_expert =
    [''# EXPERIMENTAL.'',
     ''# Temperature environment and hardware quality - EXPERT.'',
     ''# This settings are over-written by the '' @ find_key_label CONFIG_TEMPQUALITY @ '' keyword.'']"

definition text_phat :: "string list" where
  "text_phat =
    [''# For a quick start, the initial value of the period of the counter (in seconds). '']"

definition text_asym_host :: "string list" where
  "text_asym_host =
    [''# Estimation of the asym within the host (in seconds). '']"

definition text_asym_net :: "string list" where
  "text_asym_net =
    [''# Estimation of the network asym (in seconds). '']"

definition text_device :: "string list" where
  "text_device =
    [[],
     [],
     [],
     conf_rule,
     ''# Input / Output parameters'',
     conf_rule,
     [],
     ''# Network interface.'',
     ''# Specify a different interface (xl0, eth0, ...)'',
     ''# If none, the RADclock will lookup for a default one.'']"

definition text_in_pcap :: "string list" where
  "text_in_pcap =
    [''# Synchronization data input file (modified pcap format).'',
     ''# Replay mode requires a file produced by the RADclock.'']"

definition text_in_ascii :: "string list" where
  "text_in_ascii =
    [''# Synchronization data input file (ascii format).'',
     ''# Replay mode requires a file produced by the RADclock.'']"

definition text_out_pcap :: "string list" where
  "text_out_pcap =
    [''# Synchronization data output file (modified pcap format).'']"

definition text_out_ascii :: "string list" where
  "text_out_ascii =
    [''# Synchronization data output file (ascii format).'']"

definition text_clock_out :: "string list" where
  "text_clock_out =
    [''# Internal clock data output file (ascii format).'']"

text \<open>
  The lines with a key. \<open>conf_or\<close> gives the value of a configuration, or the default when there is
  none; an unset string is written as a comment with the default.
\<close>

definition key_line :: "conf_key \<Rightarrow> string \<Rightarrow> string" where
  "key_line k v = find_key_label k @ '' = '' @ v"

definition conf_or :: "full_config option \<Rightarrow> (full_config \<Rightarrow> 'a) \<Rightarrow> 'a \<Rightarrow> 'a" where
  "conf_or conf f d = (case conf of None \<Rightarrow> d | Some c \<Rightarrow> f c)"

definition switch_line :: "conf_key \<Rightarrow> full_config option \<Rightarrow> (full_config \<Rightarrow> int) \<Rightarrow> int \<Rightarrow> string list" where
  "switch_line k conf f d = [key_line k (labels_bool ! nat (conf_or conf f d)), []]"

definition string_line :: "conf_key \<Rightarrow> full_config option \<Rightarrow> (full_config \<Rightarrow> string) \<Rightarrow> string \<Rightarrow> string list" where
  "string_line k conf f d =
     [if conf_or conf f [] \<noteq> [] then key_line k (conf_or conf f []) else CHR ''#'' # key_line k d, []]"

definition server_lines :: "full_config option \<Rightarrow> nat \<Rightarrow> string list" where
  "server_lines conf ns =
     (if hd (conf_or conf cf_time_server [[]]) \<noteq> []
      then concat (map (\<lambda>v. [key_line CONFIG_TIME_SERVER v, []]) (take ns (conf_or conf cf_time_server [[]])))
      else [key_line CONFIG_TIME_SERVER ''tock.une.edu.au'', []])"

definition conf_quality :: "full_config option \<Rightarrow> temp_quality option" where
  "conf_quality conf = conf_or conf get_temperature_config (Some QUALITY_GOOD)"

definition quality_line :: "full_config option \<Rightarrow> string list" where
  "quality_line conf =
     [case conf_quality conf of
        Some QUALITY_POOR \<Rightarrow> key_line CONFIG_TEMPQUALITY ''poor''
      | Some QUALITY_GOOD \<Rightarrow> key_line CONFIG_TEMPQUALITY ''good''
      | Some QUALITY_EXCEL \<Rightarrow> key_line CONFIG_TEMPQUALITY ''excellent''
      | None \<Rightarrow> CHR ''#'' # key_line CONFIG_TEMPQUALITY ''good'', []]"

definition param_lines :: "file_metaparam \<Rightarrow> string list" where
  "param_lines mp =
     [key_line CONFIG_TSLIMIT (show_cd show_9Lf (fm_TSLIMIT mp)), key_line CONFIG_SKM_SCALE (show_cd show_9Lf (fm_SKM_SCALE mp)),
      key_line CONFIG_RATE_ERR_BOUND (show_cd show_9Lf (fm_RateErrBOUND mp)),
      key_line CONFIG_BEST_SKM_RATE (show_cd show_9Lf (fm_BestSKMrate mp)),
      key_line CONFIG_OFFSET_RATIO (show_d (fm_offset_ratio mp)),
      key_line CONFIG_PLOCAL_QUALITY (show_cd show_9Lf (fm_plocal_quality mp))]"

definition expert_lines :: "full_config option \<Rightarrow> string list" where
  "expert_lines conf =
     (if conf_quality conf \<noteq> None then map ((#) (CHR ''#'')) (param_lines init_metaparam)
      else param_lines (conf_or conf cf_metaparam init_metaparam)) @ [[]]"

definition conf_lines :: "string \<Rightarrow> full_config option \<Rightarrow> nat \<Rightarrow> string list" where
  "conf_lines version conf ns =
     text_head @ [key_line CONFIG_RADCLOCK_VERSION version]
     @ text_verbose @ [key_line CONFIG_VERBOSE (labels_verb ! nat (conf_or conf cf_verbose_level DEFAULT_VERBOSE)), []]
     @ text_synchro @ [key_line CONFIG_SYNCHRO_TYPE (labels_sync ! nat (conf_or conf cf_synchro_type DEFAULT_SYNCHRO_TYPE)), []]
     @ text_poll @ [key_line CONFIG_POLLPERIOD (show_d (conf_or conf cf_poll_period DEFAULT_NTP_POLL_PERIOD)), []]
     @ text_hostname @ string_line CONFIG_HOSTNAME conf cf_hostname ''platypus2.tklab.feit.uts.edu.au''
     @ text_server @ server_lines conf ns
     @ text_ipc @ switch_line CONFIG_SERVER_IPC conf cf_server_ipc BOOL_ON
     @ text_vm_udp @ switch_line CONFIG_SERVER_VM_UDP conf cf_server_vm_udp BOOL_OFF
     @ text_vm_list @ string_line CONFIG_VM_UDP_LIST conf cf_vm_udp_list ''vm_udp_list''
     @ text_xen @ switch_line CONFIG_SERVER_XEN conf cf_server_xen BOOL_OFF
     @ text_vmware @ switch_line CONFIG_SERVER_VMWARE conf cf_server_vmware BOOL_OFF
     @ text_ntp @ switch_line CONFIG_SERVER_NTP conf cf_server_ntp BOOL_OFF
     @ text_ffclock @ switch_line CONFIG_ADJUST_FFCLOCK conf cf_adjust_FFclock BOOL_ON
     @ text_fbclock @ switch_line CONFIG_ADJUST_FBCLOCK conf cf_adjust_FBclock BOOL_OFF
     @ text_quality @ quality_line conf
     @ text_expert @ expert_lines conf
     @ text_phat @ [key_line CONFIG_PHAT_INIT (show_cd show_lg (conf_or conf cf_phat_init (lit DEFAULT_PHAT_INIT))), []]
     @ text_asym_host @ [key_line CONFIG_ASYM_HOST (show_cd (show_fix 6) (conf_or conf cf_asym_host (Num 0))), []]
     @ text_asym_net @ [key_line CONFIG_ASYM_NET (show_cd (show_fix 6) (conf_or conf cf_asym_net (Num 0))), []]
     @ text_device @ string_line CONFIG_NETWORKDEV conf cf_network_device ''em0''
     @ text_in_pcap @ string_line CONFIG_SYNC_IN_PCAP conf cf_sync_in_pcap ''/etc/sync_input.pcap''
     @ text_in_ascii @ string_line CONFIG_SYNC_IN_ASCII conf cf_sync_in_ascii ''/etc/sync_input.ascii''
     @ text_out_pcap @ string_line CONFIG_SYNC_OUT_PCAP conf cf_sync_out_pcap ''/etc/sync_output.pcap''
     @ text_out_ascii @ string_line CONFIG_SYNC_OUT_ASCII conf cf_sync_out_ascii ''/etc/sync_output.ascii''
     @ text_clock_out @ string_line CONFIG_CLOCK_OUT_ASCII conf cf_clock_out_ascii ''/etc/clock_output.ascii''"

definition write_config_file :: "string \<Rightarrow> full_config option \<Rightarrow> nat \<Rightarrow> string" where
  "write_config_file version conf ns = concat (map (\<lambda>l. l @ [newline]) (conf_lines version conf ns))"

section \<open>Reading a line\<close>

definition is_blank :: "char \<Rightarrow> bool" where
  "is_blank c \<longleftrightarrow> c = CHR '' '' \<or> c = CHR 0x09"

definition is_end :: "char \<Rightarrow> bool" where
  "is_end c \<longleftrightarrow> is_blank c \<or> c = newline"

abbreviation NUL :: char where "NUL \<equiv> CHR 0x00"

definition c_str :: "string \<Rightarrow> string" where
  "c_str s = takeWhile (\<lambda>c. c \<noteq> NUL) s"

text \<open>
  The key: \<^verbatim>\<open>strncpy\<close> copies the text before the separator into the buffer without terminating it,
  and the search for its end runs over whatever the buffer holds.
\<close>

definition copy_key :: "string \<Rightarrow> string \<Rightarrow> string option" where
  "copy_key name key =
     (let key = name @ drop (length name) key; i = length (takeWhile (\<lambda>c. \<not> is_end c) key)
      in if i < length key then Some (key[i := NUL]) else None)"

text \<open>
  The value: \<open>gap\<close> is the text skipped after the key, \<open>v\<close> the value with what follows. The blanks at
  the end are removed from the end of the line on, also over \<open>gap\<close> when nothing else is there.
\<close>

definition trim_value :: "string \<Rightarrow> string \<Rightarrow> string" where
  "trim_value gap v =
     (let w = takeWhile (\<lambda>c. c \<noteq> CHR ''#'') v
      in if list_all is_end w then (if w = [] \<or> last gap = CHR ''='' then [] else w)
         else rev (dropWhile is_end (rev w)))"

definition extract_key_value :: "string \<Rightarrow> string \<Rightarrow> (string \<times> string option) option" where
  "extract_key_value line key =
     (let c = dropWhile is_blank line
      in if c = [] \<or> hd c = CHR ''#'' \<or> hd c = newline then Some (key, None)
         else if CHR ''='' \<notin> set c then None
         else let sep = (\<lambda>c. c = CHR ''='' \<or> is_blank c); rest = dropWhile (\<lambda>c. c \<noteq> CHR ''='') c
              in map_option (\<lambda>key. (key, Some (trim_value (takeWhile sep rest) (dropWhile sep rest))))
                   (copy_key (takeWhile (\<lambda>c. c \<noteq> CHR ''='') c) key))"

section \<open>Taking over a value\<close>

record parse_state =
  ps_conf :: full_config
  ps_mask :: uint32
  ps_nf :: nat
  ps_tmpqual :: bool

definition touch :: "uint32 \<Rightarrow> bool \<Rightarrow> uint32 \<Rightarrow> uint32" where
  "touch flag changed m = (if changed then m OR flag else m)"

text \<open>
  A value that the command line takes precedence of. \<open>valid\<close> tells whether the new value is
  acceptable, \<open>dflt\<close> replaces one that is not; \<open>changed\<close> is the comparison with the value as read.
\<close>

definition take_value ::
    "uint32 \<Rightarrow> 'a \<Rightarrow> bool \<Rightarrow> 'a \<Rightarrow> bool \<Rightarrow> ('a \<Rightarrow> full_config \<Rightarrow> full_config) \<Rightarrow> parse_state \<Rightarrow> parse_state" where
  "take_value flag dflt valid val changed put st =
     (if HAS_UPDATE (ps_mask st) flag then st
      else st\<lparr>ps_conf := put (if valid then val else dflt) (ps_conf st), ps_mask := touch flag changed (ps_mask st)\<rparr>)"

definition take_switch ::
    "uint32 \<Rightarrow> int \<Rightarrow> string \<Rightarrow> (full_config \<Rightarrow> int) \<Rightarrow> (int \<Rightarrow> full_config \<Rightarrow> full_config) \<Rightarrow> parse_state \<Rightarrow> parse_state" where
  "take_switch flag dflt value get put st =
     (let ival = check_valid_option value labels_bool
      in take_value flag dflt (0 \<le> ival) ival (get (ps_conf st) \<noteq> ival) put st)"

definition take_string ::
    "uint32 \<Rightarrow> string \<Rightarrow> (full_config \<Rightarrow> string) \<Rightarrow> (string \<Rightarrow> full_config \<Rightarrow> full_config) \<Rightarrow> parse_state \<Rightarrow> parse_state" where
  "take_string flag value get put st = take_value flag [] True value (get (ps_conf st) \<noteq> value) put st"

definition take_fraction ::
    "uint32 \<Rightarrow> string \<Rightarrow> (full_config \<Rightarrow> c_double) \<Rightarrow> (c_double \<Rightarrow> full_config \<Rightarrow> full_config) \<Rightarrow> parse_state \<Rightarrow> parse_state" where
  "take_fraction flag value get put st =
     (let dval = strtod value
      in take_value flag (Num 0) (\<not> (cd_less dval (Num 0) \<or> cd_less (Num 1) dval)) dval (\<not> cd_eq (get (ps_conf st)) dval) put st)"

text \<open>A parameter of the environment, unless its overall quality has been set.\<close>

definition take_param ::
    "'a \<Rightarrow> bool \<Rightarrow> 'a \<Rightarrow> bool \<Rightarrow> ('a \<Rightarrow> file_metaparam \<Rightarrow> file_metaparam) \<Rightarrow> parse_state \<Rightarrow> parse_state" where
  "take_param dflt valid val changed put st =
     (if ps_tmpqual st then st
      else st\<lparr>ps_conf := (ps_conf st)\<lparr>cf_metaparam := put (if valid then val else dflt) (cf_metaparam (ps_conf st))\<rparr>,
              ps_mask := touch UPDMASK_TEMPQUALITY changed (ps_mask st)\<rparr>)"

definition take_double ::
    "string \<Rightarrow> (file_metaparam \<Rightarrow> c_double) \<Rightarrow> (c_double \<Rightarrow> file_metaparam \<Rightarrow> file_metaparam) \<Rightarrow> parse_state \<Rightarrow> parse_state" where
  "take_double value get put st =
     (let dval = strtod value
      in take_param (get init_metaparam) (\<not> cd_less dval (Num 0)) dval (\<not> cd_eq (get (cf_metaparam (ps_conf st))) dval) put st)"

definition take_quality :: "string \<Rightarrow> parse_state \<Rightarrow> parse_state" where
  "take_quality value st =
     (let st = st\<lparr>ps_tmpqual := True\<rparr>
      in case map_of quality_labels value of
           None \<Rightarrow> st
         | Some q \<Rightarrow>
             let mp = cf_metaparam (ps_conf st)
             in st\<lparr>ps_conf := (ps_conf st)\<lparr>cf_metaparam := quality_params q mp\<rparr>,
                   ps_mask := touch UPDMASK_TEMPQUALITY (\<not> cd_eq (fm_TSLIMIT mp) (fm_TSLIMIT (quality_params q mp))) (ps_mask st)\<rparr>)"

text \<open>
  A time server: the block it goes to is assumed to exist when there is no former count or the
  former count covers it, otherwise the memory is extended. A block outside is a memory error.
\<close>

definition take_server :: "nat \<Rightarrow> string \<Rightarrow> parse_state \<Rightarrow> parse_state option" where
  "take_server ns value st =
     (let nf = ps_nf st; bs = cf_time_server (ps_conf st)
      in if nf = 0 \<and> HAS_UPDATE (ps_mask st) UPDMASK_TIME_SERVER then Some (st\<lparr>ps_nf := 1\<rparr>)
         else if ns = 0 \<or> nf < ns then
           (if nf < length bs
            then Some (st\<lparr>ps_conf := (ps_conf st)\<lparr>cf_time_server := bs[nf := value]\<rparr>,
                          ps_mask := touch UPDMASK_TIME_SERVER (bs ! nf \<noteq> value) (ps_mask st), ps_nf := nf + 1\<rparr>)
            else None)
         else if nf \<le> length bs
              then Some (st\<lparr>ps_conf := (ps_conf st)\<lparr>cf_time_server := take nf bs @ [value]\<rparr>,
                            ps_mask := ps_mask st OR UPDMASK_TIME_SERVER, ps_nf := nf + 1\<rparr>)
              else None)"

definition update_data :: "nat \<Rightarrow> conf_key \<Rightarrow> string \<Rightarrow> parse_state \<Rightarrow> parse_state option" where
  "update_data ns codekey value st =
     (if value = [] then Some st
      else case codekey of
        CONFIG_RADCLOCK_VERSION \<Rightarrow> Some (st\<lparr>ps_conf := (ps_conf st)\<lparr>cf_radclock_version := value\<rparr>\<rparr>)
      | CONFIG_VERBOSE \<Rightarrow>
          (let ival = check_valid_option value labels_verb
           in Some (take_value UPDMASK_VERBOSE DEFAULT_VERBOSE (0 \<le> ival \<and> ival \<le> 2) ival (cf_verbose_level (ps_conf st) \<noteq> ival)
                      (\<lambda>v c. c\<lparr>cf_verbose_level := v\<rparr>) st))
      | CONFIG_SERVER_IPC \<Rightarrow>
          Some (take_switch UPDMASK_SERVER_IPC BOOL_ON value cf_server_ipc (\<lambda>v c. c\<lparr>cf_server_ipc := v\<rparr>) st)
      | CONFIG_SYNCHRO_TYPE \<Rightarrow>
          (let ival = check_valid_option value labels_sync
           in Some (take_value UPDMASK_SYNCHRO_TYPE DEFAULT_SYNCHRO_TYPE (0 \<le> ival) ival (cf_synchro_type (ps_conf st) \<noteq> ival)
                      (\<lambda>v c. c\<lparr>cf_synchro_type := v\<rparr>) st))
      | CONFIG_SERVER_NTP \<Rightarrow>
          Some (take_switch UPDMASK_SERVER_NTP BOOL_OFF value cf_server_ntp (\<lambda>v c. c\<lparr>cf_server_ntp := v\<rparr>) st)
      | CONFIG_SERVER_VM_UDP \<Rightarrow>
          Some (take_switch UPDMASK_SERVER_VM_UDP BOOL_OFF value cf_server_vm_udp (\<lambda>v c. c\<lparr>cf_server_vm_udp := v\<rparr>) st)
      | CONFIG_SERVER_XEN \<Rightarrow>
          Some (take_switch UPDMASK_SERVER_XEN BOOL_OFF value cf_server_xen (\<lambda>v c. c\<lparr>cf_server_xen := v\<rparr>) st)
      | CONFIG_SERVER_VMWARE \<Rightarrow>
          Some (take_switch UPDMASK_SERVER_VMWARE BOOL_OFF value cf_server_vmware (\<lambda>v c. c\<lparr>cf_server_vmware := v\<rparr>) st)
      | CONFIG_ADJUST_FFCLOCK \<Rightarrow>
          Some (take_switch UPDMASK_ADJUST_FFCLOCK BOOL_ON value cf_adjust_FFclock (\<lambda>v c. c\<lparr>cf_adjust_FFclock := v\<rparr>) st)
      | CONFIG_ADJUST_FBCLOCK \<Rightarrow>
          Some (take_switch UPDMASK_ADJUST_FBCLOCK BOOL_OFF value cf_adjust_FBclock (\<lambda>v c. c\<lparr>cf_adjust_FBclock := v\<rparr>) st)
      | CONFIG_POLLPERIOD \<Rightarrow>
          (let ival = atoi value
           in Some (take_value UPDMASK_POLLPERIOD DEFAULT_NTP_POLL_PERIOD (RAD_MINPOLL \<le> ival \<and> ival \<le> RAD_MAXPOLL) ival
                      (cf_poll_period (ps_conf st) \<noteq> ival) (\<lambda>v c. c\<lparr>cf_poll_period := v\<rparr>) st))
      | CONFIG_TSLIMIT \<Rightarrow> Some (take_double value fm_TSLIMIT (\<lambda>v m. m\<lparr>fm_TSLIMIT := v\<rparr>) st)
      | CONFIG_SKM_SCALE \<Rightarrow> Some (take_double value fm_SKM_SCALE (\<lambda>v m. m\<lparr>fm_SKM_SCALE := v\<rparr>) st)
      | CONFIG_RATE_ERR_BOUND \<Rightarrow> Some (take_double value fm_RateErrBOUND (\<lambda>v m. m\<lparr>fm_RateErrBOUND := v\<rparr>) st)
      | CONFIG_BEST_SKM_RATE \<Rightarrow> Some (take_double value fm_BestSKMrate (\<lambda>v m. m\<lparr>fm_BestSKMrate := v\<rparr>) st)
      | CONFIG_OFFSET_RATIO \<Rightarrow>
          (let ival = atoi value
           in Some (take_param (fm_offset_ratio init_metaparam) (0 < ival) ival (fm_offset_ratio (cf_metaparam (ps_conf st)) \<noteq> ival)
                      (\<lambda>v m. m\<lparr>fm_offset_ratio := v\<rparr>) st))
      | CONFIG_PLOCAL_QUALITY \<Rightarrow> Some (take_double value fm_plocal_quality (\<lambda>v m. m\<lparr>fm_plocal_quality := v\<rparr>) st)
      | CONFIG_TEMPQUALITY \<Rightarrow> Some (take_quality value st)
      | CONFIG_PHAT_INIT \<Rightarrow>
          (let dval = strtod value
           in Some (st\<lparr>ps_conf := (ps_conf st)\<lparr>cf_phat_init :=
                         (if cd_less dval (Num 0) \<or> cd_eq dval (Num 0) \<or> cd_less (Num 1) dval then lit DEFAULT_PHAT_INIT
                          else dval)\<rparr>\<rparr>))
      | CONFIG_ASYM_HOST \<Rightarrow> Some (take_fraction UPDMASK_ASYM_HOST value cf_asym_host (\<lambda>v c. c\<lparr>cf_asym_host := v\<rparr>) st)
      | CONFIG_ASYM_NET \<Rightarrow> Some (take_fraction UPDMASK_ASYM_NET value cf_asym_net (\<lambda>v c. c\<lparr>cf_asym_net := v\<rparr>) st)
      | CONFIG_HOSTNAME \<Rightarrow> Some (take_string UPDMASK_HOSTNAME value cf_hostname (\<lambda>v c. c\<lparr>cf_hostname := v\<rparr>) st)
      | CONFIG_TIME_SERVER \<Rightarrow> take_server ns value st
      | CONFIG_NETWORKDEV \<Rightarrow>
          Some (take_string UPDMASK_NETWORKDEV value cf_network_device (\<lambda>v c. c\<lparr>cf_network_device := v\<rparr>) st)
      | CONFIG_SYNC_IN_PCAP \<Rightarrow>
          Some (take_string UPDMASK_SYNC_IN_PCAP value cf_sync_in_pcap (\<lambda>v c. c\<lparr>cf_sync_in_pcap := v\<rparr>) st)
      | CONFIG_SYNC_IN_ASCII \<Rightarrow>
          Some (take_string UPDMASK_SYNC_IN_ASCII value cf_sync_in_ascii (\<lambda>v c. c\<lparr>cf_sync_in_ascii := v\<rparr>) st)
      | CONFIG_SYNC_OUT_PCAP \<Rightarrow>
          Some (take_string UPDMASK_SYNC_OUT_PCAP value cf_sync_out_pcap (\<lambda>v c. c\<lparr>cf_sync_out_pcap := v\<rparr>) st)
      | CONFIG_SYNC_OUT_ASCII \<Rightarrow>
          Some (take_string UPDMASK_SYNC_OUT_ASCII value cf_sync_out_ascii (\<lambda>v c. c\<lparr>cf_sync_out_ascii := v\<rparr>) st)
      | CONFIG_CLOCK_OUT_ASCII \<Rightarrow>
          Some (take_string UPDMASK_CLOCK_OUT_ASCII value cf_clock_out_ascii (\<lambda>v c. c\<lparr>cf_clock_out_ascii := v\<rparr>) st)
      | CONFIG_VM_UDP_LIST \<Rightarrow>
          Some (take_string UPDMASK_VM_UDP_LIST value cf_vm_udp_list (\<lambda>v c. c\<lparr>cf_vm_udp_list := v\<rparr>) st)
      | CONFIG_UNKNOWN \<Rightarrow> Some st)"

section \<open>Reading the file\<close>

fun fgets :: "nat \<Rightarrow> string \<Rightarrow> string \<times> string" where
  "fgets 0 s = ([], s)"
| "fgets (Suc n) [] = ([], [])"
| "fgets (Suc n) (c # s) = (if c = newline then ([c], s) else map_prod ((#) c) id (fgets n s))"

definition config_line :: "nat \<Rightarrow> string \<Rightarrow> string \<times> parse_state \<Rightarrow> (string \<times> parse_state) option" where
  "config_line ns line st =
     (case extract_key_value (c_str line) (fst st) of
        None \<Rightarrow> None
      | Some (key, None) \<Rightarrow> Some (key, snd st)
      | Some (key, Some value) \<Rightarrow>
          if value = [] then Some (key, snd st)
          else map_option (Pair key) (update_data ns (match_key (c_str key)) value (snd st)))"

lemma fgets_length: "snd (fgets n s) = drop (length (fst (fgets n s))) s"
  by (induction n s rule: fgets.induct) (auto simp: split_beta)

lemma fgets_shorter: "s \<noteq> [] \<Longrightarrow> length (snd (fgets (Suc n) s)) < length s"
  by (cases s) (auto simp: fgets_length)

lemma fgets_rest: "(line, rest) = fgets 249 s \<Longrightarrow> s \<noteq> [] \<Longrightarrow> length rest < length s"
  using fgets_shorter [of s 248] by (metis eval_nat_numeral(3) numeral_plus_one snd_conv Suc_numeral semiring_norm(5) semiring_norm(8))

function config_loop :: "nat \<Rightarrow> string \<Rightarrow> string \<times> parse_state \<Rightarrow> (string \<times> parse_state) option" where
  "config_loop ns file st =
     (if file = [] then Some st
      else case fgets (MAXLINE - 1) file of (line, rest) \<Rightarrow>
        Option.bind (config_line ns line st) (\<lambda>st. config_loop ns rest st))"
  by pat_completeness auto

termination
  by (relation "measure (\<lambda>(_, file, _). length file)") (auto dest: fgets_rest)

declare config_loop.simps [simp del]

text \<open>
  \<open>file\<close> is the content of the configuration file, \<open>None\<close> when it cannot be opened; \<open>writable\<close> tells
  whether it can be opened for writing. The result has the return code, the configuration, the
  mask, the number of servers and the file.
\<close>

definition conf_files :: "bool \<Rightarrow> full_config \<Rightarrow> full_config" where
  "conf_files is_daemon conf =
     conf\<lparr>cf_conffile := (if cf_conffile conf = [] then if is_daemon then ''/etc/radclock.conf'' else ''radclock.conf''
                         else cf_conffile conf),
          cf_logfile := (if cf_logfile conf = [] then if is_daemon then ''/var/log/radclock.log'' else ''radclock.log''
                        else cf_logfile conf)\<rparr>"

definition live_only :: "bool \<Rightarrow> full_config \<Rightarrow> full_config" where
  "live_only is_daemon conf = (if is_daemon then conf\<lparr>cf_sync_in_ascii := [], cf_sync_in_pcap := []\<rparr> else conf)"

definition config_parse ::
    "string \<Rightarrow> string \<Rightarrow> bool \<Rightarrow> bool \<Rightarrow> string option \<Rightarrow> full_config \<Rightarrow> uint32 \<Rightarrow> nat
     \<Rightarrow> (int \<times> full_config \<times> uint32 \<times> nat \<times> string option) option" where
  "config_parse version key is_daemon writable file conf mask0 ns =
     (let conf = conf_files is_daemon conf
      in case file of
           None \<Rightarrow>
             if writable then Some (1, conf, mask0, 1, Some (write_config_file version None 1))
             else Some (0, conf, mask0, ns, None)
         | Some text \<Rightarrow>
             (case config_loop ns text (key, \<lparr>ps_conf = conf, ps_mask = mask0, ps_nf = 0, ps_tmpqual = False\<rparr>) of
                None \<Rightarrow> None
              | Some (_, st) \<Rightarrow>
                  let nf = ps_nf st;
                      conf = (if nf < ns then (ps_conf st)\<lparr>cf_time_server := take nf (cf_time_server (ps_conf st))\<rparr>
                              else ps_conf st)
                  in if cf_radclock_version conf = version
                     then Some (1, live_only is_daemon conf, ps_mask st, nf, file)
                     else if \<not> writable then Some (0, conf, ps_mask st, nf, file)
                     else if cf_time_server conf = [] then None
                     else Some (1, live_only is_daemon (conf\<lparr>cf_radclock_version := version\<rparr>), ps_mask st, nf,
                                Some (write_config_file version (Some conf) nf))))"

section \<open>Valid configurations\<close>

definition is_bool :: "int \<Rightarrow> bool" where
  "is_bool x \<longleftrightarrow> x = BOOL_OFF \<or> x = BOOL_ON"

text \<open>The ranges of the numbers. The tests of the code let a NaN through, as every comparison with it fails.\<close>

definition unit_or_nan :: "c_double \<Rightarrow> bool" where
  "unit_or_nan v \<longleftrightarrow> (case v of Num x \<Rightarrow> 0 \<le> x \<and> x \<le> 1 | Inf _ \<Rightarrow> False | Nan _ \<Rightarrow> True)"

definition nonneg_or_nan :: "c_double \<Rightarrow> bool" where
  "nonneg_or_nan v \<longleftrightarrow> (case v of Num x \<Rightarrow> 0 \<le> x | Inf neg \<Rightarrow> \<not> neg | Nan _ \<Rightarrow> True)"

definition conf_ok :: "full_config \<Rightarrow> bool" where
  "conf_ok c \<longleftrightarrow> cf_verbose_level c \<in> {0..2} \<and> cf_synchro_type c \<in> {0..7}
     \<and> is_bool (cf_server_ipc c) \<and> is_bool (cf_server_ntp c) \<and> is_bool (cf_server_vm_udp c) \<and> is_bool (cf_server_xen c)
     \<and> is_bool (cf_server_vmware c) \<and> is_bool (cf_adjust_FFclock c) \<and> is_bool (cf_adjust_FBclock c)
     \<and> cf_poll_period c \<in> {RAD_MINPOLL..RAD_MAXPOLL} \<and> unit_or_nan (cf_phat_init c) \<and> cf_phat_init c \<noteq> Num 0
     \<and> unit_or_nan (cf_asym_host c) \<and> unit_or_nan (cf_asym_net c)
     \<and> nonneg_or_nan (fm_TSLIMIT (cf_metaparam c)) \<and> nonneg_or_nan (fm_SKM_SCALE (cf_metaparam c))
     \<and> nonneg_or_nan (fm_RateErrBOUND (cf_metaparam c)) \<and> nonneg_or_nan (fm_BestSKMrate (cf_metaparam c))
     \<and> 0 < fm_offset_ratio (cf_metaparam c) \<and> nonneg_or_nan (fm_plocal_quality (cf_metaparam c))"

lemma nonneg_lit: "0 < x \<Longrightarrow> nonneg_or_nan (lit x)"
  using fl_pos [of x 53] by (simp add: nonneg_or_nan_def)

lemma range_tests:
  "\<not> cd_less v (Num 0) \<longleftrightarrow> nonneg_or_nan v" "\<not> (cd_less v (Num 0) \<or> cd_less (Num 1) v) \<longleftrightarrow> unit_or_nan v"
  "cd_eq v (Num 0) \<longleftrightarrow> v = Num 0"
  by (cases v; auto simp: nonneg_or_nan_def unit_or_nan_def)+

lemma phat_default: "unit_or_nan (lit DEFAULT_PHAT_INIT)" "lit DEFAULT_PHAT_INIT \<noteq> Num 0"
  using fl_pos [of DEFAULT_PHAT_INIT 53] dbl_le_one [of DEFAULT_PHAT_INIT] by (simp_all add: unit_or_nan_def)

lemma unit_or_nan_zero: "unit_or_nan (Num 0)"
  by (simp add: unit_or_nan_def)

lemma conf_ok_strings [simp]:
  "conf_ok (c\<lparr>cf_radclock_version := s\<rparr>) = conf_ok c" "conf_ok (c\<lparr>cf_hostname := s\<rparr>) = conf_ok c"
  "conf_ok (c\<lparr>cf_network_device := s\<rparr>) = conf_ok c" "conf_ok (c\<lparr>cf_sync_in_pcap := s\<rparr>) = conf_ok c"
  "conf_ok (c\<lparr>cf_sync_in_ascii := s\<rparr>) = conf_ok c" "conf_ok (c\<lparr>cf_sync_out_pcap := s\<rparr>) = conf_ok c"
  "conf_ok (c\<lparr>cf_sync_out_ascii := s\<rparr>) = conf_ok c" "conf_ok (c\<lparr>cf_clock_out_ascii := s\<rparr>) = conf_ok c"
  "conf_ok (c\<lparr>cf_vm_udp_list := s\<rparr>) = conf_ok c" "conf_ok (c\<lparr>cf_time_server := ss\<rparr>) = conf_ok c"
  "conf_ok (c\<lparr>cf_conffile := s\<rparr>) = conf_ok c" "conf_ok (c\<lparr>cf_logfile := s\<rparr>) = conf_ok c"
  by (simp_all add: conf_ok_def)

lemma check_valid_range: "check_valid_option v ls = -1 \<or> check_valid_option v ls \<in> {0..<int (length ls)}"
  by (induction ls) (auto simp: Let_def)

lemma check_valid_cases:
  "check_valid_option v labels_bool = -1 \<or> is_bool (check_valid_option v labels_bool)" "check_valid_option v labels_verb \<in> {-1..2}"
  "check_valid_option v labels_sync \<in> {-1..7}"
  using check_valid_range [of v labels_bool] check_valid_range [of v labels_verb] check_valid_range [of v labels_sync]
  by (auto simp: is_bool_def labels_bool_def labels_verb_def labels_sync_def simp del: check_valid_option.simps)

lemma take_value_conf:
  "ps_conf (take_value flag dflt valid val changed put st) =
     (if HAS_UPDATE (ps_mask st) flag then ps_conf st else put (if valid then val else dflt) (ps_conf st))"
  by (simp add: take_value_def)

lemma take_param_conf:
  "ps_conf (take_param dflt valid val changed put st) =
     (if ps_tmpqual st then ps_conf st
      else (ps_conf st)\<lparr>cf_metaparam := put (if valid then val else dflt) (cf_metaparam (ps_conf st))\<rparr>)"
  by (simp add: take_param_def Let_def)

lemma quality_params_ok:
  "nonneg_or_nan (fm_TSLIMIT (quality_params q mp))" "nonneg_or_nan (fm_SKM_SCALE (quality_params q mp))"
  "nonneg_or_nan (fm_RateErrBOUND (quality_params q mp))" "nonneg_or_nan (fm_BestSKMrate (quality_params q mp))"
  "0 < fm_offset_ratio (quality_params q mp)" "nonneg_or_nan (fm_plocal_quality (quality_params q mp))"
  by (cases q; simp add: quality_params_def nonneg_lit)+

lemma take_quality_ok: "conf_ok (ps_conf st) \<Longrightarrow> conf_ok (ps_conf (take_quality v st))"
  by (simp add: take_quality_def Let_def conf_ok_def quality_params_ok split: option.split)

lemma take_switch_ok:
  assumes "conf_ok (ps_conf st)" "is_bool dflt" "\<And>x. is_bool x \<Longrightarrow> conf_ok (put x (ps_conf st))"
  shows "conf_ok (ps_conf (take_switch flag dflt v get put st))"
  using assms check_valid_cases(1) [of v] by (auto simp: take_switch_def Let_def take_value_conf)

lemma take_fraction_ok:
  assumes "conf_ok (ps_conf st)" "\<And>x. unit_or_nan x \<Longrightarrow> conf_ok (put x (ps_conf st))"
  shows "conf_ok (ps_conf (take_fraction flag v get put st))"
  using assms range_tests(2) [of "strtod v"] unit_or_nan_zero by (auto simp: take_fraction_def Let_def take_value_conf)

lemma init_params: "nonneg_or_nan (fm_TSLIMIT init_metaparam)" "nonneg_or_nan (fm_SKM_SCALE init_metaparam)" "nonneg_or_nan (fm_RateErrBOUND init_metaparam)"
  "nonneg_or_nan (fm_BestSKMrate init_metaparam)" "0 < fm_offset_ratio init_metaparam" "nonneg_or_nan (fm_plocal_quality init_metaparam)"
  unfolding init_metaparam_def by (rule quality_params_ok)+

lemma take_server_ok: "conf_ok (ps_conf st) \<Longrightarrow> take_server ns v st = Some st' \<Longrightarrow> conf_ok (ps_conf st')"
  by (auto simp: take_server_def Let_def split: if_splits)

lemma switches:
  assumes "conf_ok (ps_conf st)"
  shows "is_bool d \<Longrightarrow> conf_ok (ps_conf (take_switch f d v cf_server_ipc (\<lambda>v c. c\<lparr>cf_server_ipc := v\<rparr>) st))"
    "is_bool d \<Longrightarrow> conf_ok (ps_conf (take_switch f d v cf_server_ntp (\<lambda>v c. c\<lparr>cf_server_ntp := v\<rparr>) st))"
    "is_bool d \<Longrightarrow> conf_ok (ps_conf (take_switch f d v cf_server_vm_udp (\<lambda>v c. c\<lparr>cf_server_vm_udp := v\<rparr>) st))"
    "is_bool d \<Longrightarrow> conf_ok (ps_conf (take_switch f d v cf_server_xen (\<lambda>v c. c\<lparr>cf_server_xen := v\<rparr>) st))"
    "is_bool d \<Longrightarrow> conf_ok (ps_conf (take_switch f d v cf_server_vmware (\<lambda>v c. c\<lparr>cf_server_vmware := v\<rparr>) st))"
    "is_bool d \<Longrightarrow> conf_ok (ps_conf (take_switch f d v cf_adjust_FFclock (\<lambda>v c. c\<lparr>cf_adjust_FFclock := v\<rparr>) st))"
    "is_bool d \<Longrightarrow> conf_ok (ps_conf (take_switch f d v cf_adjust_FBclock (\<lambda>v c. c\<lparr>cf_adjust_FBclock := v\<rparr>) st))"
  by (rule take_switch_ok [OF assms]; simp add: conf_ok_def assms [unfolded conf_ok_def, simplified])+

lemma conf_ok_params:
  assumes "conf_ok c"
  shows "conf_ok (c\<lparr>cf_metaparam := (cf_metaparam c)\<lparr>fm_TSLIMIT := if nonneg_or_nan x then x else fm_TSLIMIT init_metaparam\<rparr>\<rparr>)"
    "conf_ok (c\<lparr>cf_metaparam := (cf_metaparam c)\<lparr>fm_SKM_SCALE := if nonneg_or_nan x then x else fm_SKM_SCALE init_metaparam\<rparr>\<rparr>)"
    "conf_ok (c\<lparr>cf_metaparam := (cf_metaparam c)\<lparr>fm_RateErrBOUND := if nonneg_or_nan x then x else fm_RateErrBOUND init_metaparam\<rparr>\<rparr>)"
    "conf_ok (c\<lparr>cf_metaparam := (cf_metaparam c)\<lparr>fm_BestSKMrate := if nonneg_or_nan x then x else fm_BestSKMrate init_metaparam\<rparr>\<rparr>)"
    "conf_ok (c\<lparr>cf_metaparam := (cf_metaparam c)\<lparr>fm_offset_ratio := if 0 < i then i else fm_offset_ratio init_metaparam\<rparr>\<rparr>)"
    "conf_ok (c\<lparr>cf_metaparam := (cf_metaparam c)\<lparr>fm_plocal_quality := if nonneg_or_nan x then x else fm_plocal_quality init_metaparam\<rparr>\<rparr>)"
  using assms [unfolded conf_ok_def] by (simp_all add: conf_ok_def init_params)

lemma ps_conf_put: "ps_conf (st\<lparr>ps_conf := c\<rparr>) = c"
  by simp

lemma conf_ok_phat:
  assumes "conf_ok c"
  shows "conf_ok (c\<lparr>cf_phat_init := if cd_less v (Num 0) \<or> cd_eq v (Num 0) \<or> cd_less (Num 1) v then lit DEFAULT_PHAT_INIT else v\<rparr>)"
proof (cases "cd_less v (Num 0) \<or> cd_eq v (Num 0) \<or> cd_less (Num 1) v")
  case True
  then show ?thesis
    using assms phat_default by (simp only: if_True) (simp add: conf_ok_def)
next
  case False
  then have "unit_or_nan v" "v \<noteq> Num 0"
    using range_tests(2,3) [of v] by blast+
  then show ?thesis
    using False assms by (simp only: if_False) (simp add: conf_ok_def)
qed

lemma update_data_ok:
  assumes ok: "conf_ok (ps_conf st)" and u: "update_data ns k v st = Some st'"
  shows "conf_ok (ps_conf st')"
proof (cases "v = []")
  case False
  note u = u [unfolded update_data_def, simplified False if_False]
  note facts = ok [unfolded conf_ok_def] and params = ok conf_ok_params [OF ok]
  show ?thesis
  proof (cases k)
    case CONFIG_TEMPQUALITY
    then show ?thesis using u take_quality_ok [OF ok] by auto
  next
    case CONFIG_TIME_SERVER
    then show ?thesis using u take_server_ok [OF ok] by auto
  next
    case CONFIG_VERBOSE
    then show ?thesis using u facts check_valid_cases(2) [of v] by (auto simp: Let_def take_value_conf conf_ok_def split: if_splits)
  next
    case CONFIG_SYNCHRO_TYPE
    then show ?thesis using u facts check_valid_cases(3) [of v] by (auto simp: Let_def take_value_conf conf_ok_def split: if_splits)
  next
    case CONFIG_SERVER_IPC then show ?thesis using u switches(1) [OF ok] by (auto simp: is_bool_def)
  next
    case CONFIG_SERVER_NTP then show ?thesis using u switches(2) [OF ok] by (auto simp: is_bool_def)
  next
    case CONFIG_SERVER_VM_UDP then show ?thesis using u switches(3) [OF ok] by (auto simp: is_bool_def)
  next
    case CONFIG_SERVER_XEN then show ?thesis using u switches(4) [OF ok] by (auto simp: is_bool_def)
  next
    case CONFIG_SERVER_VMWARE then show ?thesis using u switches(5) [OF ok] by (auto simp: is_bool_def)
  next
    case CONFIG_ADJUST_FFCLOCK then show ?thesis using u switches(6) [OF ok] by (auto simp: is_bool_def)
  next
    case CONFIG_ADJUST_FBCLOCK then show ?thesis using u switches(7) [OF ok] by (auto simp: is_bool_def)
  next
    case CONFIG_POLLPERIOD then show ?thesis using u facts by (auto simp: Let_def take_value_conf conf_ok_def split: if_splits)
  next
    case CONFIG_PHAT_INIT then show ?thesis using u conf_ok_phat [OF ok, of "strtod v"] by (auto simp only: Let_def conf_key.case option.inject ps_conf_put)
  next
    case CONFIG_ASYM_HOST
    have "conf_ok (ps_conf (take_fraction UPDMASK_ASYM_HOST v cf_asym_host (\<lambda>v c. c\<lparr>cf_asym_host := v\<rparr>) st))"
      using facts by (intro take_fraction_ok ok) (simp add: conf_ok_def)
    then show ?thesis using u CONFIG_ASYM_HOST by simp
  next
    case CONFIG_ASYM_NET
    have "conf_ok (ps_conf (take_fraction UPDMASK_ASYM_NET v cf_asym_net (\<lambda>v c. c\<lparr>cf_asym_net := v\<rparr>) st))"
      using facts by (intro take_fraction_ok ok) (simp add: conf_ok_def)
    then show ?thesis using u CONFIG_ASYM_NET by simp
  next
    case CONFIG_TSLIMIT then show ?thesis using u params by (auto simp only: Let_def take_double_def range_tests(1) take_param_conf conf_key.case option.inject split: if_splits)
  next
    case CONFIG_SKM_SCALE then show ?thesis using u params by (auto simp only: Let_def take_double_def range_tests(1) take_param_conf conf_key.case option.inject split: if_splits)
  next
    case CONFIG_RATE_ERR_BOUND then show ?thesis using u params by (auto simp only: Let_def take_double_def range_tests(1) take_param_conf conf_key.case option.inject split: if_splits)
  next
    case CONFIG_BEST_SKM_RATE then show ?thesis using u params by (auto simp only: Let_def take_double_def range_tests(1) take_param_conf conf_key.case option.inject split: if_splits)
  next
    case CONFIG_OFFSET_RATIO then show ?thesis using u params by (auto simp only: Let_def take_double_def range_tests(1) take_param_conf conf_key.case option.inject split: if_splits)
  next
    case CONFIG_PLOCAL_QUALITY then show ?thesis using u params by (auto simp only: Let_def take_double_def range_tests(1) take_param_conf conf_key.case option.inject split: if_splits)
  qed (use u ok in \<open>auto simp: take_value_conf take_string_def\<close>)
qed (use assms in \<open>simp add: update_data_def\<close>)

text \<open>Whatever every update keeps holds of the whole file.\<close>

definition stable :: "nat \<Rightarrow> (parse_state \<Rightarrow> bool) \<Rightarrow> bool" where
  "stable ns P \<longleftrightarrow> (\<forall>k v st st'. P st \<longrightarrow> update_data ns k v st = Some st' \<longrightarrow> P st')"

lemma config_line_inv:
  assumes "stable ns P" "P (snd s)" "config_line ns l s = Some s'"
  shows "P (snd s')"
  using assms unfolding stable_def by (auto simp: config_line_def split: option.splits if_splits)

lemma config_loop_inv:
  assumes "stable ns P"
  shows "P (snd s) \<Longrightarrow> config_loop ns f s = Some s' \<Longrightarrow> P (snd s')"
  using assms
proof (induction ns f s rule: config_loop.induct [case_names loop])
  case (loop ns f s)
  show ?case
  proof (cases "f = []")
    case True
    then show ?thesis using loop.prems by (simp add: config_loop.simps)
  next
    case False
    obtain l r where lr: "fgets (MAXLINE - 1) f = (l, r)" by fastforce
    then obtain t where t: "config_line ns l s = Some t" "config_loop ns r t = Some s'"
      using loop.prems(2) False by (subst (asm) config_loop.simps) (auto simp: bind_eq_Some_conv)
    show ?thesis
      using loop.IH [OF False lr [symmetric] t(1)] config_line_inv [OF loop.prems(3,1) t(1)] t(2) loop.prems(3) by simp
  qed
qed

lemma config_parse_inv:
  assumes step: "stable ns P"
    and start: "P \<lparr>ps_conf = conf_files is_daemon conf, ps_mask = m, ps_nf = 0, ps_tmpqual = False\<rparr>"
    and parse: "config_parse version key is_daemon writable (Some f) conf m ns = Some (code, conf', m', ns', file')"
  obtains st where "P st" "ns' = ps_nf st" "m' = ps_mask st"
    "\<exists>v. conf' = (ps_conf st)\<lparr>cf_time_server := (if ps_nf st < ns then take (ps_nf st) (cf_time_server (ps_conf st))
                                               else cf_time_server (ps_conf st)), cf_radclock_version := v\<rparr>
       \<or> conf' = live_only is_daemon ((ps_conf st)\<lparr>cf_time_server := (if ps_nf st < ns
            then take (ps_nf st) (cf_time_server (ps_conf st)) else cf_time_server (ps_conf st)), cf_radclock_version := v\<rparr>)"
proof -
  let ?s0 = "\<lparr>ps_conf = conf_files is_daemon conf, ps_mask = m, ps_nf = 0, ps_tmpqual = False\<rparr>"
  obtain k st where l: "config_loop ns f (key, ?s0) = Some (k, st)"
    using parse by (auto simp: config_parse_def Let_def split: option.splits)
  have P: "P st" using config_loop_inv [OF step _ l] start by simp
  define c where "c = (ps_conf st)\<lparr>cf_time_server := (if ps_nf st < ns then take (ps_nf st) (cf_time_server (ps_conf st))
                                               else cf_time_server (ps_conf st))\<rparr>"
  have c': "(if ps_nf st < ns then (ps_conf st)\<lparr>cf_time_server := take (ps_nf st) (cf_time_server (ps_conf st))\<rparr> else ps_conf st) = c"
    by (simp add: c_def)
  have v: "c = c\<lparr>cf_radclock_version := cf_radclock_version c\<rparr>" by simp
  have r: "ns' = ps_nf st" "m' = ps_mask st"
    "conf' = c \<or> conf' = live_only is_daemon c \<or> conf' = live_only is_daemon (c\<lparr>cf_radclock_version := version\<rparr>)"
    using parse unfolding config_parse_def Let_def l option.case prod.case c' by (auto split: if_splits)
  have "\<exists>v. conf' = c\<lparr>cf_radclock_version := v\<rparr> \<or> conf' = live_only is_daemon (c\<lparr>cf_radclock_version := v\<rparr>)"
    using r(3) v by metis
  then show thesis using that P r(1,2) unfolding c_def by simp
qed

text \<open>
  C31: Whatever the configuration file contains, the configuration stays in range: starting from a valid
  one, as the built-in defaults are, a call of \<open>config_parse\<close> that returns leaves every switch on or
  off, the polling period between 1 s and 1024 s, the initial period in (0, 1] or NaN, the
  asymmetries in [0, 1] or NaN, the parameters of the environment not negative or NaN and the
  offset ratio positive. The tests of the code do not stop a NaN.
\<close>

theorem config_parse_valid:
  assumes "conf_ok conf" "config_parse version key is_daemon writable file conf m ns = Some (code, conf', m', ns', file')"
  shows "conf_ok conf'"
proof (cases "file")
  case None
  then show ?thesis using assms by (auto simp: config_parse_def Let_def conf_files_def split: if_splits)
next
  case (Some f)
  show ?thesis
  proof (rule config_parse_inv)
    show "stable ns (\<lambda>st. conf_ok (ps_conf st))" unfolding stable_def by (blast intro: update_data_ok)
    show "conf_ok (ps_conf \<lparr>ps_conf = conf_files is_daemon conf, ps_mask = m, ps_nf = 0, ps_tmpqual = False\<rparr>)"
      using assms(1) by (simp add: conf_files_def)
    show "config_parse version key is_daemon writable (Some f) conf m ns = Some (code, conf', m', ns', file')"
      using assms(2) Some by simp
  qed (auto simp: live_only_def)
qed

lemma config_init_ok: "v \<in> {0..2} \<Longrightarrow> conf_ok (config_init version v)"
  by (simp add: conf_ok_def config_init_def is_bool_def init_params phat_default [simplified]) (simp add: unit_or_nan_def)

section \<open>The command line\<close>

definition first_server :: "full_config \<Rightarrow> string" where
  "first_server c = (case cf_time_server c of [] \<Rightarrow> [] | s # _ \<Rightarrow> s)"

definition kept :: "uint32 \<Rightarrow> full_config \<Rightarrow> full_config \<Rightarrow> bool" where
  "kept m c c' \<longleftrightarrow>
     (HAS_UPDATE m UPDMASK_VERBOSE \<longrightarrow> cf_verbose_level c' = cf_verbose_level c)
   \<and> (HAS_UPDATE m UPDMASK_SERVER_IPC \<longrightarrow> cf_server_ipc c' = cf_server_ipc c)
   \<and> (HAS_UPDATE m UPDMASK_SYNCHRO_TYPE \<longrightarrow> cf_synchro_type c' = cf_synchro_type c)
   \<and> (HAS_UPDATE m UPDMASK_ADJUST_FFCLOCK \<longrightarrow> cf_adjust_FFclock c' = cf_adjust_FFclock c)
   \<and> (HAS_UPDATE m UPDMASK_ADJUST_FBCLOCK \<longrightarrow> cf_adjust_FBclock c' = cf_adjust_FBclock c)
   \<and> (HAS_UPDATE m UPDMASK_POLLPERIOD \<longrightarrow> cf_poll_period c' = cf_poll_period c)
   \<and> (HAS_UPDATE m UPDMASK_HOSTNAME \<longrightarrow> cf_hostname c' = cf_hostname c)
   \<and> (HAS_UPDATE m UPDMASK_NETWORKDEV \<longrightarrow> cf_network_device c' = cf_network_device c)
   \<and> (HAS_UPDATE m UPDMASK_SYNC_IN_PCAP \<longrightarrow> cf_sync_in_pcap c' = cf_sync_in_pcap c)
   \<and> (HAS_UPDATE m UPDMASK_SYNC_IN_ASCII \<longrightarrow> cf_sync_in_ascii c' = cf_sync_in_ascii c)
   \<and> (HAS_UPDATE m UPDMASK_SYNC_OUT_PCAP \<longrightarrow> cf_sync_out_pcap c' = cf_sync_out_pcap c)
   \<and> (HAS_UPDATE m UPDMASK_SYNC_OUT_ASCII \<longrightarrow> cf_sync_out_ascii c' = cf_sync_out_ascii c)
   \<and> (HAS_UPDATE m UPDMASK_CLOCK_OUT_ASCII \<longrightarrow> cf_clock_out_ascii c' = cf_clock_out_ascii c)
   \<and> (HAS_UPDATE m UPDMASK_TIME_SERVER \<longrightarrow> first_server c' = first_server c)"

lemma has_update_or: "HAS_UPDATE m f \<Longrightarrow> HAS_UPDATE (m OR g) f"
  by (auto simp: HAS_UPDATE_def bit_eq_iff bit_and_iff bit_or_iff)

lemma has_update_touch: "HAS_UPDATE m f \<Longrightarrow> HAS_UPDATE (touch g p m) f"
  by (simp add: touch_def has_update_or)

definition wins :: "uint32 \<Rightarrow> full_config \<Rightarrow> parse_state \<Rightarrow> bool" where
  "wins m c st \<longleftrightarrow> kept m c (ps_conf st) \<and> (\<forall>f. HAS_UPDATE m f \<longrightarrow> HAS_UPDATE (ps_mask st) f)"

lemma take_value_mask: "HAS_UPDATE (ps_mask st) f \<Longrightarrow> HAS_UPDATE (ps_mask (take_value flag d p x get put st)) f"
  by (simp add: take_value_def has_update_touch)

lemma wins_take_value:
  assumes "wins m c st" "\<And>x. \<not> HAS_UPDATE m flag \<Longrightarrow> kept m c (put x (ps_conf st))"
  shows "wins m c (take_value flag d p x get put st)"
proof -
  have m: "\<And>f. HAS_UPDATE m f \<Longrightarrow> HAS_UPDATE (ps_mask st) f" "kept m c (ps_conf st)" using assms(1) by (auto simp: wins_def)
  have "kept m c (ps_conf (take_value flag d p x get put st))"
    using m assms(2) by (auto simp only: take_value_conf split: if_split)
  then show ?thesis unfolding wins_def using m(1) by (simp add: take_value_mask)
qed

lemma wins_params:
  assumes "wins m c st"
  shows "wins m c (st\<lparr>ps_conf := (ps_conf st)\<lparr>cf_metaparam := mp\<rparr>, ps_mask := touch flag p (ps_mask st)\<rparr>)"
    "wins m c (st\<lparr>ps_tmpqual := b\<rparr>)" "wins m c (st\<lparr>ps_nf := n\<rparr>)"
  using assms unfolding wins_def by (auto simp: kept_def first_server_def has_update_touch)

lemma wins_take_param: "wins m c st \<Longrightarrow> wins m c (take_param d p x get put st)"
  by (simp add: take_param_def Let_def wins_params)

lemma wins_take_quality: "wins m c st \<Longrightarrow> wins m c (take_quality v st)"
  using wins_params(1) [OF wins_params(2)]
  by (auto simp: take_quality_def Let_def wins_params split: option.split)

lemma first_server_simps:
  "0 < n \<Longrightarrow> first_server (c\<lparr>cf_time_server := (cf_time_server c)[n := v]\<rparr>) = first_server c"
  "0 < n \<Longrightarrow> n \<le> length (cf_time_server c) \<Longrightarrow> first_server (c\<lparr>cf_time_server := take n (cf_time_server c) @ [v]\<rparr>) = first_server c"
  by (auto simp: first_server_def split: list.split nat.split) (auto simp: take_Cons split: nat.splits)

lemma wins_servers:
  assumes "wins m c st" "HAS_UPDATE m UPDMASK_TIME_SERVER \<Longrightarrow> first_server ((ps_conf st)\<lparr>cf_time_server := ss\<rparr>) = first_server (ps_conf st)"
    "\<And>f. HAS_UPDATE (ps_mask st) f \<Longrightarrow> HAS_UPDATE m' f"
  shows "wins m c (st\<lparr>ps_conf := (ps_conf st)\<lparr>cf_time_server := ss\<rparr>, ps_mask := m', ps_nf := n\<rparr>)"
  using assms unfolding wins_def by (auto simp: kept_def)

lemma wins_take_server:
  assumes w: "wins m c st" and t: "take_server ns v st = Some st'"
  shows "wins m c st'"
proof -
  let ?c = "ps_conf st" and ?n = "ps_nf st"
  have pos: "0 < ?n" if "\<not> (?n = 0 \<and> HAS_UPDATE (ps_mask st) UPDMASK_TIME_SERVER)" "HAS_UPDATE m UPDMASK_TIME_SERVER"
    using that w by (auto simp: wins_def)
  show ?thesis
  proof (cases "?n = 0 \<and> HAS_UPDATE (ps_mask st) UPDMASK_TIME_SERVER")
    case True
    then show ?thesis using t wins_params(3) [OF w] by (auto simp: take_server_def)
  next
    case False
    then show ?thesis using t pos
      by (auto simp: take_server_def Let_def has_update_touch has_update_or first_server_simps split: if_splits intro!: wins_servers [OF w])
  qed
qed

lemma wins_other:
  assumes "wins m c st"
  shows "wins m c (st\<lparr>ps_conf := (ps_conf st)\<lparr>cf_phat_init := x\<rparr>\<rparr>)" "wins m c (st\<lparr>ps_conf := (ps_conf st)\<lparr>cf_radclock_version := v\<rparr>\<rparr>)"
  using assms unfolding wins_def by (auto simp: kept_def first_server_def)

lemma kept_put:
  assumes "kept m c c1"
  shows "\<not> HAS_UPDATE m UPDMASK_VERBOSE \<Longrightarrow> kept m c (c1\<lparr>cf_verbose_level := i\<rparr>)"
    "\<not> HAS_UPDATE m UPDMASK_SERVER_IPC \<Longrightarrow> kept m c (c1\<lparr>cf_server_ipc := i\<rparr>)"
    "\<not> HAS_UPDATE m UPDMASK_SYNCHRO_TYPE \<Longrightarrow> kept m c (c1\<lparr>cf_synchro_type := i\<rparr>)"
    "\<not> HAS_UPDATE m UPDMASK_ADJUST_FFCLOCK \<Longrightarrow> kept m c (c1\<lparr>cf_adjust_FFclock := i\<rparr>)"
    "\<not> HAS_UPDATE m UPDMASK_ADJUST_FBCLOCK \<Longrightarrow> kept m c (c1\<lparr>cf_adjust_FBclock := i\<rparr>)"
    "\<not> HAS_UPDATE m UPDMASK_POLLPERIOD \<Longrightarrow> kept m c (c1\<lparr>cf_poll_period := i\<rparr>)"
    "\<not> HAS_UPDATE m UPDMASK_HOSTNAME \<Longrightarrow> kept m c (c1\<lparr>cf_hostname := s\<rparr>)"
    "\<not> HAS_UPDATE m UPDMASK_NETWORKDEV \<Longrightarrow> kept m c (c1\<lparr>cf_network_device := s\<rparr>)"
    "\<not> HAS_UPDATE m UPDMASK_SYNC_IN_PCAP \<Longrightarrow> kept m c (c1\<lparr>cf_sync_in_pcap := s\<rparr>)"
    "\<not> HAS_UPDATE m UPDMASK_SYNC_IN_ASCII \<Longrightarrow> kept m c (c1\<lparr>cf_sync_in_ascii := s\<rparr>)"
    "\<not> HAS_UPDATE m UPDMASK_SYNC_OUT_PCAP \<Longrightarrow> kept m c (c1\<lparr>cf_sync_out_pcap := s\<rparr>)"
    "\<not> HAS_UPDATE m UPDMASK_SYNC_OUT_ASCII \<Longrightarrow> kept m c (c1\<lparr>cf_sync_out_ascii := s\<rparr>)"
    "\<not> HAS_UPDATE m UPDMASK_CLOCK_OUT_ASCII \<Longrightarrow> kept m c (c1\<lparr>cf_clock_out_ascii := s\<rparr>)"
    "kept m c (c1\<lparr>cf_server_ntp := i\<rparr>)"
    "kept m c (c1\<lparr>cf_server_vm_udp := i\<rparr>)"
    "kept m c (c1\<lparr>cf_server_xen := i\<rparr>)"
    "kept m c (c1\<lparr>cf_server_vmware := i\<rparr>)"
    "kept m c (c1\<lparr>cf_asym_host := r\<rparr>)"
    "kept m c (c1\<lparr>cf_asym_net := r\<rparr>)"
    "kept m c (c1\<lparr>cf_vm_udp_list := s\<rparr>)"
  using assms by (simp_all add: kept_def first_server_def)

lemma wins_update:
  assumes w: "wins m c st" and u: "update_data ns k v st = Some st'"
  shows "wins m c st'"
proof (cases "v = []")
  case True
  then show ?thesis using assms by (simp add: update_data_def)
next
  case False
  note u = u [unfolded update_data_def, simplified False if_False]
  have kf: "kept m c (ps_conf st)" using w by (simp add: wins_def)
  show ?thesis
  proof (cases k)
    case CONFIG_TIME_SERVER then show ?thesis using u wins_take_server [OF w] by auto
  next
    case CONFIG_TEMPQUALITY then show ?thesis using u wins_take_quality [OF w] by auto
  next
    case CONFIG_TSLIMIT then show ?thesis using u wins_take_param [OF w] by (auto simp: Let_def take_double_def)
  next
    case CONFIG_SKM_SCALE then show ?thesis using u wins_take_param [OF w] by (auto simp: Let_def take_double_def)
  next
    case CONFIG_RATE_ERR_BOUND then show ?thesis using u wins_take_param [OF w] by (auto simp: Let_def take_double_def)
  next
    case CONFIG_BEST_SKM_RATE then show ?thesis using u wins_take_param [OF w] by (auto simp: Let_def take_double_def)
  next
    case CONFIG_OFFSET_RATIO then show ?thesis using u wins_take_param [OF w] by (auto simp: Let_def take_double_def)
  next
    case CONFIG_PLOCAL_QUALITY then show ?thesis using u wins_take_param [OF w] by (auto simp: Let_def take_double_def)
  next
    case CONFIG_UNKNOWN then show ?thesis using u w by auto
  next
    case CONFIG_RADCLOCK_VERSION then show ?thesis using u wins_other [OF w] by auto
  next
    case CONFIG_PHAT_INIT then show ?thesis using u wins_other(1) [OF w] by (auto simp only: Let_def conf_key.case option.inject)
  qed (use u kept_put [OF kf] in \<open>auto simp: Let_def take_switch_def take_string_def take_fraction_def intro!: wins_take_value [OF w]\<close>)
qed

text \<open>
  C32: Values given on the command line win: a call at start-up, when no servers are known yet, leaves
  every value whose bit is set in the mask as it was, the first time server included, whatever
  the file says; only a daemon drops the names of input files.
\<close>

theorem command_line_wins:
  assumes parse: "config_parse version key is_daemon writable file conf m 0 = Some (code, conf', m', ns', file')"
    and live: "\<not> is_daemon \<or> \<not> HAS_UPDATE m UPDMASK_SYNC_IN_PCAP \<and> \<not> HAS_UPDATE m UPDMASK_SYNC_IN_ASCII"
  shows "kept m conf conf'"
proof (cases "file")
  case None
  then show ?thesis
    using parse by (auto simp: config_parse_def Let_def conf_files_def kept_def first_server_def split: if_splits)
next
  case (Some f)
  have k: "kept m c (c'\<lparr>cf_time_server := cf_time_server c', cf_radclock_version := v\<rparr>)"
    "kept m c (live_only is_daemon (c'\<lparr>cf_time_server := cf_time_server c', cf_radclock_version := v\<rparr>))"
    if "kept m c c'" for c c' v
    using that live by (auto simp: kept_def live_only_def first_server_def)
  have s0: "kept m conf (conf_files is_daemon conf)" by (simp add: kept_def conf_files_def first_server_def)
  show ?thesis
  proof (rule config_parse_inv)
    show "stable 0 (wins m conf)" unfolding stable_def by (blast intro: wins_update)
    show "wins m conf \<lparr>ps_conf = conf_files is_daemon conf, ps_mask = m, ps_nf = 0, ps_tmpqual = False\<rparr>"
      using s0 by (simp add: wins_def)
    show "config_parse version key is_daemon writable (Some f) conf m 0 = Some (code, conf', m', ns', file')"
      using parse Some by simp
  qed (use k in \<open>auto simp: wins_def\<close>)
qed

section \<open>Lines\<close>

lemma fgets_line: "newline \<notin> set l \<Longrightarrow> length l < n \<Longrightarrow> fgets n (l @ newline # s) = (l @ [newline], s)"
proof (induction l arbitrary: n)
  case Nil
  then show ?case by (cases n) simp_all
next
  case (Cons c l)
  then show ?case by (cases n) auto
qed

definition plain_line :: "string \<Rightarrow> bool" where
  "plain_line l \<longleftrightarrow> newline \<notin> set l \<and> length l < MAXLINE - 1"

lemma config_loop_line:
  assumes "plain_line l"
  shows "config_loop ns (l @ newline # f) s = Option.bind (config_line ns (l @ [newline]) s) (config_loop ns f)"
  using assms by (subst config_loop.simps) (simp add: plain_line_def fgets_line)

lemma config_loop_end: "config_loop ns [] s = Some s"
  by (simp add: config_loop.simps)

text \<open>Comments and empty lines are skipped.\<close>

definition skip_text :: "string \<Rightarrow> bool" where
  "skip_text l \<longleftrightarrow> (case l of [] \<Rightarrow> True | c # _ \<Rightarrow> c = CHR ''#'')"

lemma skip_line_config: "skip_text l \<Longrightarrow> config_line ns (l @ [newline]) s = Some s"
  by (cases l; cases s) (auto simp: skip_text_def config_line_def c_str_def extract_key_value_def is_blank_def newline_def)

text \<open>A value that survives the extraction, and the labels of the keys.\<close>

definition clean :: "string \<Rightarrow> bool" where
  "clean v \<longleftrightarrow> v \<noteq> [] \<and> \<not> is_end (hd v) \<and> hd v \<noteq> CHR ''='' \<and> \<not> is_end (last v) \<and> CHR ''#'' \<notin> set v
     \<and> newline \<notin> set v \<and> NUL \<notin> set v"

definition good_label :: "string \<Rightarrow> bool" where
  "good_label l \<longleftrightarrow> l \<noteq> [] \<and> length l < 30 \<and> list_all (\<lambda>c. \<not> is_end c \<and> c \<noteq> CHR ''='' \<and> c \<noteq> CHR ''#'' \<and> c \<noteq> NUL) l"

lemma labels_good:
  assumes "k \<noteq> CONFIG_UNKNOWN"
  shows "good_label (find_key_label k) \<and> match_key (find_key_label k) = k"
proof -
  have "list_all (\<lambda>(l, k). good_label l \<and> find_key_label k = l \<and> match_key l = k) keys" by code_simp
  moreover have "k \<in> snd ` set keys" using assms by (cases k) (simp_all add: keys_def)
  ultimately show ?thesis by (auto simp: list_all_iff)
qed

lemma trim_value_clean:
  assumes "clean v"
  shows "trim_value gap (v @ [newline]) = v"
proof -
  have h: "takeWhile (\<lambda>c. c \<noteq> CHR ''#'') (v @ [newline]) = v @ [newline]"
    using assms by (auto simp: clean_def takeWhile_eq_all_conv newline_def)
  have "\<not> list_all is_end v" using assms by (auto simp: clean_def list_all_iff)
  moreover have "dropWhile is_end (rev v) = rev v"
    using assms by (simp add: clean_def dropWhile_eq_self_iff hd_rev)
  ultimately show ?thesis by (simp add: trim_value_def h Let_def is_end_def)
qed

lemma copy_key_label:
  assumes "good_label l" "length key = MAXLINE"
  shows "\<exists>key'. copy_key (l @ '' '') key = Some key' \<and> c_str key' = l \<and> length key' = MAXLINE"
proof -
  have t: "takeWhile (\<lambda>c. \<not> is_end c) (l @ CHR '' '' # r) = l" for r
    using assms(1) by (simp add: good_label_def list_all_iff takeWhile_append is_end_def is_blank_def)
  have n: "takeWhile (\<lambda>c. c \<noteq> NUL) (l @ NUL # r) = l" for r
    using assms(1) by (simp add: good_label_def list_all_iff takeWhile_append)
  show ?thesis using assms by (simp add: copy_key_def Let_def t c_str_def n good_label_def list_update_append)
qed

lemma extract_clean:
  assumes l: "good_label l" "length key = MAXLINE" and v: "clean v"
  shows "\<exists>key'. extract_key_value (l @ '' = '' @ v @ [newline]) key = Some (key', Some v) \<and> c_str key' = l \<and> length key' = MAXLINE"
proof -
  obtain key' where k: "copy_key (l @ '' '') key = Some key'" "c_str key' = l" "length key' = MAXLINE"
    using copy_key_label [OF l] by blast
  obtain c l' where cl: "l = c # l'" "\<not> is_end c" "c \<noteq> CHR ''#''" using l(1) by (cases l) (auto simp: good_label_def)
  have eq: "takeWhile (\<lambda>c. c \<noteq> CHR ''='') (l @ '' = '' @ r) = l @ '' ''"
    "dropWhile (\<lambda>c. c \<noteq> CHR ''='') (l @ '' = '' @ r) = ''= '' @ r" for r
    using l(1) by (simp_all add: good_label_def list_all_iff takeWhile_append dropWhile_append)
  let ?sep = "\<lambda>c. c = CHR ''='' \<or> is_blank c"
  have sep: "takeWhile ?sep (''= '' @ v @ [newline]) = ''= ''" "dropWhile ?sep (''= '' @ v @ [newline]) = v @ [newline]"
    using v by (cases v; auto simp: clean_def is_blank_def is_end_def)+
  have d: "dropWhile is_blank (l @ '' = '' @ v @ [newline]) = l @ '' = '' @ v @ [newline]"
    using cl by (simp add: is_end_def)
  show ?thesis unfolding extract_key_value_def Let_def d eq sep trim_value_clean [OF v]
    using k cl by (auto simp: is_end_def)
qed

lemma config_key_line:
  assumes "k \<noteq> CONFIG_UNKNOWN" "length key = MAXLINE" "clean v"
  shows "\<exists>key'. length key' = MAXLINE
    \<and> config_line ns (key_line k v @ [newline]) (key, st) = map_option (Pair key') (update_data ns k v st)"
proof -
  note g = labels_good [OF assms(1)]
  obtain key' where e: "extract_key_value (find_key_label k @ '' = '' @ v @ [newline]) key = Some (key', Some v)"
    "c_str key' = find_key_label k" "length key' = MAXLINE"
    using extract_clean [OF conjunct1 [OF g] assms(2,3)] by blast
  have "c_str (key_line k v @ [newline]) = find_key_label k @ '' = '' @ v @ [newline]"
    using g assms(3) by (auto simp: c_str_def key_line_def good_label_def clean_def list_all_iff newline_def takeWhile_eq_all_conv)
  then show ?thesis using e g assms(3) by (auto simp: config_line_def clean_def)
qed

section \<open>Files as lists of updates\<close>

primrec run_lines :: "nat \<Rightarrow> string list \<Rightarrow> string \<times> parse_state \<Rightarrow> (string \<times> parse_state) option" where
  "run_lines ns [] s = Some s"
| "run_lines ns (l # ls) s = Option.bind (config_line ns (l @ [newline]) s) (run_lines ns ls)"

primrec run_updates :: "nat \<Rightarrow> (conf_key \<times> string) list \<Rightarrow> parse_state \<Rightarrow> parse_state option" where
  "run_updates ns [] st = Some st"
| "run_updates ns (kv # kvs) st = Option.bind (update_data ns (fst kv) (snd kv) st) (run_updates ns kvs)"

definition unlines :: "string list \<Rightarrow> string" where
  "unlines ls = concat (map (\<lambda>l. l @ [newline]) ls)"

lemma config_loop_lines: "list_all plain_line ls \<Longrightarrow> config_loop ns (unlines ls) s = run_lines ns ls s"
proof (induction ls arbitrary: s)
  case (Cons l ls)
  then show ?case by (cases "config_line ns (l @ [newline]) s") (simp_all add: config_loop_line unlines_def)
qed (simp add: config_loop_end unlines_def)

lemma run_updates_append: "run_updates ns (xs @ ys) st = Option.bind (run_updates ns xs st) (run_updates ns ys)"
proof (induction xs arbitrary: st)
  case (Cons x xs)
  then show ?case by (cases "update_data ns (fst x) (snd x) st") simp_all
qed simp

lemma run_lines_append: "run_lines ns (xs @ ys) s = Option.bind (run_lines ns xs s) (run_lines ns ys)"
proof (induction xs arbitrary: s)
  case (Cons x xs)
  then show ?case by (cases "config_line ns (x @ [newline]) s") simp_all
qed simp

text \<open>\<open>reads ls kvs\<close>: the lines \<open>ls\<close> amount to the updates \<open>kvs\<close>.\<close>

definition reads :: "string list \<Rightarrow> (conf_key \<times> string) list \<Rightarrow> bool" where
  "reads ls kvs \<longleftrightarrow> list_all plain_line ls \<and> (\<forall>ns key st. length key = MAXLINE \<longrightarrow>
     (\<exists>key'. length key' = MAXLINE \<and> run_lines ns ls (key, st) = map_option (Pair key') (run_updates ns kvs st)))"

lemma reads_append:
  assumes "reads xs us" "reads ys vs"
  shows "reads (xs @ ys) (us @ vs)"
  unfolding reads_def
proof (intro conjI allI impI)
  show "list_all plain_line (xs @ ys)" using assms by (simp add: reads_def)
  fix ns key st assume k: "length (key :: string) = MAXLINE"
  obtain k1 where k1: "length k1 = MAXLINE" "run_lines ns xs (key, st) = map_option (Pair k1) (run_updates ns us st)"
    using assms(1) k unfolding reads_def by blast
  show "\<exists>key'. length key' = MAXLINE
      \<and> run_lines ns (xs @ ys) (key, st) = map_option (Pair key') (run_updates ns (us @ vs) st)"
  proof (cases "run_updates ns us st")
    case None
    then show ?thesis using k1 by (auto simp: run_lines_append run_updates_append)
  next
    case (Some t)
    obtain k2 where "length k2 = MAXLINE" "run_lines ns ys (k1, t) = map_option (Pair k2) (run_updates ns vs t)"
      using assms(2) k1(1) unfolding reads_def by blast
    then show ?thesis using k1 Some by (auto simp: run_lines_append run_updates_append)
  qed
qed

lemma reads_skip:
  assumes "list_all (\<lambda>l. plain_line l \<and> skip_text l) ls"
  shows "reads ls []"
proof -
  have "run_lines ns ls s = Some s" for ns s
    using assms by (induction ls arbitrary: s) (simp_all add: skip_line_config)
  then show ?thesis using assms by (auto simp: reads_def list_all_iff)
qed

lemma reads_key:
  assumes "k \<noteq> CONFIG_UNKNOWN" "clean v" "length v < 200"
  shows "reads [key_line k v] [(k, v)]"
proof -
  have "newline \<notin> set (find_key_label k)" "length (find_key_label k) < 30"
    using labels_good [OF assms(1)] by (auto simp: good_label_def list_all_iff is_end_def)
  then have "plain_line (key_line k v)"
    using assms(2,3) by (auto simp: plain_line_def key_line_def clean_def newline_def)
  moreover have one: "run_lines ns [l] s = config_line ns (l @ [newline]) s" "run_updates ns [(k, v)] st = update_data ns k v st"
    for ns l s st
    by (cases "config_line ns (l @ [newline]) s"; simp) (cases "update_data ns k v st"; simp)
  moreover have "\<exists>key'. length key' = MAXLINE
      \<and> run_lines ns [key_line k v] (key, st) = map_option (Pair key') (run_updates ns [(k, v)] st)"
    if "length key = MAXLINE" for ns key st
    using config_key_line [OF assms(1) that assms(2), of ns st] one by simp
  ultimately show ?thesis by (simp add: reads_def)
qed

definition parse_start :: "bool \<Rightarrow> full_config \<Rightarrow> uint32 \<Rightarrow> parse_state" where
  "parse_start is_daemon conf m =
     \<lparr>ps_conf = conf_files is_daemon conf, ps_mask = m, ps_nf = 0, ps_tmpqual = False\<rparr>"

definition trim_servers :: "nat \<Rightarrow> parse_state \<Rightarrow> full_config" where
  "trim_servers ns st =
     (if ps_nf st < ns then (ps_conf st)\<lparr>cf_time_server := take (ps_nf st) (cf_time_server (ps_conf st))\<rparr> else ps_conf st)"

lemma config_parse_reads:
  assumes "reads ls kvs" "length key = MAXLINE"
  shows "run_updates ns kvs (parse_start is_daemon conf m) = None \<Longrightarrow>
      config_parse version key is_daemon writable (Some (unlines ls)) conf m ns = None"
    and "run_updates ns kvs (parse_start is_daemon conf m) = Some st \<Longrightarrow> cf_radclock_version (ps_conf st) = version \<Longrightarrow>
      config_parse version key is_daemon writable (Some (unlines ls)) conf m ns
        = Some (1, live_only is_daemon (trim_servers ns st), ps_mask st, ps_nf st, Some (unlines ls))"
proof -
  have l: "list_all plain_line ls" using assms(1) by (simp add: reads_def)
  obtain key' where "run_lines ns ls (key, parse_start is_daemon conf m)
      = map_option (Pair key') (run_updates ns kvs (parse_start is_daemon conf m))"
    using assms unfolding reads_def by blast
  then have r: "config_loop ns (unlines ls) (key, parse_start is_daemon conf m)
      = map_option (Pair key') (run_updates ns kvs (parse_start is_daemon conf m))"
    by (simp add: config_loop_lines [OF l])
  note d = config_parse_def Let_def parse_start_def [symmetric]
  show "run_updates ns kvs (parse_start is_daemon conf m) = None \<Longrightarrow>
      config_parse version key is_daemon writable (Some (unlines ls)) conf m ns = None"
    unfolding d using r by simp
  assume u: "run_updates ns kvs (parse_start is_daemon conf m) = Some st" "cf_radclock_version (ps_conf st) = version"
  have v: "cf_radclock_version (trim_servers ns st) = version" using u(2) by (simp add: trim_servers_def)
  show "config_parse version key is_daemon writable (Some (unlines ls)) conf m ns
        = Some (1, live_only is_daemon (trim_servers ns st), ps_mask st, ps_nf st, Some (unlines ls))"
    unfolding d option.case r u(1) option.map prod.case trim_servers_def [symmetric] using v by simp
qed

text \<open>
  C40: A second time server in the file overruns the memory at start-up: the configuration has one
  block for server names, and while no servers are known the code takes every block for
  allocated. This happens for any two names, with and without a server on the command line.
\<close>

theorem second_server_overruns:
  assumes "clean v1" "length v1 < 200" "clean v2" "length v2 < 200" "length key = MAXLINE"
  shows "config_parse version key is_daemon writable
      (Some (unlines [key_line CONFIG_TIME_SERVER v1, key_line CONFIG_TIME_SERVER v2])) (config_init version verb) m 0 = None"
proof -
  have "reads ([key_line CONFIG_TIME_SERVER v1] @ [key_line CONFIG_TIME_SERVER v2])
      ([(CONFIG_TIME_SERVER, v1)] @ [(CONFIG_TIME_SERVER, v2)])"
    using assms by (intro reads_append reads_key) simp_all
  moreover have "run_updates 0 ([(CONFIG_TIME_SERVER, v1)] @ [(CONFIG_TIME_SERVER, v2)]) (parse_start is_daemon (config_init version verb) m) = None"
    using assms(1,3)
    by (auto simp: update_data_def clean_def take_server_def Let_def parse_start_def conf_files_def config_init_def)
  ultimately show ?thesis using config_parse_reads(1) [OF _ assms(5)] by simp
qed

definition demo_key :: string where "demo_key = replicate MAXLINE (CHR ''x'')"

lemma demo_clean: "clean ''a.org''" "clean ''b.org''" "clean ''9999''" "length demo_key = MAXLINE"
  by (simp_all add: clean_def is_end_def is_blank_def newline_def demo_key_def)

theorem second_server_overruns_witness:
  "config_parse ''1.0'' demo_key True True
     (Some (unlines [key_line CONFIG_TIME_SERVER ''a.org'', key_line CONFIG_TIME_SERVER ''b.org''])) (config_init ''1.0'' 1) 0 0 = None"
  by (rule second_server_overruns) (simp_all add: demo_clean)

lemma demo_parse:
  "\<exists>conf' m'. config_parse ''1.0'' demo_key False True (Some (unlines [key_line CONFIG_POLLPERIOD ''9999'']))
     (config_init ''1.0'' 1) UPDMASK_POLLPERIOD 0
     = Some (1, conf', m', 0, Some (unlines [key_line CONFIG_POLLPERIOD ''9999'']))"
proof -
  have r: "reads [key_line CONFIG_POLLPERIOD ''9999''] [(CONFIG_POLLPERIOD, ''9999'')]"
    by (rule reads_key) (simp_all add: demo_clean)
  let ?s = "parse_start False (config_init ''1.0'' 1) UPDMASK_POLLPERIOD"
  have u: "run_updates 0 [(CONFIG_POLLPERIOD, ''9999'')] ?s = Some ?s"
    by (simp add: update_data_def Let_def take_value_def HAS_UPDATE_def parse_start_def)
  have "cf_radclock_version (ps_conf ?s) = ''1.0''" "ps_nf ?s = 0"
    by (simp_all add: parse_start_def conf_files_def config_init_def)
  then show ?thesis using config_parse_reads(2) [OF r demo_clean(4) u] by auto
qed

theorem config_parse_valid_witness:
  "\<exists>conf' m'. config_parse ''1.0'' demo_key False True (Some (unlines [key_line CONFIG_POLLPERIOD ''9999'']))
     (config_init ''1.0'' 1) UPDMASK_POLLPERIOD 0
     = Some (1, conf', m', 0, Some (unlines [key_line CONFIG_POLLPERIOD ''9999''])) \<and> conf_ok conf'"
proof -
  have "conf_ok (config_init ''1.0'' 1)" by (rule config_init_ok) simp
  then show ?thesis using demo_parse config_parse_valid by blast
qed

theorem command_line_wins_witness:
  "\<exists>conf' m'. config_parse ''1.0'' demo_key False True (Some (unlines [key_line CONFIG_POLLPERIOD ''9999'']))
     (config_init ''1.0'' 1) UPDMASK_POLLPERIOD 0
     = Some (1, conf', m', 0, Some (unlines [key_line CONFIG_POLLPERIOD ''9999''])) \<and> kept UPDMASK_POLLPERIOD (config_init ''1.0'' 1) conf'"
  using demo_parse command_line_wins by blast

section \<open>Where the parser departs from its intent\<close>

text \<open>
  The range tests compare with \<^verbatim>\<open><\<close>, \<^verbatim>\<open>>\<close> and \<^verbatim>\<open>==\<close> only, which are all false of a NaN: the text \<^verbatim>\<open>nan\<close> is
  taken over as the initial period.
\<close>

lemma nan_period_accepted:
  "strtod ''nan'' = Nan False"
  "\<exists>st'. update_data ns CONFIG_PHAT_INIT ''nan'' st = Some st' \<and> cf_phat_init (ps_conf st') = Nan False"
proof -
  show n: "strtod ''nan'' = Nan False"
    by (simp add: strtod_def starts_with_def to_lower_def is_space_def)
  show "\<exists>st'. update_data ns CONFIG_PHAT_INIT ''nan'' st = Some st' \<and> cf_phat_init (ps_conf st') = Nan False"
    by (simp add: update_data_def n)
qed

text \<open>
  A line that is neither empty nor a comment and has no separator makes the code subtract from a
  null pointer. A key that is not followed by a blank is read together with what an earlier line
  left in the buffer. An empty value with a blank before the end of the line is the newline itself.
\<close>

lemma no_separator_fails:
  assumes "dropWhile is_blank l = c # t" "c \<noteq> CHR ''#''" "c \<noteq> newline" "CHR ''='' \<notin> set (c # t)"
  shows "extract_key_value l key = None"
  using assms by (simp add: extract_key_value_def Let_def)

lemma unspaced_key_garbled:
  "extract_key_value (''hostname=a.org'' @ [newline]) (''radclock_version'' @ NUL # '' x'')
     = Some (''hostname_version'' @ NUL # NUL # ''x'', Some ''a.org'')"
  by code_simp

lemma empty_value_is_newline:
  "extract_key_value (''hostname = '' @ [newline]) (replicate 10 (CHR ''x'')) = Some (''hostname'' @ NUL # ''x'', Some [newline])"
  by code_simp

text \<open>
  A change of the overall quality is judged by a parameter that is the same for all qualities, so
  that it is never signalled to the algorithm.
\<close>

lemma quality_change_unnoticed:
  assumes "fm_TSLIMIT (cf_metaparam (ps_conf st)) = lit (15 / 10 ^ 6)"
  shows "ps_mask (take_quality v st) = ps_mask st"
  using assms by (auto simp: take_quality_def Let_def touch_def quality_params_def split: option.split temp_quality.split)

end
