(* ===== verification/Spec2Isabelle.thy ===== *)
theory Spec2Isabelle
  imports Alarm_FIFO Sms_Sharing Data_Proc Kernel_Read Config_File
begin

text \<open>
  This development models RADclock, a feed-forward synchronisation daemon with its client
  library, and proves what makes its parts and their composition correct.

  \<^bold>\<open>The program.\<close> The daemon (\<^verbatim>\<open>src/radclock\<close>) sends NTP requests on a grid of timer alarms,
  captures requests and replies with raw counter timestamps, pairs them into four-timestamp
  stamps, vets each stamp and feeds it to the synchronisation algorithm of its server. The
  algorithm keeps sliding histories and estimates the counter period, the local period, the
  minimum RTT and one-way delays, and the clock offset. The parameters of the preferred
  server's clock are published: to processes through a shared memory segment, to the
  kernel's feed-forward clock, and to the kernel's feedback clock by discipline. The library
  (\<^verbatim>\<open>src/libradclock\<close>) reads the shared memory, or the kernel data, to tell time. The patched
  kernel (\<^verbatim>\<open>src/kernel\<close>) runs clocks of its own on the parameters and stamps packets with them.

  \<^bold>\<open>Theories and the code they model.\<close>

  \<^item> \<open>Rad_Prelude\<close>: word and list types and lemmas, the macros \<^verbatim>\<open>MIN\<close> and \<^verbatim>\<open>MAX\<close>.
  \<^item> \<open>C_Float\<close>: rounding to nearest even of binary formats, \<open>dbl\<close> and \<open>ldbl\<close> for \<^verbatim>\<open>double\<close> and the 80 bit
    \<^verbatim>\<open>long double\<close>, and the values of a \<^verbatim>\<open>double\<close> with infinities and NaN.
  \<^item> \<open>Alarm_FIFO\<close>: \<^verbatim>\<open>FIFO.c\<close> and its use in \<^verbatim>\<open>pthread_trigger.c\<close>, \<^verbatim>\<open>client_ntp.c\<close>.
  \<^item> \<open>Sync_History\<close>: \<^verbatim>\<open>sync_history.c\<close>, circular histories and window minima.
  \<^item> \<open>Rad_Data\<close>, \<open>Algo_State\<close>: the published parameters, status bits, the algorithm's state.
  \<^item> \<open>Algo_RTT\<close>, \<open>Algo_Phat\<close>, \<open>Algo_Theta\<close>, \<open>Algo_Bidir\<close>, \<open>Algo_Warmup\<close>: \<^verbatim>\<open>sync_bidir.c\<close>, from the RTT and
    one-way delay filters through the period, local period and offset estimators to a whole
    run \<^verbatim>\<open>RADalgo_bidir\<close> and its warmup phase.
  \<^item> \<open>Rad_Clock\<close>: reading the clocks, their quality, the kernel's fixed point form
    (\<^verbatim>\<open>radclock-private.h\<close>, \<^verbatim>\<open>radapi-time.c\<close>, \<^verbatim>\<open>radapi-base.c\<close>, \<^verbatim>\<open>kclock.h\<close>).
  \<^item> \<open>Sms_Sharing\<close>: the shared memory protocol, \<^verbatim>\<open>update_ipc_shared_memory\<close> as a step relation of
    single stores, and the readers of \<^verbatim>\<open>radapi-time.c\<close> and \<^verbatim>\<open>radapi-getset.c\<close> as sequences of loads.
  \<^item> \<open>Ntp_Proto\<close>: timestamps and header fields of \<^verbatim>\<open>proto_ntp.h\<close>, \<^verbatim>\<open>misc.h\<close>, \<^verbatim>\<open>ntohll.h\<close>.
  \<^item> \<open>Stamp_Queue\<close>, \<open>Packet_Capture\<close>: \<^verbatim>\<open>create_stamp.c\<close>, the matching queue, and parsing, filtering and
    the stamp source.
  \<^item> \<open>Raw_Data\<close>: \<^verbatim>\<open>rawdata.c\<close>, the queue between the capture and the processing thread, on an
    explicit heap and with one access of the shared queue per step; the extraction of raw
    timestamps of \<^verbatim>\<open>pcap-linux.c\<close>.
  \<^item> \<open>Live_Input\<close>: the sources \<^verbatim>\<open>stampinput-livepcap.c\<close>, \<^verbatim>\<open>stampinput-tracefile.c\<close> and \<^verbatim>\<open>stampinput-spy.c\<close>.
  \<^item> \<open>Ts_Mode\<close>: timestamping modes of a capture (\<^verbatim>\<open>radapi-pcap.c\<close>, \<^verbatim>\<open>pcap-linux.c\<close>, \<^verbatim>\<open>pcap-fbsd.c\<close>).
  \<^item> \<open>Ascii_Stamps\<close>: stamps as text, written by \<^verbatim>\<open>stampoutput.c\<close> and read by \<^verbatim>\<open>stampinput-ascii.c\<close>.
  \<^item> \<open>Fixed_Point\<close>: the data for the oldest kernels (\<^verbatim>\<open>fixedpoint.c\<close>) and the functions that hand
    clock data to the kernel (\<^verbatim>\<open>kclock-linux.c\<close>, \<^verbatim>\<open>kclock-fbsd.c\<close>).
  \<^item> \<open>Ntp_Exchange\<close>: requests and retries of \<^verbatim>\<open>client_ntp.c\<close>, replies of \<^verbatim>\<open>pthread_ntpserver.c\<close>.
  \<^item> \<open>Server_Select\<close>, \<open>Fb_Clock\<close>, \<open>Data_Proc\<close>: \<^verbatim>\<open>pthread_dataproc.c\<close>: vetting and server choice, the
    discipline of the system clock, and \<^verbatim>\<open>process_stamp\<close>, which runs all of it on a stamp; one
    turn of the fixed point thread of \<^verbatim>\<open>pthread_mgr.c\<close>.
  \<^item> \<open>Kernel_Bintime\<close>, \<open>Kernel_FFclock\<close>, \<open>Kernel_Read\<close>: the feed-forward clock of the patched Linux
    6.1.27 (\<^verbatim>\<open>ffclock.h\<close>, \<^verbatim>\<open>ffclock.c\<close> and \<^verbatim>\<open>timekeeping.c\<close> under \<^verbatim>\<open>kernel/linux/6.1.27/CurrentSource\<close>): its
    128 bit arithmetic, the tick \<^verbatim>\<open>ffclock_windup\<close>, the special events \<^verbatim>\<open>ffclock_reset\<close> and the data
    interface, and reading by \<^verbatim>\<open>ffclock_fill_timestamps\<close> while the ring of tick states changes.
  \<^item> \<open>Config_File\<close>: the configuration file (\<^verbatim>\<open>config_mgr.c\<close>): its lines and their values, the precedence
    of the command line, and the file that is written when none is there or it is outdated.
  \<^item> this theory: the path from a request to a full stamp across the components.

  \<^bold>\<open>Modelling decisions.\<close> Integers keep their C width as words (LP64); comparisons with negative
  constants, wrap-around and signed conversions are those of the code. \<^verbatim>\<open>double\<close> and
  \<^verbatim>\<open>long double\<close> are real numbers and conversions to integers truncate. Rounding is modelled where a
  claim depends on it: in the conversion of the parameters to and from the kernel form (the
  definitions ending in \<open>_fp\<close>) and in the discipline of the system clock; numbers of the configuration
  file are rounded and may be infinite or NaN. Elsewhere it is outside the model. Stamps keep
  their type, which tells those of NTP packets from those of the spy mode. Arrays and linked lists are lists, structures are records; a null dereference
  or a wild pointer is \<open>None\<close>, error codes are values. The raw data queue, where aliasing and
  freeing matter, has a heap, a partial map from addresses to bundles. Loops are recursive functions; those
  that wait for another process are \<open>partial_function\<close>s over the memory states a trace offers.
  Static variables are explicit state. The counter, sockets, the kernel, address
  conversion and freed or uninitialised memory (\<open>freed\<close>, \<open>junk\<close>, the allocation oracles \<open>mem\<close> and
  \<open>rmem\<close>) are parameters. So is libpcap: what a trace file returns is a hypothesis, \<open>savefile_law\<close>, with an
  instance that satisfies it. Memory accesses of the shared segment are sequentially consistent.

  \<^bold>\<open>What is shown.\<close> Histories refine the sequence of their last entries, and incremental window
  minima equal a fresh search. One run of the algorithm never makes the uncorrected clock
  jump, each estimator moves within its sanity bound, the RTT filter tracks the exact window
  minimum, and warmup never fails. Readers of the shared memory get one published set of
  parameters in every interleaving with the writer, and promptly while it rests. Stamps of a
  server leave the matching queue in order whatever the packets do; a reply yields its
  stamp; a request answered by another daemon yields its clock to 2^-33 s. The raw data queue
  is a queue in every interleaving of its threads, without access to freed memory, and its
  calls return within twelve steps of their own; a captured frame acts on the matching queue
  with the fields it had on the wire. Traces and stamp files of several servers can be
  replayed, and the fixed point data never overflows within its announced range. The daemon keeps
  its servers' data in step with the algorithm, feeds it sane stamps only, changes server
  only for a better one, and the processing of a stamp publishes synchronised parameters only; the
  fixed point thread for the oldest kernels has a weaker guard. The parameters survive the way to the
  kernel and back to 13 * 2^-34 s, rounding included. In the kernel, conversion of
  counts is exact, ticks and special events keep the uptime, the monotonic clock never leaves
  the rate by more than its cap, a lock-free reader gets the state of one tick (the boot
  time, which its generation does not cover, aside), and a stamped
  packet carries the daemon's own clock to about a nanosecond. The configuration
  stays in range or NaN whatever the file holds and keeps the values of the command line. Where the code departs
  from its intent, a lemma states what it does instead.

  \<^bold>\<open>Interfaces.\<close> The contracts components rely on are locales, interpreted on the model's own
  definitions: \<open>drophead_queue\<close> (the alarm buffer), \<open>series_store\<close> and \<open>ordered_series_store\<close> (the
  histories), \<open>sms_reader\<close> (the bodies of the shared memory readers, four interpretations),
  \<open>tsmode_system\<close> (the timestamping modes of a system, for Linux and FreeBSD), \<open>linear_clock\<close> (a clock
  advanced tick by tick, for the kernel's native, difference and monotonic clocks).

  \<^bold>\<open>Not modelled.\<close> System calls, parsing of netlink replies, thread management, log output,
  opening configuration files, capture devices and files, and the virtual machine channel. Of
  \<^verbatim>\<open>src/kernel\<close> only the feed-forward clock of Linux 6.1.27 is modelled: the other trees hold older
  forms of the same clock, and the rest of the patched files is the upstream kernel.
\<close>

section \<open>From a request to a stamp\<close>

lemma insert_fresh_client:
  assumes "scan_id i (q_elts q) = None" "st_id new = i"
  shows "\<exists>rest sz. insertandmatch_halfstamp q new MODE_CLIENT =
    (1, \<lparr>q_elts = fill_halfstamp MODE_CLIENT (ntp_stamp i) new # rest, q_size = sz\<rparr>)"
  using assms by (simp add: insertandmatch_halfstamp_def Let_def)

lemma insert_reply_head:
  assumes "q_elts q = x # rest" "st_id x = i" "Tf (BST x) = 0" "st_id new = i"
  shows "insertandmatch_halfstamp q new MODE_SERVER =
    (0, q\<lparr>q_elts := fill_halfstamp MODE_SERVER x new # rest\<rparr>)"
  using assms by (simp add: insertandmatch_halfstamp_def Let_def is_duplicate_def)

text \<open>
  C5: An exchange between two RADclock daemons yields a correct stamp. The request one daemon
  creates and the reply another one gives to it, once both are captured at the client, are
  matched into one full stamp: it carries the capture times of the two packets, and its
  server timestamps are the other daemon's clock when it received the request and when it
  sent the reply, to within the 2^-33 s of the packet format.
\<close>

theorem exchange_end_to_end:
  assumes request: "create_ntp_request d1 sv1 addr cnt statics = Some (req, tv, statics')"
    and reply: "ntp_server_reply d2 err2 sv2 s_to req (e1, rec) (e2, xmt) = Some rep"
    and server: "\<not> HAS_STATUS d2 STARAD_UNSYNC" "ucast (nsv_stratum sv2 + 1) \<noteq> STRATUM_UNSPEC"
      "ntp_representable (read_RADabs_UTC d2 rec PLOCAL_ACTIVE)"
      "ntp_representable (read_RADabs_UTC d2 rec PLOCAL_ACTIVE + rd_phat d2 * vc_real (xmt - rec))"
    and queue: "stq_ok q" "scan_id (fp_id (np_xmt req)) (q_elts q) = None"
    and capture: "c \<noteq> 0" "f \<noteq> 0" "compare_sockaddr_storage ss_if srv \<noteq> 0"
      "update_queue_by_mode ntop q ss_if req c cli srv ttl1 stats = (code1, q1, stats1)"
      "update_queue_by_mode ntop q1 ss_if rep f srv cli ttl2 stats1 = (code2, q2, stats2)"
  shows "code1 = 1 \<and> code2 = 0 \<and> stq_ok q2 \<and> stats2 = stats
     \<and> (\<exists>st\<in>set (q_elts q2). st_id st = fp_id (np_xmt req) \<and> Ta (BST st) = c \<and> Tf (BST st) = f
          \<and> \<bar>Tb (BST st) - read_RADabs_UTC d2 rec PLOCAL_ACTIVE\<bar> \<le> 1 / 2 ^ 33
          \<and> \<bar>Te (BST st) - (read_RADabs_UTC d2 rec PLOCAL_ACTIVE + rd_phat d2 * vc_real (xmt - rec))\<bar> \<le> 1 / 2 ^ 33)"
proof -
  let ?i = "fp_id (np_xmt req)" and ?ch = "client_halfstamp ntop req c srv" and ?sh = "server_halfstamp rep f ttl2"
  note fields = reply_fields [OF reply, unfolded snd_conv]
  have mode: "PKT_MODE (np_li_vn_mode req) = MODE_CLIENT"
    using request by (auto simp: create_ntp_request_def Let_def PKT_fields split: if_splits)
  have id: "st_id ?ch = ?i" "st_id ?sh = ?i"
    using fields(2) by (simp_all add: client_halfstamp_def server_halfstamp_def ntp_stamp_def)
  obtain rest sz where ins: "insertandmatch_halfstamp q ?ch MODE_CLIENT =
      (1, \<lparr>q_elts = fill_halfstamp MODE_CLIENT (ntp_stamp ?i) ?ch # rest, q_size = sz\<rparr>)" (is "_ = (1, ?q1)")
    using insert_fresh_client [OF queue(2) id(1)] by blast
  have fine: "bad_packet_client ss_if srv = 0" using capture(3) by (simp add: bad_packet_client_def)
  then have q1: "code1 = 1" "q1 = ?q1" "stats1 = stats"
    using capture(4) mode ins by (auto simp: update_queue_by_mode_def push_client_halfstamp_def)
  let ?x = "fill_halfstamp MODE_CLIENT (ntp_stamp ?i) ?ch" and ?y = "fill_halfstamp MODE_SERVER (fill_halfstamp MODE_CLIENT (ntp_stamp ?i) ?ch) ?sh"
  have x: "st_id ?x = ?i" "Tf (BST ?x) = 0" "Ta (BST ?x) = c"
    by (simp_all add: fill_halfstamp_def ntp_stamp_def zero_stamp_def client_halfstamp_def)
  have ins2: "insertandmatch_halfstamp ?q1 ?sh MODE_SERVER = (0, ?q1\<lparr>q_elts := ?y # rest\<rparr>)"
    using insert_reply_head [of ?q1 ?x rest ?i ?sh, OF _ x(1,2) id(2)] by simp
  have "bad_packet_server rep ss_if srv stats = (0, stats)"
    using capture(3) fields(3,6) server(1,2) by (simp add: bad_packet_server_def)
  then have q2: "code2 = 0" "q2 = ?q1\<lparr>q_elts := ?y # rest\<rparr>" "stats2 = stats"
    using capture(5) fields(1) ins2 q1 by (auto simp: update_queue_by_mode_def push_server_halfstamp_def)
  have "stq_ok q2"
    using insert_ok [OF queue(1), of ?ch MODE_CLIENT] insert_ok [of ?q1 ?sh MODE_SERVER] ins ins2 q2(2) by simp
  moreover have "\<bar>NTPtime_to_UTCld (np_rec rep) - read_RADabs_UTC d2 rec PLOCAL_ACTIVE\<bar> \<le> 1 / 2 ^ 33"
    "\<bar>NTPtime_to_UTCld (np_xmt rep) - (read_RADabs_UTC d2 rec PLOCAL_ACTIVE + rd_phat d2 * vc_real (xmt - rec))\<bar> \<le> 1 / 2 ^ 33"
    using ntp_decode_close server(3,4) unfolding fields(4,5) ntp_representable_def by blast+
  moreover have "st_id ?y = ?i" "Ta (BST ?y) = c" "Tf (BST ?y) = f" "Tb (BST ?y) = NTPtime_to_UTCld (np_rec rep)"
    "Te (BST ?y) = NTPtime_to_UTCld (np_xmt rep)"
    using x by (simp_all add: fill_halfstamp_def server_halfstamp_def)
  ultimately show ?thesis using q1(1) q2 by simp
qed

theorem exchange_end_to_end_witness:
  "\<exists>req tv statics rep q1 q2 stats1 stats2.
     create_ntp_request null_data demo_server 0 (0, 5) request_statics_init = Some (req, tv, statics)
   \<and> ntp_server_reply (null_data\<lparr>rd_phat := 1\<rparr>) no_error demo_server 0 req (0, 100) (0, 101) = Some rep
   \<and> update_queue_by_mode (\<lambda>_. ''s'') init_stamp_queue (Sin 1) req 7 (Sin 1) (Sin 2) 64 \<lparr>ref_count = 0, badqual_count = 0\<rparr>
       = (1, q1, stats1)
   \<and> update_queue_by_mode (\<lambda>_. ''s'') q1 (Sin 1) rep 9 (Sin 2) (Sin 1) 64 stats1 = (0, q2, stats2)
   \<and> (\<exists>st\<in>set (q_elts q2). Ta (BST st) = 7 \<and> Tf (BST st) = 9 \<and> \<bar>Tb (BST st) - 100\<bar> \<le> 1 / 2 ^ 33)"
proof -
  let ?d = "null_data\<lparr>rd_phat := 1\<rparr>"
  obtain req tv statics where 1: "create_ntp_request null_data demo_server 0 (0, 5) request_statics_init = Some (req, tv, statics)"
    by (simp add: create_ntp_request_def Let_def)
  have "PKT_MODE (np_li_vn_mode req) = MODE_CLIENT"
    using 1 by (auto simp: create_ntp_request_def Let_def PKT_fields)
  then obtain rep where 2: "ntp_server_reply ?d no_error demo_server 0 req (0, 100) (0, 101) = Some rep"
    by (simp add: ntp_server_reply_def Let_def)
  let ?s = "\<lparr>ref_count = 0, badqual_count = 0\<rparr>"
  obtain c1 q1 s1 where 3: "update_queue_by_mode (\<lambda>_. ''s'') init_stamp_queue (Sin 1) req 7 (Sin 1) (Sin 2) 64 ?s = (c1, q1, s1)"
    by (metis surj_pair)
  obtain c2 q2 s2 where 4: "update_queue_by_mode (\<lambda>_. ''s'') q1 (Sin 1) rep 9 (Sin 2) (Sin 1) 64 s1 = (c2, q2, s2)"
    by (metis surj_pair)
  have t: "read_RADabs_UTC ?d 100 PLOCAL_ACTIVE = 100" "rd_phat ?d * vc_real (101 - 100 :: vcounter_t) = 1"
    by (simp_all add: read_RADabs_UTC_def read_RADabs_native_def leap_correction_def null_data_def PLOCAL_ACTIVE_def)
  have r: "ntp_representable (read_RADabs_UTC ?d 100 PLOCAL_ACTIVE)"
    "ntp_representable (read_RADabs_UTC ?d 100 PLOCAL_ACTIVE + rd_phat ?d * vc_real (101 - 100 :: vcounter_t))"
    unfolding t by (simp_all add: ntp_representable_def)
  have h: "\<not> HAS_STATUS ?d STARAD_UNSYNC" "(ucast (nsv_stratum demo_server + 1) :: uint8) \<noteq> STRATUM_UNSPEC"
    "scan_id (fp_id (np_xmt req)) (q_elts init_stamp_queue) = None" "(7 :: vcounter_t) \<noteq> 0" "(9 :: vcounter_t) \<noteq> 0"
    "compare_sockaddr_storage (Sin 1) (Sin 2) \<noteq> 0"
    by (simp_all add: HAS_STATUS_def null_data_def demo_server_def init_stamp_queue_def)
  from exchange_end_to_end [OF 1 2 h(1,2) r stq_ok_init h(3-6) 3 4] show ?thesis
    using 1 2 3 4 unfolding t by blast
qed

end
